(* ===== verification/Prelude.thy ===== *)
theory Prelude
  imports Main "HOL-Library.Word" "HOL-Library.Multiset" "HOL-Library.AList"
begin

text \<open>
  Shared ground of the development: the machine types of the C++ code, the collections
  of simplification rules, decimal printing (\<open>std::to_string\<close>), the swap-and-pop idiom
  on vectors, and the overflow guards that the code writes as divisions.
\<close>

section \<open>Types\<close>

type_synonym u8 = "8 word"
type_synonym u16 = "16 word"
type_synonym u32 = "32 word"
type_synonym u64 = "64 word"
type_synonym i32 = "32 word" \<comment> \<open>read with \<open>sint\<close>\<close>
type_synonym i64 = "64 word" \<comment> \<open>read with \<open>sint\<close>\<close>

named_theorems ledger \<open>evaluation of call traces\<close>
named_theorems frame \<open>fields an operation leaves alone\<close>

section \<open>Decimal printing\<close>

definition digit_char :: "nat \<Rightarrow> char" where
  "digit_char d = char_of (48 + d)"

fun dec_nat :: "nat \<Rightarrow> string" where
  "dec_nat n = (if n < 10 then [digit_char n] else dec_nat (n div 10) @ [digit_char (n mod 10)])"

declare dec_nat.simps [simp del]

definition to_string :: "int \<Rightarrow> string" where
  "to_string i = (if i < 0 then CHR ''-'' # dec_nat (nat (- i)) else dec_nat (nat i))"

definition read_dec :: "string \<Rightarrow> nat" where
  "read_dec s = foldl (\<lambda>acc c. acc * 10 + (of_char c - 48)) 0 s"

lemma of_char_digit [simp]: "d < 10 \<Longrightarrow> (of_char (digit_char d) :: nat) = 48 + d"
  by (simp add: digit_char_def)

lemma read_dec_nat: "read_dec (dec_nat n) = n"
proof (induction n rule: dec_nat.induct)
  case (1 n)
  then show ?case
    by (cases "n < 10") (simp_all add: dec_nat.simps [of n] read_dec_def)
qed

lemma dec_nat_inj: "dec_nat m = dec_nat n \<Longrightarrow> m = n"
  by (metis read_dec_nat)

lemma dec_nat_digits: "c \<in> set (dec_nat n) \<Longrightarrow> 48 \<le> (of_char c :: nat) \<and> (of_char c :: nat) < 58"
proof (induction n rule: dec_nat.induct)
  case (1 n)
  then show ?case
    by (cases "n < 10") (auto simp: dec_nat.simps [of n])
qed

lemma dec_nat_not_Nil [simp]: "dec_nat n \<noteq> []"
  by (subst dec_nat.simps) simp

lemma dec_nat_length: "n < 10 ^ k \<Longrightarrow> 0 < k \<Longrightarrow> length (dec_nat n) \<le> k"
proof (induction n arbitrary: k rule: dec_nat.induct)
  case (1 n)
  show ?case
  proof (cases "n < 10")
    case True
    with "1.prems" show ?thesis by (simp add: dec_nat.simps [of n])
  next
    case False
    from "1.prems" obtain j where k: "k = Suc j" by (cases k) auto
    with False "1.prems" have "0 < j" by (cases j) auto
    have "n div 10 < 10 ^ j"
      using "1.prems"(1) k by (simp add: div_less_iff_less_mult mult.commute)
    with "1.IH" False k \<open>0 < j\<close> show ?thesis by (simp add: dec_nat.simps [of n])
  qed
qed

lemma to_string_chars: "c \<in> set (to_string i) \<Longrightarrow> c \<noteq> CHR ''_''"
  by (auto simp: to_string_def dest: dec_nat_digits split: if_splits)

lemma to_string_inj: "to_string i = to_string j \<Longrightarrow> i = j"
proof -
  have minus: "dec_nat n \<noteq> CHR ''-'' # s" for n s
    using dec_nat_digits [of "CHR ''-''" n] by (auto dest: sym)
  show "to_string i = to_string j \<Longrightarrow> i = j"
    by (auto simp: to_string_def minus minus [symmetric] nat_eq_iff split: if_splits dest: dec_nat_inj)
qed

lemma append_sep_inj:
  assumes "c \<notin> set a" and "c \<notin> set b"
  shows "a @ c # x = b @ c # y \<longleftrightarrow> a = b \<and> x = y"
  using assms
proof (induction a arbitrary: b)
  case Nil
  then show ?case by (cases b) auto
next
  case (Cons d a)
  then show ?case by (cases b) auto
qed

section \<open>Vectors: removing by swapping with the last element\<close>

definition swap_pop :: "'a list \<Rightarrow> nat \<Rightarrow> 'a list" where
  "swap_pop xs i = butlast (xs[i := last xs])"

lemma mset_swap_pop:
  assumes "i < length xs"
  shows "mset xs = add_mset (xs ! i) (mset (swap_pop xs i))"
proof -
  have ne: "xs[i := last xs] \<noteq> []" and xs: "xs \<noteq> []" using assms by auto
  have "last (xs[i := last xs]) = last xs"
    using assms xs by (auto simp: last_conv_nth nth_list_update)
  then have "mset (xs[i := last xs]) = add_mset (last xs) (mset (swap_pop xs i))"
    using append_butlast_last_id [OF ne] unfolding swap_pop_def
    by (metis mset_append mset.simps add_mset_add_single)
  moreover have "mset (xs[i := last xs]) = add_mset (last xs) (mset xs - {#xs ! i#})"
    using assms by (simp add: mset_update)
  ultimately have "mset (swap_pop xs i) = mset xs - {#xs ! i#}" by simp
  then show ?thesis using assms by simp
qed

lemma set_swap_pop_subset: "i < length xs \<Longrightarrow> set (swap_pop xs i) \<subseteq> set xs"
  by (metis mset_swap_pop set_mset_mset set_mset_add_mset_insert subset_insertI)

lemma distinct_swap_pop:
  assumes "i < length xs" and "distinct xs"
  shows "distinct (swap_pop xs i)" and "set (swap_pop xs i) = set xs - {xs ! i}"
proof -
  have m: "mset xs = add_mset (xs ! i) (mset (swap_pop xs i))"
    using assms(1) by (rule mset_swap_pop)
  then have "distinct (xs ! i # swap_pop xs i)"
    using assms(2) by (metis mset.simps(2) mset_eq_imp_distinct_iff)
  then show "distinct (swap_pop xs i)" and "set (swap_pop xs i) = set xs - {xs ! i}"
    using arg_cong [OF m, of set_mset] by auto
qed

section \<open>Association lists as unordered maps\<close>

lemma set_update_subset: "set (AList.update k v m) \<subseteq> insert (k, v) (set m)"
  by (induction m) auto

lemma set_delete_subset: "set (AList.delete k m) \<subseteq> set m"
  by (auto simp: AList.delete_eq)

lemma AList_update_absent: "k \<notin> fst ` set m \<Longrightarrow> AList.update k v m = m @ [(k, v)]"
  by (induction m) auto

lemma AList_delete_snoc [simp]: "k \<notin> fst ` set m \<Longrightarrow> AList.delete k (m @ [(k, v)]) = m"
  by (induction m) auto

lemma AList_delete_split:
  assumes "distinct (map fst m)" and "map_of m k = Some v"
  shows "mset m = add_mset (k, v) (mset (AList.delete k m))"
  using assms
proof (induction m)
  case Nil
  then show ?case by simp
next
  case (Cons p m)
  show ?case
  proof (cases "fst p = k")
    case True
    with Cons.prems have "p = (k, v)" and "k \<notin> fst ` set m" by (cases p, auto)+
    then show ?thesis by simp
  next
    case False
    with Cons.prems have "map_of m k = Some v" by (cases p) auto
    with Cons False show ?thesis by simp
  qed
qed

section \<open>Guards against overflow\<close>

text \<open>
  The code guards a product of two \<open>size_t\<close> with a division: \<open>c > SIZE_MAX / d\<close>.
\<close>

lemma unat_max64 [simp]: "unat (- 1 :: u64) = 2 ^ 64 - 1"
  by (simp add: unsigned_minus_1_eq_mask mask_eq_exp_minus_1)

lemma mul_guard:
  fixes c d :: u64
  assumes "d \<noteq> 0"
  shows "c > - 1 div d \<longleftrightarrow> 2 ^ 64 \<le> unat c * unat d"
proof -
  have "0 < unat d" using assms by (simp add: unat_gt_0)
  then have "c \<le> - 1 div d \<longleftrightarrow> unat c * unat d \<le> 2 ^ 64 - 1"
    by (simp add: word_le_nat_alt unat_div_distrib less_eq_div_iff_mult_less_eq)
  then show ?thesis by (auto simp: not_le [symmetric])
qed

lemma unat_mul_fits:
  fixes c d :: u64
  shows "unat c * unat d < 2 ^ 64 \<Longrightarrow> unat (c * d) = unat c * unat d"
  by (simp add: unat_word_ariths)

lemma unat_add_fits:
  fixes c d :: u64
  shows "unat c + unat d < 2 ^ 64 \<Longrightarrow> unat (c + d) = unat c + unat d"
  by (simp add: unat_word_ariths)

lemma unat_bound64: "unat (d :: u64) < 2 ^ 64"
  using unsigned_less [of d] by simp

lemma add_guard:
  fixes c d :: u64
  shows "c > - 1 - d \<longleftrightarrow> 2 ^ 64 \<le> unat c + unat d"
proof -
  have "unat (- 1 - d) = 2 ^ 64 - 1 - unat d"
    using unat_bound64 [of d] by (simp add: unat_sub word_le_nat_alt)
  then show ?thesis using unat_bound64 [of d] by (auto simp: word_less_nat_alt)
qed

end
