(* ===== verification/Externals.thy ===== *)
theory Externals
  imports Prelude
begin

text \<open>
  The CUDA driver, the CUDA runtime and POSIX are not part of the repository. Their answers
  are arguments of the operations that call them (records named \<open>..._env\<close>, one field
  for each call of the code), so that every theorem holds for whatever they answer, or for the
  documented answers it names. What the code does to them is the list of calls it makes, in order. Of
  each call the trace keeps what it acquires or gives back; a call that fails acquires
  nothing and leaves no mark. \<open>ledger\<close> replays a trace on the resources held before
  and fails where the trace gives back a resource that is not held (a double close, a double
  free).
\<close>

section \<open>Result codes and exceptions\<close>

datatype CUresult =
    CUDA_SUCCESS | CUDA_ERROR_NOT_INITIALIZED | CUDA_ERROR_INVALID_DEVICE
  | CUDA_ERROR_ALREADY_ACQUIRED | CUDA_ERROR_NOT_SUPPORTED | CUresult_other int

datatype cudaError_t =
    cudaSuccess | cudaErrorInvalidValue | cudaErrorNotReady | cudaErrorCudartUnloading
  | cudaError_other int

text \<open>
  The exceptions: \<open>CudaError(message)\<close>, \<open>CudaError(file, line, call, code)\<close> for a driver
  and for a runtime code, \<open>std::runtime_error\<close>, \<open>std::invalid_argument\<close>, \<open>QcError\<close>, and
  those that become a \<open>ValueError\<close> or a \<open>TypeError\<close> of Python. \<open>Division_trap\<close> is the integer
  division by zero of C++, which is not an exception but ends the run.
\<close>

datatype exn =
    CudaError string
  | CudaDriverError string CUresult
  | CudaRuntimeError string cudaError_t
  | RuntimeError string
  | InvalidArgument string
  | QcError string
  | PyValueError string
  | PyTypeError string
  | OverflowError string
  | Division_trap

section \<open>Resources and call traces\<close>

datatype resource =
    Allocation u64      \<comment> \<open>a \<open>CUmemGenericAllocationHandle\<close>\<close>
  | VaRange u64         \<comment> \<open>a reserved device address range\<close>
  | VaMapping u64       \<comment> \<open>an allocation mapped at an address\<close>
  | Fd int              \<comment> \<open>a file descriptor or socket\<close>
  | MetaMapping nat     \<comment> \<open>a shared segment mapped by \<open>mmap\<close>\<close>
  | DataMapping u64     \<comment> \<open>a dma-buf mapped by \<open>mmap\<close>\<close>
  | RpcMem u64          \<comment> \<open>a block of \<open>rpcmem_alloc\<close>\<close>
  | Event nat           \<comment> \<open>a CUDA event\<close>
  | Semaphore string    \<comment> \<open>a named semaphore\<close>

datatype call =
    Acquire resource
  | Release resource
  | Dup int int         \<comment> \<open>\<open>dup(old) = new\<close>\<close>
  | ShmUnlink string

abbreviation "CuMemCreate h \<equiv> Acquire (Allocation h)"
abbreviation "CuMemRelease h \<equiv> Release (Allocation h)"
abbreviation "CuMemAddressReserve a \<equiv> Acquire (VaRange a)"
abbreviation "CuMemAddressFree a \<equiv> Release (VaRange a)"
abbreviation "CuMemMap a \<equiv> Acquire (VaMapping a)"
abbreviation "CuMemUnmap a \<equiv> Release (VaMapping a)"
abbreviation "OpenFd fd \<equiv> Acquire (Fd fd)"
abbreviation "Close fd \<equiv> Release (Fd fd)"
abbreviation "Mmap s \<equiv> Acquire (MetaMapping s)"
abbreviation "Munmap s \<equiv> Release (MetaMapping s)"

fun ledger :: "call list \<Rightarrow> resource multiset \<Rightarrow> resource multiset option" where
  "ledger [] R = Some R"
| "ledger (Acquire r # cs) R = ledger cs (add_mset r R)"
| "ledger (Release r # cs) R = (if r \<in># R then ledger cs (R - {#r#}) else None)"
| "ledger (Dup old new # cs) R = ledger cs (add_mset (Fd new) R)"
| "ledger (ShmUnlink n # cs) R = ledger cs R"

text \<open>
  A descriptor variable that holds \<open>-1\<close>, or a handle or address that is 0, owns nothing.
\<close>

definition fd_res :: "int \<Rightarrow> resource multiset" where
  "fd_res fd = (if fd \<ge> 0 then {#Fd fd#} else {#})"

lemma fd_res_simps [ledger, simp]:
  "fd \<ge> 0 \<Longrightarrow> fd_res fd = {#Fd fd#}"
  "fd < 0 \<Longrightarrow> fd_res fd = {#}"
  by (simp_all add: fd_res_def)

section \<open>Laws of the ledger\<close>

lemma ledger_append:
  "ledger (as @ bs) R = Option.bind (ledger as R) (ledger bs)"
  by (induction as R rule: ledger.induct) auto

lemma ledger_append_Some:
  "ledger as R = Some R' \<Longrightarrow> ledger (as @ bs) R = ledger bs R'"
  by (simp add: ledger_append)

lemma ledger_frame:
  "ledger cs R = Some R' \<Longrightarrow> ledger cs (R + S) = Some (R' + S)"
proof (induction cs R rule: ledger.induct)
  case (1 R)
  then show ?case by simp
next
  case (2 r cs R)
  then show ?case by simp
next
  case (3 r cs R)
  have r: "r \<in># R" using "3.prems" by (cases "r \<in># R") simp_all
  have "ledger cs (R - {#r#} + S) = Some (R' + S)"
    using "3.prems" r by (intro "3.IH") simp_all
  moreover have "R + S - {#r#} = R - {#r#} + S"
    using diff_union_single_conv [OF r, of S] by (simp only: add.commute)
  moreover have "r \<in># R + S" using r by (rule union_iff [THEN iffD2, OF disjI1])
  ultimately show ?case by (simp only: ledger.simps if_True)
next
  case (4 old new cs R)
  then show ?case by simp
next
  case (5 n cs R)
  then show ?case by simp
qed

lemma ledger_frame_left:
  "ledger cs R = Some R' \<Longrightarrow> ledger cs (S + R) = Some (S + R')"
  using ledger_frame [of cs R R' S] by (simp add: add.commute)

text \<open>A trace run from nothing keeps what was there before.\<close>

lemma ledger_from_empty:
  "ledger cs {#} = Some A \<Longrightarrow> ledger cs R = Some (A + R)"
  using ledger_frame [of cs "{#}" A R] by simp

lemma ledger_concat_release:
  assumes "\<And>x. x \<in> set xs \<Longrightarrow> ledger (f x) (res x) = Some {#}"
  shows "ledger (concat (map f xs)) (sum_list (map res xs)) = Some {#}"
  using assms
proof (induction xs)
  case Nil
  then show ?case by simp
next
  case (Cons x xs)
  have "ledger (f x) (res x + sum_list (map res xs)) = Some ({#} + sum_list (map res xs))"
    by (rule ledger_frame) (simp add: Cons.prems)
  then show ?case
    using Cons.IH Cons.prems by (simp add: ledger_append_Some)
qed

text \<open>Two traces run one after the other.\<close>

lemma ledger_seq:
  "ledger as R = Some R' \<Longrightarrow> ledger bs R' = Some R'' \<Longrightarrow> ledger (as @ bs) R = Some R''"
  by (simp add: ledger_append)

end
