(* ===== verification/Fd_Dispatcher.thy ===== *)
theory Fd_Dispatcher
  imports Externals
begin

text \<open>
  \<open>CudaVmmIPCManager::FDDispatcher\<close> of \<open>cuda_buffer_ipc_manager.cpp\<close>: the
  publisher's worker that waits on one listening socket for each exported block and hands
  the block's descriptor to whoever connects. Its state is the map from listening socket to
  the duplicated descriptor it serves, the epoll interest set and the two kernel
  descriptors. The worker loop is a function of what each \<open>epoll_wait\<close> returned and of
  the map as it is when each event is handled, since other threads change it in between.
\<close>

section \<open>State and operations\<close>

record dispatcher =
  epoll_fd :: int
  event_fd :: int
  socket_to_fd :: "(int \<times> int) list"
  interest :: "int list"
  running :: bool

definition idle_dispatcher :: "int \<Rightarrow> int \<Rightarrow> dispatcher" where
  "idle_dispatcher ep ev =
     \<lparr>epoll_fd = ep, event_fd = ev, socket_to_fd = [], interest = [], running = False\<rparr>"

text \<open>The constructor, given what \<open>epoll_create1\<close>, \<open>eventfd\<close> and \<open>epoll_ctl\<close> return.\<close>

definition new_dispatcher :: "int \<Rightarrow> int \<Rightarrow> int \<Rightarrow> dispatcher \<times> call list" where
  "new_dispatcher ep ev ctl =
     (if ep < 0 then (idle_dispatcher ep (-1), [])
      else if ev < 0 then (idle_dispatcher (-1) ev, [OpenFd ep, Close ep])
      else if ctl < 0 then
        (idle_dispatcher (-1) (-1), [OpenFd ep, OpenFd ev, Close ev, Close ep])
      else
        ((idle_dispatcher ep ev)\<lparr>interest := [ev], running := True\<rparr>,
         [OpenFd ep, OpenFd ev]))"

text \<open>\<open>add_socket\<close>, given what \<open>dup\<close> and \<open>epoll_ctl(EPOLL_CTL_ADD)\<close> return.\<close>

definition add_socket ::
  "int \<Rightarrow> int \<Rightarrow> int \<Rightarrow> int \<Rightarrow> dispatcher \<Rightarrow> dispatcher \<times> call list" where
  "add_socket dup_ret ctl_ret server_socket fd_to_serve d =
     (if dup_ret < 0 then (d, [])
      else
        (let d1 = d\<lparr>socket_to_fd := AList.update server_socket dup_ret (socket_to_fd d)\<rparr>
         in if ctl_ret < 0 then
              (d1\<lparr>socket_to_fd := AList.delete server_socket (socket_to_fd d1)\<rparr>,
               [Dup fd_to_serve dup_ret, Close dup_ret])
            else
              (d1\<lparr>interest := server_socket # interest d1\<rparr>, [Dup fd_to_serve dup_ret])))"

definition remove_socket :: "int \<Rightarrow> dispatcher \<Rightarrow> dispatcher \<times> call list" where
  "remove_socket server_socket d =
     (let duped_fd = (case map_of (socket_to_fd d) server_socket of None \<Rightarrow> -1 | Some fd \<Rightarrow> fd)
      in (d\<lparr>socket_to_fd := AList.delete server_socket (socket_to_fd d),
            interest := removeAll server_socket (interest d)\<rparr>,
          Close server_socket # (if duped_fd \<ge> 0 then [Close duped_fd] else [])))"

text \<open>
  \<open>stop\<close>: clears the map after the worker has been joined. It closes the listening
  sockets, the event descriptor and the epoll descriptor.
\<close>

definition stop_dispatcher :: "dispatcher \<Rightarrow> dispatcher \<times> call list" where
  "stop_dispatcher d =
     (if \<not> running d then (d, [])
      else
        (d\<lparr>running := False, socket_to_fd := [],
           event_fd := (if event_fd d \<ge> 0 then -1 else event_fd d),
           epoll_fd := (if epoll_fd d \<ge> 0 then -1 else epoll_fd d)\<rparr>,
         map (\<lambda>(sock, fd). Close sock) (socket_to_fd d)
           @ (if event_fd d \<ge> 0 then [Close (event_fd d)] else [])
           @ (if epoll_fd d \<ge> 0 then [Close (epoll_fd d)] else [])))"

text \<open>
  \<open>handle_client\<close>: accept, send the descriptor with \<open>SCM_RIGHTS\<close>, close. The first
  result lists the descriptors delivered, with the listening socket they went through.
\<close>

type_synonym delivery = "int \<times> int"

definition handle_client ::
  "int \<Rightarrow> int \<Rightarrow> int \<Rightarrow> int \<Rightarrow> delivery list \<times> call list" where
  "handle_client accept_ret sendmsg_ret server_socket fd_to_serve =
     (if accept_ret < 0 then ([], [])
      else (if sendmsg_ret < 0 then [] else [(server_socket, fd_to_serve)],
            [OpenFd accept_ret, Close accept_ret]))"

text \<open>
  One event of the worker: the map as it is at that moment, the ready descriptor, and what
  \<open>accept\<close> and \<open>sendmsg\<close> return.
\<close>

record event =
  ev_state :: dispatcher
  ev_fd :: int
  ev_accept :: int
  ev_sendmsg :: int

definition handle_event :: "event \<Rightarrow> delivery list \<times> call list" where
  "handle_event e =
     (if ev_fd e = event_fd (ev_state e) then ([], [])
      else
        (let fd_to_serve =
           (case map_of (socket_to_fd (ev_state e)) (ev_fd e) of None \<Rightarrow> -1 | Some fd \<Rightarrow> fd)
         in if fd_to_serve \<ge> 0
            then handle_client (ev_accept e) (ev_sendmsg e) (ev_fd e) fd_to_serve
            else ([], [])))"

text \<open>
  The loop of \<open>run\<close>: for each iteration, \<open>running_\<close> at its head and the answer of
  \<open>epoll_wait\<close>. The last result tells whether the loop has ended.
\<close>

datatype epoll_answer = Ready "event list" | Interrupted | Failed

fun run_dispatcher ::
  "(bool \<times> epoll_answer) list \<Rightarrow> delivery list \<times> call list \<times> bool" where
  "run_dispatcher [] = ([], [], False)"
| "run_dispatcher ((False, _) # its) = ([], [], True)"
| "run_dispatcher ((True, Interrupted) # its) = run_dispatcher its"
| "run_dispatcher ((True, Failed) # its) = ([], [], True)"
| "run_dispatcher ((True, Ready es) # its) =
     (let rs = map handle_event es; (ds, cs, ended) = run_dispatcher its
      in (concat (map fst rs) @ ds, concat (map snd rs) @ cs, ended))"

section \<open>What the dispatcher owns\<close>

definition dups :: "(int \<times> int) list \<Rightarrow> resource multiset" where
  "dups m = mset (map (\<lambda>p. Fd (snd p)) m)"

definition dispatcher_res :: "dispatcher \<Rightarrow> resource multiset" where
  "dispatcher_res d = fd_res (epoll_fd d) + fd_res (event_fd d) + dups (socket_to_fd d)"

definition dispatcher_inv :: "dispatcher \<Rightarrow> bool" where
  "dispatcher_inv d \<longleftrightarrow>
     distinct (map fst (socket_to_fd d)) \<and> (\<forall>p \<in> set (socket_to_fd d). 0 \<le> snd p)"

lemma dups_Nil [simp]: "dups [] = {#}"
  by (simp add: dups_def)

lemma dups_snoc [simp]: "dups (m @ [(k, v)]) = add_mset (Fd v) (dups m)"
  by (simp add: dups_def)

lemma dups_delete:
  assumes "distinct (map fst m)" and "map_of m k = Some f"
  shows "dups m = add_mset (Fd f) (dups (AList.delete k m))"
proof -
  have "image_mset (\<lambda>p. Fd (snd p)) (mset m) =
      image_mset (\<lambda>p. Fd (snd p)) (add_mset (k, f) (mset (AList.delete k m)))"
    by (simp only: AList_delete_split [OF assms])
  then show ?thesis by (simp add: dups_def)
qed

section \<open>Ownership of descriptors\<close>

lemma new_dispatcher_inv: "dispatcher_inv (fst (new_dispatcher ep ev ctl))"
  by (auto simp: new_dispatcher_def idle_dispatcher_def dispatcher_inv_def)

lemma new_dispatcher_ledger:
  "ledger (snd (new_dispatcher ep ev ctl)) R =
     Some (dispatcher_res (fst (new_dispatcher ep ev ctl)) + R)"
  by (simp add: new_dispatcher_def idle_dispatcher_def dispatcher_res_def)

lemma dispatcher_inv_update:
  "dispatcher_inv d \<Longrightarrow> 0 \<le> f \<Longrightarrow>
     dispatcher_inv (d\<lparr>socket_to_fd := AList.update s f (socket_to_fd d)\<rparr>)"
  using set_update_subset [of s f "socket_to_fd d"]
  by (fastforce simp: dispatcher_inv_def intro: AList.distinct_update)

lemma dispatcher_inv_delete:
  "dispatcher_inv d \<Longrightarrow> dispatcher_inv (d\<lparr>socket_to_fd := AList.delete s (socket_to_fd d)\<rparr>)"
  using set_delete_subset [of s "socket_to_fd d"]
  by (auto simp: dispatcher_inv_def intro: AList.distinct_delete)

lemma dispatcher_inv_interest [simp]: "dispatcher_inv (d\<lparr>interest := x\<rparr>) = dispatcher_inv d"
  by (simp add: dispatcher_inv_def)

lemma add_socket_inv:
  "dispatcher_inv d \<Longrightarrow> dispatcher_inv (fst (add_socket dup_ret ctl_ret s f d))"
  using dispatcher_inv_update [of d dup_ret s] dispatcher_inv_delete
  by (auto simp: add_socket_def Let_def AList.delete_update_same)

lemma remove_socket_inv: "dispatcher_inv d \<Longrightarrow> dispatcher_inv (fst (remove_socket s d))"
  using dispatcher_inv_delete [of d s] by (simp add: remove_socket_def Let_def dispatcher_inv_def)

lemma add_socket_ledger:
  assumes "s \<notin> fst ` set (socket_to_fd d)"
  shows "ledger (snd (add_socket dup_ret ctl_ret s f d)) (dispatcher_res d + R) =
     Some (dispatcher_res (fst (add_socket dup_ret ctl_ret s f d)) + R)"
  using assms
  by (auto simp: add_socket_def Let_def dispatcher_res_def AList.delete_update_same
      AList_update_absent)

lemma remove_socket_ledger:
  assumes "dispatcher_inv d"
  shows "ledger (snd (remove_socket s d)) (add_mset (Fd s) (dispatcher_res d) + R) =
     Some (dispatcher_res (fst (remove_socket s d)) + R)"
proof (cases "map_of (socket_to_fd d) s")
  case None
  then have "s \<notin> fst ` set (socket_to_fd d)" by (simp add: map_of_eq_None_iff)
  with None show ?thesis by (simp add: remove_socket_def dispatcher_res_def)
next
  case (Some fd)
  then have "0 \<le> fd" using assms by (auto simp: dispatcher_inv_def dest!: map_of_SomeD)
  with Some dups_delete [of "socket_to_fd d" s fd] assms show ?thesis
    by (simp add: remove_socket_def dispatcher_res_def dispatcher_inv_def)
qed

section \<open>The worker loop\<close>

lemma handle_client_ledger: "ledger (snd (handle_client a m s f)) R = Some R"
  by (simp add: handle_client_def)

lemma handle_event_ledger: "ledger (snd (handle_event e)) R = Some R"
  by (simp add: handle_event_def Let_def handle_client_ledger)

lemma handle_events_ledger: "ledger (concat (map (\<lambda>e. snd (handle_event e)) es)) R = Some R"
  by (induction es) (simp_all add: ledger_append handle_event_ledger)

lemma run_dispatcher_ledger: "ledger (fst (snd (run_dispatcher its))) R = Some R"
  by (induction its rule: run_dispatcher.induct)
     (auto simp: Let_def ledger_append handle_events_ledger comp_def split: prod.splits)

text \<open>
  A descriptor is sent only over the socket it is registered for at that moment.
\<close>

lemma handle_event_delivery:
  "d \<in> set (fst (handle_event e)) \<Longrightarrow>
     map_of (socket_to_fd (ev_state e)) (fst d) = Some (snd d) \<and> fst d = ev_fd e \<and> 0 \<le> snd d"
  by (auto simp: handle_event_def handle_client_def Let_def split: if_splits option.splits)

fun served_events :: "(bool \<times> epoll_answer) list \<Rightarrow> event list" where
  "served_events [] = []"
| "served_events ((False, _) # its) = []"
| "served_events ((True, Interrupted) # its) = served_events its"
| "served_events ((True, Failed) # its) = []"
| "served_events ((True, Ready es) # its) = es @ served_events its"

lemma run_dispatcher_delivery:
  "d \<in> set (fst (run_dispatcher its)) \<Longrightarrow>
     \<exists>e \<in> set (served_events its). map_of (socket_to_fd (ev_state e)) (fst d) = Some (snd d)"
proof (induction its rule: run_dispatcher.induct)
  case (5 es its)
  then show ?case
    using handle_event_delivery by (fastforce simp: Let_def split: prod.splits)
qed simp_all

section \<open>Stopping\<close>

text \<open>
  \<open>stop\<close> gives back everything when the map is empty. With entries left it closes the
  listening sockets, which it does not own, and not the duplicates, which it does.
\<close>

lemma stop_dispatcher_empty:
  assumes "running d" and "socket_to_fd d = []"
  shows "ledger (snd (stop_dispatcher d)) (dispatcher_res d) = Some {#}"
  using assms by (simp add: stop_dispatcher_def dispatcher_res_def fd_res_def)

lemma stop_dispatcher_never_closes_dup:
  assumes "f \<notin> fst ` set (socket_to_fd d)" and "f \<noteq> event_fd d" and "f \<noteq> epoll_fd d"
  shows "Close f \<notin> set (snd (stop_dispatcher d))"
  using assms by (auto simp: stop_dispatcher_def intro: rev_image_eqI)

end
