(* ===== verification/Vmm_Block.thy ===== *)
theory Vmm_Block
  imports Externals
begin

text \<open>
  The data that the publisher and the subscribers of a CUDA block share: \<open>IPCMetadata\<close>
  and \<open>VmmBlock\<close> of \<open>cuda_memory_pool.hpp\<close>. The metadata of a block lives in a shared memory
  segment that is mapped by several processes, so it is kept in one store, addressed
  by the segment, and a pointer \<open>IPCMetadata *\<close> is an optional segment.
\<close>

record ipc_metadata =
  refcount :: i32
  uid :: u64
  publish_timestamp_us :: u64

definition init_metadata :: ipc_metadata where
  "init_metadata = \<lparr>refcount = 0, uid = 0, publish_timestamp_us = 0\<rparr>"

type_synonym segment = nat
type_synonym meta_store = "segment \<Rightarrow> ipc_metadata"

text \<open>\<open>refcount.fetch_add(d)\<close>, through a pointer that is checked for null first.\<close>

definition add_ref :: "i32 \<Rightarrow> segment option \<Rightarrow> meta_store \<Rightarrow> meta_store" where
  "add_ref d p m =
     (case p of None \<Rightarrow> m | Some s \<Rightarrow> m(s := (m s)\<lparr>refcount := refcount (m s) + d\<rparr>))"

lemma add_ref_None [simp]: "add_ref d None m = m"
  by (simp add: add_ref_def)

lemma add_ref_other [frame]: "p \<noteq> Some t \<Longrightarrow> add_ref d p m t = m t"
  by (auto simp: add_ref_def split: option.splits)

lemma add_ref_fields [simp]:
  "uid (add_ref d p m s) = uid (m s)"
  "publish_timestamp_us (add_ref d p m s) = publish_timestamp_us (m s)"
  by (auto simp: add_ref_def split: option.splits)

lemma add_ref_refcount [simp]:
  "refcount (add_ref d (Some s) m t) = (if t = s then refcount (m s) + d else refcount (m t))"
  by (simp add: add_ref_def)

lemma add_ref_add_ref [simp]: "add_ref d p (add_ref e p m) = add_ref (e + d) p m"
  by (auto simp: add_ref_def fun_eq_iff split: option.splits)

lemma add_ref_0 [simp]: "add_ref 0 p m = m"
  by (auto simp: add_ref_def fun_eq_iff split: option.splits)

record vmm_block =
  vb_handle :: u64
  vb_va :: u64
  vb_size :: u64
  vb_exported_fd :: int
  vb_block_id :: u32
  vb_ipc_meta :: "segment option"
  vb_shm_fd :: int
  vb_shm_name :: string
  vb_current_uid :: u64

definition new_block :: "u64 \<Rightarrow> u32 \<Rightarrow> vmm_block" where
  "new_block sz bid =
     \<lparr>vb_handle = 0, vb_va = 0, vb_size = sz, vb_exported_fd = -1, vb_block_id = bid,
      vb_ipc_meta = None, vb_shm_fd = -1, vb_shm_name = [], vb_current_uid = 0\<rparr>"

section \<open>Names\<close>

text \<open>
  The name of a block's metadata segment, built on both sides from the publisher's pid and
  the block id, and the abstract socket name that serves its descriptor.
\<close>

definition block_suffix :: "int \<Rightarrow> u32 \<Rightarrow> string" where
  "block_suffix pid bid = to_string pid @ ''_'' @ to_string (uint bid)"

definition meta_shm_name :: "int \<Rightarrow> u32 \<Rightarrow> string" where
  "meta_shm_name pid bid = ''/cuda_vmm_'' @ block_suffix pid bid"

definition block_socket_path :: "int \<Rightarrow> u32 \<Rightarrow> string" where
  "block_socket_path pid bid = ''cuda_vmm_'' @ block_suffix pid bid"

lemma block_suffix_inj: "block_suffix p b = block_suffix q c \<longleftrightarrow> p = q \<and> b = c"
proof -
  have "CHR ''_'' \<notin> set (to_string p)" "CHR ''_'' \<notin> set (to_string q)"
    using to_string_chars by auto
  then show ?thesis
    unfolding block_suffix_def
    by (auto simp: append_sep_inj dest!: to_string_inj intro: word_uint_eqI)
qed

lemma to_string_length:
  assumes "\<bar>i\<bar> < 10 ^ 10"
  shows "length (to_string i) \<le> 11"
proof -
  have "nat \<bar>i\<bar> < 10 ^ 10" using assms by (simp add: nat_less_iff)
  then have "length (dec_nat (nat \<bar>i\<bar>)) \<le> 10" by (rule dec_nat_length) simp
  then show ?thesis by (auto simp: to_string_def)
qed

lemma to_string_u32_length: "length (to_string (uint (b :: u32))) \<le> 10"
proof -
  have "nat (uint b) < 10 ^ 10"
    using uint_lt2p [of b] by (simp add: nat_less_iff del: nat_uint_eq)
  then have "length (dec_nat (nat (uint b))) \<le> 10" by (rule dec_nat_length) simp
  then show ?thesis by (simp add: to_string_def)
qed

lemma block_socket_path_length:
  assumes "\<bar>pid\<bar> < 2 ^ 31"
  shows "length (block_socket_path pid b) \<le> 31"
proof -
  have "\<bar>pid\<bar> < 10 ^ 10" using assms by simp
  from to_string_length [OF this] to_string_u32_length [of b]
  show ?thesis by (simp add: block_socket_path_def block_suffix_def)
qed

end
