(* ===== verification/Ipc_Manager.thy ===== *)
theory Ipc_Manager
  imports Fd_Dispatcher Vmm_Block
begin

text \<open>
  \<open>CudaVmmIPCManager\<close> of \<open>cuda_buffer_ipc_manager.cpp\<close>. The publisher side registers
  a block once, with a listening socket named after it that the dispatcher serves; the
  subscriber side imports a block: it attaches the block's metadata, takes a reference,
  checks the uid, fetches the descriptor from the socket, maps the memory and caches the
  mapping by publisher pid and block id.
\<close>

section \<open>Abstract socket addresses\<close>

text \<open>\<open>sizeof(sockaddr_un::sun_path)\<close> and \<open>offsetof(sockaddr_un, sun_path)\<close> on Linux.\<close>

definition sun_path_size :: nat where "sun_path_size = 108"
definition sun_path_offset :: nat where "sun_path_offset = 2"

record unix_address =
  ua_path :: string
  ua_length :: nat

definition make_abstract_unix_addr :: "string \<Rightarrow> exn + unix_address" where
  "make_abstract_unix_addr name =
     (if name = [] \<or> length name > sun_path_size - 1
      then Inl (CudaError ''Invalid abstract Unix socket name'')
      else Inr \<lparr>ua_path = CHR 0x00 # name @ replicate (sun_path_size - 1 - length name) (CHR 0x00),
                ua_length = sun_path_offset + 1 + length name\<rparr>)"

text \<open>The kernel reads the abstract name from the bytes after the leading null.\<close>

definition abstract_name :: "unix_address \<Rightarrow> string" where
  "abstract_name a = take (ua_length a - sun_path_offset - 1) (tl (ua_path a))"

lemma make_abstract_unix_addr_roundtrip:
  "make_abstract_unix_addr name = Inr a \<Longrightarrow>
     abstract_name a = name \<and> length (ua_path a) = sun_path_size \<and>
     ua_length a \<le> sun_path_offset + sun_path_size"
  by (auto simp: make_abstract_unix_addr_def abstract_name_def sun_path_size_def
      sun_path_offset_def split: if_splits)

section \<open>The publisher's side\<close>

record listen_env =
  le_socket :: int
  le_bind :: int
  le_listen :: int

definition create_fd_server_socket :: "listen_env \<Rightarrow> string \<Rightarrow> (exn + int) \<times> call list" where
  "create_fd_server_socket e socket_path =
     (let server_socket = le_socket e
      in if server_socket < 0 then (Inr (-1), [])
         else case make_abstract_unix_addr socket_path of
             Inl x \<Rightarrow> (Inl x, [OpenFd server_socket])
           | Inr address \<Rightarrow>
               if le_bind e < 0 then (Inr (-1), [OpenFd server_socket, Close server_socket])
               else if le_listen e < 0 then
                 (Inr (-1), [OpenFd server_socket, Close server_socket])
               else (Inr server_socket, [OpenFd server_socket]))"

record registered_block_info =
  ri_server_socket :: int
  ri_socket_path :: string

type_synonym ipc_manager = "(u32 \<times> registered_block_info) list"

record register_env =
  re_pid :: int
  re_listen :: listen_env
  re_dup :: int
  re_epoll_ctl :: int

definition register_block ::
  "register_env \<Rightarrow> vmm_block \<Rightarrow> dispatcher \<times> ipc_manager \<Rightarrow>
     (exn + string) \<times> (dispatcher \<times> ipc_manager) \<times> call list" where
  "register_block e block st =
     (let (d, registered_blocks) = st
      in case map_of registered_blocks (vb_block_id block) of
           Some info \<Rightarrow> (Inr (ri_socket_path info), st, [])
         | None \<Rightarrow>
             (let socket_path = block_socket_path (re_pid e) (vb_block_id block);
                  (r, cs) = create_fd_server_socket (re_listen e) socket_path
              in case r of
                   Inl x \<Rightarrow> (Inl x, st, cs)
                 | Inr server_socket \<Rightarrow>
                     if server_socket < 0 then
                       (Inl (CudaError ''Failed to create FD server socket for block''), st, cs)
                     else
                       (let (d', cs') = add_socket (re_dup e) (re_epoll_ctl e) server_socket
                                           (vb_exported_fd block) d;
                            info = \<lparr>ri_server_socket = server_socket,
                                    ri_socket_path = socket_path\<rparr>
                        in (Inr socket_path,
                            (d', AList.update (vb_block_id block) info registered_blocks),
                            cs @ cs'))))"

text \<open>The destructor of the manager takes its sockets out of the dispatcher.\<close>

fun remove_sockets :: "int list \<Rightarrow> dispatcher \<Rightarrow> dispatcher \<times> call list" where
  "remove_sockets [] d = (d, [])"
| "remove_sockets (s # ss) d =
     (let (d1, cs) = remove_socket s d; (d2, cs') = remove_sockets ss d1 in (d2, cs @ cs'))"

definition destroy_manager ::
  "dispatcher \<times> ipc_manager \<Rightarrow> (dispatcher \<times> ipc_manager) \<times> call list" where
  "destroy_manager st =
     (let (d, registered_blocks) = st;
          sockets = filter (\<lambda>s. s \<ge> 0) (map (ri_server_socket \<circ> snd) registered_blocks);
          (d', cs) = remove_sockets sockets d
      in ((d', []), cs))"

text \<open>
  \<open>get_dispatcher\<close>: the dispatcher is held weakly, and made again when no manager holds it.
\<close>

definition get_dispatcher ::
  "int \<Rightarrow> int \<Rightarrow> int \<Rightarrow> dispatcher option \<Rightarrow> dispatcher \<times> call list" where
  "get_dispatcher ep ev ctl cached =
     (case cached of Some d \<Rightarrow> (d, []) | None \<Rightarrow> new_dispatcher ep ev ctl)"

section \<open>The subscriber's side\<close>

text \<open>
  \<open>check_uid_staleness\<close>: an exception when the metadata carries another uid than the
  descriptor; nothing is checked without metadata or for a descriptor without uid.
\<close>

definition check_uid_staleness :: "meta_store \<Rightarrow> segment option \<Rightarrow> u64 \<Rightarrow> exn option" where
  "check_uid_staleness m p expected_uid =
     (case p of
        None \<Rightarrow> None
      | Some s \<Rightarrow>
          if expected_uid = 0 then None
          else if uid (m s) \<noteq> expected_uid
          then Some (CudaError ''IPC block recycled before import (stale UID)'')
          else None)"

record recv_env =
  rv_socket :: int
  rv_connect :: int
  rv_recvmsg :: int
  rv_cmsg :: "int option" \<comment> \<open>the descriptor of an \<open>SCM_RIGHTS\<close> message, if one came\<close>

definition receive_fd_from_socket :: "recv_env \<Rightarrow> string \<Rightarrow> (exn + int) \<times> call list" where
  "receive_fd_from_socket e socket_path =
     (let client_socket = rv_socket e
      in if client_socket < 0 then (Inr (-1), [])
         else case make_abstract_unix_addr socket_path of
             Inl x \<Rightarrow> (Inl x, [OpenFd client_socket])
           | Inr address \<Rightarrow>
               if rv_connect e < 0 then (Inr (-1), [OpenFd client_socket, Close client_socket])
               else if rv_recvmsg e \<le> 0 then
                 (Inr (-1), [OpenFd client_socket, Close client_socket])
               else case rv_cmsg e of
                   None \<Rightarrow> (Inr (-1), [OpenFd client_socket, Close client_socket])
                 | Some fd \<Rightarrow>
                     (Inr fd, OpenFd client_socket # (if fd \<ge> 0 then [OpenFd fd] else [])
                                @ [Close client_socket]))"

record cached_import =
  ci_handle :: u64
  ci_va :: u64
  ci_size :: u64
  ci_ipc_meta :: "segment option"

type_synonym import_cache = "int \<times> u32 \<Rightarrow> cached_import option"

record import_result =
  ir_va :: u64
  ir_ipc_meta :: "segment option"

record import_env =
  im_shm_open :: int
  im_mmap :: "segment option"
  im_recv :: recv_env
  im_import :: "CUresult \<times> u64"
  im_reserve :: "CUresult \<times> u64"
  im_map :: CUresult
  im_device :: "cudaError_t \<times> int"
  im_access :: CUresult

text \<open>Opening and mapping the metadata segment; without it the import goes on.\<close>

definition open_metadata :: "import_env \<Rightarrow> segment option \<times> call list" where
  "open_metadata e =
     (if im_shm_open e < 0 then (None, [])
      else case im_mmap e of
          None \<Rightarrow> (None, [OpenFd (im_shm_open e), Close (im_shm_open e)])
        | Some s \<Rightarrow> (Some s, [OpenFd (im_shm_open e), Mmap s, Close (im_shm_open e)]))"

text \<open>The lambda \<open>cleanup_failed_import\<close>, with the variables it captures.\<close>

definition cleanup_failed_import ::
  "bool \<Rightarrow> bool \<Rightarrow> bool \<Rightarrow> u64 \<Rightarrow> u64 \<Rightarrow> segment option \<Rightarrow> meta_store \<Rightarrow>
     meta_store \<times> call list" where
  "cleanup_failed_import mapped address_reserved handle_imported va handle ipc_meta m =
     (add_ref (-1) ipc_meta m,
      (if mapped then [CuMemUnmap va] else [])
        @ (if address_reserved then [CuMemAddressFree va] else [])
        @ (if handle_imported then [CuMemRelease handle] else [])
        @ (case ipc_meta of None \<Rightarrow> [] | Some s \<Rightarrow> [Munmap s]))"

type_synonym import_outcome =
  "(exn + import_result) \<times> (import_cache \<times> meta_store) \<times> call list"

text \<open>An exit of \<open>import_block\<close> through the cleanup.\<close>

definition fail_import ::
  "exn \<Rightarrow> bool \<Rightarrow> bool \<Rightarrow> bool \<Rightarrow> u64 \<Rightarrow> u64 \<Rightarrow> segment option \<Rightarrow> call list \<Rightarrow>
     import_cache \<times> meta_store \<Rightarrow> import_outcome" where
  "fail_import x mapped reserved imported va handle ipc_meta cs st =
     (let (m', cs') = cleanup_failed_import mapped reserved imported va handle ipc_meta (snd st)
      in (Inl x, (fst st, m'), cs @ cs'))"

text \<open>
  The part of \<open>import_block\<close> after the descriptor \<open>fd\<close> has come: import, reserve, map,
  grant access, cache.
\<close>

definition map_imported ::
  "import_env \<Rightarrow> int \<times> u32 \<Rightarrow> u64 \<Rightarrow> int \<Rightarrow> segment option \<Rightarrow> call list \<Rightarrow>
     import_cache \<times> meta_store \<Rightarrow> import_outcome" where
  "map_imported e key sz fd ipc_meta cs st =
     (let (r, h) = im_import e
      in if r \<noteq> CUDA_SUCCESS then
           fail_import (CudaDriverError ''cuMemImportFromShareableHandle'' r)
             False False False 0 0 ipc_meta (cs @ [Close fd]) st
         else let cs1 = cs @ [CuMemCreate h, Close fd]; (r, va) = im_reserve e
      in if r \<noteq> CUDA_SUCCESS then
           fail_import (CudaDriverError ''cuMemAddressReserve'' r)
             False False True 0 h ipc_meta cs1 st
         else let cs2 = cs1 @ [CuMemAddressReserve va]; r = im_map e
      in if r \<noteq> CUDA_SUCCESS then
           fail_import (CudaDriverError ''cuMemMap'' r) False True True va h ipc_meta cs2 st
         else let cs3 = cs2 @ [CuMemMap va]; rt = fst (im_device e)
      in if rt \<noteq> cudaSuccess then
           fail_import (CudaRuntimeError ''cudaGetDevice'' rt) True True True va h ipc_meta cs3 st
         else let r = im_access e
      in if r \<noteq> CUDA_SUCCESS then
           fail_import (CudaDriverError ''cuMemSetAccess'' r) True True True va h ipc_meta cs3 st
         else
           (Inr \<lparr>ir_va = va, ir_ipc_meta = ipc_meta\<rparr>,
            ((fst st)(key \<mapsto> \<lparr>ci_handle = h, ci_va = va, ci_size = sz, ci_ipc_meta = ipc_meta\<rparr>),
             snd st),
            cs3))"

definition import_block ::
  "import_env \<Rightarrow> string \<Rightarrow> int \<Rightarrow> u32 \<Rightarrow> u64 \<Rightarrow> u64 \<Rightarrow> import_cache \<times> meta_store \<Rightarrow>
     import_outcome" where
  "import_block e socket_path pid block_id sz expected_uid st =
     (let (cache, m) = st; key = (pid, block_id)
      in case cache key of
        Some it \<Rightarrow>
          (let meta = ci_ipc_meta it; m1 = add_ref 1 meta m
           in case check_uid_staleness m1 meta expected_uid of
                Some x \<Rightarrow> (Inl x, (cache, add_ref (-1) meta m1), [])
              | None \<Rightarrow> (Inr \<lparr>ir_va = ci_va it, ir_ipc_meta = meta\<rparr>, (cache, m1), []))
      | None \<Rightarrow>
          (let (ipc_meta, cs0) = open_metadata e; m1 = add_ref 1 ipc_meta m
           in case check_uid_staleness m1 ipc_meta expected_uid of
                Some x \<Rightarrow> fail_import x False False False 0 0 ipc_meta cs0 (cache, m1)
              | None \<Rightarrow>
                  (let (rfd, cs1) = receive_fd_from_socket (im_recv e) socket_path
                   in case rfd of
                        Inl x \<Rightarrow> (Inl x, (cache, m1), cs0 @ cs1)
                      | Inr fd \<Rightarrow>
                          if fd < 0 then
                            fail_import
                              (CudaError (''Failed to receive VMM FD from socket: '' @ socket_path))
                              False False False 0 0 ipc_meta (cs0 @ cs1) (cache, m1)
                          else
                            map_imported e key sz fd ipc_meta (cs0 @ cs1) (cache, m1))))"

text \<open>The deleter of an imported buffer (\<open>cuda_buffer_backend_plugin.cpp\<close>).\<close>

definition release_import :: "segment option \<Rightarrow> meta_store \<Rightarrow> meta_store" where
  "release_import ipc_meta m = add_ref (-1) ipc_meta m"

text \<open>\<open>~CachedImport\<close>.\<close>

definition destroy_import :: "cached_import \<Rightarrow> call list" where
  "destroy_import c =
     (case ci_ipc_meta c of None \<Rightarrow> [] | Some s \<Rightarrow> [Munmap s])
       @ (if ci_va c \<noteq> 0 then [CuMemUnmap (ci_va c), CuMemAddressFree (ci_va c)] else [])
       @ (if ci_handle c \<noteq> 0 then [CuMemRelease (ci_handle c)] else [])"

section \<open>Registered blocks: ownership and invariant\<close>

definition server_sockets :: "ipc_manager \<Rightarrow> int list" where
  "server_sockets m = map (ri_server_socket \<circ> snd) m"

definition sockets_res :: "int list \<Rightarrow> resource multiset" where
  "sockets_res ss = mset (map Fd ss)"

definition manager_res :: "dispatcher \<times> ipc_manager \<Rightarrow> resource multiset" where
  "manager_res st = dispatcher_res (fst st) + sockets_res (server_sockets (snd st))"

definition manager_inv :: "dispatcher \<times> ipc_manager \<Rightarrow> bool" where
  "manager_inv st \<longleftrightarrow>
     dispatcher_inv (fst st) \<and> distinct (map fst (snd st)) \<and>
     distinct (server_sockets (snd st)) \<and> (\<forall>s \<in> set (server_sockets (snd st)). 0 \<le> s) \<and>
     fst ` set (socket_to_fd (fst st)) \<subseteq> set (server_sockets (snd st))"

text \<open>A new socket is none of those that are open (POSIX: the lowest free descriptor).\<close>

definition fresh_socket :: "register_env \<Rightarrow> ipc_manager \<Rightarrow> bool" where
  "fresh_socket e m \<longleftrightarrow> le_socket (re_listen e) \<notin> set (server_sockets m)"

lemma sockets_res_simps [simp]:
  "sockets_res [] = {#}" "sockets_res (s # ss) = add_mset (Fd s) (sockets_res ss)"
  "sockets_res (ss @ ts) = sockets_res ss + sockets_res ts"
  by (simp_all add: sockets_res_def)

lemma server_sockets_snoc [simp]:
  "server_sockets (m @ [(k, i)]) = server_sockets m @ [ri_server_socket i]"
  by (simp add: server_sockets_def)

lemma add_socket_keys:
  "fst ` set (socket_to_fd (fst (add_socket dr cr s f d))) \<subseteq> insert s (fst ` set (socket_to_fd d))"
  by (auto simp: add_socket_def Let_def AList.dom_update AList.delete_update_same
      dest: set_delete_subset [THEN subsetD] set_update_subset [THEN subsetD])

lemma add_socket_fds [simp]:
  "epoll_fd (fst (add_socket dr cr s f d)) = epoll_fd d"
  "event_fd (fst (add_socket dr cr s f d)) = event_fd d"
  "running (fst (add_socket dr cr s f d)) = running d"
  by (simp_all add: add_socket_def Let_def)

lemma make_addr_block_path:
  assumes "\<bar>pid\<bar> < 2 ^ 31"
  shows "\<exists>a. make_abstract_unix_addr (block_socket_path pid b) = Inr a"
proof -
  have "block_socket_path pid b \<noteq> []" by (simp add: block_socket_path_def)
  moreover have "length (block_socket_path pid b) \<le> 107"
    using block_socket_path_length [OF assms, of b] by simp
  ultimately show ?thesis by (simp add: make_abstract_unix_addr_def sun_path_size_def)
qed

text \<open>The listening socket: kept when it is returned, closed on each failure.\<close>

lemma create_fd_server_socket_cases:
  assumes "\<bar>pid\<bar> < 2 ^ 31"
  shows "(\<exists>r cs. create_fd_server_socket e (block_socket_path pid b) = (Inr r, cs) \<and>
            r < 0 \<and> (\<forall>R. ledger cs R = Some R)) \<or>
         (create_fd_server_socket e (block_socket_path pid b) =
            (Inr (le_socket e), [OpenFd (le_socket e)]) \<and> 0 \<le> le_socket e)"
proof -
  obtain a where "make_abstract_unix_addr (block_socket_path pid b) = Inr a"
    using make_addr_block_path [OF assms] by blast
  then show ?thesis by (simp add: create_fd_server_socket_def Let_def)
qed

text \<open>
  What one registration does: it keeps the invariant, gives exactly the descriptors it
  opened to the new state, and never fails with anything open.
\<close>

lemma register_block_step:
  assumes inv: "manager_inv st" and fresh: "fresh_socket e (snd st)" and pid: "\<bar>re_pid e\<bar> < 2 ^ 31"
    and reg: "register_block e blk st = (r, st', cs)"
  shows "manager_inv st'" and "ledger cs (manager_res st) = Some (manager_res st')"
proof -
  obtain d m where st: "st = (d, m)" by force
  let ?s = "le_socket (re_listen e)"
  have "manager_inv st' \<and> ledger cs (manager_res st) = Some (manager_res st')"
  proof (cases "map_of m (vb_block_id blk)")
    case (Some info)
    with reg inv st show ?thesis by (auto simp: register_block_def)
  next
    case None
    then have notin: "vb_block_id blk \<notin> fst ` set m" by (simp add: map_of_eq_None_iff)
    consider (fail) q cs1 where
        "create_fd_server_socket (re_listen e) (block_socket_path (re_pid e) (vb_block_id blk)) =
           (Inr q, cs1)" "q < 0" "\<forall>R. ledger cs1 R = Some R"
      | (ok) "create_fd_server_socket (re_listen e) (block_socket_path (re_pid e) (vb_block_id blk)) =
           (Inr ?s, [OpenFd ?s])" "0 \<le> ?s"
      using create_fd_server_socket_cases [OF pid, of "re_listen e" "vb_block_id blk"] by blast
    then show ?thesis
    proof cases
      case fail
      with None reg inv st show ?thesis by (auto simp: register_block_def)
    next
      case ok
      define a where "a = add_socket (re_dup e) (re_epoll_ctl e) ?s (vb_exported_fd blk) d"
      let ?i = "\<lparr>ri_server_socket = ?s,
                  ri_socket_path = block_socket_path (re_pid e) (vb_block_id blk)\<rparr>"
      have st': "st' = (fst a, m @ [(vb_block_id blk, ?i)])" and cs: "cs = OpenFd ?s # snd a"
        using None reg st ok AList_update_absent [OF notin, of ?i]
        by (auto simp: register_block_def a_def Let_def split: prod.splits)
      have s: "?s \<notin> set (server_sockets m)" using fresh st by (simp add: fresh_socket_def)
      then have keys: "?s \<notin> fst ` set (socket_to_fd d)"
        using inv st by (auto simp: manager_inv_def)
      have "fst ` set (socket_to_fd (fst a)) \<subseteq> insert ?s (set (server_sockets m))"
        using add_socket_keys [of "re_dup e" "re_epoll_ctl e" ?s "vb_exported_fd blk" d] inv st
        unfolding a_def manager_inv_def by auto
      then have "manager_inv st'"
        using inv st s notin ok(2) add_socket_inv [of d]
        by (simp add: st' manager_inv_def a_def)
      moreover have "ledger cs (manager_res st) = Some (manager_res st')"
        using add_socket_ledger [OF keys, of "re_dup e" "re_epoll_ctl e" "vb_exported_fd blk"
            "add_mset (Fd ?s) (sockets_res (server_sockets m))"]
        by (simp add: st st' cs manager_res_def a_def)
      ultimately show ?thesis ..
    qed
  qed
  then show "manager_inv st'" and "ledger cs (manager_res st) = Some (manager_res st')" by simp_all
qed

text \<open>Registering a block again returns the same path and touches nothing.\<close>

lemma register_block_again:
  assumes "register_block e blk st = (Inr path, st', cs)"
  shows "register_block e' blk st' = (Inr path, st', [])"
  using assms
  by (auto simp: register_block_def Let_def AList.update_conv' split: prod.splits option.splits
      sum.splits if_splits)

section \<open>Destruction\<close>

lemma remove_socket_fds [simp]:
  "epoll_fd (fst (remove_socket s d)) = epoll_fd d"
  "event_fd (fst (remove_socket s d)) = event_fd d"
  "running (fst (remove_socket s d)) = running d"
  by (simp_all add: remove_socket_def Let_def)

lemma remove_socket_keys [simp]:
  "fst ` set (socket_to_fd (fst (remove_socket s d))) = fst ` set (socket_to_fd d) - {s}"
proof -
  have "set (map fst (AList.delete s (socket_to_fd d))) = fst ` set (socket_to_fd d) - {s}"
    by (simp only: AList.delete_keys set_removeAll set_map)
  then show ?thesis by (simp add: remove_socket_def Let_def)
qed

lemma remove_sockets_state:
  "dispatcher_inv d \<Longrightarrow>
     dispatcher_inv (fst (remove_sockets ss d)) \<and>
     fst ` set (socket_to_fd (fst (remove_sockets ss d))) = fst ` set (socket_to_fd d) - set ss \<and>
     epoll_fd (fst (remove_sockets ss d)) = epoll_fd d \<and>
     event_fd (fst (remove_sockets ss d)) = event_fd d \<and>
     running (fst (remove_sockets ss d)) = running d"
proof (induction ss arbitrary: d)
  case Nil
  then show ?case by simp
next
  case (Cons s ss)
  from Cons.IH [OF remove_socket_inv [OF Cons.prems, of s]] show ?case
    by (auto simp: Let_def split_beta)
qed

lemma remove_sockets_ledger:
  "dispatcher_inv d \<Longrightarrow>
     ledger (snd (remove_sockets ss d)) (sockets_res ss + dispatcher_res d) =
       Some (dispatcher_res (fst (remove_sockets ss d)))"
proof (induction ss arbitrary: d)
  case Nil
  then show ?case by simp
next
  case (Cons s ss)
  let ?d = "fst (remove_socket s d)"
  have "ledger (snd (remove_socket s d)) (sockets_res (s # ss) + dispatcher_res d) =
      Some (sockets_res ss + dispatcher_res ?d)"
    using remove_socket_ledger [OF Cons.prems, of s "sockets_res ss"] by (simp add: add.commute)
  then show ?case
    using Cons.IH [OF remove_socket_inv [OF Cons.prems, of s]]
    by (simp add: Let_def split_beta ledger_append_Some)
qed

lemma destroy_manager_step:
  assumes "manager_inv st" and "destroy_manager st = (st', cs)"
  shows "ledger cs (manager_res st) = Some (fd_res (epoll_fd (fst st)) + fd_res (event_fd (fst st)))"
    and "socket_to_fd (fst st') = []" and "snd st' = []"
    and "epoll_fd (fst st') = epoll_fd (fst st)" and "event_fd (fst st') = event_fd (fst st)"
    and "running (fst st') = running (fst st)"
proof -
  obtain d m where st: "st = (d, m)" by force
  have inv: "dispatcher_inv d" using assms(1) st by (simp add: manager_inv_def)
  have "filter (\<lambda>s. s \<ge> 0) (server_sockets m) = server_sockets m"
    using assms(1) st by (simp add: manager_inv_def filter_id_conv)
  then have d: "st' = (fst (remove_sockets (server_sockets m) d), [])"
    and cs: "cs = snd (remove_sockets (server_sockets m) d)"
    using assms(2) st by (simp_all add: destroy_manager_def server_sockets_def split_beta Let_def)
  note r = remove_sockets_state [OF inv, of "server_sockets m"]
  have "fst ` set (socket_to_fd (fst st')) = fst ` set (socket_to_fd d) - set (server_sockets m)"
    using r d by simp
  also have "\<dots> = {}" using assms(1) st by (auto simp: manager_inv_def)
  finally have empty: "socket_to_fd (fst st') = []" by simp
  with r d st show "socket_to_fd (fst st') = []" "snd st' = []"
    "epoll_fd (fst st') = epoll_fd (fst st)" "event_fd (fst st') = event_fd (fst st)"
    "running (fst st') = running (fst st)" by simp_all
  show "ledger cs (manager_res st) = Some (fd_res (epoll_fd (fst st)) + fd_res (event_fd (fst st)))"
    using remove_sockets_ledger [OF inv, of "server_sockets m"] empty d r
    by (simp add: st cs manager_res_def dispatcher_res_def add.commute)
qed

section \<open>A whole publisher life\<close>

fun register_all ::
  "(register_env \<times> vmm_block) list \<Rightarrow> dispatcher \<times> ipc_manager \<Rightarrow>
     (dispatcher \<times> ipc_manager) \<times> call list" where
  "register_all [] st = (st, [])"
| "register_all ((e, b) # rs) st =
     (let (r, st1, cs) = register_block e b st; (st2, cs') = register_all rs st1
      in (st2, cs @ cs'))"

fun fresh_sockets ::
  "(register_env \<times> vmm_block) list \<Rightarrow> dispatcher \<times> ipc_manager \<Rightarrow> bool" where
  "fresh_sockets [] st = True"
| "fresh_sockets ((e, b) # rs) st =
     (fresh_socket e (snd st) \<and> \<bar>re_pid e\<bar> < 2 ^ 31 \<and>
      fresh_sockets rs (fst (snd (register_block e b st))))"

definition dispatcher_live :: "dispatcher \<Rightarrow> bool" where
  "dispatcher_live d \<longleftrightarrow> (running d \<or> (epoll_fd d < 0 \<and> event_fd d < 0))"

lemma register_block_live:
  "dispatcher_live (fst st) \<Longrightarrow> dispatcher_live (fst (fst (snd (register_block e b st))))"
  unfolding register_block_def Let_def
  by (auto simp: dispatcher_live_def split_beta split: option.splits sum.splits)

lemma register_all_step:
  assumes "manager_inv st" and "fresh_sockets rs st" and "dispatcher_live (fst st)"
    and "register_all rs st = (st', cs)"
  shows "manager_inv st' \<and> ledger cs (manager_res st) = Some (manager_res st') \<and>
    dispatcher_live (fst st')"
  using assms
proof (induction rs arbitrary: st cs)
  case Nil
  then show ?case by simp
next
  case (Cons p rs)
  obtain e b where p: "p = (e, b)" by force
  obtain r st1 cs1 where r1: "register_block e b st = (r, st1, cs1)" by (cases "register_block e b st")
  obtain cs2 where r2: "register_all rs st1 = (st', cs2)" and cs: "cs = cs1 @ cs2"
    using Cons.prems(4) p r1 by (auto split: prod.splits)
  have fr: "fresh_socket e (snd st)" "\<bar>re_pid e\<bar> < 2 ^ 31" "fresh_sockets rs st1"
    using Cons.prems(2) p r1 by simp_all
  note s = register_block_step [OF Cons.prems(1) fr(1,2) r1]
  have "dispatcher_live (fst st1)" using register_block_live [OF Cons.prems(3), of e b] r1 by simp
  from Cons.IH [OF s(1) fr(3) this r2] s(2) show ?case by (simp add: cs ledger_append_Some)
qed

section \<open>Properties of the publisher's side\<close>

text \<open>
  Over a whole life of the IPC manager, whatever the kernel answers, every socket and
  descriptor it opens is closed exactly once: starting the dispatcher, registering any
  blocks (successfully or not), destroying the manager and stopping the dispatcher leave
  nothing open and close nothing twice.
\<close>

theorem ipc_manager_lifecycle_balanced:
  assumes "new_dispatcher ep ev ctl = (d0, cs0)"
    and "fresh_sockets rs (d0, [])"
    and "register_all rs (d0, []) = (st1, cs1)"
    and "destroy_manager st1 = (st2, cs2)"
    and "stop_dispatcher (fst st2) = (d3, cs3)"
  shows "ledger (cs0 @ cs1 @ cs2 @ cs3) {#} = Some {#}"
proof -
  have inv0: "manager_inv (d0, [])"
    using new_dispatcher_inv [of ep ev ctl] assms(1)
    by (auto simp: manager_inv_def server_sockets_def new_dispatcher_def idle_dispatcher_def
        split: if_splits)
  have live0: "dispatcher_live d0"
    using assms(1) by (auto simp: dispatcher_live_def new_dispatcher_def idle_dispatcher_def
        split: if_splits)
  have l0: "ledger cs0 {#} = Some (manager_res (d0, []))"
    using new_dispatcher_ledger [of ep ev ctl "{#}"] assms(1)
    by (simp add: manager_res_def server_sockets_def)
  note s1 = register_all_step [OF inv0 assms(2) _ assms(3)]
  note s2 = destroy_manager_step [OF _ assms(4)]
  have "ledger cs3 (fd_res (epoll_fd (fst st2)) + fd_res (event_fd (fst st2))) = Some {#}"
  proof (cases "running (fst st2)")
    case True
    then show ?thesis
      using stop_dispatcher_empty [of "fst st2"] s1 s2(2) live0 assms(5)
      by (simp add: dispatcher_res_def)
  next
    case False
    then show ?thesis using s1 s2 live0 assms(5) by (simp add: dispatcher_live_def stop_dispatcher_def)
  qed
  then show ?thesis using l0 s1 s2 live0 by (simp add: ledger_append_Some)
qed

theorem ipc_manager_lifecycle_balanced_witness:
  "\<exists>d0 cs0 st1 cs1 st2 cs2 d3 cs3.
     new_dispatcher 3 4 0 = (d0, cs0) \<and>
     register_all [(\<lparr>re_pid = 7, re_listen = \<lparr>le_socket = 5, le_bind = 0, le_listen = 0\<rparr>,
                     re_dup = 6, re_epoll_ctl = 0\<rparr>, new_block 4096 1)] (d0, []) = (st1, cs1) \<and>
     destroy_manager st1 = (st2, cs2) \<and> stop_dispatcher (fst st2) = (d3, cs3) \<and>
     cs1 \<noteq> [] \<and> ledger (cs0 @ cs1 @ cs2 @ cs3) {#} = Some {#}"
proof -
  define e where "e = \<lparr>re_pid = 7, re_listen = \<lparr>le_socket = 5, le_bind = 0, le_listen = 0\<rparr>,
                     re_dup = 6, re_epoll_ctl = 0\<rparr>"
  obtain d0 cs0 where 0: "new_dispatcher 3 4 0 = (d0, cs0)" by force
  obtain st1 cs1 where 1: "register_all [(e, new_block 4096 1)] (d0, []) = (st1, cs1)"
    by (cases "register_all [(e, new_block 4096 1)] (d0, [])")
  obtain st2 cs2 where 2: "destroy_manager st1 = (st2, cs2)" by (cases "destroy_manager st1")
  obtain d3 cs3 where 3: "stop_dispatcher (fst st2) = (d3, cs3)"
    by (cases "stop_dispatcher (fst st2)")
  have f: "fresh_sockets [(e, new_block 4096 1)] (d0, [])"
    by (simp add: e_def fresh_socket_def server_sockets_def)
  have "cs1 \<noteq> []"
    using 1 make_addr_block_path [of 7 1]
    by (auto simp: e_def register_block_def create_fd_server_socket_def new_block_def Let_def
        split: prod.splits sum.splits)
  with ipc_manager_lifecycle_balanced [OF 0 f 1 2 3] 0 1 2 3 show ?thesis
    unfolding e_def by blast
qed

section \<open>Imports: references and resources\<close>

definition meta_res :: "segment option \<Rightarrow> resource multiset" where
  "meta_res p = (case p of None \<Rightarrow> {#} | Some s \<Rightarrow> {#MetaMapping s#})"

definition cached_res :: "cached_import \<Rightarrow> resource multiset" where
  "cached_res c =
     {#Allocation (ci_handle c), VaRange (ci_va c), VaMapping (ci_va c)#} + meta_res (ci_ipc_meta c)"

lemma meta_res_simps [simp]: "meta_res None = {#}" "meta_res (Some s) = {#MetaMapping s#}"
  by (simp_all add: meta_res_def)

lemma open_metadata_ledger:
  "ledger (snd (open_metadata e)) R = Some (meta_res (fst (open_metadata e)) + R)"
  by (simp add: open_metadata_def split: option.split)

lemma receive_fd_ledger:
  "receive_fd_from_socket e path = (Inr fd, cs) \<Longrightarrow> ledger cs R = Some (fd_res fd + R)"
  by (auto simp: receive_fd_from_socket_def Let_def split: if_splits sum.splits option.splits)

lemma check_uid_add_ref [simp]:
  "check_uid_staleness (add_ref d p m) q u = check_uid_staleness m q u"
  by (auto simp: check_uid_staleness_def split: option.splits)

lemma check_uid_None:
  "check_uid_staleness m p u = None \<longleftrightarrow> (\<forall>s. p = Some s \<longrightarrow> u = 0 \<or> uid (m s) = u)"
  by (auto simp: check_uid_staleness_def split: option.splits)

lemma fail_import_cleanup:
  assumes "\<And>R. ledger cs R = Some (held + (meta_res p + R))"
    and "held = (if mapped then {#VaMapping va#} else {#}) + (if reserved then {#VaRange va#} else {#})
           + (if imported then {#Allocation h#} else {#})"
    and "fail_import x mapped reserved imported va h p cs (cache, add_ref 1 p m) = (res, st', cs')"
  shows "res = Inl x \<and> st' = (cache, m) \<and> (\<forall>R. ledger cs' R = Some R)"
  using assms
  by (cases p) (auto simp: fail_import_def cleanup_failed_import_def ledger_append_Some)

text \<open>
  The tail of an import, given that the descriptor is held: either every step succeeds and
  the new cache entry owns the mapping, or everything is undone.
\<close>

lemma map_imported_outcome:
  assumes held: "\<And>R. ledger cs R = Some (add_mset (Fd fd) (meta_res p + R))"
    and eq: "map_imported e key sz fd p cs (cache, add_ref 1 p m) = (r, (cache', m'), cs')"
  shows "(\<exists>x. r = Inl x \<and> cache' = cache \<and> m' = m \<and> (\<forall>R. ledger cs' R = Some R)) \<or>
    (\<exists>c. r = Inr \<lparr>ir_va = ci_va c, ir_ipc_meta = p\<rparr> \<and> ci_ipc_meta c = p \<and> ci_size c = sz \<and>
       cache' = cache(key \<mapsto> c) \<and> m' = add_ref 1 p m \<and>
       (\<forall>R. ledger cs' R = Some (cached_res c + R)))"
proof -
  let ?cs1 = "cs @ [CuMemCreate (snd (im_import e)), Close fd]"
  let ?cs2 = "?cs1 @ [CuMemAddressReserve (snd (im_reserve e))]"
  let ?cs3 = "?cs2 @ [CuMemMap (snd (im_reserve e))]"
  let ?h = "snd (im_import e)" and ?va = "snd (im_reserve e)"
  have l0: "ledger (cs @ [Close fd]) R = Some ({#} + (meta_res p + R))"
    and l1: "ledger ?cs1 R = Some ({#Allocation ?h#} + (meta_res p + R))" for R
    using held by (simp_all add: ledger_append_Some)
  have l2: "ledger ?cs2 R = Some ({#VaRange ?va, Allocation ?h#} + (meta_res p + R))"
    and l3: "ledger ?cs3 R = Some ({#VaMapping ?va, VaRange ?va, Allocation ?h#} + (meta_res p + R))"
    for R using held by (simp_all add: ledger_append_Some)
  note f = fail_import_cleanup
  consider "fst (im_import e) \<noteq> CUDA_SUCCESS"
    | "fst (im_import e) = CUDA_SUCCESS" "fst (im_reserve e) \<noteq> CUDA_SUCCESS"
    | "fst (im_import e) = CUDA_SUCCESS" "fst (im_reserve e) = CUDA_SUCCESS"
      "im_map e \<noteq> CUDA_SUCCESS"
    | "fst (im_import e) = CUDA_SUCCESS" "fst (im_reserve e) = CUDA_SUCCESS"
      "im_map e = CUDA_SUCCESS" "fst (im_device e) \<noteq> cudaSuccess"
    | "fst (im_import e) = CUDA_SUCCESS" "fst (im_reserve e) = CUDA_SUCCESS"
      "im_map e = CUDA_SUCCESS" "fst (im_device e) = cudaSuccess" "im_access e \<noteq> CUDA_SUCCESS"
    | "fst (im_import e) = CUDA_SUCCESS" "fst (im_reserve e) = CUDA_SUCCESS"
      "im_map e = CUDA_SUCCESS" "fst (im_device e) = cudaSuccess" "im_access e = CUDA_SUCCESS"
    by blast
  then show ?thesis
  proof cases
    case 1
    with eq have "fail_import (CudaDriverError ''cuMemImportFromShareableHandle'' (fst (im_import e))) False False False 0 0 p (cs @ [Close fd])
        (cache, add_ref 1 p m) = (r, (cache', m'), cs')"
      by (simp add: map_imported_def split_beta Let_def)
    from f [OF l0 _ this] show ?thesis by simp
  next
    case 2
    with eq have "fail_import (CudaDriverError ''cuMemAddressReserve'' (fst (im_reserve e))) False False True 0 ?h p ?cs1
        (cache, add_ref 1 p m) = (r, (cache', m'), cs')"
      by (simp add: map_imported_def split_beta Let_def)
    from f [OF l1 _ this] show ?thesis by simp
  next
    case 3
    with eq have "fail_import (CudaDriverError ''cuMemMap'' (im_map e)) False True True ?va ?h p ?cs2
        (cache, add_ref 1 p m) = (r, (cache', m'), cs')"
      by (simp add: map_imported_def split_beta Let_def)
    from f [OF l2 _ this] show ?thesis by simp
  next
    case 4
    with eq have "fail_import (CudaRuntimeError ''cudaGetDevice'' (fst (im_device e))) True True True ?va ?h p ?cs3
        (cache, add_ref 1 p m) = (r, (cache', m'), cs')"
      by (simp add: map_imported_def split_beta Let_def)
    from f [OF l3 _ this] show ?thesis by simp
  next
    case 5
    with eq have "fail_import (CudaDriverError ''cuMemSetAccess'' (im_access e)) True True True ?va ?h p ?cs3
        (cache, add_ref 1 p m) = (r, (cache', m'), cs')"
      by (simp add: map_imported_def split_beta Let_def)
    from f [OF l3 _ this] show ?thesis by simp
  next
    case 6
    let ?c = "\<lparr>ci_handle = ?h, ci_va = ?va, ci_size = sz, ci_ipc_meta = p\<rparr>"
    have "r = Inr \<lparr>ir_va = ci_va ?c, ir_ipc_meta = p\<rparr> \<and> cache' = cache(key \<mapsto> ?c) \<and>
        m' = add_ref 1 p m \<and> cs' = ?cs3"
      using eq 6 by (simp add: map_imported_def split_beta Let_def)
    with l3 show ?thesis
      by (intro disjI2 exI [of _ ?c]) (simp add: cached_res_def add_mset_commute)
  qed
qed

text \<open>
  The four ways an import ends when the socket name is a valid one: a cache hit with a
  fresh uid, a new mapping, or an exception that leaves store and cache as they were.
\<close>

lemma import_block_outcome:
  assumes addr: "make_abstract_unix_addr path = Inr a"
    and eq: "import_block e path pid bid sz u (cache, m) = (r, (cache', m'), cs)"
  shows "(\<exists>x. r = Inl x \<and> cache' = cache \<and> m' = m \<and> (\<forall>R. ledger cs R = Some R)) \<or>
    (\<exists>c. cache (pid, bid) = Some c \<and> r = Inr \<lparr>ir_va = ci_va c, ir_ipc_meta = ci_ipc_meta c\<rparr> \<and>
       check_uid_staleness m (ci_ipc_meta c) u = None \<and>
       cache' = cache \<and> m' = add_ref 1 (ci_ipc_meta c) m \<and> cs = []) \<or>
    (\<exists>c. cache (pid, bid) = None \<and> r = Inr \<lparr>ir_va = ci_va c, ir_ipc_meta = ci_ipc_meta c\<rparr> \<and>
       ci_size c = sz \<and> check_uid_staleness m (ci_ipc_meta c) u = None \<and>
       cache' = cache((pid, bid) \<mapsto> c) \<and> m' = add_ref 1 (ci_ipc_meta c) m \<and>
       (\<forall>R. ledger cs R = Some (cached_res c + R)))"
proof (cases "cache (pid, bid)")
  case (Some c)
  with eq show ?thesis
    by (cases "check_uid_staleness m (ci_ipc_meta c) u") (auto simp: import_block_def Let_def)
next
  case None
  obtain p cs0 where om: "open_metadata e = (p, cs0)" by (cases "open_metadata e")
  then have l0: "ledger cs0 R = Some ({#} + (meta_res p + R))" for R
    using open_metadata_ledger [of e R] by simp
  obtain rfd cs1 where rc: "receive_fd_from_socket (im_recv e) path = (rfd, cs1)"
    by (cases "receive_fd_from_socket (im_recv e) path")
  obtain fd where fd: "rfd = Inr fd"
    using rc addr by (auto simp: receive_fd_from_socket_def Let_def split: if_splits option.splits)
  note unf = import_block_def Let_def None om rc fd
  show ?thesis
  proof (cases "check_uid_staleness m p u")
    case (Some x)
    with eq have "fail_import x False False False 0 0 p cs0 (cache, add_ref 1 p m) =
        (r, (cache', m'), cs)" by (simp add: unf)
    from fail_import_cleanup [OF l0 _ this] show ?thesis by simp
  next
    case fresh: None
    show ?thesis
    proof (cases "fd < 0")
      case True
      have l: "ledger (cs0 @ cs1) R = Some ({#} + (meta_res p + R))" for R
        using l0 [of R] receive_fd_ledger [of "im_recv e" path fd cs1] rc fd True
        by (simp add: ledger_append_Some)
      have "fail_import (CudaError (''Failed to receive VMM FD from socket: '' @ path))
          False False False 0 0 p (cs0 @ cs1) (cache, add_ref 1 p m) = (r, (cache', m'), cs)"
        using eq fresh True by (simp add: unf)
      from fail_import_cleanup [OF l _ this] show ?thesis by simp
    next
      case False
      have l: "ledger (cs0 @ cs1) R = Some (add_mset (Fd fd) (meta_res p + R))" for R
        using l0 [of R] receive_fd_ledger [of "im_recv e" path fd cs1] rc fd False
        by (simp add: ledger_append_Some)
      have "map_imported e (pid, bid) sz fd p (cs0 @ cs1) (cache, add_ref 1 p m) =
          (r, (cache', m'), cs)"
        using eq fresh False by (simp add: unf)
      from map_imported_outcome [OF l this] fresh None show ?thesis by auto
    qed
  qed
qed

text \<open>A cache hit needs no valid socket name.\<close>

lemma import_block_hit:
  assumes "cache (pid, bid) = Some c"
    and "import_block e path pid bid sz u (cache, m) = (Inr r, (cache', m'), cs)"
  shows "check_uid_staleness m (ci_ipc_meta c) u = None \<and>
    r = \<lparr>ir_va = ci_va c, ir_ipc_meta = ci_ipc_meta c\<rparr> \<and>
    cache' = cache((pid, bid) \<mapsto> c) \<and> m' = add_ref 1 (ci_ipc_meta c) m \<and> cs = []"
  using assms
  by (cases "check_uid_staleness m (ci_ipc_meta c) u")
     (auto simp: import_block_def Let_def fun_upd_idem)

text \<open>On a miss only a valid name can succeed.\<close>

lemma import_block_miss_addr:
  assumes "cache (pid, bid) = None"
    and "import_block e path pid bid sz u (cache, m) = (Inr r, st', cs)"
  shows "\<exists>a. make_abstract_unix_addr path = Inr a"
  using assms
  by (cases "make_abstract_unix_addr path")
     (auto simp: import_block_def Let_def fail_import_def receive_fd_from_socket_def split_beta
        split: option.splits if_splits)

text \<open>On a miss the import is of the segment that was opened.\<close>

lemma import_block_miss_segment:
  assumes "cache (pid, bid) = None"
    and "import_block e path pid bid sz u (cache, m) = (Inr r, st', cs)"
  shows "ir_ipc_meta r = fst (open_metadata e)"
proof -
  obtain p cs0 where om: "open_metadata e = (p, cs0)" by (cases "open_metadata e")
  obtain rfd cs1 where rc: "receive_fd_from_socket (im_recv e) path = (rfd, cs1)"
    by (cases "receive_fd_from_socket (im_recv e) path")
  obtain cc m0 where "st' = (cc, m0)" by (cases st')
  show ?thesis
    using assms
    by (auto simp: import_block_def Let_def om rc fail_import_def map_imported_def split_beta
        split: option.splits sum.splits if_splits)
qed

section \<open>Properties of the subscriber's side\<close>


text \<open>A sample environment: the segment 9 is attached, and only \<open>cuMemMap\<close> is refused.\<close>

definition sample_import_env :: "CUresult \<Rightarrow> import_env" where
  "sample_import_env r =
     \<lparr>im_shm_open = 3, im_mmap = Some 9,
      im_recv = \<lparr>rv_socket = 4, rv_connect = 0, rv_recvmsg = 1, rv_cmsg = Some 5\<rparr>,
      im_import = (CUDA_SUCCESS, 70), im_reserve = (CUDA_SUCCESS, 4096), im_map = r,
      im_device = (cudaSuccess, 0), im_access = CUDA_SUCCESS\<rparr>"

definition sample_meta :: meta_store where
  "sample_meta = (\<lambda>_. init_metadata\<lparr>uid := 77\<rparr>)"

lemmas import_eval =
  import_block_def map_imported_def fail_import_def cleanup_failed_import_def open_metadata_def
  receive_fd_from_socket_def make_abstract_unix_addr_def check_uid_staleness_def
  sample_import_env_def sample_meta_def init_metadata_def sun_path_size_def Let_def


text \<open>What a successful import returns and changes.\<close>

lemma import_succeeds:
  assumes "import_block e path pid bid sz u (cache, m) = (Inr r, (cache', m'), cs)"
  shows "m' = add_ref 1 (ir_ipc_meta r) m \<and> release_import (ir_ipc_meta r) m' = m \<and>
    (\<forall>s. ir_ipc_meta r = Some s \<longrightarrow> u = 0 \<or> uid (m s) = u) \<and>
    (\<exists>c. cache' = cache((pid, bid) \<mapsto> c) \<and> ci_va c = ir_va r \<and> ci_ipc_meta c = ir_ipc_meta r \<and>
       (if cache (pid, bid) = None then ledger cs R = Some (cached_res c + R)
        else cache (pid, bid) = Some c \<and> cs = []))"
proof (cases "cache (pid, bid)")
  case (Some c)
  from import_block_hit [OF this assms] Some show ?thesis
    by (auto simp: release_import_def check_uid_None)
next
  case None
  then obtain a where "make_abstract_unix_addr path = Inr a"
    using import_block_miss_addr assms by blast
  from import_block_outcome [OF this assms] None show ?thesis
    by (auto simp: release_import_def check_uid_None)
qed

text \<open>
  A successful import holds exactly one reference: it adds one to the reference count of
  the block it returns and changes no other metadata; the block carries the uid of the
  descriptor (unless the descriptor has none or the block has no metadata); the mapping is
  in the cache afterwards; the calls add exactly the mapping's resources on a cache miss and
  there are none on a hit; and the deleter of the imported buffer restores the metadata.
\<close>

theorem import_block_success:
  assumes "import_block e path pid bid sz u (cache, m) = (Inr r, (cache', m'), cs)"
  shows "m' = add_ref 1 (ir_ipc_meta r) m \<and> release_import (ir_ipc_meta r) m' = m \<and>
    (\<forall>s. ir_ipc_meta r = Some s \<longrightarrow> u = 0 \<or> uid (m s) = u) \<and>
    (\<exists>c. cache' = cache((pid, bid) \<mapsto> c) \<and> ci_va c = ir_va r \<and> ci_ipc_meta c = ir_ipc_meta r \<and>
       (if cache (pid, bid) = None then ledger cs R = Some (cached_res c + R)
        else cache (pid, bid) = Some c \<and> cs = []))"
  using assms by (rule import_succeeds)

theorem import_block_success_witness:
  "\<exists>r cache' m' cs.
     import_block (sample_import_env CUDA_SUCCESS) ''cuda_vmm_1_2'' 1 2 4096 77
       (Map.empty, sample_meta) = (Inr r, (cache', m'), cs) \<and>
     ir_ipc_meta r = Some 9 \<and> refcount (m' 9) = 1 \<and> release_import (Some 9) m' = sample_meta"
proof -
  obtain r cache' m' cs where
    eq: "import_block (sample_import_env CUDA_SUCCESS) ''cuda_vmm_1_2'' 1 2 4096 77
       (Map.empty, sample_meta) = (Inr r, (cache', m'), cs)" and r: "ir_ipc_meta r = Some 9"
    by (simp add: import_eval)
  from import_block_success [OF eq, of "{#}"] r
  have "m' = add_ref 1 (Some 9) sample_meta" "release_import (Some 9) m' = sample_meta" by auto
  then have "refcount (m' 9) = 1" by (simp add: sample_meta_def init_metadata_def)
  with eq r \<open>release_import (Some 9) m' = sample_meta\<close> show ?thesis by blast
qed



text \<open>
  The exception that escapes the cleanup: when the socket name of a descriptor is
  empty or longer than 107 bytes, \<open>receive_fd_from_socket\<close> throws instead of
  returning -1, so \<open>import_block\<close> leaves without \<open>cleanup_failed_import\<close>: the
  reference it took on the attached metadata is never given back, and the metadata mapping and
  the client socket stay open.
\<close>

theorem import_block_bad_name_leaks:
  assumes "path = [] \<or> 107 < length path" and "cache (pid, bid) = None"
    and "0 \<le> im_shm_open e" and "im_mmap e = Some s" and "u = 0 \<or> uid (m s) = u"
    and "0 \<le> rv_socket (im_recv e)"
  shows "\<exists>cs. import_block e path pid bid sz u (cache, m) =
      (Inl (CudaError ''Invalid abstract Unix socket name''), (cache, add_ref 1 (Some s) m), cs) \<and>
      ledger cs R = Some ({#Fd (rv_socket (im_recv e)), MetaMapping s#} + R)"
proof -
  have "make_abstract_unix_addr path = Inl (CudaError ''Invalid abstract Unix socket name'')"
    using assms(1) by (auto simp: make_abstract_unix_addr_def sun_path_size_def)
  moreover have "check_uid_staleness m (Some s) u = None"
    using assms(5) by (simp add: check_uid_None)
  ultimately show ?thesis
    using assms(2,3,4,6)
    by (simp add: import_block_def open_metadata_def receive_fd_from_socket_def Let_def)
qed

theorem import_block_bad_name_leaks_witness:
  "\<exists>cs. import_block (sample_import_env CUDA_SUCCESS) (replicate 108 (CHR ''a'')) 1 2 4096 77
       (Map.empty, sample_meta) =
     (Inl (CudaError ''Invalid abstract Unix socket name''),
      (Map.empty, add_ref 1 (Some 9) sample_meta), cs) \<and>
     ledger cs {#} = Some ({#Fd 4, MetaMapping 9#} + {#})"
  using import_block_bad_name_leaks [of "replicate 108 (CHR ''a'')" Map.empty 1 2
      "sample_import_env CUDA_SUCCESS" 9 77 sample_meta 4096 "{#}"]
  by (simp add: sample_import_env_def sample_meta_def)

end
