(* ===== verification/Free_Buckets.thy ===== *)
theory Free_Buckets
  imports Prelude
begin

text \<open>
  The free list of the memory pool is a \<open>std::map<size_t, std::vector<VmmBlock *>>\<close>: an
  ordered map from block size to the blocks of that size. The locale \<open>bucket_map\<close> says what
  the pool relies on: \<open>lower_bound\<close>, appending to a bucket (\<open>operator[]\<close> and \<open>push_back\<close>),
  and writing a bucket back (with \<open>erase\<close> when it is empty). The client's lemmas are about the
  set of all elements; the provider is an association list sorted by key.
\<close>

section \<open>The interface\<close>

locale bucket_map =
  fixes lb :: "'k::linorder \<Rightarrow> 'm \<Rightarrow> ('k \<times> 'x list) option"
    and push :: "'k \<Rightarrow> 'x \<Rightarrow> 'm \<Rightarrow> 'm"
    and store :: "'k \<Rightarrow> 'x list \<Rightarrow> 'm \<Rightarrow> 'm"
    and bkt :: "'m \<Rightarrow> 'k \<Rightarrow> 'x list"
    and ok :: "'m \<Rightarrow> bool"
  assumes push_ok: "ok m \<Longrightarrow> ok (push k x m)"
    and store_ok: "ok m \<Longrightarrow> ok (store k xs m)"
    and bkt_push: "ok m \<Longrightarrow> bkt (push k x m) j = (if j = k then bkt m k @ [x] else bkt m j)"
    and bkt_store: "ok m \<Longrightarrow> bkt (store k xs m) j = (if j = k then xs else bkt m j)"
    and lb_Some: "ok m \<Longrightarrow> lb k m = Some (j, xs) \<Longrightarrow>
          k \<le> j \<and> xs \<noteq> [] \<and> bkt m j = xs \<and> (\<forall>i. k \<le> i \<and> i < j \<longrightarrow> bkt m i = [])"
    and lb_None: "ok m \<Longrightarrow> lb k m = None \<Longrightarrow> k \<le> i \<Longrightarrow> bkt m i = []"
begin

definition elems :: "'m \<Rightarrow> 'x set" where
  "elems m = (\<Union>k. set (bkt m k))"

text \<open>Every element sits in the bucket of its key, once.\<close>

definition sized :: "('x \<Rightarrow> 'k) \<Rightarrow> 'm \<Rightarrow> bool" where
  "sized f m \<longleftrightarrow> (\<forall>k. distinct (bkt m k) \<and> (\<forall>x \<in> set (bkt m k). f x = k))"

lemma sized_elems: "sized f m \<Longrightarrow> x \<in> elems m \<longleftrightarrow> x \<in> set (bkt m (f x))"
  by (auto simp: sized_def elems_def)

lemma sized_cong: "sized f m \<Longrightarrow> (\<And>x. x \<in> elems m \<Longrightarrow> g x = f x) \<Longrightarrow> sized g m"
  by (fastforce simp: sized_def elems_def)

lemma push_elems: "ok m \<Longrightarrow> elems (push k x m) = insert x (elems m)"
  by (auto simp: elems_def bkt_push split: if_splits)

lemma push_sized: "ok m \<Longrightarrow> sized f m \<Longrightarrow> x \<notin> elems m \<Longrightarrow> sized f (push (f x) x m)"
  by (auto simp: sized_def elems_def bkt_push)

lemma take_sized:
  assumes "ok m" and "sized f m" and "lb k m = Some (j, xs)" and "i < length xs"
  shows "sized f (store j (swap_pop xs i) m)"
    and "elems (store j (swap_pop xs i) m) = elems m - {xs ! i}"
    and "xs ! i \<in> elems m" and "f (xs ! i) = j" and "k \<le> j"
proof -
  from lb_Some [OF assms(1,3)] have xs: "bkt m j = xs" "k \<le> j" by auto
  then have d: "distinct xs" and f: "\<And>x. x \<in> set xs \<Longrightarrow> f x = j"
    using assms(2) by (auto simp: sized_def)
  note s = distinct_swap_pop [OF assms(4) d]
  show "sized f (store j (swap_pop xs i) m)"
    using assms(1,2) s f by (auto simp: sized_def bkt_store)
  show fx: "f (xs ! i) = j" and "k \<le> j" using f xs assms(4) by auto
  have "bkt (store j (swap_pop xs i) m) l = (if l = j then swap_pop xs i else bkt m l)" for l
    using assms(1) by (rule bkt_store)
  moreover have "xs ! i \<notin> set (bkt m l)" if "l \<noteq> j" for l
    using assms(2) fx that by (auto simp: sized_def)
  ultimately show "elems (store j (swap_pop xs i) m) = elems m - {xs ! i}"
    using s(2) xs(1) by (auto simp: elems_def split: if_splits)
  show "xs ! i \<in> elems m" using xs(1) assms(4) nth_mem by (fastforce simp: elems_def)
qed

text \<open>\<open>lower_bound\<close> finds the smallest key that is large enough and in use.\<close>

lemma lb_best:
  assumes "ok m" and "sized f m" and "lb k m = Some (j, xs)" and "x \<in> elems m" and "k \<le> f x"
  shows "j \<le> f x" and "f x = j \<longleftrightarrow> x \<in> set xs"
proof -
  have x: "x \<in> set (bkt m (f x))" using assms(2,4) by (simp add: sized_elems)
  then have "bkt m (f x) \<noteq> []" by auto
  with lb_Some [OF assms(1,3)] assms(5) show "j \<le> f x" by (meson not_le)
  show "f x = j \<longleftrightarrow> x \<in> set xs"
    using x lb_Some [OF assms(1,3)] assms(2) unfolding sized_def by metis
qed

lemma lb_none_elems: "ok m \<Longrightarrow> sized f m \<Longrightarrow> lb k m = None \<Longrightarrow> x \<in> elems m \<Longrightarrow> f x < k"
  using lb_None [of m k "f x"] sized_elems [of f m x] by (auto simp: not_le [symmetric])

end

section \<open>The provider: an association list sorted by key\<close>

fun lower_bound :: "'k::linorder \<Rightarrow> ('k \<times> 'x list) list \<Rightarrow> ('k \<times> 'x list) option" where
  "lower_bound k [] = None"
| "lower_bound k ((j, xs) # m) = (if k \<le> j then Some (j, xs) else lower_bound k m)"

fun push_bucket :: "'k::linorder \<Rightarrow> 'x \<Rightarrow> ('k \<times> 'x list) list \<Rightarrow> ('k \<times> 'x list) list" where
  "push_bucket k x [] = [(k, [x])]"
| "push_bucket k x ((j, xs) # m) =
     (if k < j then (k, [x]) # (j, xs) # m
      else if k = j then (j, xs @ [x]) # m
      else (j, xs) # push_bucket k x m)"

fun write_bucket :: "'k::linorder \<Rightarrow> 'x list \<Rightarrow> ('k \<times> 'x list) list \<Rightarrow> ('k \<times> 'x list) list" where
  "write_bucket k ys [] = (if ys = [] then [] else [(k, ys)])"
| "write_bucket k ys ((j, xs) # m) =
     (if k < j then (if ys = [] then (j, xs) # m else (k, ys) # (j, xs) # m)
      else if k = j then (if ys = [] then m else (j, ys) # m)
      else (j, xs) # write_bucket k ys m)"

definition bucket :: "('k \<times> 'x list) list \<Rightarrow> 'k \<Rightarrow> 'x list" where
  "bucket m k = (case map_of m k of None \<Rightarrow> [] | Some xs \<Rightarrow> xs)"

definition sorted_buckets :: "('k::linorder \<times> 'x list) list \<Rightarrow> bool" where
  "sorted_buckets m \<longleftrightarrow> sorted_wrt (<) (map fst m) \<and> (\<forall>b \<in> set m. snd b \<noteq> [])"

lemma bucket_simps [simp]:
  "bucket [] k = []"
  "bucket ((j, xs) # m) k = (if k = j then xs else bucket m k)"
  by (simp_all add: bucket_def)

lemma sorted_buckets_simps [simp]:
  "sorted_buckets []"
  "sorted_buckets ((j, xs) # m) \<longleftrightarrow> xs \<noteq> [] \<and> (\<forall>k \<in> fst ` set m. j < k) \<and> sorted_buckets m"
  by (auto simp: sorted_buckets_def)

lemma bucket_absent: "k \<notin> fst ` set m \<Longrightarrow> bucket m k = []"
  by (simp add: bucket_def map_of_eq_None_iff [THEN iffD2])

lemma bucket_below:
  fixes m :: "('k::linorder \<times> 'x list) list"
  shows "\<forall>b \<in> set m. j < fst b \<Longrightarrow> k \<le> j \<Longrightarrow> bucket m k = []"
  by (rule bucket_absent) (auto dest!: bspec dest: leD)

lemma push_bucket_keys: "fst ` set (push_bucket k x m) = insert k (fst ` set m)"
  by (induction k x m rule: push_bucket.induct) auto

lemma write_bucket_keys: "fst ` set (write_bucket k ys m) \<subseteq> insert k (fst ` set m)"
  by (induction k ys m rule: write_bucket.induct) auto

lemma push_bucket_sorted: "sorted_buckets m \<Longrightarrow> sorted_buckets (push_bucket k x m)"
  by (induction k x m rule: push_bucket.induct) (auto simp: push_bucket_keys)

lemma write_bucket_sorted: "sorted_buckets m \<Longrightarrow> sorted_buckets (write_bucket k ys m)"
proof (induction k ys m rule: write_bucket.induct)
  case (2 k ys j xs m)
  have "j < i" if "\<not> k < j" "k \<noteq> j" "i \<in> fst ` set (write_bucket k ys m)" for i
  proof -
    from that(3) write_bucket_keys [of k ys m] have "i = k \<or> i \<in> fst ` set m" by blast
    then show ?thesis using that(1,2) "2.prems" by auto
  qed
  with 2 show ?case by auto
qed simp

lemma bucket_push:
  "sorted_buckets m \<Longrightarrow>
     bucket (push_bucket k x m) i = (if i = k then bucket m k @ [x] else bucket m i)"
  by (induction k x m rule: push_bucket.induct) (auto intro: bucket_below order.strict_implies_order)

lemma bucket_write:
  "sorted_buckets m \<Longrightarrow> bucket (write_bucket k ys m) i = (if i = k then ys else bucket m i)"
  by (induction k ys m rule: write_bucket.induct) (auto intro: bucket_below order.strict_implies_order)

lemma lower_bound_Some:
  "sorted_buckets m \<Longrightarrow> lower_bound k m = Some (j, xs) \<Longrightarrow>
     k \<le> j \<and> xs \<noteq> [] \<and> bucket m j = xs \<and> j \<in> fst ` set m \<and> (\<forall>i. k \<le> i \<and> i < j \<longrightarrow> bucket m i = [])"
proof (induction k m rule: lower_bound.induct)
  case (2 k l ys m)
  show ?case
  proof (cases "k \<le> l")
    case True
    with "2.prems" show ?thesis by (auto intro!: bucket_below [where j = l])
  next
    case False
    with 2 show ?thesis by auto
  qed
qed simp

lemma lower_bound_None: "lower_bound k m = None \<Longrightarrow> k \<le> i \<Longrightarrow> bucket m i = []"
  by (induction k m rule: lower_bound.induct) (auto split: if_splits)

interpretation fb: bucket_map lower_bound push_bucket write_bucket bucket sorted_buckets
proof unfold_locales
  show "lower_bound k m = None \<Longrightarrow> k \<le> i \<Longrightarrow> bucket m i = []"
    for m :: "('a \<times> 'b list) list" and k i by (rule lower_bound_None)
qed (auto simp: push_bucket_sorted write_bucket_sorted bucket_push bucket_write
    dest: lower_bound_Some)

end
