(* ===== verification/Memory_Pool.thy ===== *)
theory Memory_Pool
  imports Ipc_Manager Free_Buckets
begin

text \<open>
  \<open>CudaMemoryPool\<close> of \<open>cuda_memory_pool.hpp\<close> and \<open>cuda_memory_pool.cpp\<close>: the publisher's
  pool of CUDA VMM blocks. A \<open>VmmBlock *\<close> is the index of its block in
  \<open>all_blocks_\<close>, from which nothing is ever removed. An operation takes the answers
  of the calls it makes, the metadata store (shared with other processes) and the pool, and
  returns its result, the new store and pool, and the calls it made.
\<close>

section \<open>State\<close>

record cuda_pool =
  posix_handles :: bool \<comment> \<open>\<open>prop_.requestedHandleTypes\<close>: POSIX descriptors, or none\<close>
  granularity :: u64
  device_id :: int
  ipc_capable :: bool
  initialized :: bool
  next_block_id :: u32
  free_blocks :: "(u64 \<times> nat list) list"
  all_blocks :: "vmm_block list"
  pool_ipc :: "ipc_manager option"

definition empty_pool :: cuda_pool where
  "empty_pool =
     \<lparr>posix_handles = False, granularity = 0, device_id = 0, ipc_capable = False,
      initialized = False, next_block_id = 0, free_blocks = [], all_blocks = [],
      pool_ipc = None\<rparr>"

definition grace_period_us :: u64 where "grace_period_us = 100000"

section \<open>Creation\<close>

record probe_env =
  pr_create :: "CUresult \<times> u64"
  pr_export :: "CUresult \<times> int"

definition export_calls :: "int \<Rightarrow> call list" where
  "export_calls fd = (if fd \<ge> 0 then [OpenFd fd] else [])"

definition probe_vmm_ipc :: "probe_env \<Rightarrow> bool \<times> call list" where
  "probe_vmm_ipc e =
     (let (r, h) = pr_create e
      in if r \<noteq> CUDA_SUCCESS then (False, [])
         else let (r, fd) = pr_export e
      in (r = CUDA_SUCCESS,
          [CuMemCreate h] @ export_calls fd @ (if fd \<ge> 0 then [Close fd] else [])
            @ [CuMemRelease h]))"

record create_env =
  ce_init :: CUresult
  ce_device :: "cudaError_t \<times> int"
  ce_free :: cudaError_t
  ce_granularity :: "CUresult \<times> u64"
  ce_granularity_none :: "CUresult \<times> u64"
  ce_probe :: probe_env
  ce_dispatcher :: "int \<times> int \<times> int"

text \<open>
  \<open>create\<close>. The dispatcher that the new IPC manager holds is the process-wide one, made
  on demand; \<open>disp\<close> is the weak reference to it.
\<close>

definition create_pool ::
  "create_env \<Rightarrow> cuda_pool \<times> dispatcher option \<Rightarrow>
     CUresult \<times> (cuda_pool \<times> dispatcher option) \<times> call list" where
  "create_pool e st =
     (let (p, disp) = st
      in if initialized p then (CUDA_ERROR_ALREADY_ACQUIRED, st, [])
         else if ce_init e \<noteq> CUDA_SUCCESS then (ce_init e, st, [])
         else let (rt, dev) = ce_device e
      in if rt \<noteq> cudaSuccess then (CUDA_ERROR_INVALID_DEVICE, st, [])
         else let p1 = p\<lparr>device_id := dev\<rparr>
      in if ce_free e \<noteq> cudaSuccess \<and> ce_free e \<noteq> cudaErrorInvalidValue
         then (CUDA_ERROR_NOT_INITIALIZED, (p1, disp), [])
         else let (r, g) = ce_granularity e;
                  p2 = p1\<lparr>posix_handles := True, granularity := g\<rparr>
      in if r \<noteq> CUDA_SUCCESS \<or> g = 0 then
           (let (r', g') = ce_granularity_none e;
                p3 = p2\<lparr>posix_handles := False, granularity := g'\<rparr>
            in if r' \<noteq> CUDA_SUCCESS \<or> g' = 0 then (CUDA_ERROR_NOT_SUPPORTED, (p3, disp), [])
               else (CUDA_SUCCESS, (p3\<lparr>ipc_capable := False, initialized := True\<rparr>, disp), []))
         else
           (let (capable, cs) = probe_vmm_ipc (ce_probe e);
                p3 = p2\<lparr>ipc_capable := capable, posix_handles := capable\<rparr>
            in if capable then
                 (let (ep, ev, ctl) = ce_dispatcher e; (d, cs') = get_dispatcher ep ev ctl disp
                  in (CUDA_SUCCESS, (p3\<lparr>pool_ipc := Some [], initialized := True\<rparr>, Some d),
                      cs @ cs'))
               else (CUDA_SUCCESS, (p3\<lparr>initialized := True\<rparr>, disp), cs)))"

section \<open>Creating a block\<close>

record block_env =
  be_create :: "CUresult \<times> u64"
  be_reserve :: "CUresult \<times> u64"
  be_map :: CUresult
  be_access :: CUresult
  be_export :: "CUresult \<times> int"
  be_pid :: int
  be_shm_open :: int
  be_ftruncate :: int
  be_mmap :: "segment option"

text \<open>
  The metadata segment of a new block (lines 257 to 281): without it the block is still
  created. A mapped segment is initialised in place.
\<close>

definition attach_metadata ::
  "block_env \<Rightarrow> vmm_block \<Rightarrow> meta_store \<Rightarrow> vmm_block \<times> meta_store \<times> call list" where
  "attach_metadata e b m =
     (let shm_name = meta_shm_name (be_pid e) (vb_block_id b); shm_fd = be_shm_open e
      in if shm_fd < 0 then (b, m, [ShmUnlink shm_name])
         else if be_ftruncate e \<noteq> 0 then
           (b, m, [ShmUnlink shm_name, OpenFd shm_fd, Close shm_fd, ShmUnlink shm_name])
         else case be_mmap e of
             Some s \<Rightarrow>
               (b\<lparr>vb_ipc_meta := Some s, vb_shm_fd := shm_fd, vb_shm_name := shm_name\<rparr>,
                m(s := init_metadata), [ShmUnlink shm_name, OpenFd shm_fd, Mmap s])
           | None \<Rightarrow>
               (b, m, [ShmUnlink shm_name, OpenFd shm_fd, Close shm_fd, ShmUnlink shm_name]))"

definition export_block ::
  "bool \<Rightarrow> block_env \<Rightarrow> vmm_block \<Rightarrow> meta_store \<Rightarrow> vmm_block \<times> meta_store \<times> call list" where
  "export_block capable e b m =
     (if \<not> capable then (b, m, [])
      else
        (let (r, fd) = be_export e;
             b1 = (if r = CUDA_SUCCESS then b\<lparr>vb_exported_fd := fd\<rparr> else b);
             (b2, m', cs) = attach_metadata e b1 m
         in (b2, m', export_calls fd @ cs)))"

type_synonym pool_outcome = "(exn + nat) \<times> (meta_store \<times> cuda_pool) \<times> call list"

definition create_block :: "block_env \<Rightarrow> u64 \<Rightarrow> meta_store \<times> cuda_pool \<Rightarrow> pool_outcome" where
  "create_block e aligned_size st =
     (let (m, p) = st; b0 = new_block aligned_size (next_block_id p);
          p1 = p\<lparr>next_block_id := next_block_id p + 1\<rparr>;
          (r, h) = be_create e
      in if r \<noteq> CUDA_SUCCESS then (Inl (CudaDriverError ''cuMemCreate'' r), (m, p1), [])
         else let (r, va) = be_reserve e
      in if r \<noteq> CUDA_SUCCESS then
           (Inl (CudaDriverError ''cuMemAddressReserve'' r), (m, p1),
            [CuMemCreate h, CuMemRelease h])
         else if be_map e \<noteq> CUDA_SUCCESS then
           (Inl (CudaDriverError ''cuMemMap'' (be_map e)), (m, p1),
            [CuMemCreate h, CuMemAddressReserve va, CuMemAddressFree va, CuMemRelease h])
         else if be_access e \<noteq> CUDA_SUCCESS then
           (Inl (CudaDriverError ''cuMemSetAccess'' (be_access e)), (m, p1),
            [CuMemCreate h, CuMemAddressReserve va, CuMemMap va,
             CuMemUnmap va, CuMemAddressFree va, CuMemRelease h])
         else
           (let (b, m', cs) = export_block (ipc_capable p) e (b0\<lparr>vb_handle := h, vb_va := va\<rparr>) m
            in (Inr (length (all_blocks p)), (m', p1\<lparr>all_blocks := all_blocks p @ [b]\<rparr>),
                [CuMemCreate h, CuMemAddressReserve va, CuMemMap va] @ cs)))"

section \<open>Readiness, allocation, return\<close>

text \<open>
  \<open>is_block_ready\<close>, with \<open>now\<close> the reading of the steady clock it takes.
\<close>

definition is_block_ready :: "u64 \<Rightarrow> meta_store \<Rightarrow> vmm_block \<Rightarrow> bool" where
  "is_block_ready now m b =
     (case vb_ipc_meta b of
        None \<Rightarrow> True
      | Some s \<Rightarrow>
          if sint (refcount (m s)) > 0 then False
          else let publish_us = publish_timestamp_us (m s)
          in if publish_us = 0 then True
             else if now < publish_us then False
             else now - publish_us \<ge> grace_period_us)"

text \<open>
  \<open>round_to_granularity\<close>, in 64-bit arithmetic: before \<open>create\<close> has set the granularity
  the division traps.
\<close>

definition round_to_granularity :: "u64 \<Rightarrow> u64 \<Rightarrow> exn + u64" where
  "round_to_granularity g sz =
     (if g = 0 then Inl Division_trap else Inr (((sz + g - 1) div g) * g))"

text \<open>The scan of a bucket; \<open>clk i\<close> is the clock when the \<open>i\<close>-th block is looked at.\<close>

fun scan_ready ::
  "(nat \<Rightarrow> u64) \<Rightarrow> meta_store \<Rightarrow> vmm_block list \<Rightarrow> nat \<Rightarrow> nat list \<Rightarrow> nat option" where
  "scan_ready clk m blocks i [] = None"
| "scan_ready clk m blocks i (p # ps) =
     (if is_block_ready (clk i) m (blocks ! p) then Some i
      else scan_ready clk m blocks (Suc i) ps)"

text \<open>A block that is handed out again forgets its uid and its publication time.\<close>

definition reuse_block :: "nat \<Rightarrow> meta_store \<times> cuda_pool \<Rightarrow> meta_store \<times> cuda_pool" where
  "reuse_block i st =
     (let (m, p) = st; b = all_blocks p ! i
      in (case vb_ipc_meta b of
            None \<Rightarrow> m
          | Some s \<Rightarrow> m(s := (m s)\<lparr>publish_timestamp_us := 0\<rparr>),
          p\<lparr>all_blocks := (all_blocks p)[i := b\<lparr>vb_current_uid := 0\<rparr>]\<rparr>))"

definition allocate ::
  "(nat \<Rightarrow> u64) \<Rightarrow> block_env \<Rightarrow> u64 \<Rightarrow> meta_store \<times> cuda_pool \<Rightarrow> pool_outcome" where
  "allocate clk e byte_size st =
     (case round_to_granularity (granularity (snd st)) byte_size of
        Inl x \<Rightarrow> (Inl x, st, [])
      | Inr aligned \<Rightarrow>
          (let (m, p) = st
           in case lower_bound aligned (free_blocks p) of
                None \<Rightarrow> create_block e aligned st
              | Some (key, vec) \<Rightarrow>
                  (case scan_ready clk m (all_blocks p) 0 vec of
                     None \<Rightarrow> create_block e aligned st
                   | Some i \<Rightarrow>
                       (let p1 = p\<lparr>free_blocks := write_bucket key (swap_pop vec i) (free_blocks p)\<rparr>
                        in (Inr (vec ! i), reuse_block (vec ! i) (m, p1), [])))))"

text \<open>\<open>free\<close>, which is what the deleter of a block's buffer calls.\<close>

definition free_block :: "nat \<Rightarrow> cuda_pool \<Rightarrow> cuda_pool" where
  "free_block i p = p\<lparr>free_blocks := push_bucket (vb_size (all_blocks p ! i)) i (free_blocks p)\<rparr>"

text \<open>
  \<open>assign_uid\<close>, with \<open>rnd\<close> the number drawn (from 1 to \<open>UINT64_MAX\<close>) and
  \<open>now\<close> the clock: a block that has a uid keeps it.
\<close>

definition assign_uid ::
  "u64 \<Rightarrow> u64 \<Rightarrow> nat \<Rightarrow> meta_store \<times> cuda_pool \<Rightarrow> u64 \<times> (meta_store \<times> cuda_pool)" where
  "assign_uid rnd now i st =
     (let (m, p) = st; b = all_blocks p ! i
      in if vb_current_uid b \<noteq> 0 then (vb_current_uid b, st)
         else
           (rnd,
            (case vb_ipc_meta b of
               None \<Rightarrow> m
             | Some s \<Rightarrow> m(s := (m s)\<lparr>uid := rnd, publish_timestamp_us := now\<rparr>)),
            p\<lparr>all_blocks := (all_blocks p)[i := b\<lparr>vb_current_uid := rnd\<rparr>]\<rparr>))"

text \<open>\<open>find_block_for_va\<close>: the first block whose range holds the address.\<close>

definition va_in_block :: "u64 \<Rightarrow> vmm_block \<Rightarrow> bool" where
  "va_in_block va b \<longleftrightarrow> va \<ge> vb_va b \<and> va < vb_va b + vb_size b"

fun find_from :: "u64 \<Rightarrow> nat \<Rightarrow> vmm_block list \<Rightarrow> nat option" where
  "find_from va i [] = None"
| "find_from va i (b # bs) = (if va_in_block va b then Some i else find_from va (Suc i) bs)"

definition find_block_for_va :: "u64 \<Rightarrow> cuda_pool \<Rightarrow> nat option" where
  "find_block_for_va va p = find_from va 0 (all_blocks p)"

text \<open>\<open>register_block_for_ipc\<close>: the empty string when the block cannot be exported.\<close>

definition register_block_for_ipc ::
  "register_env \<Rightarrow> nat \<Rightarrow> cuda_pool \<times> dispatcher \<Rightarrow>
     (exn + string) \<times> (cuda_pool \<times> dispatcher) \<times> call list" where
  "register_block_for_ipc e i st =
     (let (p, d) = st; b = all_blocks p ! i
      in case pool_ipc p of
           None \<Rightarrow> (Inr [], st, [])
         | Some mgr \<Rightarrow>
             if \<not> ipc_capable p \<or> vb_exported_fd b < 0 then (Inr [], st, [])
             else (let (r, (d', mgr'), cs) = register_block e b (d, mgr)
                   in (r, (p\<lparr>pool_ipc := Some mgr'\<rparr>, d'), cs)))"

section \<open>Destruction\<close>

text \<open>
  The destructor polls until every block is ready. \<open>obs k\<close> is the metadata and the clock as the
  \<open>k\<close>-th round sees them; a wait that never ends is \<open>None\<close>.
\<close>

partial_function (option) wait_all_ready ::
  "(nat \<Rightarrow> meta_store \<times> u64) \<Rightarrow> vmm_block list \<Rightarrow> nat \<Rightarrow> nat option" where
  "wait_all_ready obs blocks k =
     (if list_all (is_block_ready (snd (obs k)) (fst (obs k))) blocks then Some k
      else wait_all_ready obs blocks (Suc k))"

definition release_block :: "vmm_block \<Rightarrow> call list" where
  "release_block b =
     (case vb_ipc_meta b of None \<Rightarrow> [] | Some s \<Rightarrow> [Munmap s])
       @ (if vb_shm_fd b \<ge> 0 then [Close (vb_shm_fd b), ShmUnlink (vb_shm_name b)] else [])
       @ (if vb_exported_fd b \<ge> 0 then [Close (vb_exported_fd b)] else [])
       @ (if vb_va b \<noteq> 0 then [CuMemUnmap (vb_va b), CuMemAddressFree (vb_va b)] else [])
       @ (if vb_handle b \<noteq> 0 then [CuMemRelease (vb_handle b)] else [])"

text \<open>
  After the body, the members are destroyed: the IPC manager takes its sockets out of the
  dispatcher, which is stopped when no other manager holds it (\<open>last_ref\<close>).
\<close>

definition destroy_pool ::
  "(nat \<Rightarrow> meta_store \<times> u64) \<Rightarrow> bool \<Rightarrow> cuda_pool \<times> dispatcher option \<Rightarrow>
     (dispatcher option \<times> call list) option" where
  "destroy_pool obs last_ref st =
     (let (p, disp) = st
      in case wait_all_ready obs (all_blocks p) 0 of
           None \<Rightarrow> None
         | Some k \<Rightarrow>
             (let cs = concat (map release_block (all_blocks p))
              in Some (case (pool_ipc p, disp) of
                   (Some mgr, Some d) \<Rightarrow>
                     (let ((d', _), cs') = destroy_manager (d, mgr)
                      in if last_ref then (None, cs @ cs' @ snd (stop_dispatcher d'))
                         else (Some d', cs @ cs'))
                 | _ \<Rightarrow> (disp, cs))))"

section \<open>Arithmetic of the pool\<close>

lemma round_to_granularity_fits:
  assumes "g \<noteq> 0" and "unat n + unat g \<le> 2 ^ 64"
  shows "round_to_granularity g n = Inr a \<longleftrightarrow>
    unat a = (unat n + unat g - 1) div unat g * unat g"
proof -
  have g: "0 < unat g" using assms(1) by (simp add: unat_gt_0)
  have "unat (g - 1) = unat g - 1" using assms(1) by (rule unat_minus_one)
  moreover have "n + g - 1 = n + (g - 1)" by simp
  ultimately have s: "unat (n + g - 1) = unat n + unat g - 1"
    using g assms(2) by (simp only: unat_add_fits)
  have "(unat n + unat g - 1) div unat g * unat g \<le> unat n + unat g - 1"
    by (rule div_times_less_eq_dividend)
  also have "\<dots> < 2 ^ 64" using assms(2) g by simp
  finally have "unat ((n + g - 1) div g * g) = (unat n + unat g - 1) div unat g * unat g"
    by (simp only: unat_mul_fits unat_div s)
  then show ?thesis
    using assms(1) by (auto simp: round_to_granularity_def word_unat_eq_iff)
qed

text \<open>What rounding up to a multiple means, on natural numbers.\<close>

lemma round_up_nat:
  fixes n g :: nat
  assumes "0 < g"
  shows "n \<le> (n + g - 1) div g * g" and "(n + g - 1) div g * g < n + g"
    and "g dvd k \<Longrightarrow> n \<le> k \<Longrightarrow> (n + g - 1) div g * g \<le> k"
proof -
  have m: "(n + g - 1) div g * g = n + g - 1 - (n + g - 1) mod g"
    by (simp add: minus_mod_eq_div_mult [symmetric])
  have "(n + g - 1) mod g < g" using assms by simp
  with m show "n \<le> (n + g - 1) div g * g" by linarith
  show "(n + g - 1) div g * g < n + g" using m assms by linarith
  assume "g dvd k" and "n \<le> k"
  then obtain q where q: "k = q * g" by (metis dvdE mult.commute)
  with \<open>n \<le> k\<close> assms have "(n + g - 1) div g \<le> (q * g + (g - 1)) div g"
    by (intro div_le_mono) simp
  also have "q * g + (g - 1) = (g - 1) + q * g" by (rule add.commute)
  also have "((g - 1) + q * g) div g = q"
    using assms div_mult_self1 [of g "g - 1" q] by (simp only: div_less)
  finally show "(n + g - 1) div g * g \<le> k" using q by simp
qed

section \<open>Invariant\<close>

definition free_set :: "cuda_pool \<Rightarrow> nat set" where
  "free_set p = fb.elems (free_blocks p)"

definition block_size :: "cuda_pool \<Rightarrow> nat \<Rightarrow> u64" where
  "block_size p i = vb_size (all_blocks p ! i)"

text \<open>
  The free list is well formed and holds pool blocks only, each in the bucket of its size and
  at most once.
\<close>

definition pool_inv :: "cuda_pool \<Rightarrow> bool" where
  "pool_inv p \<longleftrightarrow>
     sorted_buckets (free_blocks p) \<and> fb.sized (block_size p) (free_blocks p) \<and>
     free_set p \<subseteq> {..<length (all_blocks p)}"

text \<open>The blocks that are in somebody's hands.\<close>

definition handed_out :: "cuda_pool \<Rightarrow> nat set" where
  "handed_out p = {..<length (all_blocks p)} - free_set p"

lemma scan_ready_Some:
  "scan_ready clk m bs k ps = Some i \<Longrightarrow>
     k \<le> i \<and> i < k + length ps \<and> is_block_ready (clk i) m (bs ! (ps ! (i - k))) \<and>
     (\<forall>j. k \<le> j \<and> j < i \<longrightarrow> \<not> is_block_ready (clk j) m (bs ! (ps ! (j - k))))"
proof (induction ps arbitrary: k)
  case Nil
  then show ?case by simp
next
  case (Cons p ps)
  show ?case
  proof (cases "is_block_ready (clk k) m (bs ! p)")
    case True
    with Cons.prems show ?thesis by auto
  next
    case False
    with Cons.prems have "scan_ready clk m bs (Suc k) ps = Some i" by simp
    note IH = Cons.IH [OF this]
    have "\<not> is_block_ready (clk j) m (bs ! ((p # ps) ! (j - k)))" if "k \<le> j" "j < i" for j
      using that IH False by (cases "j = k") (auto simp: nth_Cons' Suc_diff_le)
    moreover have "k \<le> i \<and> i < k + length (p # ps) \<and>
        is_block_ready (clk i) m (bs ! ((p # ps) ! (i - k)))"
      using IH by (auto simp: nth_Cons')
    ultimately show ?thesis by blast
  qed
qed

lemma scan_ready_None:
  "scan_ready clk m bs k ps = None \<Longrightarrow> j < length ps \<Longrightarrow>
     \<not> is_block_ready (clk (k + j)) m (bs ! (ps ! j))"
proof (induction ps arbitrary: k j)
  case Nil
  then show ?case by simp
next
  case (Cons p ps)
  then show ?case
    by (cases j) (auto split: if_splits dest!: Cons.IH [of "Suc k"])
qed

lemma reuse_block_fields [simp]:
  "free_blocks (snd (reuse_block i (m, p))) = free_blocks p"
  "length (all_blocks (snd (reuse_block i (m, p)))) = length (all_blocks p)"
  "granularity (snd (reuse_block i (m, p))) = granularity p"
  "pool_ipc (snd (reuse_block i (m, p))) = pool_ipc p"
  by (simp_all add: reuse_block_def Let_def)

lemma reuse_block_size [simp]: "block_size (snd (reuse_block i (m, p))) = block_size p"
  by (cases "i < length (all_blocks p)")
     (auto simp: reuse_block_def block_size_def Let_def nth_list_update list_update_beyond fun_eq_iff)

lemma attach_metadata_size [simp]:
  "vb_size (fst (attach_metadata e b m)) = vb_size b"
  "vb_block_id (fst (attach_metadata e b m)) = vb_block_id b"
  "vb_handle (fst (attach_metadata e b m)) = vb_handle b"
  "vb_va (fst (attach_metadata e b m)) = vb_va b"
  "vb_exported_fd (fst (attach_metadata e b m)) = vb_exported_fd b"
  "vb_current_uid (fst (attach_metadata e b m)) = vb_current_uid b"
  by (simp_all add: attach_metadata_def Let_def split: option.split)

lemma export_block_size [simp]:
  "vb_size (fst (export_block c e b m)) = vb_size b"
  "vb_block_id (fst (export_block c e b m)) = vb_block_id b"
  "vb_handle (fst (export_block c e b m)) = vb_handle b"
  "vb_va (fst (export_block c e b m)) = vb_va b"
  "vb_current_uid (fst (export_block c e b m)) = vb_current_uid b"
  by (simp_all add: export_block_def Let_def split_beta)

text \<open>Creating a block: either it fails and only the id counter moves, or one block is appended.\<close>

lemma create_block_cases:
  assumes "create_block e sz (m, p) = (r, (m', p'), cs)"
  shows "(\<exists>x. r = Inl x \<and> m' = m \<and> p' = p\<lparr>next_block_id := next_block_id p + 1\<rparr> \<and>
      (\<forall>R. ledger cs R = Some R)) \<or>
    (\<exists>b cs'. r = Inr (length (all_blocks p)) \<and>
      fst (be_create e) = CUDA_SUCCESS \<and> fst (be_reserve e) = CUDA_SUCCESS \<and>
      export_block (ipc_capable p) e ((new_block sz (next_block_id p))
        \<lparr>vb_handle := snd (be_create e), vb_va := snd (be_reserve e)\<rparr>) m = (b, m', cs') \<and>
      p' = p\<lparr>next_block_id := next_block_id p + 1, all_blocks := all_blocks p @ [b]\<rparr> \<and>
      cs = [CuMemCreate (snd (be_create e)), CuMemAddressReserve (snd (be_reserve e)),
            CuMemMap (snd (be_reserve e))] @ cs')"
proof -
  let ?b = "(new_block sz (next_block_id p))\<lparr>vb_handle := snd (be_create e), vb_va := snd (be_reserve e)\<rparr>"
  obtain b m2 cs2 where "export_block (ipc_capable p) e ?b m = (b, m2, cs2)"
    by (cases "export_block (ipc_capable p) e ?b m")
  then show ?thesis
    using assms by (cases "be_create e"; cases "be_reserve e")
      (auto simp: create_block_def Let_def split: if_splits)
qed

lemma pool_inv_append:
  assumes "pool_inv p" and "free_blocks p' = free_blocks p" and "all_blocks p' = all_blocks p @ [b]"
  shows "pool_inv p'" and "free_set p' = free_set p"
    and "handed_out p' = insert (length (all_blocks p)) (handed_out p)"
    and "length (all_blocks p) \<notin> handed_out p"
proof -
  show f: "free_set p' = free_set p" using assms(2) by (simp add: free_set_def)
  have "block_size p' x = block_size p x" if "x \<in> free_set p" for x
    using that assms by (auto simp: pool_inv_def block_size_def nth_append)
  then have "fb.sized (block_size p') (free_blocks p')"
    using assms(1,2) by (auto simp: pool_inv_def free_set_def intro: fb.sized_cong)
  then show "pool_inv p'" using assms f by (auto simp: pool_inv_def)
  show "handed_out p' = insert (length (all_blocks p)) (handed_out p)"
    and "length (all_blocks p) \<notin> handed_out p"
    using assms(1,3) f by (auto simp: handed_out_def pool_inv_def)
qed

section \<open>Allocation and return\<close>

lemma allocate_cases:
  assumes "allocate clk e n (m, p) = (r, (m', p'), cs)"
  obtains (trap) "granularity p = 0" "r = Inl Division_trap" "m' = m" "p' = p" "cs = []"
  | (fresh) a where "round_to_granularity (granularity p) n = Inr a"
      "create_block e a (m, p) = (r, (m', p'), cs)"
      "case lower_bound a (free_blocks p) of None \<Rightarrow> True
       | Some (key, vec) \<Rightarrow> scan_ready clk m (all_blocks p) 0 vec = None"
  | (reused) a key vec i where "round_to_granularity (granularity p) n = Inr a"
      "lower_bound a (free_blocks p) = Some (key, vec)"
      "scan_ready clk m (all_blocks p) 0 vec = Some i" "r = Inr (vec ! i)" "cs = []"
      "(m', p') = reuse_block (vec ! i)
         (m, p\<lparr>free_blocks := write_bucket key (swap_pop vec i) (free_blocks p)\<rparr>)"
proof (cases "round_to_granularity (granularity p) n")
  case (Inl x)
  then have "granularity p = 0" and "x = Division_trap"
    by (auto simp: round_to_granularity_def split: if_splits)
  with Inl assms show ?thesis by (intro trap) (auto simp: allocate_def)
next
  case (Inr a)
  show ?thesis
  proof (cases "lower_bound a (free_blocks p)")
    case None
    with Inr assms show ?thesis by (intro fresh [of a]) (auto simp: allocate_def)
  next
    case (Some kv)
    obtain key vec where kv: "kv = (key, vec)" by force
    show ?thesis
    proof (cases "scan_ready clk m (all_blocks p) 0 vec")
      case None
      with Inr Some kv assms show ?thesis by (intro fresh [of a]) (auto simp: allocate_def)
    next
      case (Some i)
      with Inr \<open>lower_bound a (free_blocks p) = Some kv\<close> kv assms show ?thesis
        by (intro reused [of a key vec i]) (auto simp: allocate_def)
    qed
  qed
qed

text \<open>What the pool does when it reuses a block of the bucket that \<open>lower_bound\<close> found.\<close>

lemma reuse_step:
  assumes inv: "pool_inv p" and lb: "lower_bound a (free_blocks p) = Some (key, vec)"
    and i: "i < length vec"
    and p': "p' = snd (reuse_block (vec ! i)
         (m, p\<lparr>free_blocks := write_bucket key (swap_pop vec i) (free_blocks p)\<rparr>))"
  shows "pool_inv p'" and "vec ! i \<in> free_set p" and "free_set p' = free_set p - {vec ! i}"
    and "handed_out p' = insert (vec ! i) (handed_out p)"
    and "block_size p' (vec ! i) = key" and "a \<le> key"
    and "j \<in> free_set p \<Longrightarrow> a \<le> block_size p j \<Longrightarrow> key \<le> block_size p j"
proof -
  let ?q = "p\<lparr>free_blocks := write_bucket key (swap_pop vec i) (free_blocks p)\<rparr>"
  have s: "sorted_buckets (free_blocks p)" "fb.sized (block_size p) (free_blocks p)"
    and sub: "free_set p \<subseteq> {..<length (all_blocks p)}"
    using inv by (auto simp: pool_inv_def)
  note t = fb.take_sized [OF s lb i]
  have f: "free_blocks p' = write_bucket key (swap_pop vec i) (free_blocks p)"
    and len: "length (all_blocks p') = length (all_blocks p)"
    and sz: "block_size p' = block_size ?q" using p' by simp_all
  have szq: "block_size ?q = block_size p" by (simp add: block_size_def fun_eq_iff)
  show mem: "vec ! i \<in> free_set p" using t(3) by (simp add: free_set_def)
  show fs: "free_set p' = free_set p - {vec ! i}" using t(2) f by (simp add: free_set_def)
  show "pool_inv p'"
    unfolding pool_inv_def
    using t(1) fs f len sz szq sub write_bucket_sorted [OF s(1)] by auto
  show "handed_out p' = insert (vec ! i) (handed_out p)"
    using fs len mem sub by (auto simp: handed_out_def)
  show "block_size p' (vec ! i) = key" and "a \<le> key" using t(4,5) sz szq by simp_all
  assume "j \<in> free_set p" and "a \<le> block_size p j"
  then show "key \<le> block_size p j" using fb.lb_best(1) [OF s lb] by (simp add: free_set_def)
qed

lemma create_block_inv:
  assumes "pool_inv p" and "create_block e a (m, p) = (r, (m', p'), cs)"
  shows "pool_inv p'" and "free_set p' = free_set p"
    and "r = Inl x \<Longrightarrow> handed_out p' = handed_out p \<and> m' = m \<and> all_blocks p' = all_blocks p \<and>
           ledger cs R = Some R"
    and "r = Inr i \<Longrightarrow> i \<notin> handed_out p \<and> i = length (all_blocks p) \<and>
           handed_out p' = insert i (handed_out p) \<and> block_size p' i = a"
proof -
  consider (f) x where "r = Inl x" "m' = m" "p' = p\<lparr>next_block_id := next_block_id p + 1\<rparr>"
      "\<And>R. ledger cs R = Some R"
    | (s) b cs' where "r = Inr (length (all_blocks p))"
      "export_block (ipc_capable p) e ((new_block a (next_block_id p))
        \<lparr>vb_handle := snd (be_create e), vb_va := snd (be_reserve e)\<rparr>) m = (b, m', cs')"
      "p' = p\<lparr>next_block_id := next_block_id p + 1, all_blocks := all_blocks p @ [b]\<rparr>"
    using create_block_cases [OF assms(2)] by blast
  note c = this
  show "pool_inv p'"
  proof (cases rule: c)
    case f
    with assms(1) show ?thesis by (simp add: pool_inv_def free_set_def block_size_def [abs_def])
  next
    case s
    with pool_inv_append(1) [OF assms(1), of p' b] show ?thesis by simp
  qed
  show "free_set p' = free_set p"
    by (cases rule: c) (simp_all add: free_set_def)
  show "r = Inl x \<Longrightarrow> handed_out p' = handed_out p \<and> m' = m \<and> all_blocks p' = all_blocks p \<and>
      ledger cs R = Some R"
    by (cases rule: c) (simp_all add: handed_out_def free_set_def)
  assume r: "r = Inr i"
  show "i \<notin> handed_out p \<and> i = length (all_blocks p) \<and>
      handed_out p' = insert i (handed_out p) \<and> block_size p' i = a"
  proof (cases rule: c)
    case f
    with r show ?thesis by simp
  next
    case s
    have "vb_size (fst (b, m', cs')) = a" unfolding s(2) [symmetric] by (simp add: new_block_def)
    then have "vb_size b = a" by simp
    with s r pool_inv_append(3,4) [OF assms(1), of p' b] show ?thesis
      by (simp add: block_size_def)
  qed
qed

text \<open>The whole of \<open>allocate\<close> seen by the ownership of blocks.\<close>

lemma allocate_step:
  assumes "pool_inv p" and "allocate clk e n (m, p) = (r, (m', p'), cs)"
  shows "pool_inv p'"
    and "r = Inl x \<Longrightarrow> handed_out p' = handed_out p \<and> m' = m \<and> all_blocks p' = all_blocks p \<and>
           free_set p' = free_set p \<and> ledger cs R = Some R"
    and "r = Inr i \<Longrightarrow> i \<notin> handed_out p \<and> handed_out p' = insert i (handed_out p) \<and>
           (\<forall>a. round_to_granularity (granularity p) n = Inr a \<longrightarrow> a \<le> block_size p' i)"
proof -
  note inv = assms(1)
  have A: "pool_inv p' \<and>
    (\<forall>x. r = Inl x \<longrightarrow> handed_out p' = handed_out p \<and> m' = m \<and> all_blocks p' = all_blocks p \<and>
           free_set p' = free_set p \<and> ledger cs R = Some R) \<and>
    (\<forall>i. r = Inr i \<longrightarrow> i \<notin> handed_out p \<and> handed_out p' = insert i (handed_out p) \<and>
           (\<forall>a. round_to_granularity (granularity p) n = Inr a \<longrightarrow> a \<le> block_size p' i))"
    using assms(2)
  proof (cases rule: allocate_cases)
    case trap
    then show ?thesis using inv by simp
  next
    case (fresh a)
    note c = create_block_inv [OF inv fresh(2)]
    show ?thesis using c fresh(1) by auto
  next
    case (reused a key vec i)
    have i: "i < length vec" using scan_ready_Some [OF reused(3)] by simp
    have p': "p' = snd (reuse_block (vec ! i)
         (m, p\<lparr>free_blocks := write_bucket key (swap_pop vec i) (free_blocks p)\<rparr>))"
      using reused(6) by (metis snd_conv)
    note s = reuse_step [OF inv reused(2) i p']
    have "vec ! i \<notin> handed_out p" using s(2) by (simp add: handed_out_def)
    with s reused(1,4) show ?thesis by auto
  qed
  from A show "pool_inv p'" by blast
  from A show "r = Inl x \<Longrightarrow> handed_out p' = handed_out p \<and> m' = m \<and>
      all_blocks p' = all_blocks p \<and> free_set p' = free_set p \<and> ledger cs R = Some R" by blast
  from A show "r = Inr i \<Longrightarrow> i \<notin> handed_out p \<and> handed_out p' = insert i (handed_out p) \<and>
      (\<forall>a. round_to_granularity (granularity p) n = Inr a \<longrightarrow> a \<le> block_size p' i)" by blast
qed

lemma free_block_step:
  assumes "pool_inv p" and "i \<in> handed_out p"
  shows "pool_inv (free_block i p)" and "free_set (free_block i p) = insert i (free_set p)"
    and "handed_out (free_block i p) = handed_out p - {i}"
proof -
  have s: "sorted_buckets (free_blocks p)" "fb.sized (block_size p) (free_blocks p)"
    and i: "i \<notin> fb.elems (free_blocks p)" "i < length (all_blocks p)"
    using assms by (auto simp: pool_inv_def handed_out_def free_set_def)
  have eq: "free_block i p = p\<lparr>free_blocks := push_bucket (block_size p i) i (free_blocks p)\<rparr>"
    by (simp add: free_block_def block_size_def)
  show f: "free_set (free_block i p) = insert i (free_set p)"
    using fb.push_elems [OF s(1)] by (simp add: eq free_set_def)
  have "block_size (free_block i p) = block_size p" by (simp add: eq block_size_def fun_eq_iff)
  then show "pool_inv (free_block i p)"
    using fb.push_sized [OF s i(1)] push_bucket_sorted [OF s(1)] f assms(1) i(2)
    by (simp add: pool_inv_def eq)
  show "handed_out (free_block i p) = handed_out p - {i}"
    using f by (auto simp: handed_out_def eq)
qed

lemma assign_uid_frame:
  assumes "assign_uid rnd now i (m, p) = (u, (m', p'))"
  shows "free_blocks p' = free_blocks p" and "length (all_blocks p') = length (all_blocks p)"
    and "block_size p' = block_size p" and "pool_ipc p' = pool_ipc p"
  using assms
  by (cases "i < length (all_blocks p)";
      auto simp: assign_uid_def Let_def block_size_def nth_list_update list_update_beyond
      split: if_splits)+

end
