(* ===== verification/Cuda_Buffer.thy ===== *)
theory Cuda_Buffer
  imports Memory_Pool
begin

text \<open>
  \<open>CudaBuffer\<close> of \<open>cuda_buffer.hpp\<close> and \<open>cuda_buffer.cpp\<close>, its \<open>ReadHandle\<close> and
  \<open>WriteHandle\<close> of \<open>cuda_buffer_handle.hpp\<close>, and the recycler that frees a buffer's storage
  once the work recorded on it is done. Handles point into the buffer they were taken from, so buffers
  and the shared \<open>HandleState\<close> objects are kept in stores and pointers are their addresses. A
  stream or event is a number, 0 being \<open>nullptr\<close>.
\<close>

section \<open>Calls to the CUDA runtime\<close>

text \<open>
  What the code asks of CUDA, in order; a call that fails leaves no mark, and of
  \<open>cudaEventQuery\<close> only the answer that the event is complete does. The last call is the run of a
  buffer's deleter on its pointer.
\<close>

datatype memcpy_kind = HostToDevice | DeviceToDevice | DeviceToHost

datatype work = Kernel nat | Copy u64 u64 u64 memcpy_kind

datatype deleter = Default_Cuda_Free | Pool_Free nat | Drop_Import "segment option"

datatype gpu_call =
    EventCreate nat
  | EventRecord nat nat
  | StreamWaitEvent nat nat
  | EventComplete nat
  | EventSynchronize nat
  | EventDestroy nat
  | StreamWork nat work
  | StreamSynchronize nat
  | Deleted deleter u64

text \<open>
  The order that the CUDA documentation promises for these calls. A piece of work is named by its
  position in the trace. An event captures what precedes the next work of its stream when it is
  recorded; a stream that waits for an event puts that before its next work; waiting for
  an event on the host, or learning that it is complete, tells that what it captured is done.
  The implicit synchronisation of the default stream is not part of it.
\<close>

record gpu_view =
  gv_next :: nat
  gv_before :: "nat \<Rightarrow> nat set"
  gv_event :: "nat \<Rightarrow> nat set"
  gv_done :: "nat set"

definition empty_view :: gpu_view where
  "empty_view = \<lparr>gv_next = 0, gv_before = (\<lambda>_. {}), gv_event = (\<lambda>_. {}), gv_done = {}\<rparr>"

fun gpu_step :: "gpu_call \<Rightarrow> gpu_view \<Rightarrow> gpu_view" where
  "gpu_step (StreamWork s w) v =
     v\<lparr>gv_next := gv_next v + 1,
       gv_before := (gv_before v)(s := insert (gv_next v) (gv_before v s))\<rparr>"
| "gpu_step (EventRecord ev s) v =
     v\<lparr>gv_next := gv_next v + 1, gv_event := (gv_event v)(ev := gv_before v s)\<rparr>"
| "gpu_step (StreamWaitEvent s ev) v =
     v\<lparr>gv_next := gv_next v + 1, gv_before := (gv_before v)(s := gv_before v s \<union> gv_event v ev)\<rparr>"
| "gpu_step (EventComplete ev) v =
     v\<lparr>gv_next := gv_next v + 1, gv_done := gv_done v \<union> gv_event v ev\<rparr>"
| "gpu_step (EventSynchronize ev) v =
     v\<lparr>gv_next := gv_next v + 1, gv_done := gv_done v \<union> gv_event v ev\<rparr>"
| "gpu_step (StreamSynchronize s) v =
     v\<lparr>gv_next := gv_next v + 1, gv_done := gv_done v \<union> gv_before v s\<rparr>"
| "gpu_step _ v = v\<lparr>gv_next := gv_next v + 1\<rparr>"

definition gpu_run :: "gpu_call list \<Rightarrow> gpu_view" where
  "gpu_run tr = fold gpu_step tr empty_view"

text \<open>The answers that the runtime gives during one operation.\<close>

record gpu_env =
  ge_stream :: "nat \<Rightarrow> cudaError_t"  \<comment> \<open>\<open>cudaStreamQuery\<close>\<close>
  ge_query :: "nat \<Rightarrow> cudaError_t"   \<comment> \<open>\<open>cudaEventQuery\<close>\<close>
  ge_create :: "cudaError_t \<times> nat"
  ge_record :: cudaError_t
  ge_wait :: cudaError_t
  ge_sync :: "nat \<Rightarrow> cudaError_t"    \<comment> \<open>\<open>cudaEventSynchronize\<close>\<close>

definition cuda_is_stream_usable :: "gpu_env \<Rightarrow> nat \<Rightarrow> bool" where
  "cuda_is_stream_usable e s \<longleftrightarrow>
     s \<noteq> 0 \<and> (ge_stream e s = cudaSuccess \<or> ge_stream e s = cudaErrorNotReady)"

section \<open>State\<close>

datatype write_state = Unset | InUse | Finalized

record handle_state =
  hs_state :: write_state
  hs_write_stream :: nat

record cuda_buffer =
  cb_ptr :: u64
  cb_deleter :: deleter
  cb_size :: u64
  cb_device_id :: int
  cb_write_event :: nat
  cb_owns_write_event :: bool
  cb_read_events :: "nat list"
  cb_handle_state :: "nat option"
  cb_recycler :: bool

definition empty_buffer :: cuda_buffer where
  "empty_buffer = \<lparr>cb_ptr = 0, cb_deleter = Default_Cuda_Free, cb_size = 0, cb_device_id = 0,
     cb_write_event = 0, cb_owns_write_event = False, cb_read_events = [], cb_handle_state = None,
     cb_recycler = False\<rparr>"

text \<open>The constructor from a pointer, which takes hold of the recycler.\<close>

definition make_buffer :: "u64 \<Rightarrow> u64 \<Rightarrow> int \<Rightarrow> deleter \<Rightarrow> cuda_buffer" where
  "make_buffer ptr sz dev d =
     empty_buffer\<lparr>cb_ptr := ptr, cb_deleter := d, cb_size := sz, cb_device_id := dev, cb_recycler := True\<rparr>"

definition set_write_event :: "nat \<Rightarrow> bool \<Rightarrow> cuda_buffer \<Rightarrow> cuda_buffer" where
  "set_write_event ev owns b = b\<lparr>cb_write_event := ev, cb_owns_write_event := owns\<rparr>"

record pending_work =
  pw_events :: "nat list"
  pw_ptr :: u64
  pw_deleter :: deleter

record cuda_state =
  cs_buffer :: "nat \<Rightarrow> cuda_buffer"
  cs_handle_state :: "nat \<Rightarrow> handle_state"
  cs_next :: nat \<comment> \<open>the next address for a \<open>HandleState\<close>\<close>
  cs_queue :: "pending_work list"
  cs_meta :: meta_store
  cs_pool :: cuda_pool
  cs_trace :: "gpu_call list"

record read_handle =
  rh_ptr :: u64
  rh_events :: "nat option" \<comment> \<open>the buffer whose list of read events it points to\<close>
  rh_stream :: nat
  rh_promoted :: "nat option"

record write_handle =
  wh_ptr :: u64
  wh_event :: "nat option" \<comment> \<open>the buffer whose write event it points to\<close>
  wh_stream :: nat
  wh_state :: "nat option"
  wh_promoted :: "nat option"

definition gpu :: "gpu_call list \<Rightarrow> cuda_state \<Rightarrow> cuda_state" where
  "gpu cs st = st\<lparr>cs_trace := cs_trace st @ cs\<rparr>"

definition upd_buffer :: "nat \<Rightarrow> (cuda_buffer \<Rightarrow> cuda_buffer) \<Rightarrow> cuda_state \<Rightarrow> cuda_state" where
  "upd_buffer b f st = st\<lparr>cs_buffer := (cs_buffer st)(b := f (cs_buffer st b))\<rparr>"

definition upd_handle_state ::
  "nat \<Rightarrow> write_state \<Rightarrow> nat \<Rightarrow> cuda_state \<Rightarrow> cuda_state" where
  "upd_handle_state h s ws st =
     st\<lparr>cs_handle_state := (cs_handle_state st)(h := \<lparr>hs_state = s, hs_write_stream = ws\<rparr>)\<rparr>"

section \<open>Deleting storage\<close>

text \<open>
  The three deleters that buffers are made with: \<open>default_cuda_free\<close>, the pool's, and the one of
  an imported block, which gives up the reference. As a \<open>unique_ptr\<close> does, nothing is done for
  a null pointer.
\<close>

definition run_deleter :: "deleter \<Rightarrow> u64 \<Rightarrow> cuda_state \<Rightarrow> cuda_state" where
  "run_deleter d p st =
     (if p = 0 then st
      else gpu [Deleted d p]
        (case d of
           Default_Cuda_Free \<Rightarrow> st
         | Pool_Free i \<Rightarrow> st\<lparr>cs_pool := free_block i (cs_pool st)\<rparr>
         | Drop_Import s \<Rightarrow> st\<lparr>cs_meta := release_import s (cs_meta st)\<rparr>))"

text \<open>One turn of the recycler's loop on the oldest pending work.\<close>

definition sync_calls :: "gpu_env \<Rightarrow> nat \<Rightarrow> gpu_call list" where
  "sync_calls e ev =
     (if ev = 0 then []
      else (if ge_sync e ev = cudaSuccess then [EventSynchronize ev] else []) @ [EventDestroy ev])"

definition recycle :: "gpu_env \<Rightarrow> cuda_state \<Rightarrow> cuda_state" where
  "recycle e st =
     (case cs_queue st of
        [] \<Rightarrow> st
      | w # ws \<Rightarrow>
          run_deleter (pw_deleter w) (pw_ptr w)
            (gpu (concat (map (sync_calls e) (pw_events w))) (st\<lparr>cs_queue := ws\<rparr>)))"

definition enqueue :: "nat list \<Rightarrow> u64 \<Rightarrow> deleter \<Rightarrow> cuda_state \<Rightarrow> cuda_state" where
  "enqueue evs p d st =
     st\<lparr>cs_queue := cs_queue st @ [\<lparr>pw_events = evs, pw_ptr = p, pw_deleter = d\<rparr>]\<rparr>"

text \<open>
  The destructor, on the buffer's last value; storage that is not handed to the
  recycler is deleted with the members.
\<close>

definition events_to_sync :: "cuda_buffer \<Rightarrow> nat list" where
  "events_to_sync b =
     (if cb_owns_write_event b \<and> cb_write_event b \<noteq> 0 then [cb_write_event b] else []) @ cb_read_events b"

definition destroy_value :: "cuda_buffer \<Rightarrow> cuda_state \<Rightarrow> cuda_state" where
  "destroy_value b st =
     (if events_to_sync b \<noteq> [] \<and> cb_recycler b
      then enqueue (events_to_sync b) (cb_ptr b) (cb_deleter b) st
      else run_deleter (cb_deleter b) (cb_ptr b) st)"

definition destroy_buffer :: "nat \<Rightarrow> cuda_state \<Rightarrow> cuda_state" where
  "destroy_buffer b st = upd_buffer b (\<lambda>_. empty_buffer) (destroy_value (cs_buffer st b) st)"

text \<open>
  \<open>buffer = CudaBuffer(...)\<close>: the move assignment swaps, and the temporary that now has the
  old value is destroyed.
\<close>

definition assign_buffer :: "nat \<Rightarrow> cuda_buffer \<Rightarrow> cuda_state \<Rightarrow> cuda_state" where
  "assign_buffer b new st = destroy_value (cs_buffer st b) (upd_buffer b (\<lambda>_. new) st)"

section \<open>Handles\<close>

text \<open>\<open>ReadHandle\<close>: its constructor and \<open>release\<close>, the body of its destructor.\<close>

definition make_read_handle ::
  "gpu_env \<Rightarrow> nat \<Rightarrow> nat \<Rightarrow> cuda_state \<Rightarrow> (exn + read_handle) \<times> cuda_state" where
  "make_read_handle e b s st =
     (let write_event = cb_write_event (cs_buffer st b);
          rh = \<lparr>rh_ptr = cb_ptr (cs_buffer st b), rh_events = Some b, rh_stream = s, rh_promoted = None\<rparr>
      in if write_event \<noteq> 0 \<and> s \<noteq> 0 then
           if ge_wait e \<noteq> cudaSuccess
           then (Inl (CudaRuntimeError ''cudaStreamWaitEvent(stream_, write_event, 0)'' (ge_wait e)), st)
           else (Inr rh, gpu [StreamWaitEvent s write_event] st)
         else (Inr rh, st))"

definition read_release :: "gpu_env \<Rightarrow> read_handle \<Rightarrow> cuda_state \<Rightarrow> cuda_state" where
  "read_release e rh st =
     (case rh_events rh of
        None \<Rightarrow> st
      | Some b \<Rightarrow>
          if \<not> cuda_is_stream_usable e (rh_stream rh) then st
          else (let (r, ev) = ge_create e
                in if r \<noteq> cudaSuccess then st
                   else if ge_record e \<noteq> cudaSuccess then gpu [EventCreate ev, EventDestroy ev] st
                   else upd_buffer b (\<lambda>x. x\<lparr>cb_read_events := cb_read_events x @ [ev]\<rparr>)
                          (gpu [EventCreate ev, EventRecord ev (rh_stream rh)] st)))"

definition write_release :: "gpu_env \<Rightarrow> write_handle \<Rightarrow> cuda_state \<Rightarrow> cuda_state" where
  "write_release e wh st =
     (case wh_state wh of
        None \<Rightarrow> st
      | Some h \<Rightarrow>
          if hs_state (cs_handle_state st h) = Finalized then st
          else (let ws = (if hs_write_stream (cs_handle_state st h) \<noteq> 0
                          then hs_write_stream (cs_handle_state st h) else wh_stream wh);
                    ev = (case wh_event wh of None \<Rightarrow> 0 | Some b \<Rightarrow> cb_write_event (cs_buffer st b))
                in upd_handle_state h Finalized 0
                     (if cuda_is_stream_usable e ws \<and> ev \<noteq> 0 \<and> ge_record e = cudaSuccess
                      then gpu [EventRecord ev ws] st else st)))"

text \<open>
  The end of a handle: \<open>release\<close>, and then its share of the promoted buffer is given up, which ends
  that buffer when no other shared pointer (\<open>last_ref\<close>) keeps it.
\<close>

definition drop_promoted :: "bool \<Rightarrow> nat option \<Rightarrow> cuda_state \<Rightarrow> cuda_state" where
  "drop_promoted last_ref p st =
     (case p of None \<Rightarrow> st | Some b \<Rightarrow> if last_ref then destroy_buffer b st else st)"

definition destroy_read_handle :: "gpu_env \<Rightarrow> bool \<Rightarrow> read_handle \<Rightarrow> cuda_state \<Rightarrow> cuda_state" where
  "destroy_read_handle e last_ref rh st = drop_promoted last_ref (rh_promoted rh) (read_release e rh st)"

definition destroy_write_handle :: "gpu_env \<Rightarrow> bool \<Rightarrow> write_handle \<Rightarrow> cuda_state \<Rightarrow> cuda_state" where
  "destroy_write_handle e last_ref wh st = drop_promoted last_ref (wh_promoted wh) (write_release e wh st)"

text \<open>
  The move assignments, between different handles: what the target and the source become. The target
  ends its old life first.
\<close>

definition moved_read :: read_handle where
  "moved_read = \<lparr>rh_ptr = 0, rh_events = None, rh_stream = 0, rh_promoted = None\<rparr>"

definition moved_write :: write_handle where
  "moved_write = \<lparr>wh_ptr = 0, wh_event = None, wh_stream = 0, wh_state = None, wh_promoted = None\<rparr>"

definition assign_read ::
  "gpu_env \<Rightarrow> bool \<Rightarrow> read_handle \<Rightarrow> read_handle \<Rightarrow> cuda_state \<Rightarrow>
     (read_handle \<times> read_handle) \<times> cuda_state" where
  "assign_read e last_ref this other st = ((other, moved_read), destroy_read_handle e last_ref this st)"

definition assign_write ::
  "gpu_env \<Rightarrow> bool \<Rightarrow> write_handle \<Rightarrow> write_handle \<Rightarrow> cuda_state \<Rightarrow>
     (write_handle \<times> write_handle) \<times> cuda_state" where
  "assign_write e last_ref this other st = ((other, moved_write), destroy_write_handle e last_ref this st)"

section \<open>Operations of the buffer\<close>

definition reap_completed_read_events :: "gpu_env \<Rightarrow> nat \<Rightarrow> cuda_state \<Rightarrow> cuda_state" where
  "reap_completed_read_events e b st =
     (let evs = cb_read_events (cs_buffer st b)
      in upd_buffer b (\<lambda>x. x\<lparr>cb_read_events := filter (\<lambda>ev. ge_query e ev \<noteq> cudaSuccess) evs\<rparr>)
           (gpu (concat (map (\<lambda>ev. [EventComplete ev, EventDestroy ev])
              (filter (\<lambda>ev. ge_query e ev = cudaSuccess) evs))) st))"

definition finalize_write_handle_locked :: "gpu_env \<Rightarrow> nat \<Rightarrow> nat \<Rightarrow> cuda_state \<Rightarrow> cuda_state" where
  "finalize_write_handle_locked e b h st =
     (if hs_state (cs_handle_state st h) \<noteq> InUse then st
      else (let ws = hs_write_stream (cs_handle_state st h); ev = cb_write_event (cs_buffer st b)
            in upd_handle_state h Finalized 0
                 (if cuda_is_stream_usable e ws \<and> ev \<noteq> 0 \<and> ge_record e = cudaSuccess
                  then gpu [EventRecord ev ws] st else st)))"

definition finalize_write_handle :: "gpu_env \<Rightarrow> nat \<Rightarrow> cuda_state \<Rightarrow> cuda_state" where
  "finalize_write_handle e b st =
     (case cb_handle_state (cs_buffer st b) of
        None \<Rightarrow> st | Some h \<Rightarrow> finalize_write_handle_locked e b h st)"

definition get_read_handle ::
  "gpu_env \<Rightarrow> nat \<Rightarrow> nat \<Rightarrow> cuda_state \<Rightarrow> (exn + read_handle) \<times> cuda_state" where
  "get_read_handle e b s st =
     (let st1 = reap_completed_read_events e b st;
          st2 = (case cb_handle_state (cs_buffer st1 b) of
                   None \<Rightarrow> st1
                 | Some h \<Rightarrow> if hs_state (cs_handle_state st1 h) = InUse
                            then finalize_write_handle_locked e b h st1 else st1)
      in make_read_handle e b s st2)"

definition get_write_handle ::
  "gpu_env \<Rightarrow> nat \<Rightarrow> nat \<Rightarrow> cuda_state \<Rightarrow> (exn + write_handle) \<times> cuda_state" where
  "get_write_handle e b s st0 =
     (let st = reap_completed_read_events e b st0;
          state = (case cb_handle_state (cs_buffer st b) of
                     None \<Rightarrow> Unset | Some h \<Rightarrow> hs_state (cs_handle_state st h))
      in if state = InUse then
           (Inl (CudaError ''CudaBuffer: write handle already in use; cannot acquire second handle''), st)
         else if state = Finalized then
           (Inl (CudaError ''CudaBuffer: write already finalized; cannot acquire write handle''), st)
         else if cb_read_events (cs_buffer st b) \<noteq> [] then
           (Inl (CudaError ''CudaBuffer: read events exist; cannot re-acquire write handle''), st)
         else
           (let (h, st1) = (case cb_handle_state (cs_buffer st b) of
                   Some h \<Rightarrow> (h, st)
                 | None \<Rightarrow> (cs_next st,
                     upd_buffer b (\<lambda>x. x\<lparr>cb_handle_state := Some (cs_next st)\<rparr>)
                       (st\<lparr>cs_next := cs_next st + 1\<rparr>)));
                st2 = upd_handle_state h InUse s st1
            in (Inr \<lparr>wh_ptr = cb_ptr (cs_buffer st2 b), wh_event = Some b, wh_stream = s,
                  wh_state = Some h, wh_promoted = None\<rparr>, st2)))"

section \<open>Life of a buffer\<close>

text \<open>A call that creates an event gives one.\<close>

definition valid_env :: "gpu_env \<Rightarrow> bool" where
  "valid_env e \<longleftrightarrow> (fst (ge_create e) = cudaSuccess \<longrightarrow> snd (ge_create e) \<noteq> 0)"

text \<open>
  A buffer at address 0, the handles taken from it that are alive, and the work that was sent to the
  GPU through them (\<open>bw_written\<close>, \<open>bw_read\<close>: positions in the trace). Handles may be taken, used
  and ended in any order; the buffer ends after its handles, as their documentation demands; the
  recycler's thread takes its turns at any time. With \<open>ok\<close>, handles are taken on streams other
  than the default one, the calls to CUDA succeed, a new event is none of those in use, and a write
  handle is not used any more once the write is finalized.
\<close>

record buffer_world =
  bw_state :: cuda_state
  bw_alive :: bool
  bw_readers :: "read_handle list"
  bw_writers :: "write_handle list"
  bw_granted :: nat
  bw_written :: "nat set"
  bw_read :: "nat set"

definition events_in_use :: "cuda_state \<Rightarrow> nat list" where
  "events_in_use st = events_to_sync (cs_buffer st 0) @ concat (map pw_events (cs_queue st))"

definition good_env :: "gpu_env \<Rightarrow> cuda_state \<Rightarrow> bool" where
  "good_env e st \<longleftrightarrow>
     (\<forall>s. ge_stream e s = cudaSuccess \<or> ge_stream e s = cudaErrorNotReady) \<and>
     fst (ge_create e) = cudaSuccess \<and> snd (ge_create e) \<noteq> 0 \<and>
     snd (ge_create e) \<notin> set (events_in_use st) \<and> ge_record e = cudaSuccess \<and>
     (\<forall>ev. ge_sync e ev = cudaSuccess)"

inductive buffer_step :: "bool \<Rightarrow> buffer_world \<Rightarrow> buffer_world \<Rightarrow> bool" where
  get_read:
    "bw_alive w \<Longrightarrow> (ok \<Longrightarrow> good_env e (bw_state w) \<and> s \<noteq> 0) \<Longrightarrow>
     get_read_handle e 0 s (bw_state w) = (r, st) \<Longrightarrow>
     buffer_step ok w (w\<lparr>bw_state := st, bw_readers := (case r of Inl _ \<Rightarrow> [] | Inr h \<Rightarrow> [h]) @ bw_readers w\<rparr>)"
| get_write:
    "bw_alive w \<Longrightarrow> (ok \<Longrightarrow> good_env e (bw_state w) \<and> s \<noteq> 0) \<Longrightarrow>
     get_write_handle e 0 s (bw_state w) = (r, st) \<Longrightarrow>
     buffer_step ok w (w\<lparr>bw_state := st, bw_writers := (case r of Inl _ \<Rightarrow> [] | Inr h \<Rightarrow> [h]) @ bw_writers w,
       bw_granted := bw_granted w + (case r of Inl _ \<Rightarrow> 0 | Inr _ \<Rightarrow> 1)\<rparr>)"
| use_read:
    "h \<in> set (bw_readers w) \<Longrightarrow>
     buffer_step ok w (w\<lparr>bw_state := gpu [StreamWork (rh_stream h) k] (bw_state w),
       bw_read := insert (length (cs_trace (bw_state w))) (bw_read w)\<rparr>)"
| use_write:
    "h \<in> set (bw_writers w) \<Longrightarrow>
     (ok \<Longrightarrow> map_option (hs_state \<circ> cs_handle_state (bw_state w)) (wh_state h) = Some InUse) \<Longrightarrow>
     buffer_step ok w (w\<lparr>bw_state := gpu [StreamWork (wh_stream h) k] (bw_state w),
       bw_written := insert (length (cs_trace (bw_state w))) (bw_written w)\<rparr>)"
| end_read:
    "h \<in> set (bw_readers w) \<Longrightarrow> valid_env e \<Longrightarrow> (ok \<Longrightarrow> good_env e (bw_state w)) \<Longrightarrow>
     buffer_step ok w (w\<lparr>bw_state := destroy_read_handle e last_ref h (bw_state w),
       bw_readers := remove1 h (bw_readers w)\<rparr>)"
| end_write:
    "h \<in> set (bw_writers w) \<Longrightarrow> (ok \<Longrightarrow> good_env e (bw_state w)) \<Longrightarrow>
     buffer_step ok w (w\<lparr>bw_state := destroy_write_handle e last_ref h (bw_state w),
       bw_writers := remove1 h (bw_writers w)\<rparr>)"
| finalize:
    "bw_alive w \<Longrightarrow> (ok \<Longrightarrow> good_env e (bw_state w)) \<Longrightarrow>
     buffer_step ok w (w\<lparr>bw_state := finalize_write_handle e 0 (bw_state w)\<rparr>)"
| end_buffer:
    "bw_alive w \<Longrightarrow> bw_readers w = [] \<Longrightarrow> bw_writers w = [] \<Longrightarrow>
     buffer_step ok w (w\<lparr>bw_state := destroy_buffer 0 (bw_state w), bw_alive := False\<rparr>)"
| recycle_turn:
    "(ok \<Longrightarrow> good_env e (bw_state w)) \<Longrightarrow>
     buffer_step ok w (w\<lparr>bw_state := recycle e (bw_state w)\<rparr>)"

definition fresh_buffer :: "cuda_buffer \<Rightarrow> bool" where
  "fresh_buffer b \<longleftrightarrow> cb_ptr b \<noteq> 0 \<and> cb_write_event b \<noteq> 0 \<and> cb_owns_write_event b \<and>
     cb_read_events b = [] \<and> cb_handle_state b = None \<and> cb_recycler b"

definition buffer_start :: "cuda_state \<Rightarrow> buffer_world" where
  "buffer_start st =
     \<lparr>bw_state = st, bw_alive = True, bw_readers = [], bw_writers = [], bw_granted = 0,
      bw_written = {}, bw_read = {}\<rparr>"

inductive buffer_reachable :: "bool \<Rightarrow> buffer_world \<Rightarrow> bool" where
  start:
    "fresh_buffer (cs_buffer st 0) \<Longrightarrow> cs_queue st = [] \<Longrightarrow> cs_trace st = [] \<Longrightarrow>
     buffer_reachable ok (buffer_start st)"
| step: "buffer_reachable ok w \<Longrightarrow> buffer_step ok w w' \<Longrightarrow> buffer_reachable ok w'"

section \<open>The write is one-shot\<close>

fun write_phase :: "nat option \<Rightarrow> (nat \<Rightarrow> handle_state) \<Rightarrow> write_state" where
  "write_phase None hs = Unset"
| "write_phase (Some h) hs = hs_state (hs h)"

definition phase :: "cuda_state \<Rightarrow> write_state" where
  "phase st = write_phase (cb_handle_state (cs_buffer st 0)) (cs_handle_state st)"

definition protocol_inv :: "buffer_world \<Rightarrow> bool" where
  "protocol_inv w \<longleftrightarrow>
     (\<forall>h \<in> set (bw_readers w). rh_events h = Some 0 \<and> rh_promoted h = None) \<and>
     (\<forall>h \<in> set (bw_writers w). wh_event h = Some 0 \<and> wh_promoted h = None \<and>
        wh_state h = cb_handle_state (cs_buffer (bw_state w) 0)) \<and>
     length (bw_writers w) \<le> bw_granted w \<and> bw_granted w \<le> 1 \<and>
     (bw_alive w \<longrightarrow>
        (phase (bw_state w) = Unset \<longleftrightarrow> bw_granted w = 0) \<and>
        (phase (bw_state w) = InUse \<longrightarrow> length (bw_writers w) = 1)) \<and>
     (\<not> bw_alive w \<longrightarrow> bw_readers w = [] \<and> bw_writers w = [])"

text \<open>What each sub-operation does to the write state of the buffer.\<close>

lemma gpu_simps [simp]:
  "cs_buffer (gpu cs st) = cs_buffer st" "cs_handle_state (gpu cs st) = cs_handle_state st"
  "cs_queue (gpu cs st) = cs_queue st" "cs_trace (gpu cs st) = cs_trace st @ cs"
  "cs_next (gpu cs st) = cs_next st" "cs_pool (gpu cs st) = cs_pool st"
  "cs_meta (gpu cs st) = cs_meta st" "phase (gpu cs st) = phase st"
  by (simp_all add: gpu_def phase_def)

lemma upd_buffer_simps [simp]:
  "cs_buffer (upd_buffer b f st) = (cs_buffer st)(b := f (cs_buffer st b))"
  "cs_handle_state (upd_buffer b f st) = cs_handle_state st"
  "cs_queue (upd_buffer b f st) = cs_queue st" "cs_trace (upd_buffer b f st) = cs_trace st"
  "cs_next (upd_buffer b f st) = cs_next st" "cs_pool (upd_buffer b f st) = cs_pool st"
  "cs_meta (upd_buffer b f st) = cs_meta st"
  by (simp_all add: upd_buffer_def)

lemma upd_handle_state_simps [simp]:
  "cs_handle_state (upd_handle_state h s ws st) =
     (cs_handle_state st)(h := \<lparr>hs_state = s, hs_write_stream = ws\<rparr>)"
  "cs_buffer (upd_handle_state h s ws st) = cs_buffer st"
  "cs_queue (upd_handle_state h s ws st) = cs_queue st"
  "cs_trace (upd_handle_state h s ws st) = cs_trace st"
  "cs_next (upd_handle_state h s ws st) = cs_next st"
  "cs_pool (upd_handle_state h s ws st) = cs_pool st"
  "cs_meta (upd_handle_state h s ws st) = cs_meta st"
  by (simp_all add: upd_handle_state_def)

lemma run_deleter_simps [simp]:
  "cs_buffer (run_deleter d p st) = cs_buffer st"
  "cs_handle_state (run_deleter d p st) = cs_handle_state st"
  "cs_queue (run_deleter d p st) = cs_queue st"
  "cs_trace (run_deleter d p st) = cs_trace st @ (if p = 0 then [] else [Deleted d p])"
  "phase (run_deleter d p st) = phase st"
  by (auto simp: run_deleter_def phase_def split: deleter.splits)

lemma reap_simps [simp]:
  "cs_buffer (reap_completed_read_events e b st) = (cs_buffer st)(b := (cs_buffer st b)
     \<lparr>cb_read_events := filter (\<lambda>ev. ge_query e ev \<noteq> cudaSuccess) (cb_read_events (cs_buffer st b))\<rparr>)"
  "cs_handle_state (reap_completed_read_events e b st) = cs_handle_state st"
  "cs_queue (reap_completed_read_events e b st) = cs_queue st"
  "phase (reap_completed_read_events e 0 st) = phase st"
  by (simp_all add: reap_completed_read_events_def Let_def phase_def)

lemma get_read_handle_alt:
  "get_read_handle e b s st =
     make_read_handle e b s (finalize_write_handle e b (reap_completed_read_events e b st))"
  by (simp add: get_read_handle_def finalize_write_handle_def finalize_write_handle_locked_def Let_def
      split: option.splits)

lemma finalize_fields:
  "cs_buffer (finalize_write_handle e b st) = cs_buffer st"
  "cs_queue (finalize_write_handle e b st) = cs_queue st"
  by (simp_all add: finalize_write_handle_def finalize_write_handle_locked_def Let_def split: option.splits)

lemma finalize_phase:
  "phase (finalize_write_handle e 0 st) = (if phase st = InUse then Finalized else phase st)"
  by (auto simp: phase_def finalize_write_handle_def finalize_write_handle_locked_def Let_def
      split: option.splits)

lemma make_read_handle_fields:
  assumes "make_read_handle e b s st = (r, st')"
  shows "cs_buffer st' = cs_buffer st" and "cs_handle_state st' = cs_handle_state st"
    and "cs_queue st' = cs_queue st"
    and "r = Inr h \<Longrightarrow> h = \<lparr>rh_ptr = cb_ptr (cs_buffer st b), rh_events = Some b, rh_stream = s, rh_promoted = None\<rparr>"
  using assms by (auto simp: make_read_handle_def Let_def split: if_splits)

lemma get_read_handle_phase:
  assumes "get_read_handle e 0 s st = (r, st')"
  shows "phase st' = (if phase st = InUse then Finalized else phase st)"
    and "cb_handle_state (cs_buffer st' 0) = cb_handle_state (cs_buffer st 0)"
    and "r = Inr h \<Longrightarrow> rh_events h = Some 0 \<and> rh_promoted h = None"
  using make_read_handle_fields [OF assms [unfolded get_read_handle_alt]]
    finalize_phase [of e "reap_completed_read_events e 0 st"]
  by (auto simp: finalize_fields phase_def)

lemma get_write_handle_cases:
  assumes "get_write_handle e b s st = (r, st')"
  defines "st1 \<equiv> reap_completed_read_events e b st"
    and "p \<equiv> write_phase (cb_handle_state (cs_buffer st b)) (cs_handle_state st)"
  shows "r = Inl x \<Longrightarrow> st' = st1 \<and> (p \<noteq> Unset \<or> cb_read_events (cs_buffer st1 b) \<noteq> [])"
    and "r = Inr h \<Longrightarrow> p = Unset \<and> cb_read_events (cs_buffer st1 b) = [] \<and>
      (\<exists>a. h = \<lparr>wh_ptr = cb_ptr (cs_buffer st b), wh_event = Some b, wh_stream = s,
             wh_state = Some a, wh_promoted = None\<rparr> \<and>
           cs_handle_state st' = (cs_handle_state st)(a := \<lparr>hs_state = InUse, hs_write_stream = s\<rparr>) \<and>
           cs_buffer st' = (cs_buffer st1)(b := (cs_buffer st1 b)\<lparr>cb_handle_state := Some a\<rparr>) \<and>
           cs_trace st' = cs_trace st1 \<and> cs_queue st' = cs_queue st1)"
proof -
  have p: "(case cb_handle_state (cs_buffer st1 b) of
      None \<Rightarrow> Unset | Some h \<Rightarrow> hs_state (cs_handle_state st1 h)) = p"
    by (simp add: st1_def p_def split: option.splits)
  note g = assms(1) [unfolded get_write_handle_def Let_def st1_def [symmetric] p]
  show "r = Inl x \<Longrightarrow> st' = st1 \<and> (p \<noteq> Unset \<or> cb_read_events (cs_buffer st1 b) \<noteq> [])"
    using g by (auto split: if_splits prod.splits)
  assume r: "r = Inr h"
  with g have s: "p = Unset" "cb_read_events (cs_buffer st1 b) = []"
    by (cases p; auto split: if_splits prod.splits)+
  have b: "cs_buffer st1 = (cs_buffer st1)(b := (cs_buffer st1 b)\<lparr>cb_handle_state := cb_handle_state (cs_buffer st1 b)\<rparr>)"
    by simp
  show "p = Unset \<and> cb_read_events (cs_buffer st1 b) = [] \<and>
      (\<exists>a. h = \<lparr>wh_ptr = cb_ptr (cs_buffer st b), wh_event = Some b, wh_stream = s,
             wh_state = Some a, wh_promoted = None\<rparr> \<and>
           cs_handle_state st' = (cs_handle_state st)(a := \<lparr>hs_state = InUse, hs_write_stream = s\<rparr>) \<and>
           cs_buffer st' = (cs_buffer st1)(b := (cs_buffer st1 b)\<lparr>cb_handle_state := Some a\<rparr>) \<and>
           cs_trace st' = cs_trace st1 \<and> cs_queue st' = cs_queue st1)"
  proof (cases "cb_handle_state (cs_buffer st1 b)")
    case None
    with g r s show ?thesis by (auto simp: st1_def)
  next
    case (Some a)
    with b have "cs_buffer st1 = (cs_buffer st1)(b := (cs_buffer st1 b)\<lparr>cb_handle_state := Some a\<rparr>)" by simp
    with g r s Some show ?thesis by (intro conjI exI [of _ a]) (auto simp: st1_def)
  qed
qed

lemma get_write_handle_phase:
  assumes "get_write_handle e 0 s st = (r, st')"
  shows "r = Inl x \<Longrightarrow> phase st' = phase st \<and> cb_handle_state (cs_buffer st' 0) = cb_handle_state (cs_buffer st 0)"
    and "r = Inr h \<Longrightarrow> phase st = Unset \<and> phase st' = InUse \<and> wh_event h = Some 0 \<and> wh_promoted h = None \<and>
      wh_state h = cb_handle_state (cs_buffer st' 0)"
  using get_write_handle_cases [OF assms] by (force simp: phase_def)+

lemma read_release_phase:
  "phase (read_release e rh st) = phase st"
  "cb_handle_state (cs_buffer (read_release e rh st) b) = cb_handle_state (cs_buffer st b)"
  "cs_handle_state (read_release e rh st) = cs_handle_state st"
  "cs_queue (read_release e rh st) = cs_queue st"
  by (auto simp: read_release_def phase_def split: option.splits prod.splits)

lemma write_release_phase:
  assumes "wh_state h = cb_handle_state (cs_buffer st 0)" and "phase st \<noteq> Unset"
  shows "phase (write_release e h st) = Finalized"
    and "cs_buffer (write_release e h st) = cs_buffer st"
  using assms
  by (cases "wh_state h"; cases "cb_handle_state (cs_buffer st 0)"; auto simp: write_release_def phase_def Let_def)+

lemma destroy_value_simps [simp]:
  "cs_buffer (destroy_value b st) = cs_buffer st"
  "cs_handle_state (destroy_value b st) = cs_handle_state st"
  by (simp_all add: destroy_value_def enqueue_def)

lemma recycle_simps [simp]:
  "cs_buffer (recycle e st) = cs_buffer st" "phase (recycle e st) = phase st"
  by (auto simp: recycle_def phase_def split: list.splits)

lemma length_le_one_cases: "length xs \<le> Suc 0 \<Longrightarrow> x \<in> set xs \<Longrightarrow> xs = [x]"
  by (cases xs) auto

lemma protocol_step:
  assumes "buffer_step ok w w'" and "protocol_inv w"
  shows "protocol_inv w'"
  using assms
proof cases
  case (get_read e s r st)
  note g = get_read_handle_phase [OF get_read(4)]
  show ?thesis
    using assms(2) get_read(1,2) g by (cases r) (auto simp: protocol_inv_def)
next
  case (get_write e s r st)
  note g = get_write_handle_phase [OF get_write(4)]
  show ?thesis
    using assms(2) get_write(1,2) g by (cases r) (auto simp: protocol_inv_def)
next
  case (end_read h e lst)
  then show ?thesis
    using assms(2)
    by (auto simp: protocol_inv_def destroy_read_handle_def drop_promoted_def read_release_phase
        dest: notin_set_remove1 in_set_remove1 [THEN iffD1, rotated])
next
  case (end_write h e lst)
  have "bw_writers w = [h]" using assms(2) end_write(2) by (auto simp: protocol_inv_def intro: length_le_one_cases)
  then show ?thesis
    using assms(2) end_write write_release_phase [of h "bw_state w" e]
    by (auto simp: protocol_inv_def destroy_write_handle_def drop_promoted_def)
next
  case (finalize e)
  then show ?thesis
    using assms(2) by (auto simp: protocol_inv_def finalize_fields finalize_phase)
qed (auto simp: protocol_inv_def destroy_buffer_def)

section \<open>The order of work\<close>

abbreviation view :: "cuda_state \<Rightarrow> gpu_view" where "view st \<equiv> gpu_run (cs_trace st)"

lemma gpu_run_append: "gpu_run (tr @ cs) = fold gpu_step cs (gpu_run tr)"
  by (simp add: gpu_run_def)

lemma gpu_run_next [simp]: "gv_next (gpu_run tr) = length tr"
proof (induction tr rule: rev_induct)
  case Nil
  then show ?case by (simp add: gpu_run_def empty_view_def)
next
  case (snoc c tr)
  then show ?case by (cases c) (simp_all add: gpu_run_append)
qed

text \<open>Calls that neither record nor wait for an event leave what the events captured.\<close>

lemma complete_calls:
  "let v' = fold gpu_step (concat (map (\<lambda>ev. [EventComplete ev, EventDestroy ev]) evs)) v
   in gv_before v' = gv_before v \<and> gv_event v' = gv_event v \<and>
      gv_done v' = gv_done v \<union> \<Union> (gv_event v ` set evs)"
  by (induction evs arbitrary: v) (auto simp: Let_def)

lemma sync_calls_run:
  assumes "\<forall>ev. ge_sync e ev = cudaSuccess"
  shows "let v' = fold gpu_step (concat (map (sync_calls e) evs)) v
   in gv_before v' = gv_before v \<and> gv_event v' = gv_event v \<and>
      gv_done v' = gv_done v \<union> \<Union> (gv_event v ` (set evs - {0}))"
  using assms by (induction evs arbitrary: v) (auto simp: Let_def sync_calls_def)

definition covered :: "cuda_state \<Rightarrow> read_handle list \<Rightarrow> nat \<Rightarrow> bool" where
  "covered st readers i \<longleftrightarrow>
     i \<in> gv_done (view st) \<or> (\<exists>ev \<in> set (events_in_use st). i \<in> gv_event (view st) ev) \<or>
     (\<exists>h \<in> set readers. i \<in> gv_before (view st) (rh_stream h))"

text \<open>What is known of the writes, by the state of the buffer.\<close>

definition writes_ordered :: "cuda_state \<Rightarrow> write_handle list \<Rightarrow> nat set \<Rightarrow> bool" where
  "writes_ordered st ws wr \<longleftrightarrow>
     (let captured = gv_event (view st) (cb_write_event (cs_buffer st 0))
      in (phase st = Unset \<longrightarrow> wr = {} \<and> captured = {}) \<and>
         (phase st = InUse \<longrightarrow> captured = {} \<and>
           (\<forall>h \<in> set ws. wh_stream h \<noteq> 0 \<and> wh_state h = cb_handle_state (cs_buffer st 0) \<and>
              (\<forall>a. wh_state h = Some a \<longrightarrow> hs_write_stream (cs_handle_state st a) = wh_stream h) \<and>
              wr \<subseteq> gv_before (view st) (wh_stream h))) \<and>
         (phase st = Finalized \<longrightarrow> wr \<subseteq> captured))"

definition undeleted :: "gpu_call list \<Rightarrow> bool" where
  "undeleted tr \<longleftrightarrow> (\<forall>d p. Deleted d p \<notin> set tr)"

definition alive_inv ::
  "cuda_state \<Rightarrow> read_handle list \<Rightarrow> write_handle list \<Rightarrow> nat set \<Rightarrow> nat set \<Rightarrow> bool" where
  "alive_inv st rs ws wr rd \<longleftrightarrow>
     cs_queue st = [] \<and> cb_ptr (cs_buffer st 0) \<noteq> 0 \<and> cb_write_event (cs_buffer st 0) \<noteq> 0 \<and>
     cb_owns_write_event (cs_buffer st 0) \<and> cb_recycler (cs_buffer st 0) \<and>
     0 \<notin> set (cb_read_events (cs_buffer st 0)) \<and> undeleted (cs_trace st) \<and>
     (\<forall>h \<in> set rs. rh_stream h \<noteq> 0) \<and> (\<forall>i \<in> rd. covered st rs i) \<and> writes_ordered st ws wr"

definition pending_inv :: "cuda_state \<Rightarrow> nat set \<Rightarrow> bool" where
  "pending_inv st works \<longleftrightarrow>
     (\<exists>pw. cs_queue st = [pw] \<and> pw_ptr pw \<noteq> 0 \<and> 0 \<notin> set (pw_events pw) \<and> undeleted (cs_trace st) \<and>
        (\<forall>i \<in> works. i \<in> gv_done (view st) \<or> (\<exists>ev \<in> set (pw_events pw). i \<in> gv_event (view st) ev)))"

definition released_inv :: "cuda_state \<Rightarrow> nat set \<Rightarrow> bool" where
  "released_inv st works \<longleftrightarrow>
     cs_queue st = [] \<and>
     (\<exists>pre d p. cs_trace st = pre @ [Deleted d p] \<and> undeleted pre \<and> works \<subseteq> gv_done (gpu_run pre))"

definition order_inv :: "buffer_world \<Rightarrow> bool" where
  "order_inv w \<longleftrightarrow>
     (if bw_alive w
      then alive_inv (bw_state w) (bw_readers w) (bw_writers w) (bw_written w) (bw_read w)
      else pending_inv (bw_state w) (bw_read w \<union> bw_written w) \<or>
           released_inv (bw_state w) (bw_read w \<union> bw_written w))"

lemma covered_mono:
  assumes "covered st rs i" and "gv_done (view st) \<subseteq> gv_done (view st')"
    and "\<And>ev. ev \<in> set (events_in_use st) \<Longrightarrow> i \<in> gv_event (view st) ev \<Longrightarrow> i \<in> gv_event (view st') ev"
    and "set (events_in_use st) \<subseteq> set (events_in_use st')"
    and "\<And>h. h \<in> set rs \<Longrightarrow> i \<in> gv_before (view st) (rh_stream h) \<Longrightarrow>
      (h \<in> set rs' \<and> i \<in> gv_before (view st') (rh_stream h)) \<or>
      (\<exists>ev \<in> set (events_in_use st'). i \<in> gv_event (view st') ev)"
  shows "covered st' rs' i"
  using assms unfolding covered_def by blast

lemma events_in_use_alive:
  assumes "alive_inv st rs ws wr rd"
  shows "events_in_use st = cb_write_event (cs_buffer st 0) # cb_read_events (cs_buffer st 0)"
  using assms by (simp add: alive_inv_def events_in_use_def events_to_sync_def)

lemma undeleted_append [simp]: "undeleted (as @ bs) \<longleftrightarrow> undeleted as \<and> undeleted bs"
  by (auto simp: undeleted_def)

lemma reap_trace:
  "cs_trace (reap_completed_read_events e b st) = cs_trace st @
     concat (map (\<lambda>ev. [EventComplete ev, EventDestroy ev])
       (filter (\<lambda>ev. ge_query e ev = cudaSuccess) (cb_read_events (cs_buffer st b))))"
  by (simp add: reap_completed_read_events_def Let_def)

lemma reap_view:
  "gv_before (view (reap_completed_read_events e b st)) = gv_before (view st)"
  "gv_event (view (reap_completed_read_events e b st)) = gv_event (view st)"
  "gv_done (view (reap_completed_read_events e b st)) = gv_done (view st) \<union>
     \<Union> (gv_event (view st) ` {ev \<in> set (cb_read_events (cs_buffer st b)). ge_query e ev = cudaSuccess})"
  using complete_calls [of "filter (\<lambda>ev. ge_query e ev = cudaSuccess) (cb_read_events (cs_buffer st b))" "view st"]
  by (simp_all add: reap_trace gpu_run_append Let_def)

lemma reap_alive:
  assumes "alive_inv st rs ws wr rd"
  shows "alive_inv (reap_completed_read_events e 0 st) rs ws wr rd"
proof -
  let ?st = "reap_completed_read_events e 0 st"
  have u: "events_in_use ?st = cb_write_event (cs_buffer st 0) #
      filter (\<lambda>ev. ge_query e ev \<noteq> cudaSuccess) (cb_read_events (cs_buffer st 0))"
    using assms by (simp add: alive_inv_def events_in_use_def events_to_sync_def)
  have "covered ?st rs i" if "covered st rs i" for i
    using that by (auto simp: covered_def reap_view u events_in_use_alive [OF assms])
  moreover have "writes_ordered ?st ws wr"
    using assms by (simp add: alive_inv_def writes_ordered_def reap_view Let_def)
  moreover have "undeleted (cs_trace ?st)"
    using assms by (auto simp: alive_inv_def reap_trace undeleted_def)
  ultimately show ?thesis using assms by (auto simp: alive_inv_def)
qed

text \<open>Recording the write event at the end of the write.\<close>

lemma finalized_alive:
  assumes "alive_inv st rs ws wr rd" and "phase st = InUse" and "h \<in> set ws"
    and "cb_handle_state (cs_buffer st 0) = Some a"
  shows "alive_inv (upd_handle_state a Finalized 0
      (gpu [EventRecord (cb_write_event (cs_buffer st 0)) (wh_stream h)] st)) rs ws' wr rd"
    (is "alive_inv ?st rs ws' wr rd")
proof -
  have ph: "phase ?st = Finalized" using assms(4) by (simp add: phase_def)
  have v: "view ?st = gpu_step (EventRecord (cb_write_event (cs_buffer st 0)) (wh_stream h)) (view st)"
    by (simp add: gpu_run_append)
  have none: "gv_event (view st) (cb_write_event (cs_buffer st 0)) = {}"
    and sub: "wr \<subseteq> gv_before (view st) (wh_stream h)"
    using assms(1-3) by (auto simp: alive_inv_def writes_ordered_def Let_def)
  have "events_in_use ?st = events_in_use st" by (simp add: events_in_use_def)
  then have "covered ?st rs i" if "covered st rs i" for i
    by (intro covered_mono [OF that]) (use none in \<open>auto simp: v simp del: gpu_simps upd_handle_state_simps\<close>)
  moreover have "writes_ordered ?st ws' wr"
    using ph sub unfolding writes_ordered_def v Let_def by simp
  ultimately show ?thesis using assms(1) by (auto simp: alive_inv_def undeleted_def)
qed

lemma writer_state:
  assumes "alive_inv st rs ws wr rd" and "phase st = InUse" and "h \<in> set ws"
  obtains a where "cb_handle_state (cs_buffer st 0) = Some a" "wh_state h = Some a"
    "hs_state (cs_handle_state st a) = InUse" "hs_write_stream (cs_handle_state st a) = wh_stream h"
    "wh_stream h \<noteq> 0" "cb_write_event (cs_buffer st 0) \<noteq> 0"
proof -
  obtain a where a: "cb_handle_state (cs_buffer st 0) = Some a"
    using assms(2) by (cases "cb_handle_state (cs_buffer st 0)") (auto simp: phase_def)
  show thesis
    by (rule that [of a]) (use assms a in \<open>auto simp: alive_inv_def writes_ordered_def Let_def phase_def\<close>)
qed

lemma usable_good: "good_env e st0 \<Longrightarrow> cuda_is_stream_usable e s \<longleftrightarrow> s \<noteq> 0"
  by (simp add: good_env_def cuda_is_stream_usable_def)

lemma finalize_alive:
  assumes "alive_inv st rs ws wr rd" and "good_env e st0" and "phase st = InUse \<longrightarrow> ws \<noteq> []"
  shows "alive_inv (finalize_write_handle e 0 st) rs ws wr rd"
proof (cases "phase st = InUse")
  case True
  with assms(3) obtain h where h: "h \<in> set ws" by (cases ws) auto
  obtain a where a: "cb_handle_state (cs_buffer st 0) = Some a"
    "hs_state (cs_handle_state st a) = InUse" "hs_write_stream (cs_handle_state st a) = wh_stream h"
    "wh_stream h \<noteq> 0" "cb_write_event (cs_buffer st 0) \<noteq> 0"
    using writer_state [OF assms(1) True h] by metis
  have "ge_record e = cudaSuccess" using assms(2) by (simp add: good_env_def)
  then have "finalize_write_handle e 0 st = upd_handle_state a Finalized 0
      (gpu [EventRecord (cb_write_event (cs_buffer st 0)) (wh_stream h)] st)"
    using a by (simp add: finalize_write_handle_def finalize_write_handle_locked_def Let_def
        usable_good [OF assms(2)])
  then show ?thesis using finalized_alive [OF assms(1) True h a(1)] by simp
next
  case False
  then have "finalize_write_handle e 0 st = st"
    by (cases "cb_handle_state (cs_buffer st 0)")
       (simp_all add: finalize_write_handle_def finalize_write_handle_locked_def phase_def)
  then show ?thesis using assms(1) by simp
qed

lemma make_read_alive:
  assumes "alive_inv st rs ws wr rd" and "make_read_handle e 0 s st = (r, st')"
    and "phase st \<noteq> InUse" and "s \<noteq> 0"
  shows "alive_inv st' ((case r of Inl _ \<Rightarrow> [] | Inr h \<Rightarrow> [h]) @ rs) ws wr rd"
    and "r = Inr h \<Longrightarrow> wr \<subseteq> gv_before (view st') s"
proof -
  let ?ev = "cb_write_event (cs_buffer st 0)"
  have ev: "?ev \<noteq> 0" using assms(1) by (simp add: alive_inv_def)
  have wr: "wr \<subseteq> gv_event (view st) ?ev"
    using assms(1,3) by (cases "phase st") (auto simp: alive_inv_def writes_ordered_def Let_def)
  have "(r, st') = (if ge_wait e \<noteq> cudaSuccess
      then (Inl (CudaRuntimeError ''cudaStreamWaitEvent(stream_, write_event, 0)'' (ge_wait e)), st)
      else (Inr \<lparr>rh_ptr = cb_ptr (cs_buffer st 0), rh_events = Some 0, rh_stream = s, rh_promoted = None\<rparr>,
            gpu [StreamWaitEvent s ?ev] st))"
    using assms(2,4) ev by (simp add: make_read_handle_def Let_def)
  then consider "\<exists>x. r = Inl x" "st' = st"
    | h where "r = Inr h" "rh_stream h = s" "st' = gpu [StreamWaitEvent s ?ev] st"
    by (auto split: if_splits)
  then have "alive_inv st' ((case r of Inl _ \<Rightarrow> [] | Inr h \<Rightarrow> [h]) @ rs) ws wr rd \<and>
      (r = Inr h \<longrightarrow> wr \<subseteq> gv_before (view st') s)"
  proof cases
    case 1
    then show ?thesis using assms(1) by auto
  next
    case 2
    have v: "view st' = gpu_step (StreamWaitEvent s ?ev) (view st)" using 2 by (simp add: gpu_run_append)
    have "events_in_use st' = events_in_use st" using 2 by (simp add: events_in_use_def)
    then have "covered st' (h # rs) i" if "covered st rs i" for i h
      by (intro covered_mono [OF that]) (auto simp: v)
    moreover have "writes_ordered st' ws wr"
      using assms(1,3) 2(3) unfolding writes_ordered_def v Let_def
      by (simp add: alive_inv_def writes_ordered_def Let_def)
    ultimately show ?thesis
      using assms(1,4) 2 wr unfolding v by (auto simp: alive_inv_def undeleted_def)
  qed
  then show "alive_inv st' ((case r of Inl _ \<Rightarrow> [] | Inr h \<Rightarrow> [h]) @ rs) ws wr rd"
    and "r = Inr h \<Longrightarrow> wr \<subseteq> gv_before (view st') s" by auto
qed

lemma get_read_alive:
  assumes "alive_inv st rs ws wr rd" and "good_env e st0" and "phase st = InUse \<longrightarrow> ws \<noteq> []"
    and "get_read_handle e 0 s st = (r, st')" and "s \<noteq> 0"
  shows "alive_inv st' ((case r of Inl _ \<Rightarrow> [] | Inr h \<Rightarrow> [h]) @ rs) ws wr rd"
    and "r = Inr h \<Longrightarrow> wr \<subseteq> gv_before (view st') s"
proof -
  let ?st1 = "reap_completed_read_events e 0 st"
  have "alive_inv (finalize_write_handle e 0 ?st1) rs ws wr rd"
    using reap_alive [OF assms(1)] assms(2,3) by (intro finalize_alive) simp_all
  moreover have "phase (finalize_write_handle e 0 ?st1) \<noteq> InUse" by (simp add: finalize_phase)
  ultimately show "alive_inv st' ((case r of Inl _ \<Rightarrow> [] | Inr h \<Rightarrow> [h]) @ rs) ws wr rd"
    and "r = Inr h \<Longrightarrow> wr \<subseteq> gv_before (view st') s"
    using make_read_alive assms(4,5) [unfolded get_read_handle_alt] by blast+
qed

lemma get_write_alive:
  assumes "alive_inv st rs ws wr rd" and "get_write_handle e 0 s st = (r, st')" and "s \<noteq> 0"
    and "phase st = Unset \<longrightarrow> ws = []"
  shows "alive_inv st' rs ((case r of Inl _ \<Rightarrow> [] | Inr h \<Rightarrow> [h]) @ ws) wr rd"
proof (cases r)
  case (Inl x)
  with get_write_handle_cases(1) [OF assms(2)] reap_alive [OF assms(1)] show ?thesis by simp
next
  case (Inr h)
  let ?st1 = "reap_completed_read_events e 0 st"
  obtain a where a: "phase st = Unset" "h = \<lparr>wh_ptr = cb_ptr (cs_buffer st 0), wh_event = Some 0, wh_stream = s,
             wh_state = Some a, wh_promoted = None\<rparr>"
    "cs_handle_state st' = (cs_handle_state st)(a := \<lparr>hs_state = InUse, hs_write_stream = s\<rparr>)"
    "cs_buffer st' = (cs_buffer ?st1)(0 := (cs_buffer ?st1 0)\<lparr>cb_handle_state := Some a\<rparr>)"
    "cs_trace st' = cs_trace ?st1" "cs_queue st' = cs_queue ?st1"
    using get_write_handle_cases(2) [OF assms(2) Inr] by (auto simp: phase_def)
  have al: "alive_inv ?st1 rs ws wr rd" using assms(1) by (rule reap_alive)
  have "events_in_use st' = events_in_use ?st1"
    unfolding events_in_use_def events_to_sync_def a(4,6) by simp
  then have cov: "covered st' rs i = covered ?st1 rs i" for i by (simp add: covered_def a(5))
  have ph: "phase st' = InUse" using a(3,4) by (simp add: phase_def)
  have ws: "ws = []" using assms(4) a(1) by simp
  have wr: "wr = {} \<and> gv_event (view st') (cb_write_event (cs_buffer st' 0)) = {}"
    using al a(1) unfolding a(4,5) by (simp add: alive_inv_def writes_ordered_def Let_def)
  have "writes_ordered st' [h] wr"
    using ph wr a(2,3,4) assms(3) by (simp add: writes_ordered_def Let_def)
  then show ?thesis using al cov a(4-6) Inr ws by (simp add: alive_inv_def)
qed

lemma work_alive:
  assumes "alive_inv st rs ws wr rd"
  shows "h \<in> set rs \<Longrightarrow> alive_inv (gpu [StreamWork (rh_stream h) k] st) rs ws wr
      (insert (length (cs_trace st)) rd)"
    and "k' \<in> set ws \<Longrightarrow> phase st = InUse \<Longrightarrow> ws = [k'] \<Longrightarrow>
      alive_inv (gpu [StreamWork (wh_stream k') k] st) rs ws (insert (length (cs_trace st)) wr) rd"
proof -
  have u: "events_in_use (gpu cs st) = events_in_use st" for cs by (simp add: events_in_use_def)
  have cov: "covered (gpu [StreamWork s k] st) rs i" if "covered st rs i" for i s
    by (intro covered_mono [OF that]) (auto simp: u gpu_run_append)
  show "alive_inv (gpu [StreamWork (rh_stream h) k] st) rs ws wr (insert (length (cs_trace st)) rd)"
    if "h \<in> set rs"
  proof -
    have "covered (gpu [StreamWork (rh_stream h) k] st) rs (length (cs_trace st))"
      using that by (auto simp: covered_def gpu_run_append)
    moreover have "writes_ordered (gpu [StreamWork (rh_stream h) k] st) ws wr"
      using assms by (force simp: alive_inv_def writes_ordered_def gpu_run_append Let_def)
    ultimately show ?thesis using assms cov by (auto simp: alive_inv_def undeleted_def)
  qed
  show "alive_inv (gpu [StreamWork (wh_stream k') k] st) rs ws (insert (length (cs_trace st)) wr) rd"
    if "k' \<in> set ws" "phase st = InUse" "ws = [k']"
  proof -
    have "writes_ordered (gpu [StreamWork (wh_stream k') k] st) ws (insert (length (cs_trace st)) wr)"
      using assms that by (auto simp: alive_inv_def writes_ordered_def gpu_run_append Let_def)
    then show ?thesis using assms cov by (auto simp: alive_inv_def undeleted_def)
  qed
qed

lemma end_read_alive:
  assumes "alive_inv st rs ws wr rd" and "good_env e st" and "h \<in> set rs" and "rh_events h = Some 0"
  shows "alive_inv (read_release e h st) (remove1 h rs) ws wr rd"
proof -
  let ?ev = "snd (ge_create e)" and ?s = "rh_stream h"
  let ?st = "upd_buffer 0 (\<lambda>x. x\<lparr>cb_read_events := cb_read_events x @ [?ev]\<rparr>) (gpu [EventCreate ?ev, EventRecord ?ev ?s] st)"
  have s: "?s \<noteq> 0" using assms(1,3) by (simp add: alive_inv_def)
  have g: "fst (ge_create e) = cudaSuccess" "ge_record e = cudaSuccess" "?ev \<noteq> 0" "?ev \<notin> set (events_in_use st)"
    using assms(2) by (auto simp: good_env_def)
  have eq: "read_release e h st = ?st"
    using assms(4) s g(1,2) by (simp add: read_release_def usable_good [OF assms(2)] split_beta)
  have u: "events_in_use ?st = cb_write_event (cs_buffer st 0) # cb_read_events (cs_buffer st 0) @ [?ev]"
    using assms(1) by (simp add: alive_inv_def events_in_use_def events_to_sync_def)
  have v: "gv_before (view ?st) = gv_before (view st)" "gv_done (view ?st) = gv_done (view st)"
    "gv_event (view ?st) = (gv_event (view st))(?ev := gv_before (view st) ?s)"
    by (simp_all add: gpu_run_append)
  have "covered ?st (remove1 h rs) i" if "covered st rs i" for i
  proof (intro covered_mono [OF that])
    show "(k \<in> set (remove1 h rs) \<and> i \<in> gv_before (view ?st) (rh_stream k)) \<or>
      (\<exists>ev\<in>set (events_in_use ?st). i \<in> gv_event (view ?st) ev)"
      if k: "k \<in> set rs" "i \<in> gv_before (view st) (rh_stream k)" for k
    proof (cases "k = h")
      case True
      with k(2) have "i \<in> gv_event (view ?st) ?ev" by (simp only: v fun_upd_same)
      then show ?thesis by (intro disjI2 bexI [of _ ?ev]) (simp_all add: u)
    next
      case False
      with k show ?thesis unfolding v by simp
    qed
  qed (use g(4) in \<open>auto simp: u gpu_run_append events_in_use_alive [OF assms(1)]\<close>)
  moreover have "writes_ordered ?st ws wr"
    using assms(1) g(4) v unfolding events_in_use_alive [OF assms(1)]
    by (auto simp: alive_inv_def writes_ordered_def Let_def phase_def)
  ultimately show ?thesis
    using assms(1) g(3) unfolding eq by (auto simp: alive_inv_def undeleted_def dest: set_remove1_subset [THEN subsetD])
qed

lemma end_write_alive:
  assumes "alive_inv st rs [h] wr rd" and "good_env e st" and "wh_event h = Some 0"
    and "wh_state h = cb_handle_state (cs_buffer st 0)" and "phase st \<noteq> Unset"
  shows "alive_inv (write_release e h st) rs [] wr rd"
proof (cases "phase st = InUse")
  case True
  obtain a where a: "cb_handle_state (cs_buffer st 0) = Some a" "wh_state h = Some a"
    "hs_state (cs_handle_state st a) = InUse" "hs_write_stream (cs_handle_state st a) = wh_stream h"
    "wh_stream h \<noteq> 0" "cb_write_event (cs_buffer st 0) \<noteq> 0"
    using writer_state [OF assms(1) True, of h] by (metis list.set_intros(1))
  have "ge_record e = cudaSuccess" using assms(2) by (simp add: good_env_def)
  then have "write_release e h st = upd_handle_state a Finalized 0
      (gpu [EventRecord (cb_write_event (cs_buffer st 0)) (wh_stream h)] st)"
    using a assms(3) by (simp add: write_release_def Let_def usable_good [OF assms(2)])
  then show ?thesis using finalized_alive [OF assms(1) True _ a(1), of h "[]"] by simp
next
  case False
  with assms(5) have f: "phase st = Finalized" by (cases "phase st") auto
  then obtain a where "cb_handle_state (cs_buffer st 0) = Some a" "hs_state (cs_handle_state st a) = Finalized"
    by (cases "cb_handle_state (cs_buffer st 0)") (simp_all add: phase_def)
  with assms(4) have "write_release e h st = st" by (simp add: write_release_def)
  then show ?thesis using assms(1) f by (simp add: alive_inv_def writes_ordered_def Let_def)
qed

lemma end_buffer_pending:
  assumes "alive_inv st [] [] wr rd" and "phase st \<noteq> InUse"
  shows "pending_inv (destroy_buffer 0 st) (rd \<union> wr)"
proof -
  let ?ev = "cb_write_event (cs_buffer st 0)" and ?es = "cb_read_events (cs_buffer st 0)"
  let ?pw = "\<lparr>pw_events = ?ev # ?es, pw_ptr = cb_ptr (cs_buffer st 0), pw_deleter = cb_deleter (cs_buffer st 0)\<rparr>"
  have d: "cs_queue (destroy_buffer 0 st) = [?pw]" "cs_trace (destroy_buffer 0 st) = cs_trace st"
    using assms(1) by (simp_all add: alive_inv_def destroy_buffer_def destroy_value_def events_to_sync_def enqueue_def)
  have "wr \<subseteq> gv_event (view st) ?ev"
    using assms by (cases "phase st") (auto simp: alive_inv_def writes_ordered_def Let_def)
  moreover have "\<forall>i\<in>rd. i \<in> gv_done (view st) \<or> (\<exists>ev\<in>set (?ev # ?es). i \<in> gv_event (view st) ev)"
    using assms(1) events_in_use_alive [OF assms(1)] by (auto simp: alive_inv_def covered_def)
  ultimately show ?thesis
    unfolding pending_inv_def d
    by (intro exI [of _ ?pw]) (use assms(1) in \<open>auto simp: alive_inv_def\<close>)
qed

lemma recycle_pending:
  assumes "pending_inv st works" and "\<forall>ev. ge_sync e ev = cudaSuccess"
  shows "released_inv (recycle e st) works"
proof -
  obtain pw where pw: "cs_queue st = [pw]" "pw_ptr pw \<noteq> 0" "0 \<notin> set (pw_events pw)" "undeleted (cs_trace st)"
    "\<forall>i\<in>works. i \<in> gv_done (view st) \<or> (\<exists>ev\<in>set (pw_events pw). i \<in> gv_event (view st) ev)"
    using assms(1) unfolding pending_inv_def by blast
  let ?pre = "cs_trace st @ concat (map (sync_calls e) (pw_events pw))"
  have "undeleted (sync_calls e ev)" for ev by (simp add: sync_calls_def undeleted_def)
  then have "undeleted ?pre" using pw(4) by (auto simp: undeleted_def)
  moreover have "works \<subseteq> gv_done (gpu_run ?pre)"
    using pw(3,5) sync_calls_run [OF assms(2), of "pw_events pw" "view st"]
    by (auto simp: gpu_run_append Let_def)
  ultimately show ?thesis
    using pw(1,2) by (auto simp: released_inv_def recycle_def)
qed

lemma order_step:
  assumes "buffer_step True w w'" and "protocol_inv w" and "order_inv w"
  shows "order_inv w'"
  using assms
proof cases
  case (get_read e s r st)
  have "phase (bw_state w) = InUse \<longrightarrow> bw_writers w \<noteq> []" using assms(2) get_read(2) by (auto simp: protocol_inv_def)
  then show ?thesis
    using get_read_alive(1) [of "bw_state w" _ _ _ _ e "bw_state w" s r st] assms(3) get_read
    by (auto simp: order_inv_def)
next
  case (get_write e s r st)
  have "phase (bw_state w) = Unset \<longrightarrow> bw_writers w = []" using assms(2) get_write(2) by (auto simp: protocol_inv_def)
  then show ?thesis
    using get_write_alive [of "bw_state w" _ _ _ _ e s r st] assms(3) get_write
    by (auto simp: order_inv_def)
next
  case (use_read h k)
  have "bw_alive w" using assms(2) use_read(2) by (auto simp: protocol_inv_def)
  then show ?thesis using work_alive(1) assms(3) use_read by (simp add: order_inv_def)
next
  case (use_write h k)
  have al: "bw_alive w" using assms(2) use_write(2) by (auto simp: protocol_inv_def)
  have "bw_writers w = [h]" using assms(2) use_write(2) by (auto simp: protocol_inv_def intro: length_le_one_cases)
  moreover have "phase (bw_state w) = InUse"
    using use_write(2,3) assms(2) by (force simp: protocol_inv_def phase_def)
  ultimately show ?thesis using work_alive(2) assms(3) use_write al by (simp add: order_inv_def)
next
  case (end_read h e lst)
  have al: "bw_alive w" and h: "rh_events h = Some 0" "rh_promoted h = None"
    using assms(2) end_read(2) by (auto simp: protocol_inv_def)
  then show ?thesis
    using end_read_alive [of "bw_state w" "bw_readers w"] assms(3) end_read
    by (simp add: order_inv_def destroy_read_handle_def drop_promoted_def)
next
  case (end_write h e lst)
  have al: "bw_alive w" and w: "bw_writers w = [h]"
    and h: "wh_event h = Some 0" "wh_promoted h = None" "wh_state h = cb_handle_state (cs_buffer (bw_state w) 0)"
      "phase (bw_state w) \<noteq> Unset"
    using assms(2) end_write(2) by (auto simp: protocol_inv_def intro: length_le_one_cases)
  then show ?thesis
    using end_write_alive [of "bw_state w" "bw_readers w" h] assms(3) end_write
    by (simp add: order_inv_def destroy_write_handle_def drop_promoted_def)
next
  case (finalize e)
  have "phase (bw_state w) = InUse \<longrightarrow> bw_writers w \<noteq> []" using assms(2) finalize(2) by (auto simp: protocol_inv_def)
  then show ?thesis using finalize_alive assms(3) finalize by (auto simp: order_inv_def)
next
  case end_buffer
  have "phase (bw_state w) \<noteq> InUse" using assms(2) end_buffer by (auto simp: protocol_inv_def)
  then show ?thesis using end_buffer_pending assms(3) end_buffer by (simp add: order_inv_def)
next
  case (recycle_turn e)
  have s: "\<forall>ev. ge_sync e ev = cudaSuccess" using recycle_turn(2) by (simp add: good_env_def)
  have "recycle e st = st" if "cs_queue st = []" for st using that by (simp add: recycle_def)
  then have "order_inv w" if "cs_queue (bw_state w) = []" "w' = w" using assms(3) that by simp
  moreover have "released_inv st' works \<Longrightarrow> cs_queue st' = []" for st' works by (simp add: released_inv_def)
  ultimately show ?thesis
    using recycle_turn(1) assms(3) recycle_pending [OF _ s, of "bw_state w"] \<open>\<And>st. cs_queue st = [] \<Longrightarrow> recycle e st = st\<close>
    unfolding order_inv_def by (cases "bw_alive w") (auto simp: alive_inv_def simp del: Un_subset_iff)
qed

section \<open>Events\<close>

text \<open>What the traces do to the CUDA events.\<close>

fun event_calls :: "gpu_call list \<Rightarrow> call list" where
  "event_calls [] = []"
| "event_calls (EventCreate ev # cs) = Acquire (Event ev) # event_calls cs"
| "event_calls (EventDestroy ev # cs) = Release (Event ev) # event_calls cs"
| "event_calls (_ # cs) = event_calls cs"

lemma event_calls_append [simp]: "event_calls (as @ bs) = event_calls as @ event_calls bs"
  by (induction as rule: event_calls.induct) simp_all

definition event_res :: "nat list \<Rightarrow> resource multiset" where
  "event_res evs = image_mset Event (mset evs)"

lemma event_res_simps [simp]:
  "event_res [] = {#}" "event_res (ev # evs) = add_mset (Event ev) (event_res evs)"
  "event_res (as @ bs) = event_res as + event_res bs"
  by (simp_all add: event_res_def)

lemma destroys_ledger:
  assumes "\<And>ev. ev \<in> set evs \<Longrightarrow> event_calls (f ev) = [Release (Event ev)]"
  shows "ledger (event_calls (concat (map f evs))) (event_res evs + R) = Some R"
  using assms by (induction evs) simp_all

lemma partition_event_res:
  "event_res evs = event_res (filter P evs) + event_res (filter (\<lambda>ev. \<not> P ev) evs)"
  by (induction evs) simp_all

lemma events_in_use_fields:
  assumes "cs_buffer st' = cs_buffer st" and "cs_queue st' = cs_queue st"
  shows "events_in_use st' = events_in_use st"
  using assms by (simp add: events_in_use_def)

text \<open>
  Operations that only destroy events, each one it no longer keeps, in the form
  that the invariant needs.
\<close>

definition events_kept :: "cuda_state \<Rightarrow> cuda_state \<Rightarrow> bool" where
  "events_kept st st' \<longleftrightarrow>
     (\<forall>R. ledger (event_calls (cs_trace st)) R = Some (event_res (events_in_use st)) \<longrightarrow>
        ledger (event_calls (cs_trace st')) R = Some (event_res (events_in_use st'))) \<and>
     (0 \<notin> set (events_in_use st) \<longrightarrow> 0 \<notin> set (events_in_use st'))"

lemma events_kept_trans: "events_kept a b \<Longrightarrow> events_kept b c \<Longrightarrow> events_kept a c"
  by (simp add: events_kept_def)

lemma events_kept_refl: "events_kept st st"
  by (simp add: events_kept_def)

lemma reap_events: "events_kept st (reap_completed_read_events e 0 st)"
proof -
  let ?P = "\<lambda>ev. ge_query e ev = cudaSuccess" and ?st = "reap_completed_read_events e 0 st"
  define gone where "gone = filter ?P (cb_read_events (cs_buffer st 0))"
  have e: "event_res (events_in_use st) = event_res gone + event_res (events_in_use ?st)"
    using partition_event_res [of "cb_read_events (cs_buffer st 0)" ?P]
    by (simp add: events_in_use_def events_to_sync_def gone_def)
  have "event_calls (cs_trace ?st) = event_calls (cs_trace st) @
      event_calls (concat (map (\<lambda>ev. [EventComplete ev, EventDestroy ev]) gone))"
    by (simp add: reap_trace gone_def)
  moreover have "0 \<notin> set (events_in_use st) \<longrightarrow> 0 \<notin> set (events_in_use ?st)"
    by (auto simp: events_in_use_def events_to_sync_def)
  ultimately show ?thesis
    unfolding events_kept_def using e
      destroys_ledger [of gone "\<lambda>ev. [EventComplete ev, EventDestroy ev]" "event_res (events_in_use ?st)"]
    by (simp add: ledger_append_Some)
qed

lemma events_kept_calls:
  assumes "event_calls (cs_trace st') = event_calls (cs_trace st)" and "events_in_use st' = events_in_use st"
  shows "events_kept st st'"
  using assms by (simp add: events_kept_def)

lemma finalize_events: "events_kept st (finalize_write_handle e 0 st)"
  by (rule events_kept_calls)
     (auto simp: finalize_fields intro!: events_in_use_fields
        simp: finalize_write_handle_def finalize_write_handle_locked_def Let_def split: option.splits)

lemma make_read_events: "make_read_handle e 0 s st = (r, st') \<Longrightarrow> events_kept st st'"
  by (rule events_kept_calls)
     (auto simp: make_read_handle_def Let_def intro!: events_in_use_fields split: if_splits)

lemma get_read_events: "get_read_handle e 0 s st = (r, st') \<Longrightarrow> events_kept st st'"
  unfolding get_read_handle_alt
  by (meson events_kept_trans reap_events finalize_events make_read_events)

lemma get_write_events:
  assumes "get_write_handle e 0 s st = (r, st')"
  shows "events_kept st st'"
proof (rule events_kept_trans [OF reap_events [of _ e]], rule events_kept_calls)
  let ?st1 = "reap_completed_read_events e 0 st"
  have "cs_trace st' = cs_trace ?st1 \<and> events_in_use st' = events_in_use ?st1"
    using get_write_handle_cases [OF assms]
    by (cases r) (auto simp: events_in_use_def events_to_sync_def)
  then show "event_calls (cs_trace st') = event_calls (cs_trace ?st1)"
    "events_in_use st' = events_in_use ?st1" by simp_all
qed

lemma read_release_cases:
  assumes "valid_env e" and "rh_events h = Some 0"
  obtains "read_release e h st = st"
    | "read_release e h st = gpu [EventCreate (snd (ge_create e)), EventDestroy (snd (ge_create e))] st"
    | "snd (ge_create e) \<noteq> 0" "read_release e h st =
        upd_buffer 0 (\<lambda>x. x\<lparr>cb_read_events := cb_read_events x @ [snd (ge_create e)]\<rparr>)
          (gpu [EventCreate (snd (ge_create e)), EventRecord (snd (ge_create e)) (rh_stream h)] st)"
proof -
  note r = read_release_def [of e h st, unfolded assms(2) option.case split_beta Let_def]
  show thesis
  proof (cases "cuda_is_stream_usable e (rh_stream h) \<and> fst (ge_create e) = cudaSuccess")
    case False
    then have "read_release e h st = st" unfolding r by auto
    then show ?thesis by (rule that(1))
  next
    case True
    then have c: "read_release e h st =
        (if ge_record e \<noteq> cudaSuccess then gpu [EventCreate (snd (ge_create e)), EventDestroy (snd (ge_create e))] st
         else upd_buffer 0 (\<lambda>x. x\<lparr>cb_read_events := cb_read_events x @ [snd (ge_create e)]\<rparr>)
                (gpu [EventCreate (snd (ge_create e)), EventRecord (snd (ge_create e)) (rh_stream h)] st))"
      unfolding r by (elim conjE) (simp only: not_True_eq_False simp_thms if_False)
    show ?thesis
    proof (cases "ge_record e = cudaSuccess")
      case True
      then show ?thesis using c assms(1) \<open>cuda_is_stream_usable _ _ \<and> _\<close> that(3) by (simp add: valid_env_def)
    next
      case False
      then show ?thesis using c that(2) by simp
    qed
  qed
qed

lemma read_release_events:
  assumes "valid_env e" and "rh_events h = Some 0" and "cs_queue st = []"
  shows "events_kept st (read_release e h st)"
proof (rule read_release_cases [OF assms(1,2), of st])
  let ?ev = "snd (ge_create e)"
  show "events_kept st (read_release e h st)" if "read_release e h st = st"
    using that by (simp add: events_kept_refl)
  show "events_kept st (read_release e h st)"
    if "read_release e h st = gpu [EventCreate ?ev, EventDestroy ?ev] st"
    unfolding that by (simp add: events_kept_def ledger_append_Some events_in_use_def)
  show "events_kept st (read_release e h st)"
    if "?ev \<noteq> 0" "read_release e h st = upd_buffer 0 (\<lambda>x. x\<lparr>cb_read_events := cb_read_events x @ [?ev]\<rparr>)
          (gpu [EventCreate ?ev, EventRecord ?ev (rh_stream h)] st)"
    unfolding that(2) using that(1) assms(3)
    by (simp add: events_kept_def ledger_append_Some events_in_use_def events_to_sync_def)
qed

lemma write_release_events: "events_kept st (write_release e h st)"
  by (rule events_kept_calls)
     (auto simp: write_release_def Let_def intro!: events_in_use_fields split: option.splits)

lemma run_deleter_events: "events_kept st (run_deleter d p st)"
  by (rule events_kept_calls) (auto intro!: events_in_use_fields)

lemma recycle_events:
  assumes "0 \<notin> set (events_in_use st)" 
  shows "events_kept st (recycle e st)"
proof (cases "cs_queue st")
  case Nil
  then show ?thesis by (simp add: recycle_def events_kept_refl)
next
  case (Cons w ws)
  let ?st = "gpu (concat (map (sync_calls e) (pw_events w))) (st\<lparr>cs_queue := ws\<rparr>)"
  have z: "0 \<notin> set (pw_events w)" using assms Cons by (auto simp: events_in_use_def)
  have u: "event_res (events_in_use st) = event_res (pw_events w) + event_res (events_in_use ?st)"
    using Cons by (simp add: events_in_use_def)
  have "event_calls (sync_calls e ev) = [Release (Event ev)]" if "ev \<in> set (pw_events w)" for ev
    using z that by (cases "ev = 0") (auto simp: sync_calls_def)
  then have "ledger (event_calls (concat (map (sync_calls e) (pw_events w))))
      (event_res (pw_events w) + event_res (events_in_use ?st)) = Some (event_res (events_in_use ?st))"
    by (rule destroys_ledger)
  then have "events_kept st ?st"
    using Cons by (auto simp: events_kept_def u ledger_append_Some events_in_use_def add.left_commute)
  moreover have "recycle e st = run_deleter (pw_deleter w) (pw_ptr w) ?st"
    using Cons by (simp add: recycle_def)
  ultimately show ?thesis by (metis events_kept_trans run_deleter_events)
qed

lemma end_buffer_events:
  assumes "cb_recycler (cs_buffer st 0)" and "cb_owns_write_event (cs_buffer st 0)"
    and "cb_write_event (cs_buffer st 0) \<noteq> 0"
  shows "events_kept st (destroy_buffer 0 st)" and "cs_buffer (destroy_buffer 0 st) 0 = empty_buffer"
  using assms
  by (simp_all add: events_kept_def destroy_buffer_def destroy_value_def enqueue_def events_in_use_def
      events_to_sync_def empty_buffer_def ac_simps)

lemma recycler_fields:
  "cs_buffer (read_release e h st) b =
     (cs_buffer st b)\<lparr>cb_read_events := cb_read_events (cs_buffer (read_release e h st) b)\<rparr>"
  "cs_buffer (write_release e k st) = cs_buffer st"
  by (auto simp: read_release_def write_release_def Let_def split: option.splits prod.splits)

text \<open>What stays true of the buffer while it lives.\<close>

definition owner_ok :: "cuda_buffer \<Rightarrow> bool" where
  "owner_ok b \<longleftrightarrow> cb_recycler b \<and> cb_owns_write_event b \<and> cb_write_event b \<noteq> 0"

lemma owner_ok_read: "owner_ok (b\<lparr>cb_read_events := es\<rparr>) = owner_ok b"
  by (simp add: owner_ok_def)

lemma get_handles_owner:
  "get_read_handle e 0 s st = (r, st') \<Longrightarrow> owner_ok (cs_buffer st 0) \<Longrightarrow> owner_ok (cs_buffer st' 0)"
  "get_write_handle e 0 s st = (r', st') \<Longrightarrow> owner_ok (cs_buffer st 0) \<Longrightarrow> owner_ok (cs_buffer st' 0)"
proof -
  show "owner_ok (cs_buffer st' 0)" if "get_read_handle e 0 s st = (r, st')" "owner_ok (cs_buffer st 0)"
    using make_read_handle_fields(1) [OF that(1) [unfolded get_read_handle_alt]] that(2)
    by (simp add: finalize_fields owner_ok_def)
  show "owner_ok (cs_buffer st' 0)" if "get_write_handle e 0 s st = (r', st')" "owner_ok (cs_buffer st 0)"
    using get_write_handle_cases [OF that(1)] that(2) by (cases r') (auto simp: owner_ok_def)
qed

lemma events_step:
  assumes "buffer_step ok w w'" and "protocol_inv w" and "bw_alive w \<longrightarrow> cs_queue (bw_state w) = []"
    and "bw_alive w \<longrightarrow> owner_ok (cs_buffer (bw_state w) 0)" and "0 \<notin> set (events_in_use (bw_state w))"
  shows "events_kept (bw_state w) (bw_state w') \<and>
    (bw_alive w' \<longrightarrow> owner_ok (cs_buffer (bw_state w') 0) \<and> cs_queue (bw_state w') = [])"
  using assms(1)
proof cases
  case (get_read e s r st)
  have "cs_queue st = cs_queue (bw_state w)"
    using make_read_handle_fields(3) [OF get_read(4) [unfolded get_read_handle_alt]] by (simp add: finalize_fields)
  then show ?thesis using get_read assms(3,4) get_read_events get_handles_owner(1) [OF get_read(4)] by simp
next
  case (get_write e s r st)
  have "cs_queue st = cs_queue (bw_state w)" using get_write_handle_cases [OF get_write(4)] by (cases r) auto
  then show ?thesis using get_write assms(3,4) get_write_events get_handles_owner(2) [OF get_write(4)] by simp
next
  case (end_read h e lst)
  then have "bw_alive w" "rh_events h = Some 0" "rh_promoted h = None"
    using assms(2) by (auto simp: protocol_inv_def)
  moreover have "owner_ok (cs_buffer (read_release e h (bw_state w)) 0)"
    using assms(4) \<open>bw_alive w\<close> by (subst recycler_fields(1)) (simp add: owner_ok_read)
  ultimately show ?thesis
    using end_read assms(3) read_release_events [of e h "bw_state w"]
    by (simp add: destroy_read_handle_def drop_promoted_def read_release_phase)
next
  case (end_write h e lst)
  then have "bw_alive w" "wh_promoted h = None" using assms(2) by (auto simp: protocol_inv_def)
  moreover have "cs_queue (write_release e h st) = cs_queue st" for st
    by (auto simp: write_release_def Let_def split: option.splits)
  ultimately show ?thesis
    using end_write assms(3,4) write_release_events [of "bw_state w" e h]
    by (simp add: destroy_write_handle_def drop_promoted_def recycler_fields)
next
  case (finalize e)
  then show ?thesis using assms(3,4) finalize_events by (simp add: finalize_fields)
next
  case end_buffer
  then show ?thesis using assms(4) end_buffer_events by (simp add: owner_ok_def)
next
  case (recycle_turn e)
  have "cs_queue (recycle e (bw_state w)) = []" if "bw_alive w"
    using assms(3) that by (simp add: recycle_def)
  then show ?thesis using recycle_turn assms(4) recycle_events [OF assms(5)] by simp
qed (auto simp: events_kept_def events_in_use_def assms(3,4))

lemma reachable_protocol: "buffer_reachable ok w \<Longrightarrow> protocol_inv w"
proof (induction rule: buffer_reachable.induct)
  case (start st ok)
  then show ?case by (simp add: protocol_inv_def buffer_start_def phase_def fresh_buffer_def)
qed (rule protocol_step)

lemma reachable_order: "buffer_reachable ok w \<Longrightarrow> ok \<Longrightarrow> order_inv w"
proof (induction rule: buffer_reachable.induct)
  case (start st ok)
  then show ?case
    by (simp add: order_inv_def buffer_start_def alive_inv_def fresh_buffer_def undeleted_def
        writes_ordered_def phase_def gpu_run_def empty_view_def)
next
  case (step ok w w')
  then show ?case using order_step reachable_protocol by (metis (full_types))
qed

lemma reachable_events:
  "buffer_reachable ok w \<Longrightarrow>
     (\<exists>ev. ev \<noteq> 0 \<and> ledger (event_calls (cs_trace (bw_state w))) {#Event ev#} = Some (event_res (events_in_use (bw_state w)))) \<and>
     0 \<notin> set (events_in_use (bw_state w)) \<and>
     (bw_alive w \<longrightarrow> owner_ok (cs_buffer (bw_state w) 0) \<and> cs_queue (bw_state w) = [])"
proof (induction rule: buffer_reachable.induct)
  case (start st ok)
  then show ?case
    by (auto simp: buffer_start_def fresh_buffer_def events_in_use_def events_to_sync_def owner_ok_def)
next
  case (step ok w w')
  with events_step [OF step(2) reachable_protocol [OF step(1)]] show ?case
    unfolding events_kept_def by blast
qed

section \<open>A run\<close>

definition sample_env :: gpu_env where
  "sample_env = \<lparr>ge_stream = (\<lambda>_. cudaSuccess), ge_query = (\<lambda>_. cudaErrorNotReady), ge_create = (cudaSuccess, 9),
     ge_record = cudaSuccess, ge_wait = cudaSuccess, ge_sync = (\<lambda>_. cudaSuccess)\<rparr>"

definition sample_cuda_buffer :: cuda_buffer where
  "sample_cuda_buffer = set_write_event 7 True (make_buffer 4096 64 0 (Pool_Free 0))"

definition sample_cuda_state :: cuda_state where
  "sample_cuda_state = \<lparr>cs_buffer = (\<lambda>_. sample_cuda_buffer), cs_handle_state = (\<lambda>_. \<lparr>hs_state = Unset, hs_write_stream = 0\<rparr>),
     cs_next = 0, cs_queue = [], cs_meta = (\<lambda>_. init_metadata), cs_pool = empty_pool, cs_trace = []\<rparr>"

lemmas sample_defs = sample_env_def sample_cuda_buffer_def sample_cuda_state_def set_write_event_def
  make_buffer_def empty_buffer_def

definition written_state :: cuda_state where
  "written_state = snd (get_write_handle sample_env 0 1 sample_cuda_state)"

lemma sample_start: "buffer_reachable ok (buffer_start sample_cuda_state)"
  by (rule buffer_reachable.start) (simp_all add: sample_defs fresh_buffer_def)

lemma sample_good: "cb_write_event (cs_buffer st 0) = 7 \<or> cb_write_event (cs_buffer st 0) = 0 \<Longrightarrow>
    cb_read_events (cs_buffer st 0) = [] \<Longrightarrow> cs_queue st \<in> {[], [\<lparr>pw_events = [7], pw_ptr = p, pw_deleter = d\<rparr>]} \<Longrightarrow>
    good_env sample_env st"
  by (auto simp: good_env_def sample_env_def events_in_use_def events_to_sync_def)

definition sample_writer :: write_handle where
  "sample_writer = \<lparr>wh_ptr = 4096, wh_event = Some 0, wh_stream = 1, wh_state = Some 0, wh_promoted = None\<rparr>"

lemma sample_get_write:
  "get_write_handle sample_env 0 1 sample_cuda_state = (Inr sample_writer, written_state)"
  by (simp add: written_state_def get_write_handle_def sample_defs sample_writer_def
      reap_completed_read_events_def Let_def)

lemma written_state_fields:
  "cs_buffer written_state 0 = sample_cuda_buffer\<lparr>cb_handle_state := Some 0\<rparr>"
  "cs_handle_state written_state 0 = \<lparr>hs_state = InUse, hs_write_stream = 1\<rparr>"
  "cs_queue written_state = []" "cs_trace written_state = []"
  by (simp_all add: written_state_def get_write_handle_def sample_defs reap_completed_read_events_def Let_def)

definition written_world :: buffer_world where
  "written_world = (buffer_start sample_cuda_state)
     \<lparr>bw_state := gpu [StreamWork 1 (Kernel 0)] written_state, bw_writers := [sample_writer],
      bw_granted := 1, bw_written := {0}\<rparr>"

lemma written_world_reachable: "buffer_reachable True written_world"
proof -
  have g: "good_env sample_env sample_cuda_state"
    by (rule sample_good) (simp_all add: sample_defs)
  have "buffer_reachable True ((buffer_start sample_cuda_state)
      \<lparr>bw_state := written_state, bw_writers := [sample_writer], bw_granted := 1\<rparr>)" (is "buffer_reachable _ ?w")
    using buffer_reachable.step [OF sample_start buffer_step.get_write [of "buffer_start sample_cuda_state" True sample_env 1
        "Inr sample_writer" written_state]] g sample_get_write
    by (simp add: buffer_start_def)
  then have "buffer_reachable True (?w\<lparr>bw_state := gpu [StreamWork (wh_stream sample_writer) (Kernel 0)] (bw_state ?w),
       bw_written := insert (length (cs_trace (bw_state ?w))) (bw_written ?w)\<rparr>)"
    by (intro buffer_reachable.step [OF _ buffer_step.use_write])
       (simp_all add: sample_writer_def written_state_fields)
  then show ?thesis
    by (simp add: written_world_def buffer_start_def sample_writer_def written_state_fields)
qed

lemma sample_fields:
  "cb_ptr sample_cuda_buffer = 4096" "cb_write_event sample_cuda_buffer = 7"
  "cb_owns_write_event sample_cuda_buffer" "cb_read_events sample_cuda_buffer = []"
  "cb_recycler sample_cuda_buffer" "cb_deleter sample_cuda_buffer = Pool_Free 0"
  "cuda_is_stream_usable sample_env s \<longleftrightarrow> s \<noteq> 0" "ge_record sample_env = cudaSuccess"
  "ge_sync sample_env ev = cudaSuccess"
  by (simp_all add: sample_defs cuda_is_stream_usable_def)

text \<open>The writer ends, the buffer ends, and the recycler takes its turn.\<close>

definition ended_state :: cuda_state where
  "ended_state = write_release sample_env sample_writer (gpu [StreamWork 1 (Kernel 0)] written_state)"

lemma ended_state_fields:
  "cs_buffer ended_state 0 = sample_cuda_buffer\<lparr>cb_handle_state := Some 0\<rparr>" "cs_queue ended_state = []"
  "cs_trace ended_state = [StreamWork 1 (Kernel 0), EventRecord 7 1]"
  by (simp_all add: ended_state_def write_release_def sample_writer_def written_state_fields sample_fields Let_def)

lemma recycled_world_reachable:
  "\<exists>w. buffer_reachable True w \<and> bw_written w = {0} \<and>
     cs_trace (bw_state w) = [StreamWork 1 (Kernel 0), EventRecord 7 1, EventSynchronize 7, EventDestroy 7] @
       Deleted (Pool_Free 0) 4096 # []"
proof -
  let ?w0 = "written_world\<lparr>bw_state := ended_state, bw_writers := []\<rparr>"
  let ?w1 = "?w0\<lparr>bw_state := destroy_buffer 0 ended_state, bw_alive := False\<rparr>"
  let ?w2 = "?w1\<lparr>bw_state := recycle sample_env (destroy_buffer 0 ended_state)\<rparr>"
  have d: "cs_queue (destroy_buffer 0 ended_state) = [\<lparr>pw_events = [7], pw_ptr = 4096, pw_deleter = Pool_Free 0\<rparr>]"
    "cs_trace (destroy_buffer 0 ended_state) = [StreamWork 1 (Kernel 0), EventRecord 7 1]"
    "cs_buffer (destroy_buffer 0 ended_state) 0 = empty_buffer"
    by (simp_all add: destroy_buffer_def destroy_value_def enqueue_def events_to_sync_def ended_state_fields sample_fields)
  have s: "bw_state written_world = gpu [StreamWork 1 (Kernel 0)] written_state" "bw_writers written_world = [sample_writer]"
    by (simp_all add: written_world_def)
  have "good_env sample_env (bw_state written_world)"
    unfolding s by (rule sample_good) (simp_all add: written_state_fields sample_fields)
  then have "buffer_step True written_world ?w0"
    using buffer_step.end_write [of sample_writer written_world True sample_env True] s
    by (simp add: destroy_write_handle_def drop_promoted_def ended_state_def sample_writer_def)
  moreover have "buffer_step True ?w0 ?w1"
    using buffer_step.end_buffer [of ?w0 True] by (simp add: written_world_def buffer_start_def)
  moreover have "good_env sample_env (bw_state ?w1)"
    by (rule sample_good [where p = 4096 and d = "Pool_Free 0"]) (simp_all add: d empty_buffer_def)
  then have "buffer_step True ?w1 ?w2"
    using buffer_step.recycle_turn [of True sample_env ?w1] by simp
  ultimately have "buffer_reachable True ?w2"
    using written_world_reachable buffer_reachable.step by meson
  moreover have "cs_trace (bw_state ?w2) = [StreamWork 1 (Kernel 0), EventRecord 7 1, EventSynchronize 7, EventDestroy 7] @
       Deleted (Pool_Free 0) 4096 # []"
    by (simp add: recycle_def d sync_calls_def sample_fields)
  ultimately show ?thesis by (intro exI [of _ ?w2]) (simp add: written_world_def)
qed

section \<open>What the buffer promises\<close>

text \<open>
  C2. The write is one-shot: over the whole life of a buffer, whatever CUDA answers, at most one write handle is
  ever given out; a write handle is given exactly when none was given before and every recorded read event
  has completed.
\<close>

theorem write_granted_at_most_once:
  assumes "buffer_reachable ok w"
  shows "length (bw_writers w) \<le> bw_granted w \<and> bw_granted w \<le> 1 \<and>
    (bw_alive w \<longrightarrow>
      ((\<exists>h st. get_write_handle e 0 s (bw_state w) = (Inr h, st)) \<longleftrightarrow>
        bw_granted w = 0 \<and>
        (\<forall>ev \<in> set (cb_read_events (cs_buffer (bw_state w) 0)). ge_query e ev = cudaSuccess)))"
proof -
  note inv = reachable_protocol [OF assms]
  let ?st = "bw_state w"
  obtain r st where g: "get_write_handle e 0 s ?st = (r, st)" by (cases "get_write_handle e 0 s ?st")
  have "(\<exists>h st. get_write_handle e 0 s ?st = (Inr h, st)) \<longleftrightarrow>
      phase ?st = Unset \<and> (\<forall>ev \<in> set (cb_read_events (cs_buffer ?st 0)). ge_query e ev = cudaSuccess)"
    using get_write_handle_cases [OF g] g
    by (cases r) (auto simp: phase_def filter_empty_conv)
  then show ?thesis using inv by (auto simp: protocol_inv_def)
qed

theorem write_granted_at_most_once_witness:
  "(\<nexists>h st. get_write_handle sample_env 0 2 (bw_state written_world) = (Inr h, st)) \<and>
   (\<exists>h st. get_write_handle sample_env 0 1 (bw_state (buffer_start sample_cuda_state)) = (Inr h, st))"
  using write_granted_at_most_once [OF written_world_reachable, of sample_env 2]
    write_granted_at_most_once [OF sample_start, of sample_env 1]
  by (simp add: written_world_def buffer_start_def sample_defs)





text \<open>
  C32. The CUDA events: whatever CUDA answers, every event that the buffer and its handles create is destroyed exactly
  once, by the reaping of completed reads or by the recycler, and when the buffer has ended and the recycler
  has worked off its queue none is left.
\<close>

theorem events_destroyed_once:
  assumes "buffer_reachable ok w"
  shows "\<exists>ev. ledger (event_calls (cs_trace (bw_state w))) {#Event ev#} =
      Some (image_mset Event (mset (events_in_use (bw_state w)))) \<and>
    (\<not> bw_alive w \<and> cs_queue (bw_state w) = [] \<longrightarrow>
       ledger (event_calls (cs_trace (bw_state w))) {#Event ev#} = Some {#})"
proof -
  have "cs_buffer (bw_state w) 0 = empty_buffer" if "\<not> bw_alive w"
    using assms that
  proof (induction rule: buffer_reachable.induct)
    case (step ok w w')
    from step.hyps(2) step.prems step.IH reachable_protocol [OF step.hyps(1)] show ?case
      by cases (auto simp: protocol_inv_def destroy_buffer_def)
  qed (simp add: buffer_start_def)
  then have "events_in_use (bw_state w) = []" if "\<not> bw_alive w" "cs_queue (bw_state w) = []"
    using that by (simp add: events_in_use_def events_to_sync_def empty_buffer_def)
  then show ?thesis using reachable_events [OF assms] by (auto simp: event_res_def)
qed

theorem events_destroyed_once_witness:
  "\<exists>w ev. buffer_reachable True w \<and> ledger (event_calls (cs_trace (bw_state w))) {#Event ev#} =
      Some (image_mset Event (mset (events_in_use (bw_state w))))"
  using events_destroyed_once [OF written_world_reachable] written_world_reachable by blast

text \<open>
  Reads on the default stream are not tracked: a read handle on stream 0 records no event when it
  ends, so that the deleter runs although the work sent through the handle is not known to be done.
\<close>

theorem default_stream_read_untracked:
  assumes "fresh_buffer (cs_buffer st 0)" and "cs_queue st = []" and "cs_trace st = []"
    and "get_read_handle e 0 0 st = (r, st1)"
    and "st2 = read_release e' (case r of Inl _ \<Rightarrow> moved_read | Inr h \<Rightarrow> h) (gpu [StreamWork 0 k] st1)"
    and "st3 = recycle e'' (destroy_buffer 0 st2)"
  shows "Deleted (cb_deleter (cs_buffer st 0)) (cb_ptr (cs_buffer st 0)) \<in> set (cs_trace st3) \<and>
    StreamWork 0 k = cs_trace st3 ! 0 \<and> gv_done (gpu_run (cs_trace st3)) = {}"
proof -
  let ?b = "cs_buffer st 0"
  have r: "r = Inr \<lparr>rh_ptr = cb_ptr ?b, rh_events = Some 0, rh_stream = 0, rh_promoted = None\<rparr>"
    "cs_trace st1 = []" "cs_buffer st1 0 = ?b" "cs_queue st1 = []"
    using assms(1-4)
    by (auto simp: fresh_buffer_def get_read_handle_alt make_read_handle_def finalize_write_handle_def
        reap_completed_read_events_def gpu_def upd_buffer_def)
  have "st2 = gpu [StreamWork 0 k] st1"
    using assms(5) r(1) by (simp add: read_release_def cuda_is_stream_usable_def)
  then show ?thesis
    using assms(1,6) r
    by (auto simp: fresh_buffer_def destroy_buffer_def destroy_value_def events_to_sync_def enqueue_def
        recycle_def sync_calls_def gpu_run_append) (simp_all add: gpu_run_def empty_view_def)
qed

theorem default_stream_read_untracked_witness:
  "\<exists>r st1 (st3 :: cuda_state). get_read_handle sample_env 0 0 sample_cuda_state = (r, st1) \<and>
     Deleted (Pool_Free 0) 4096 \<in> set (cs_trace st3) \<and> gv_done (gpu_run (cs_trace st3)) = {}"
proof -
  obtain r st1 where r: "get_read_handle sample_env 0 0 sample_cuda_state = (r, st1)"
    by (cases "get_read_handle sample_env 0 0 sample_cuda_state")
  have "fresh_buffer (cs_buffer sample_cuda_state 0)" "cs_queue sample_cuda_state = []" "cs_trace sample_cuda_state = []"
    by (simp_all add: sample_defs fresh_buffer_def)
  note d = default_stream_read_untracked [OF this r refl refl, of sample_env sample_env "Kernel 0"]
  have "cb_deleter (cs_buffer sample_cuda_state 0) = Pool_Free 0"
    "cb_ptr (cs_buffer sample_cuda_state 0) = 4096"
    by (simp_all add: sample_cuda_state_def sample_fields)
  with d r show ?thesis by auto
qed

text \<open>
  A write handle can be had while a read handle is alive: only the events of read handles that have ended are
  checked.
\<close>

theorem write_granted_while_reading:
  "\<exists>w h st. buffer_reachable True w \<and> bw_alive w \<and> bw_readers w \<noteq> [] \<and>
     get_write_handle sample_env 0 1 (bw_state w) = (Inr h, st)"
proof -
  let ?w = "buffer_start sample_cuda_state"
  obtain r st where r: "get_read_handle sample_env 0 2 sample_cuda_state = (r, st)"
    by (cases "get_read_handle sample_env 0 2 sample_cuda_state")
  have e: "r = Inr \<lparr>rh_ptr = 4096, rh_events = Some 0, rh_stream = 2, rh_promoted = None\<rparr>"
    "cs_buffer st 0 = sample_cuda_buffer"
    using r by (auto simp: get_read_handle_alt make_read_handle_def finalize_write_handle_def
        reap_completed_read_events_def gpu_def upd_buffer_def sample_defs)
  let ?w' = "?w\<lparr>bw_state := st, bw_readers := (case r of Inl _ \<Rightarrow> [] | Inr h \<Rightarrow> [h]) @ bw_readers ?w\<rparr>"
  have "good_env sample_env sample_cuda_state"
    by (rule sample_good) (simp_all add: sample_defs)
  then have "buffer_step True ?w ?w'"
    using r by (intro buffer_step.get_read [where e = sample_env and s = 2]) (simp_all add: buffer_start_def)
  then have "buffer_reachable True ?w'" using sample_start buffer_reachable.step by blast
  moreover have "\<exists>h st'. get_write_handle sample_env 0 1 st = (Inr h, st')"
    using e(2) by (simp add: get_write_handle_def reap_completed_read_events_def Let_def sample_defs)
  ultimately show ?thesis using e(1) by (intro exI [of _ ?w']) (simp add: buffer_start_def)
qed

end
