(* ===== verification/Pool_Lifecycle.thy ===== *)
theory Pool_Lifecycle
  imports Memory_Pool
begin

text \<open>
  The resources of the pool, from \<open>create\<close> to the destructor, and the properties of the pool.
  \<open>run_pool\<close> runs any sequence of the operations that the rest of the backend calls, while
  subscribers in other processes change the metadata in between (\<open>Subscribers\<close>).
\<close>

section \<open>Resources of a block\<close>

definition block_res :: "vmm_block \<Rightarrow> resource multiset" where
  "block_res b =
     (if vb_handle b \<noteq> 0 then {#Allocation (vb_handle b)#} else {#})
       + (if vb_va b \<noteq> 0 then {#VaRange (vb_va b), VaMapping (vb_va b)#} else {#})
       + fd_res (vb_exported_fd b) + fd_res (vb_shm_fd b) + meta_res (vb_ipc_meta b)"

text \<open>
  Documented behaviour of the CUDA driver: a handle or an address that it returns is not 0,
  and a failed export leaves the caller's descriptor at \<open>-1\<close>.
\<close>

definition block_env_ok :: "block_env \<Rightarrow> bool" where
  "block_env_ok e \<longleftrightarrow>
     (fst (be_create e) = CUDA_SUCCESS \<longrightarrow> snd (be_create e) \<noteq> 0) \<and>
     (fst (be_reserve e) = CUDA_SUCCESS \<longrightarrow> snd (be_reserve e) \<noteq> 0) \<and>
     (fst (be_export e) \<noteq> CUDA_SUCCESS \<longrightarrow> snd (be_export e) < 0)"

lemma release_block_ledger: "ledger (release_block b) (block_res b + R) = Some R"
  by (cases "vb_ipc_meta b") (simp_all add: release_block_def block_res_def fd_res_def)

lemma attach_metadata_ledger:
  assumes "attach_metadata e b m = (b', m', cs)" and "vb_ipc_meta b = None" and "vb_shm_fd b < 0"
  shows "ledger cs R = Some (fd_res (vb_shm_fd b') + meta_res (vb_ipc_meta b') + R)"
  using assms by (auto simp: attach_metadata_def Let_def split: if_splits option.splits)

lemma export_block_ledger:
  assumes "export_block c e b m = (b', m', cs)" and "vb_ipc_meta b = None" and "vb_shm_fd b < 0"
    and "vb_exported_fd b < 0" and "fst (be_export e) \<noteq> CUDA_SUCCESS \<longrightarrow> snd (be_export e) < 0"
  shows "ledger cs R =
    Some (fd_res (vb_exported_fd b') + fd_res (vb_shm_fd b') + meta_res (vb_ipc_meta b') + R)"
proof (cases c)
  case False
  with assms show ?thesis by (simp add: export_block_def)
next
  case True
  define b1 where "b1 = (if fst (be_export e) = CUDA_SUCCESS
    then b\<lparr>vb_exported_fd := snd (be_export e)\<rparr> else b)"
  obtain b2 m2 cs2 where a: "attach_metadata e b1 m = (b2, m2, cs2)" by (cases "attach_metadata e b1 m")
  have eq: "b' = b2" "cs = export_calls (snd (be_export e)) @ cs2"
    using assms(1) True a by (auto simp: export_block_def split_beta Let_def b1_def)
  have "vb_exported_fd (fst (attach_metadata e b1 m)) = vb_exported_fd b1" by simp
  then have fd: "vb_exported_fd b' = vb_exported_fd b1" by (simp add: a eq)
  have l: "ledger cs2 S = Some (fd_res (vb_shm_fd b') + meta_res (vb_ipc_meta b') + S)" for S
    using attach_metadata_ledger [OF a] assms(2,3) by (simp add: b1_def eq)
  have "ledger (export_calls (snd (be_export e))) R = Some (fd_res (vb_exported_fd b1) + R)"
    using assms(4,5) by (cases "snd (be_export e) \<ge> 0") (auto simp: export_calls_def b1_def)
  then show ?thesis using l fd by (simp add: eq ledger_append_Some ac_simps)
qed

text \<open>A block that is created owns what its creation acquired, and nothing is lost otherwise.\<close>

lemma create_block_ledger:
  assumes "block_env_ok e" and "create_block e a (m, p) = (r, (m', p'), cs)"
  shows "ledger cs R = Some (sum_list (map block_res (drop (length (all_blocks p)) (all_blocks p'))) + R)"
    and "take (length (all_blocks p)) (all_blocks p') = all_blocks p"
    and "pool_ipc p' = pool_ipc p"
proof -
  have "ledger cs R = Some (sum_list (map block_res (drop (length (all_blocks p)) (all_blocks p'))) + R)
      \<and> take (length (all_blocks p)) (all_blocks p') = all_blocks p \<and> pool_ipc p' = pool_ipc p"
    using create_block_cases [OF assms(2)]
  proof (elim disjE exE conjE)
    fix b cs'
    let ?b0 = "(new_block a (next_block_id p))
        \<lparr>vb_handle := snd (be_create e), vb_va := snd (be_reserve e)\<rparr>"
    assume ok: "fst (be_create e) = CUDA_SUCCESS" "fst (be_reserve e) = CUDA_SUCCESS"
      and ex: "export_block (ipc_capable p) e ?b0 m = (b, m', cs')"
      and p': "p' = p\<lparr>next_block_id := next_block_id p + 1, all_blocks := all_blocks p @ [b]\<rparr>"
      and cs: "cs = [CuMemCreate (snd (be_create e)), CuMemAddressReserve (snd (be_reserve e)),
            CuMemMap (snd (be_reserve e))] @ cs'"
    have "vb_handle (fst (b, m', cs')) = snd (be_create e)" "vb_va (fst (b, m', cs')) = snd (be_reserve e)"
      unfolding ex [symmetric] by simp_all
    then have hv: "vb_handle b = snd (be_create e)" "vb_va b = snd (be_reserve e)" by simp_all
    have nz: "snd (be_create e) \<noteq> 0" "snd (be_reserve e) \<noteq> 0"
      and xp: "fst (be_export e) \<noteq> CUDA_SUCCESS \<longrightarrow> snd (be_export e) < 0"
      using assms(1) ok by (simp_all add: block_env_ok_def)
    have "ledger cs' S =
        Some (fd_res (vb_exported_fd b) + fd_res (vb_shm_fd b) + meta_res (vb_ipc_meta b) + S)" for S
      by (rule export_block_ledger [OF ex _ _ _ xp]) (simp_all add: new_block_def)
    then show ?thesis using p' hv nz by (simp add: cs block_res_def)
  qed simp_all
  then show "ledger cs R =
      Some (sum_list (map block_res (drop (length (all_blocks p)) (all_blocks p'))) + R)"
    and "take (length (all_blocks p)) (all_blocks p') = all_blocks p"
    and "pool_ipc p' = pool_ipc p" by blast+
qed

lemma block_res_uid [simp]: "block_res (b\<lparr>vb_current_uid := u\<rparr>) = block_res b"
  by (simp add: block_res_def)

lemma map_block_res_update:
  "map block_res (bs[i := (bs ! i)\<lparr>vb_current_uid := u\<rparr>]) = map block_res bs"
  by (cases "i < length bs") (auto simp: map_update list_update_beyond list_update_same_conv)

section \<open>Runs of the pool\<close>

datatype pool_op =
    Do_allocate "nat \<Rightarrow> u64" block_env u64
  | Do_free nat
  | Do_assign_uid u64 u64 nat
  | Do_register register_env nat
  | Subscribers "meta_store \<Rightarrow> meta_store"

type_synonym pool_state = "meta_store \<times> cuda_pool \<times> dispatcher option"

definition pool_step :: "pool_op \<Rightarrow> pool_state \<Rightarrow> pool_state \<times> call list" where
  "pool_step x st =
     (let (m, p, disp) = st
      in case x of
           Do_allocate clk e n \<Rightarrow>
             (let (_, (m', p'), cs) = allocate clk e n (m, p) in ((m', p', disp), cs))
         | Do_free i \<Rightarrow> ((m, free_block i p, disp), [])
         | Do_assign_uid rnd now i \<Rightarrow>
             (let (_, (m', p')) = assign_uid rnd now i (m, p) in ((m', p', disp), []))
         | Do_register e i \<Rightarrow>
             (case disp of
                None \<Rightarrow> (st, [])
              | Some d \<Rightarrow>
                  (let (_, (p', d'), cs) = register_block_for_ipc e i (p, d)
                   in ((m, p', Some d'), cs)))
         | Subscribers f \<Rightarrow> ((f m, p, disp), []))"

fun run_pool :: "pool_op list \<Rightarrow> pool_state \<Rightarrow> pool_state \<times> call list" where
  "run_pool [] st = (st, [])"
| "run_pool (x # xs) st =
     (let (st1, cs) = pool_step x st; (st2, cs') = run_pool xs st1 in (st2, cs @ cs'))"

text \<open>The documented behaviour of the driver and of the kernel along a run.\<close>

fun env_ok :: "pool_op list \<Rightarrow> pool_state \<Rightarrow> bool" where
  "env_ok [] st = True"
| "env_ok (x # xs) st =
     ((case x of
         Do_allocate clk e n \<Rightarrow> block_env_ok e
       | Do_register e i \<Rightarrow>
           \<bar>re_pid e\<bar> < 2 ^ 31 \<and>
           (case pool_ipc (fst (snd st)) of None \<Rightarrow> True | Some mgr \<Rightarrow> fresh_socket e mgr)
       | _ \<Rightarrow> True) \<and>
      env_ok xs (fst (pool_step x st)))"

definition ipc_res :: "ipc_manager option \<Rightarrow> dispatcher option \<Rightarrow> resource multiset" where
  "ipc_res ipc disp =
     (case (ipc, disp) of (Some mgr, Some d) \<Rightarrow> manager_res (d, mgr) | _ \<Rightarrow> {#})"

definition pool_res :: "pool_state \<Rightarrow> resource multiset" where
  "pool_res st =
     sum_list (map block_res (all_blocks (fst (snd st)))) + ipc_res (pool_ipc (fst (snd st))) (snd (snd st))"

definition ipc_inv :: "pool_state \<Rightarrow> bool" where
  "ipc_inv st \<longleftrightarrow>
     (case (pool_ipc (fst (snd st)), snd (snd st)) of
        (Some mgr, Some d) \<Rightarrow> manager_inv (d, mgr) \<and> dispatcher_live d
      | (None, None) \<Rightarrow> True
      | _ \<Rightarrow> False)"

lemma ipc_inv_same: "pool_ipc p' = pool_ipc p \<Longrightarrow> ipc_inv (m', p', disp) = ipc_inv (m, p, disp)"
  by (simp add: ipc_inv_def)

lemma allocate_ledger:
  assumes "block_env_ok e" and "allocate clk e n (m, p) = (r, (m', p'), cs)"
  shows "ledger cs (sum_list (map block_res (all_blocks p)) + R) =
      Some (sum_list (map block_res (all_blocks p')) + R)"
    and "pool_ipc p' = pool_ipc p"
proof -
  have "ledger cs (sum_list (map block_res (all_blocks p)) + R) =
      Some (sum_list (map block_res (all_blocks p')) + R) \<and> pool_ipc p' = pool_ipc p"
    using assms(2)
  proof (cases rule: allocate_cases)
    case trap
    then show ?thesis by simp
  next
    case (fresh a)
    note c = create_block_ledger [OF assms(1) fresh(2)]
    let ?l = "length (all_blocks p)"
    have "sum_list (map block_res (all_blocks p')) =
        sum_list (map block_res (take ?l (all_blocks p'))) + sum_list (map block_res (drop ?l (all_blocks p')))"
      by (simp only: sum_list_append [symmetric] map_append [symmetric] append_take_drop_id)
    then show ?thesis using c by (simp add: ac_simps)
  next
    case (reused a key vec i)
    have "map block_res (all_blocks p') = map block_res (all_blocks p)"
      using arg_cong [OF reused(6), of "\<lambda>x. map block_res (all_blocks (snd x))"]
      by (simp add: reuse_block_def Let_def map_block_res_update)
    moreover have "pool_ipc p' = pool_ipc p"
      using arg_cong [OF reused(6), of "\<lambda>x. pool_ipc (snd x)"] by simp
    ultimately show ?thesis using reused(5) by simp
  qed
  then show "ledger cs (sum_list (map block_res (all_blocks p)) + R) =
      Some (sum_list (map block_res (all_blocks p')) + R)"
    and "pool_ipc p' = pool_ipc p" by blast+
qed

lemma assign_uid_res:
  assumes "assign_uid rnd now i (m, p) = (u, (m', p'))"
  shows "map block_res (all_blocks p') = map block_res (all_blocks p)"
  using assms by (auto simp: assign_uid_def Let_def map_block_res_update split: if_splits)

lemma register_for_ipc_step:
  assumes "ipc_inv (m, p, Some d)" and "pool_ipc p = Some mgr"
    and "fresh_socket e mgr" and "\<bar>re_pid e\<bar> < 2 ^ 31"
    and "register_block_for_ipc e i (p, d) = (r, (p', d'), cs)"
  shows "ipc_inv (m, p', Some d') \<and> all_blocks p' = all_blocks p \<and>
    ledger cs (ipc_res (pool_ipc p) (Some d)) = Some (ipc_res (pool_ipc p') (Some d'))"
proof (cases "\<not> ipc_capable p \<or> vb_exported_fd (all_blocks p ! i) < 0")
  case True
  with assms show ?thesis by (auto simp: register_block_for_ipc_def Let_def)
next
  case False
  have inv: "manager_inv (d, mgr)" "dispatcher_live d" using assms(1,2) by (simp_all add: ipc_inv_def)
  obtain d2 mgr2 cs2 r2
    where b: "register_block e (all_blocks p ! i) (d, mgr) = (r2, (d2, mgr2), cs2)"
    by (cases "register_block e (all_blocks p ! i) (d, mgr)") auto
  have eq: "p' = p\<lparr>pool_ipc := Some mgr2\<rparr>" "d' = d2" "cs = cs2"
    using assms(2,5) False b by (auto simp: register_block_for_ipc_def Let_def)
  note s = register_block_step [OF inv(1) _ assms(4) b]
  have "dispatcher_live d2" using register_block_live [of "(d, mgr)" e "all_blocks p ! i"] inv(2) b by simp
  then show ?thesis using s assms(2,3) by (simp add: eq ipc_inv_def ipc_res_def)
qed

lemma pool_step_ledger:
  assumes "ipc_inv st" and "env_ok [x] st" and "pool_step x st = (st', cs)"
  shows "ipc_inv st' \<and> ledger cs (pool_res st) = Some (pool_res st')"
proof -
  obtain m p disp where st: "st = (m, p, disp)" by (cases st)
  show ?thesis
  proof (cases x)
    case (Do_allocate clk e n)
    obtain r m' p' cs' where a: "allocate clk e n (m, p) = (r, (m', p'), cs')"
      by (cases "allocate clk e n (m, p)") auto
    have "block_env_ok e" using assms(2) Do_allocate by simp
    note l = allocate_ledger [OF this a]
    have "st' = (m', p', disp)" "cs = cs'" using assms(3) Do_allocate a by (simp_all add: st pool_step_def)
    then show ?thesis using assms(1) l
      by (auto simp: st pool_res_def ipc_inv_def split: option.splits)
  next
    case (Do_free i)
    with assms show ?thesis
      using ipc_inv_same [of "free_block i p" p m disp m]
      by (auto simp: st pool_step_def pool_res_def free_block_def)
  next
    case (Do_assign_uid rnd now i)
    obtain u m' p' where a: "assign_uid rnd now i (m, p) = (u, (m', p'))"
      by (cases "assign_uid rnd now i (m, p)") auto
    show ?thesis using assms(1,3) Do_assign_uid assign_uid_res [OF a] assign_uid_frame(4) [OF a]
        ipc_inv_same [OF assign_uid_frame(4) [OF a], of m' disp m]
      by (auto simp: st a pool_step_def pool_res_def)
  next
    case (Do_register e i)
    show ?thesis
    proof (cases disp)
      case None
      with assms Do_register show ?thesis by (auto simp: st pool_step_def)
    next
      case (Some d)
      then obtain mgr where mgr: "pool_ipc p = Some mgr"
        using assms(1) by (auto simp: st ipc_inv_def split: option.splits)
      obtain r p' d' cs' where a: "register_block_for_ipc e i (p, d) = (r, (p', d'), cs')"
        by (cases "register_block_for_ipc e i (p, d)") auto
      have env: "fresh_socket e mgr" "\<bar>re_pid e\<bar> < 2 ^ 31"
        using assms(2) Do_register mgr by (simp_all add: st)
      have "st' = (m, p', Some d')" "cs = cs'"
        using assms(3) Do_register Some a by (auto simp: st pool_step_def)
      then show ?thesis
        using register_for_ipc_step [OF _ mgr env a, of m] assms(1) Some
        by (auto simp: st pool_res_def intro: ledger_frame_left)
    qed
  next
    case (Subscribers f)
    with assms ipc_inv_same [of p p "f m" disp m] show ?thesis
      by (auto simp: st pool_step_def pool_res_def)
  qed
qed

lemma run_pool_ledger:
  assumes "ipc_inv st" and "env_ok xs st" and "run_pool xs st = (st', cs)"
  shows "ipc_inv st' \<and> ledger cs (pool_res st) = Some (pool_res st')"
  using assms
proof (induction xs arbitrary: st cs)
  case Nil
  then show ?case by simp
next
  case (Cons x xs)
  obtain st1 cs1 where 1: "pool_step x st = (st1, cs1)" by (cases "pool_step x st")
  obtain cs2 where 2: "run_pool xs st1 = (st', cs2)" and cs: "cs = cs1 @ cs2"
    using Cons.prems(3) 1 by (auto split: prod.splits)
  have "env_ok [x] st" "env_ok xs st1" using Cons.prems(2) 1 by simp_all
  with pool_step_ledger [OF Cons.prems(1) _ 1] Cons.IH [OF _ _ 2] show ?case
    by (simp add: cs ledger_append_Some)
qed

section \<open>Creation and destruction\<close>

lemma probe_ledger:
  assumes "fst (pr_create e) = CUDA_SUCCESS \<longrightarrow> snd (pr_create e) \<noteq> 0"
  shows "ledger (snd (probe_vmm_ipc e)) R = Some R"
  by (simp add: probe_vmm_ipc_def split_beta Let_def export_calls_def)

lemma create_pool_step:
  assumes "create_pool e (empty_pool, None) = (r, (p, disp), cs)"
  shows "ipc_inv (m, p, disp) \<and> all_blocks p = [] \<and> free_blocks p = [] \<and>
    ledger cs {#} = Some (pool_res (m, p, disp))"
proof -
  obtain ep ev ctl where d: "ce_dispatcher e = (ep, ev, ctl)" by (cases "ce_dispatcher e")
  obtain b cs1 where pr: "probe_vmm_ipc (ce_probe e) = (b, cs1)" by (cases "probe_vmm_ipc (ce_probe e)")
  obtain nd cs2 where nd: "new_dispatcher ep ev ctl = (nd, cs2)" by (cases "new_dispatcher ep ev ctl")
  have l1: "ledger cs1 R = Some R" for R
    using arg_cong [OF pr, of snd] by (auto simp: probe_vmm_ipc_def split_beta Let_def export_calls_def)
  have l2: "ledger cs2 {#} = Some (manager_res (nd, []))"
    using new_dispatcher_ledger [of ep ev ctl "{#}"] nd
    by (simp add: manager_res_def server_sockets_def)
  have inv: "manager_inv (nd, []) \<and> dispatcher_live nd"
    using new_dispatcher_inv [of ep ev ctl] nd
    by (auto simp: manager_inv_def server_sockets_def dispatcher_live_def new_dispatcher_def
        idle_dispatcher_def split: if_splits)
  show ?thesis
    using assms l1 l2 inv
    by (auto simp: create_pool_def empty_pool_def Let_def split_beta d pr nd get_dispatcher_def
        ipc_inv_def pool_res_def ipc_res_def ledger_append split: if_splits)
qed

lemma stop_after_destroy:
  assumes "manager_inv (d, mgr)" and "dispatcher_live d" and "destroy_manager (d, mgr) = ((d', x), cs)"
  shows "ledger (cs @ snd (stop_dispatcher d')) (manager_res (d, mgr)) = Some {#}"
proof -
  note s = destroy_manager_step [OF assms(1,3)]
  have "ledger (snd (stop_dispatcher d')) (fd_res (epoll_fd d) + fd_res (event_fd d)) = Some {#}"
  proof (cases "running d'")
    case True
    then show ?thesis using stop_dispatcher_empty [of d'] s by (simp add: dispatcher_res_def)
  next
    case False
    then show ?thesis using s assms(2) by (simp add: dispatcher_live_def stop_dispatcher_def)
  qed
  then show ?thesis using s(1) by (simp add: ledger_append_Some)
qed

lemma destroy_pool_ledger:
  assumes "ipc_inv (m, p, disp)" and "destroy_pool obs True (p, disp) = Some (disp', cs)"
  shows "disp' = None \<and> ledger cs (pool_res (m, p, disp)) = Some {#}"
proof -
  let ?cs = "concat (map release_block (all_blocks p))"
  have rel: "ledger ?cs (sum_list (map block_res (all_blocks p)) + R) = Some R" for R
    using ledger_frame [OF ledger_concat_release [of "all_blocks p" release_block block_res], of R]
      release_block_ledger [of _ "{#}"] by simp
  show ?thesis
  proof (cases "pool_ipc p")
    case None
    with assms rel [of "{#}"] show ?thesis
      by (auto simp: ipc_inv_def destroy_pool_def pool_res_def ipc_res_def Let_def split: option.splits)
  next
    case (Some mgr)
    then obtain d where d: "disp = Some d" using assms(1) by (auto simp: ipc_inv_def split: option.splits)
    obtain d' x cs2 where 2: "destroy_manager (d, mgr) = ((d', x), cs2)"
      by (cases "destroy_manager (d, mgr)") auto
    have inv: "manager_inv (d, mgr)" "dispatcher_live d" using assms(1) Some d by (simp_all add: ipc_inv_def)
    have "disp' = None" "cs = ?cs @ cs2 @ snd (stop_dispatcher d')"
      using assms(2) Some d 2 by (auto simp: destroy_pool_def Let_def split: option.splits)
    then show ?thesis
      using stop_after_destroy [OF inv 2] rel Some d
      by (simp add: pool_res_def ipc_res_def ledger_append_Some)
  qed
qed

section \<open>Waiting for the subscribers\<close>

lemma wait_all_ready_Some:
  assumes "list_all (is_block_ready (snd (obs (k + n))) (fst (obs (k + n)))) bs"
    and "\<And>j. j < n \<Longrightarrow> \<not> list_all (is_block_ready (snd (obs (k + j))) (fst (obs (k + j)))) bs"
  shows "wait_all_ready obs bs k = Some (k + n)"
  using assms
proof (induction n arbitrary: k)
  case 0
  then show ?case by (simp add: wait_all_ready.simps)
next
  case (Suc n)
  have "\<not> list_all (is_block_ready (snd (obs k)) (fst (obs k))) bs" using Suc.prems(2) [of 0] by simp
  moreover have "wait_all_ready obs bs (Suc k) = Some (Suc k + n)"
    using Suc.prems(1) Suc.prems(2) [of "Suc j" for j] by (intro Suc.IH) simp_all
  ultimately show ?case by (simp add: wait_all_ready.simps)
qed

lemma wait_all_ready_result:
  assumes "wait_all_ready obs bs k = Some n"
  shows "list_all (is_block_ready (snd (obs n)) (fst (obs n))) bs"
  by (rule wait_all_ready.raw_induct [OF _ assms,
        where P = "\<lambda>obs bs k n. list_all (is_block_ready (snd (obs n)) (fst (obs n))) bs"])
     (auto split: if_splits)

lemma wait_all_ready_returns:
  "(\<exists>n. wait_all_ready obs bs 0 = Some n) \<longleftrightarrow>
     (\<exists>k. list_all (is_block_ready (snd (obs k)) (fst (obs k))) bs)" (is "?l \<longleftrightarrow> (\<exists>k. ?P k)")
proof
  show "?l \<Longrightarrow> \<exists>k. ?P k" using wait_all_ready_result by blast
  assume "\<exists>k. ?P k"
  then obtain k where "?P k" "\<forall>j<k. \<not> ?P j" using exists_least_iff [of ?P] by blast
  then show ?l using wait_all_ready_Some [of obs 0 k bs] by (simp only: add_0) blast
qed

section \<open>Properties of the pool\<close>

text \<open>
  C1. A block is never given to two users: the block that \<open>allocate\<close> returns was in nobody's
  hands, is the only one added to those handed out, is large enough for the
  request (when the rounding of the request does not overflow), and the free list stays well
  formed: every block in the bucket of its size, none twice.
\<close>

theorem allocate_exclusive:
  assumes "pool_inv p" and "allocate clk e n (m, p) = (Inr i, (m', p'), cs)"
    and "unat n + unat (granularity p) \<le> 2 ^ 64"
  shows "pool_inv p' \<and> i \<notin> handed_out p \<and> handed_out p' = insert i (handed_out p) \<and>
    unat n \<le> unat (block_size p' i)"
proof -
  note s = allocate_step [OF assms(1,2)]
  have g: "granularity p \<noteq> 0"
    using assms(2) by (auto simp: allocate_def round_to_granularity_def split: if_splits)
  then obtain a where a: "round_to_granularity (granularity p) n = Inr a"
    by (simp add: round_to_granularity_def)
  have "unat n \<le> unat a"
    using iffD1 [OF round_to_granularity_fits [OF g assms(3)] a] g
      round_up_nat(1) [of "unat (granularity p)" "unat n"]
    by (auto simp: unat_gt_0)
  with s a show ?thesis by (auto simp: word_le_nat_alt)
qed

text \<open>A pool of three blocks of 4 KiB granularity: the third is handed out, two are free.\<close>

definition sample_pool :: cuda_pool where
  "sample_pool =
     empty_pool\<lparr>granularity := 4096, initialized := True, next_block_id := 3,
       all_blocks := [(new_block 4096 0)\<lparr>vb_handle := 1, vb_va := 65536, vb_current_uid := 77,
                        vb_ipc_meta := Some 0\<rparr>,
                      (new_block 8192 1)\<lparr>vb_handle := 2, vb_va := 131072\<rparr>,
                      (new_block 4096 2)\<lparr>vb_handle := 3, vb_va := 262144\<rparr>],
       free_blocks := [(4096, [0]), (8192, [1])]\<rparr>"

definition sample_block_env :: block_env where
  "sample_block_env =
     \<lparr>be_create = (CUDA_SUCCESS, 9), be_reserve = (CUDA_SUCCESS, 524288), be_map = CUDA_SUCCESS,
      be_access = CUDA_SUCCESS, be_export = (CUDA_SUCCESS, 5), be_pid = 7, be_shm_open = 6,
      be_ftruncate = 0, be_mmap = Some 1\<rparr>"

lemma bucket_sample: "bucket [(4096 :: u64, [0 :: nat]), (8192, [1])] k =
    (if k = 4096 then [0] else if k = 8192 then [1] else [])"
  by simp

lemma sample_pool_inv: "pool_inv sample_pool" and sample_free: "free_set sample_pool = {0, 1}"
proof -
  have f: "free_set sample_pool = {0, 1}"
    by (auto simp: free_set_def fb.elems_def sample_pool_def bucket_sample split: if_splits)
  have sz: "fb.sized (block_size sample_pool) (free_blocks sample_pool)"
    by (auto simp: fb.sized_def sample_pool_def bucket_sample block_size_def new_block_def
        split: if_splits)
  show "pool_inv sample_pool"
    unfolding pool_inv_def f using sz by (auto simp: sample_pool_def)
  show "free_set sample_pool = {0, 1}" by (rule f)
qed

lemmas pool_eval =
  sample_pool_def sample_block_env_def empty_pool_def new_block_def allocate_def create_block_def
  export_block_def attach_metadata_def round_to_granularity_def reuse_block_def
  is_block_ready_def init_metadata_def grace_period_us_def swap_pop_def Let_def

lemma sample_reuse:
  "allocate (\<lambda>_. 0) sample_block_env 4000 (\<lambda>_. init_metadata, sample_pool) =
     (Inr 0, (\<lambda>_. init_metadata, snd (reuse_block 0 (\<lambda>_. init_metadata,
        sample_pool\<lparr>free_blocks := [(8192, [1])]\<rparr>))), [])"
  by (simp add: pool_eval fun_eq_iff)

theorem allocate_exclusive_witness:
  "(let (r, (m', p'), cs) = allocate (\<lambda>_. 0) sample_block_env 4000 (\<lambda>_. init_metadata, sample_pool)
    in r = Inr 0 \<and> pool_inv p' \<and> 0 \<notin> handed_out sample_pool \<and>
       handed_out p' = insert 0 (handed_out sample_pool))"
  using allocate_exclusive [OF sample_pool_inv sample_reuse]
  unfolding sample_reuse by (simp add: sample_pool_def)

text \<open>
  The choice of the block: a block is reused only when it was seen ready and no
  smaller adequate block is free; it then has no uid and no publication time and no
  call is made. A new block, of exactly the rounded size, is created only when every free block
  of the smallest adequate size was seen busy (larger sizes are not looked at).
\<close>

theorem allocate_best_fit:
  assumes "pool_inv p" and "allocate clk e n (m, p) = (Inr i, (m', p'), cs)"
    and "round_to_granularity (granularity p) n = Inr a"
  shows "if i \<in> free_set p then
      (\<exists>k. is_block_ready (clk k) m (all_blocks p ! i)) \<and> a \<le> block_size p i \<and>
      (\<forall>j \<in> free_set p. a \<le> block_size p j \<longrightarrow> block_size p i \<le> block_size p j) \<and>
      vb_current_uid (all_blocks p' ! i) = 0 \<and> cs = [] \<and>
      (\<forall>s. vb_ipc_meta (all_blocks p ! i) = Some s \<longrightarrow> publish_timestamp_us (m' s) = 0)
    else
      i = length (all_blocks p) \<and> block_size p' i = a \<and>
      (\<forall>j \<in> free_set p. a \<le> block_size p j \<and>
          (\<forall>l \<in> free_set p. a \<le> block_size p l \<longrightarrow> block_size p j \<le> block_size p l) \<longrightarrow>
        (\<exists>k. \<not> is_block_ready (clk k) m (all_blocks p ! j)))"
  using assms(2)
proof (cases rule: allocate_cases)
  case trap
  then show ?thesis by simp
next
  case (fresh b)
  have b: "b = a" using fresh(1) assms(3) by simp
  have i: "i = length (all_blocks p)" "block_size p' i = a"
    using create_block_inv(4) [OF assms(1) fresh(2) refl] b by auto
  have sub: "free_set p \<subseteq> {..<length (all_blocks p)}" using assms(1) by (simp add: pool_inv_def)
  have s: "sorted_buckets (free_blocks p)" "fb.sized (block_size p) (free_blocks p)"
    using assms(1) by (auto simp: pool_inv_def)
  have "\<exists>k. \<not> is_block_ready (clk k) m (all_blocks p ! j)"
    if j: "j \<in> free_set p" "a \<le> block_size p j"
      and least: "\<forall>l \<in> free_set p. a \<le> block_size p l \<longrightarrow> block_size p j \<le> block_size p l" for j
  proof (cases "lower_bound a (free_blocks p)")
    case None
    then show ?thesis using fb.lb_none_elems [OF s None, of j] j by (simp add: free_set_def)
  next
    case (Some kv)
    obtain key vec where kv: "kv = (key, vec)" by force
    have lb: "lower_bound a (free_blocks p) = Some (key, vec)" using Some kv by simp
    obtain x where x: "x \<in> set vec" "x \<in> fb.elems (free_blocks p)" "block_size p x = key" "a \<le> key"
    proof -
      have "vec \<noteq> []" using lower_bound_Some [OF s(1) lb] by simp
      then have "0 < length vec" by simp
      from fb.take_sized(3,4,5) [OF s lb this] nth_mem [OF this] show thesis
        by (intro that [of "vec ! 0"])
    qed
    have "block_size p j = key"
      using least x j fb.lb_best(1) [OF s lb, of j] by (auto simp: free_set_def intro: antisym)
    then have "j \<in> set vec" using fb.lb_best(2) [OF s lb, of j] j by (simp add: free_set_def)
    moreover have "scan_ready clk m (all_blocks p) 0 vec = None"
      using fresh(3) lb b by simp
    ultimately show ?thesis using scan_ready_None [of clk m "all_blocks p" 0 vec]
      by (auto simp: in_set_conv_nth)
  qed
  with i sub show ?thesis by auto
next
  case (reused b key vec k)
  have b: "b = a" and i: "i = vec ! k" using reused(1,4) assms(3) by simp_all
  note sc = scan_ready_Some [OF reused(3)]
  have k: "k < length vec" using sc by simp
  have p': "p' = snd (reuse_block (vec ! k)
       (m, p\<lparr>free_blocks := write_bucket key (swap_pop vec k) (free_blocks p)\<rparr>))"
    using reused(6) by (metis snd_conv)
  have m': "m' = fst (reuse_block (vec ! k)
       (m, p\<lparr>free_blocks := write_bucket key (swap_pop vec k) (free_blocks p)\<rparr>))"
    using reused(6) by (metis fst_conv)
  note r = reuse_step [OF assms(1) reused(2) k p']
  have lt: "vec ! k < length (all_blocks p)" using r(2) assms(1) by (auto simp: pool_inv_def)
  have sz: "block_size p i = key"
    using r(5) reuse_block_size [of "vec ! k" m "p\<lparr>free_blocks := write_bucket key (swap_pop vec k) (free_blocks p)\<rparr>"]
    by (simp add: p' i block_size_def)
  have "vb_current_uid (all_blocks p' ! i) = 0"
    using lt by (simp add: p' i reuse_block_def Let_def)
  moreover have "publish_timestamp_us (m' s) = 0" if "vb_ipc_meta (all_blocks p ! i) = Some s" for s
    using that by (simp add: m' i reuse_block_def Let_def)
  moreover have "is_block_ready (clk k) m (all_blocks p ! i)" using sc i by simp
  ultimately show ?thesis using r(2,6,7) reused(5) b sz by (auto simp: i)
qed

theorem allocate_best_fit_witness:
  "round_to_granularity (granularity sample_pool) 4000 = Inr 4096 \<and>
   (\<exists>m' p'. allocate (\<lambda>_. 0) sample_block_env 4000 (\<lambda>_. init_metadata, sample_pool) = (Inr 0, (m', p'), []) \<and>
     (\<forall>j \<in> free_set sample_pool. block_size sample_pool 0 \<le> block_size sample_pool j) \<and>
     vb_current_uid (all_blocks p' ! 0) = 0)"
proof -
  have "round_to_granularity (granularity sample_pool) 4000 = Inr 4096" by (simp add: pool_eval)
  moreover have "4096 \<le> block_size sample_pool j" if "j \<in> free_set sample_pool" for j
    using that by (auto simp: sample_free) (auto simp: block_size_def sample_pool_def new_block_def)
  moreover have "0 \<in> free_set sample_pool" by (simp add: sample_free)
  ultimately show ?thesis
    using allocate_best_fit [OF sample_pool_inv sample_reuse, of 4096] sample_reuse
    by (simp only: if_True) blast
qed

text \<open>
  A failed allocation is atomic: when \<open>allocate\<close> throws, no block has changed hands,
  the free list, the blocks and the metadata are as they were, and every driver object that
  was made on the way has been given back exactly once.
\<close>

theorem allocate_failure_atomic:
  assumes "pool_inv p" and "allocate clk e n (m, p) = (Inl x, (m', p'), cs)"
  shows "pool_inv p' \<and> m' = m \<and> all_blocks p' = all_blocks p \<and> free_set p' = free_set p \<and>
    handed_out p' = handed_out p \<and> ledger cs R = Some R"
  using allocate_step(1,2) [OF assms] by blast

theorem allocate_failure_atomic_witness:
  "(let e = sample_block_env\<lparr>be_access := CUresult_other 2\<rparr>;
        (r, (m', p'), cs) = allocate (\<lambda>_. 0) e 9000 (\<lambda>_. init_metadata, sample_pool)
    in r = Inl (CudaDriverError ''cuMemSetAccess'' (CUresult_other 2)) \<and> cs \<noteq> [] \<and>
       handed_out p' = handed_out sample_pool \<and> ledger cs {#} = Some {#})"
proof -
  define e where "e = sample_block_env\<lparr>be_access := CUresult_other 2\<rparr>"
  obtain r m' p' cs where a: "allocate (\<lambda>_. 0) e 9000 (\<lambda>_. init_metadata, sample_pool) = (r, (m', p'), cs)"
    by (cases "allocate (\<lambda>_. 0) e 9000 (\<lambda>_. init_metadata, sample_pool)") auto
  have r: "r = Inl (CudaDriverError ''cuMemSetAccess'' (CUresult_other 2))" and "cs \<noteq> []"
    using a by (auto simp: e_def pool_eval)
  with allocate_failure_atomic [OF sample_pool_inv a [unfolded r], of "{#}"] a show ?thesis
    by (simp add: e_def [symmetric])
qed

text \<open>
  Returning a block: a block that was handed out is free afterwards, in the
  bucket of its size, no other block changes hands and the pool's invariant is kept, so that the
  next \<open>allocate\<close> of that size may find it.
\<close>

theorem free_returns_block:
  assumes "pool_inv p" and "i \<in> handed_out p"
  shows "pool_inv (free_block i p) \<and> handed_out (free_block i p) = handed_out p - {i} \<and>
    i \<in> set (bucket (free_blocks (free_block i p)) (block_size p i)) \<and>
    all_blocks (free_block i p) = all_blocks p"
proof -
  have "sorted_buckets (free_blocks p)" using assms(1) by (simp add: pool_inv_def)
  then have "i \<in> set (bucket (free_blocks (free_block i p)) (block_size p i))"
    by (simp add: free_block_def block_size_def bucket_push)
  with free_block_step [OF assms] show ?thesis by (simp add: free_block_def)
qed

theorem free_returns_block_witness:
  "2 \<in> handed_out sample_pool \<and> handed_out (free_block 2 sample_pool) = {} \<and>
   free_blocks (free_block 2 sample_pool) = [(4096, [0, 2]), (8192, [1])]"
proof -
  have h: "handed_out sample_pool = {2}"
    by (auto simp: handed_out_def sample_free) (auto simp: sample_pool_def)
  have "2 \<in> handed_out sample_pool" by (simp add: h)
  from free_returns_block [OF sample_pool_inv this] h show ?thesis
    by (simp add: free_block_def sample_pool_def new_block_def)
qed

text \<open>
  The size of a block is the least multiple of the granularity that holds the request, as
  long as request and granularity together stay within 64 bits.
\<close>

theorem round_to_granularity_least_multiple:
  assumes "g \<noteq> 0" and "unat n + unat g \<le> 2 ^ 64"
  shows "\<exists>a. round_to_granularity g n = Inr a \<and> unat g dvd unat a \<and> unat n \<le> unat a \<and>
    unat a < unat n + unat g \<and> (\<forall>k. unat g dvd k \<and> unat n \<le> k \<longrightarrow> unat a \<le> k)"
proof -
  obtain a where a: "round_to_granularity g n = Inr a"
    using assms(1) by (simp add: round_to_granularity_def)
  have "0 < unat g" using assms(1) by (simp add: unat_gt_0)
  note r = round_up_nat [OF this, where n = "unat n"]
  have u: "unat a = (unat n + unat g - 1) div unat g * unat g"
    by (rule iffD1 [OF round_to_granularity_fits [OF assms] a])
  have "\<forall>k. unat g dvd k \<and> unat n \<le> k \<longrightarrow> unat a \<le> k" unfolding u using r(3) by blast
  moreover have "unat g dvd unat a" unfolding u by (rule dvd_triv_right)
  moreover have "unat n \<le> unat a" "unat a < unat n + unat g" unfolding u by (rule r(1), rule r(2))
  ultimately show ?thesis using a by (intro exI [of _ a] conjI)
qed

theorem round_to_granularity_least_multiple_witness:
  "\<exists>a. round_to_granularity 4096 5000 = Inr a \<and> 5000 \<le> unat a \<and> unat a < 9096"
proof -
  have g: "(4096 :: u64) \<noteq> 0" by simp
  have u: "unat (4096 :: u64) = 4096" "unat (5000 :: u64) = 5000" by simp_all
  have "unat (5000 :: u64) + unat (4096 :: u64) \<le> 2 ^ 64" unfolding u by simp
  from round_to_granularity_least_multiple [OF g this] show ?thesis
    unfolding u by (elim exE conjE) (intro exI conjI, assumption+, simp)
qed

text \<open>
  The rounding overflows: for a request so large that request and granularity exceed 64
  bits, the rounded size is 0, so that \<open>allocate\<close>, instead of failing, hands out the
  smallest free block of the pool (when it is ready), whatever was asked for.
\<close>

theorem allocate_overflow_undersized:
  assumes "pool_inv p" and "granularity p \<noteq> 0" and "2 ^ 64 < unat n + unat (granularity p)"
    and "free_set p \<noteq> {}" and "\<forall>j \<in> free_set p. \<forall>k. is_block_ready (clk k) m (all_blocks p ! j)"
  shows "\<exists>i \<in> free_set p. fst (allocate clk e n (m, p)) = Inr i \<and>
    (\<forall>j \<in> free_set p. block_size p i \<le> block_size p j)"
proof -
  let ?g = "granularity p"
  have g: "0 < unat ?g" using assms(2) by (simp add: unat_gt_0)
  have "unat (?g - 1) = unat ?g - 1" using assms(2) by (rule unat_minus_one)
  moreover have "n + ?g - 1 = n + (?g - 1)" by simp
  ultimately have "unat (n + ?g - 1) = (unat n + (unat ?g - 1)) mod 2 ^ 64"
    by (simp only: unat_word_ariths) simp
  also have "\<dots> = unat n + (unat ?g - 1) - 2 ^ 64"
    using assms(3) g unat_bound64 [of n] unat_bound64 [of ?g] by (simp add: le_mod_geq)
  also have "\<dots> < unat ?g" using unat_bound64 [of n] g by linarith
  finally have "n + ?g - 1 < ?g" by (simp only: word_less_nat_alt)
  then have "(n + ?g - 1) div ?g = 0" by (rule div_word_less)
  then have r: "round_to_granularity ?g n = Inr 0" using assms(2) by (simp add: round_to_granularity_def)
  have s: "sorted_buckets (free_blocks p)" "fb.sized (block_size p) (free_blocks p)"
    using assms(1) by (auto simp: pool_inv_def)
  obtain key vec where lb: "lower_bound 0 (free_blocks p) = Some (key, vec)"
    using fb.lb_none_elems [OF s, of 0] assms(4) by (cases "lower_bound 0 (free_blocks p)")
      (auto simp: free_set_def)
  obtain v vs where vec: "vec = v # vs" using lower_bound_Some [OF s(1) lb] by (cases vec) auto
  note t = fb.take_sized [OF s lb, of 0]
  have v: "v \<in> free_set p" "block_size p v = key" using t(3,4) vec by (simp_all add: free_set_def)
  have "scan_ready clk m (all_blocks p) 0 vec = Some 0" using v(1) assms(5) by (simp add: vec)
  then have "fst (allocate clk e n (m, p)) = Inr v" using r lb by (simp add: allocate_def vec)
  moreover have "\<forall>j \<in> free_set p. block_size p v \<le> block_size p j"
    using fb.lb_best(1) [OF s lb] v(2) by (simp add: free_set_def)
  ultimately show ?thesis using v(1) by blast
qed

theorem allocate_overflow_undersized_witness:
  "\<exists>i. fst (allocate (\<lambda>_. 0) sample_block_env (- 1) (\<lambda>_. init_metadata, sample_pool)) = Inr i \<and>
     block_size sample_pool i \<le> 4096"
proof -
  have "\<forall>j \<in> free_set sample_pool. \<forall>k :: nat. is_block_ready 0 (\<lambda>_. init_metadata) (all_blocks sample_pool ! j)"
    unfolding sample_free by (simp add: is_block_ready_def init_metadata_def sample_pool_def new_block_def)
  moreover have "granularity sample_pool = 4096" by (simp add: sample_pool_def)
  moreover have "block_size sample_pool 0 = 4096" "0 \<in> free_set sample_pool"
    unfolding sample_free by (simp_all add: block_size_def sample_pool_def new_block_def)
  ultimately show ?thesis
    using allocate_overflow_undersized [OF sample_pool_inv, of "- 1" "\<lambda>_. 0" "\<lambda>_. init_metadata" sample_block_env]
      sample_free by fastforce
qed

definition block_va :: "cuda_pool \<Rightarrow> nat \<Rightarrow> u64" where
  "block_va p i = vb_va (all_blocks p ! i)"

text \<open>
  The address ranges of the pool's blocks do not wrap around and do not overlap: what
  \<open>cuMemAddressReserve\<close> promises of ranges that are reserved at the same time.
\<close>

definition disjoint_blocks :: "cuda_pool \<Rightarrow> bool" where
  "disjoint_blocks p \<longleftrightarrow>
     (\<forall>b \<in> set (all_blocks p). unat (vb_va b) + unat (vb_size b) < 2 ^ 64) \<and>
     sorted_wrt (\<lambda>b c. unat (vb_va b) + unat (vb_size b) \<le> unat (vb_va c) \<or>
                      unat (vb_va c) + unat (vb_size c) \<le> unat (vb_va b)) (all_blocks p)"

lemma va_in_block_unat:
  "unat (vb_va b) + unat (vb_size b) < 2 ^ 64 \<Longrightarrow>
     va_in_block va b \<longleftrightarrow> unat (vb_va b) \<le> unat va \<and> unat va < unat (vb_va b) + unat (vb_size b)"
  by (simp add: va_in_block_def word_le_nat_alt word_less_nat_alt unat_add_fits)

lemma find_from_Some:
  "find_from va k bs = Some i \<longleftrightarrow>
     k \<le> i \<and> i < k + length bs \<and> va_in_block va (bs ! (i - k)) \<and>
     (\<forall>j. k \<le> j \<and> j < i \<longrightarrow> \<not> va_in_block va (bs ! (j - k)))"
proof (induction bs arbitrary: k)
  case Nil
  then show ?case by simp
next
  case (Cons b bs)
  show ?case
  proof (cases "va_in_block va b")
    case True
    then show ?thesis by (cases "i = k") (auto intro: exI [of _ k])
  next
    case False
    have nth: "(b # bs) ! (j - k) = bs ! (j - Suc k)" if "k < j" for j
      using that by (simp add: nth_Cons' Suc_diff_le)
    have "find_from va k (b # bs) = Some i \<longleftrightarrow> find_from va (Suc k) bs = Some i" using False by simp
    also have "\<dots> \<longleftrightarrow> k < i \<and> i < k + length (b # bs) \<and> va_in_block va ((b # bs) ! (i - k)) \<and>
        (\<forall>j. k < j \<and> j < i \<longrightarrow> \<not> va_in_block va ((b # bs) ! (j - k)))"
      unfolding Cons.IH Suc_le_eq by (simp add: nth cong: conj_cong)
    also have "\<dots> \<longleftrightarrow> k \<le> i \<and> i < k + length (b # bs) \<and> va_in_block va ((b # bs) ! (i - k)) \<and>
        (\<forall>j. k \<le> j \<and> j < i \<longrightarrow> \<not> va_in_block va ((b # bs) ! (j - k)))"
    proof (cases "i = k")
      case False
      then show ?thesis using \<open>\<not> va_in_block va b\<close>
        by (metis diff_self_eq_0 le_less nth_Cons_0)
    qed (use False in simp)
    finally show ?thesis .
  qed
qed

text \<open>
  Looking a block up by address: when the ranges of the blocks are disjoint, the lookup
  finds a block exactly when the address lies in it, so the answer is the only
  block it can be, and an address outside the pool is not found.
\<close>

theorem find_block_for_va_correct:
  assumes "disjoint_blocks p"
  shows "find_block_for_va va p = Some i \<longleftrightarrow>
    i < length (all_blocks p) \<and> unat (block_va p i) \<le> unat va \<and>
    unat va < unat (block_va p i) + unat (block_size p i)"
proof -
  let ?bs = "all_blocks p"
  have fit: "va_in_block va (?bs ! j) \<longleftrightarrow> unat (block_va p j) \<le> unat va \<and>
      unat va < unat (block_va p j) + unat (block_size p j)" if "j < length ?bs" for j
    using assms that by (simp add: disjoint_blocks_def va_in_block_unat block_va_def block_size_def)
  have "\<not> va_in_block va (?bs ! j)" if "j < i" "i < length ?bs" "va_in_block va (?bs ! i)" for j
  proof -
    have "unat (block_va p j) + unat (block_size p j) \<le> unat (block_va p i) \<or>
        unat (block_va p i) + unat (block_size p i) \<le> unat (block_va p j)"
      using assms that(1,2) by (simp add: disjoint_blocks_def sorted_wrt_iff_nth_less block_va_def block_size_def)
    then show ?thesis using fit [of i] fit [of j] that by auto
  qed
  then show ?thesis
    using fit [of i] by (auto simp: find_block_for_va_def find_from_Some)
qed

theorem find_block_for_va_correct_witness:
  "disjoint_blocks sample_pool \<and> find_block_for_va 135000 sample_pool = Some 1"
proof -
  have d: "disjoint_blocks sample_pool"
    by (simp add: disjoint_blocks_def sample_pool_def new_block_def)
  have "1 < length (all_blocks sample_pool) \<and> unat (block_va sample_pool 1) \<le> unat (135000 :: u64) \<and>
      unat (135000 :: u64) < unat (block_va sample_pool 1) + unat (block_size sample_pool 1)"
    by (simp add: block_va_def block_size_def sample_pool_def new_block_def)
  with find_block_for_va_correct [OF d, of 135000 1] d show ?thesis by blast
qed

text \<open>
  Publishing a block: after \<open>assign_uid\<close> the block has the uid returned, which is
  not 0; a block that had none gets the drawn one, and its metadata the same uid and the current time;
  asking again returns the same uid and changes nothing, until the block is reused; no
  other block and no other metadata is touched.
\<close>

theorem assign_uid_publishes:
  assumes "assign_uid rnd now i (m, p) = (u, (m', p'))" and "i < length (all_blocks p)" and "rnd \<noteq> 0"
  shows "u \<noteq> 0 \<and> vb_current_uid (all_blocks p' ! i) = u \<and>
    assign_uid rnd' now' i (m', p') = (u, (m', p')) \<and>
    (\<forall>j. j \<noteq> i \<longrightarrow> all_blocks p' ! j = all_blocks p ! j) \<and>
    (\<forall>s. vb_ipc_meta (all_blocks p ! i) \<noteq> Some s \<longrightarrow> m' s = m s) \<and>
    (vb_current_uid (all_blocks p ! i) = 0 \<longrightarrow>
      u = rnd \<and> (\<forall>s. vb_ipc_meta (all_blocks p ! i) = Some s \<longrightarrow>
        m' s = (m s)\<lparr>uid := u, publish_timestamp_us := now\<rparr>))"
  using assms
  by (cases "vb_current_uid (all_blocks p ! i) = 0"; cases "vb_ipc_meta (all_blocks p ! i)")
     (auto simp: assign_uid_def Let_def)

theorem assign_uid_publishes_witness:
  "\<exists>m' p'. assign_uid 55 9 1 (\<lambda>_. init_metadata, sample_pool) = (55, (m', p')) \<and>
     vb_current_uid (all_blocks p' ! 1) = 55 \<and> assign_uid 66 10 1 (m', p') = (55, (m', p'))"
proof -
  obtain u m' p' where a: "assign_uid 55 9 1 (\<lambda>_. init_metadata, sample_pool) = (u, (m', p'))"
    by (cases "assign_uid 55 9 1 (\<lambda>_. init_metadata, sample_pool)") auto
  moreover have "1 < length (all_blocks sample_pool)" by (simp add: sample_pool_def)
  ultimately have "vb_current_uid (all_blocks p' ! 1) = u \<and> assign_uid 66 10 1 (m', p') = (u, (m', p')) \<and> u = 55"
    using assign_uid_publishes [OF a, of 66 10] by (simp add: sample_pool_def new_block_def)
  with a show ?thesis by auto
qed

text \<open>
  C15. The pool over its whole life, from \<open>create\<close> through any sequence of allocations,
  returns, publications, IPC registrations and changes made by subscribers to the
  destructor: if the driver and the kernel answer as documented, every allocation, address range, mapping,
  descriptor, socket and shared segment mapping is given back exactly once and nothing is left,
  whichever of the calls fail on the way.
\<close>

theorem pool_lifecycle_balanced:
  assumes "create_pool e (empty_pool, None) = (r, (p0, disp0), cs0)"
    and "env_ok xs (m0, p0, disp0)"
    and "run_pool xs (m0, p0, disp0) = ((m1, p1, disp1), cs1)"
    and "destroy_pool obs True (p1, disp1) = Some (disp2, cs2)"
  shows "disp2 = None \<and> ledger (cs0 @ cs1 @ cs2) {#} = Some {#}"
proof -
  have c: "ipc_inv (m0, p0, disp0)" "ledger cs0 {#} = Some (pool_res (m0, p0, disp0))"
    using create_pool_step [OF assms(1), of m0] by blast+
  note s = run_pool_ledger [OF c(1) assms(2,3)]
  note d = destroy_pool_ledger [OF conjunct1 [OF s] assms(4)]
  show ?thesis using c(2) s d by (simp add: ledger_append_Some)
qed

definition sample_create_env :: create_env where
  "sample_create_env =
     \<lparr>ce_init = CUDA_SUCCESS, ce_device = (cudaSuccess, 0), ce_free = cudaSuccess,
      ce_granularity = (CUDA_SUCCESS, 4096), ce_granularity_none = (CUDA_SUCCESS, 4096),
      ce_probe = \<lparr>pr_create = (CUDA_SUCCESS, 1), pr_export = (CUDA_SUCCESS, 20)\<rparr>,
      ce_dispatcher = (21, 22, 0)\<rparr>"

text \<open>A pool that allocates a block, publishes it, and is destroyed once its reader has finished.\<close>

definition sample_run :: "pool_op list" where
  "sample_run =
     [Do_allocate (\<lambda>_. 0) sample_block_env 5000, Do_assign_uid 99 1000 0,
      Do_register \<lparr>re_pid = 7, re_listen = \<lparr>le_socket = 30, le_bind = 0, le_listen = 0\<rparr>,
                   re_dup = 31, re_epoll_ctl = 0\<rparr> 0, Do_free 0]"

theorem pool_lifecycle_balanced_witness:
  "\<exists>r p0 disp0 cs0 m1 p1 disp1 cs1 disp2 cs2.
     create_pool sample_create_env (empty_pool, None) = (r, (p0, disp0), cs0) \<and>
     run_pool sample_run (\<lambda>_. init_metadata, p0, disp0) = ((m1, p1, disp1), cs1) \<and>
     length (all_blocks p1) = 1 \<and>
     destroy_pool (\<lambda>k. (m1, 1000000)) True (p1, disp1) = Some (disp2, cs2) \<and>
     ledger (cs0 @ cs1 @ cs2) {#} = Some {#}"
proof -
  obtain r p0 disp0 cs0 where c: "create_pool sample_create_env (empty_pool, None) = (r, (p0, disp0), cs0)"
    by (cases "create_pool sample_create_env (empty_pool, None)") auto
  obtain m1 p1 disp1 cs1 where s: "run_pool sample_run (\<lambda>_. init_metadata, p0, disp0) = ((m1, p1, disp1), cs1)"
    by (cases "run_pool sample_run (\<lambda>_. init_metadata, p0, disp0)") auto
  note ev = sample_create_env_def create_pool_def probe_vmm_ipc_def get_dispatcher_def
    new_dispatcher_def idle_dispatcher_def pool_eval
  have env: "env_ok sample_run (\<lambda>_. init_metadata, p0, disp0)"
    using c by (auto simp: sample_run_def ev block_env_ok_def pool_step_def fresh_socket_def
        server_sockets_def assign_uid_def)
  have b: "length (all_blocks p1) = 1 \<and>
      list_all (is_block_ready 1000000 m1) (all_blocks p1)"
    using c s by (auto simp: sample_run_def ev pool_step_def assign_uid_def free_block_def
        register_block_for_ipc_def register_block_def make_addr_block_path create_fd_server_socket_def
        split: prod.splits sum.splits option.splits)
  then have "wait_all_ready (\<lambda>k. (m1, 1000000)) (all_blocks p1) 0 = Some 0"
    by (subst wait_all_ready.simps) simp
  then have "\<exists>x. destroy_pool (\<lambda>k. (m1, 1000000)) True (p1, disp1) = Some x"
    by (auto simp: destroy_pool_def Let_def)
  then obtain disp2 cs2 where d: "destroy_pool (\<lambda>k. (m1, 1000000)) True (p1, disp1) = Some (disp2, cs2)"
    by auto
  from pool_lifecycle_balanced [OF c env s d] c s d b show ?thesis by blast
qed

text \<open>
  The destructor returns exactly when some round of its polling sees every block of the
  pool ready, however long that takes; there is no other way out of the wait.
\<close>

theorem destroy_pool_waits:
  "(\<exists>r. destroy_pool obs last_ref (p, disp) = Some r) \<longleftrightarrow>
     (\<exists>k. list_all (is_block_ready (snd (obs k)) (fst (obs k))) (all_blocks p))"
  unfolding wait_all_ready_returns [symmetric]
  by (auto simp: destroy_pool_def Let_def split: option.splits)

text \<open>A reader that never gives its reference back keeps the destructor waiting for ever.\<close>

lemma destroy_pool_blocked:
  assumes "b \<in> set (all_blocks p)" and "vb_ipc_meta b = Some s"
    and "\<And>k. 0 < sint (refcount (fst (obs k) s))"
  shows "destroy_pool obs last_ref (p, disp) = None"
proof -
  have "\<not> list_all (is_block_ready (snd (obs k)) (fst (obs k))) (all_blocks p)" for k
    using assms by (auto simp: list_all_iff is_block_ready_def intro!: bexI [of _ b])
  then have "wait_all_ready obs (all_blocks p) 0 = None"
    using wait_all_ready_returns [of obs "all_blocks p"] by auto
  then show ?thesis by (simp add: destroy_pool_def)
qed

end
