(* ===== verification/Cuda_Buffer_Impl.thy ===== *)
theory Cuda_Buffer_Impl
  imports Cuda_Buffer Pool_Lifecycle
begin

text \<open>
  \<open>CudaBufferImpl\<close> of \<open>cuda_buffer_impl.hpp\<close>, the process-wide pool of
  \<open>cuda_buffer_impl.cpp\<close>, and the functions of \<open>cuda_buffer_api.hpp\<close> that hand out handles. An
  implementation object is named by the address of the \<open>CudaBuffer\<close> it holds. The element type is known
  by its size.
\<close>

section \<open>State\<close>

record cuda_impl =
  bi_size :: u64 \<comment> \<open>elements\<close>
  bi_stream :: nat

record process =
  pr_cuda :: cuda_state
  pr_impl :: "nat \<Rightarrow> cuda_impl"
  pr_next :: nat \<comment> \<open>the next address for a buffer\<close>
  pr_dispatcher :: "dispatcher option"
  pr_internal :: "nat option" \<comment> \<open>the internal stream, once it is made\<close>
  pr_calls :: "call list"

definition on_cuda :: "(cuda_state \<Rightarrow> cuda_state) \<Rightarrow> process \<Rightarrow> process" where
  "on_cuda f p = p\<lparr>pr_cuda := f (pr_cuda p)\<rparr>"

definition upd_impl :: "nat \<Rightarrow> (cuda_impl \<Rightarrow> cuda_impl) \<Rightarrow> process \<Rightarrow> process" where
  "upd_impl b f p = p\<lparr>pr_impl := (pr_impl p)(b := f (pr_impl p b))\<rparr>"

section \<open>The process-wide pool and stream\<close>

text \<open>
  A pool that could not be created is dropped and the next call tries again; until then
  \<open>cs_pool\<close> is the empty pool.
\<close>

definition get_or_create_global_pool :: "create_env \<Rightarrow> process \<Rightarrow> (exn + unit) \<times> process" where
  "get_or_create_global_pool e p =
     (if initialized (cs_pool (pr_cuda p)) then (Inr (), p)
      else
        (let (result, (pool, disp), cs) = create_pool e (empty_pool, pr_dispatcher p);
             p1 = p\<lparr>pr_dispatcher := disp, pr_calls := pr_calls p @ cs\<rparr>
         in if result \<noteq> CUDA_SUCCESS
            then (Inl (CudaDriverError ''CudaMemoryPool::create'' result), p1)
            else (Inr (), on_cuda (\<lambda>st. st\<lparr>cs_pool := pool\<rparr>) p1)))"

definition is_pool_ipc_capable :: "create_env \<Rightarrow> process \<Rightarrow> bool \<times> process" where
  "is_pool_ipc_capable e p =
     (case get_or_create_global_pool e p of
        (Inl _, p') \<Rightarrow> (False, p')
      | (Inr _, p') \<Rightarrow> (ipc_capable (cs_pool (pr_cuda p')), p'))"

definition get_internal_stream :: "cudaError_t \<times> nat \<Rightarrow> process \<Rightarrow> nat \<times> process" where
  "get_internal_stream e p =
     (case pr_internal p of
        Some s \<Rightarrow> (s, p)
      | None \<Rightarrow> (let s = (if fst e = cudaSuccess then snd e else 0) in (s, p\<lparr>pr_internal := Some s\<rparr>)))"

section \<open>Allocation\<close>

record alloc_env =
  ae_create :: create_env
  ae_clock :: "nat \<Rightarrow> u64"
  ae_block :: block_env
  ae_event :: "cudaError_t \<times> nat"
  ae_local_event :: "cudaError_t \<times> nat" \<comment> \<open>the second attempt, without \<open>cudaEventInterprocess\<close>\<close>

text \<open>The write event of a new buffer, 0 if none could be made.\<close>

definition make_write_event :: "alloc_env \<Rightarrow> nat" where
  "make_write_event e =
     (if fst (ae_event e) = cudaSuccess then snd (ae_event e)
      else if fst (ae_local_event e) = cudaSuccess then snd (ae_local_event e) else 0)"

definition allocate_buffer_internal ::
  "alloc_env \<Rightarrow> u64 \<Rightarrow> nat \<Rightarrow> u64 \<Rightarrow> process \<Rightarrow> (exn + unit) \<times> process" where
  "allocate_buffer_internal e es b n p =
     (case get_or_create_global_pool (ae_create e) p of
        (Inl x, p') \<Rightarrow> (Inl x, p')
      | (Inr _, p') \<Rightarrow>
          (let byte_size = n * es; st = pr_cuda p';
               (r, (m, pool), cs) = allocate (ae_clock e) (ae_block e) byte_size (cs_meta st, cs_pool st);
               p1 = p'\<lparr>pr_cuda := st\<lparr>cs_meta := m, cs_pool := pool\<rparr>, pr_calls := pr_calls p' @ cs\<rparr>
           in case r of
                Inl x \<Rightarrow> (Inl x, p1)
              | Inr i \<Rightarrow>
                  (let ev = make_write_event e;
                       new = make_buffer (vb_va (all_blocks pool ! i)) byte_size (device_id pool) (Pool_Free i)
                   in (Inr (), on_cuda
                        (\<lambda>s. (if ev \<noteq> 0 then upd_buffer b (set_write_event ev True) else id)
                               (assign_buffer b new (if ev \<noteq> 0 then gpu [EventCreate ev] s else s))) p1))))"

text \<open>
  \<open>CudaBufferImpl(size)\<close> and \<open>allocate_buffer\<close>: a new object, empty when no element is asked for. When
  the allocation throws, nothing of it is left.
\<close>

definition fresh_impl :: "u64 \<Rightarrow> process \<Rightarrow> nat \<times> process" where
  "fresh_impl n p =
     (pr_next p,
      on_cuda (upd_buffer (pr_next p) (\<lambda>_. empty_buffer))
        (upd_impl (pr_next p) (\<lambda>_. \<lparr>bi_size = n, bi_stream = 0\<rparr>) (p\<lparr>pr_next := pr_next p + 1\<rparr>)))"

definition allocate_buffer :: "alloc_env \<Rightarrow> u64 \<Rightarrow> u64 \<Rightarrow> process \<Rightarrow> (exn + nat) \<times> process" where
  "allocate_buffer e es n p =
     (let (b, p1) = fresh_impl n p
      in if n > 0 then
           (case allocate_buffer_internal e es b n p1 of
              (Inl x, p2) \<Rightarrow> (Inl x, p2)
            | (Inr _, p2) \<Rightarrow> (Inr b, p2))
         else (Inr b, p1))"

section \<open>Copies\<close>

record copy_env =
  cp_read :: gpu_env
  cp_write :: gpu_env
  cp_memcpy :: cudaError_t
  cp_end_write :: gpu_env
  cp_end_read :: gpu_env

definition memcpy_async ::
  "cudaError_t \<Rightarrow> u64 \<Rightarrow> u64 \<Rightarrow> u64 \<Rightarrow> memcpy_kind \<Rightarrow> nat \<Rightarrow> cuda_state \<Rightarrow> (exn + unit) \<times> cuda_state" where
  "memcpy_async r dst src n kind s st =
     (if r = cudaSuccess then (Inr (), gpu [StreamWork s (Copy dst src n kind)] st)
      else (Inl (CudaRuntimeError ''cudaMemcpyAsync'' r), st))"

text \<open>
  The block that \<open>resize\<close> and \<open>clone\<close> share: a read handle on the source, a write handle on the
  target, the copy, and the end of both handles in reverse order, also when a call throws.
\<close>

definition copy_buffer ::
  "copy_env \<Rightarrow> nat \<Rightarrow> u64 \<Rightarrow> nat \<Rightarrow> nat \<Rightarrow> cuda_state \<Rightarrow> (exn + unit) \<times> cuda_state" where
  "copy_buffer e s n src dst st =
     (case get_read_handle (cp_read e) src s st of
        (Inl x, st1) \<Rightarrow> (Inl x, st1)
      | (Inr rh, st1) \<Rightarrow>
          (case get_write_handle (cp_write e) dst s st1 of
             (Inl x, st2) \<Rightarrow> (Inl x, destroy_read_handle (cp_end_read e) True rh st2)
           | (Inr wh, st2) \<Rightarrow>
               (let (r, st3) = memcpy_async (cp_memcpy e) (wh_ptr wh) (rh_ptr rh) n DeviceToDevice s st2
                in (r, destroy_read_handle (cp_end_read e) True rh
                         (destroy_write_handle (cp_end_write e) True wh st3)))))"

definition stream_of :: "cudaError_t \<times> nat \<Rightarrow> nat \<Rightarrow> process \<Rightarrow> nat \<times> process" where
  "stream_of e b p =
     (if bi_stream (pr_impl p b) \<noteq> 0 then (bi_stream (pr_impl p b), p) else get_internal_stream e p)"

definition has_content :: "nat \<Rightarrow> process \<Rightarrow> bool" where
  "has_content b p \<longleftrightarrow> bi_size (pr_impl p b) > 0 \<and> cb_size (cs_buffer (pr_cuda p) b) > 0"

definition clear_impl :: "nat \<Rightarrow> process \<Rightarrow> process" where
  "clear_impl b p = upd_impl b (\<lambda>i. i\<lparr>bi_size := 0\<rparr>) (on_cuda (assign_buffer b empty_buffer) p)"

text \<open>
  \<open>resize\<close>: the local buffer \<open>t\<close> is filled and then swapped with the object's own; what it holds
  at the end, or when a call throws, is destroyed.
\<close>

definition resize_impl ::
  "alloc_env \<Rightarrow> copy_env \<Rightarrow> cudaError_t \<times> nat \<Rightarrow> u64 \<Rightarrow> nat \<Rightarrow> u64 \<Rightarrow> process \<Rightarrow> (exn + unit) \<times> process" where
  "resize_impl ea ec es_stream es b n p =
     (if n = bi_size (pr_impl p b) then (Inr (), p)
      else if n = 0 then (Inr (), clear_impl b p)
      else
        (let (t, p0) = fresh_impl 0 p
         in case allocate_buffer_internal ea es t n p0 of
              (Inl x, p1) \<Rightarrow> (Inl x, on_cuda (destroy_buffer t) p1)
            | (Inr _, p1) \<Rightarrow>
                (let (r, p2) =
                   (if has_content b p1 then
                      (let (s, p1') = stream_of es_stream b p1;
                           (r, st) = copy_buffer ec s (min n (bi_size (pr_impl p1' b)) * es) b t (pr_cuda p1')
                       in (r, p1'\<lparr>pr_cuda := st\<rparr>))
                    else (Inr (), p1))
                 in case r of
                      Inl x \<Rightarrow> (Inl x, on_cuda (destroy_buffer t) p2)
                    | Inr _ \<Rightarrow>
                        (let st = pr_cuda p2;
                             swapped = upd_buffer t (\<lambda>_. cs_buffer st b) (upd_buffer b (\<lambda>_. cs_buffer st t) st)
                         in (Inr (), upd_impl b (\<lambda>i. i\<lparr>bi_size := n\<rparr>)
                               (p2\<lparr>pr_cuda := destroy_buffer t swapped\<rparr>))))))"

text \<open>\<open>to_cpu\<close>: the storage of the result lies at the host address \<open>host\<close>.\<close>

definition to_cpu ::
  "copy_env \<Rightarrow> cudaError_t \<Rightarrow> cudaError_t \<times> nat \<Rightarrow> u64 \<Rightarrow> u64 \<Rightarrow> nat \<Rightarrow> process \<Rightarrow> (exn + u64) \<times> process" where
  "to_cpu e sync es_stream es host b p =
     (let n = bi_size (pr_impl p b)
      in if has_content b p then
           (let (s, p1) = stream_of es_stream b p
            in case get_read_handle (cp_read e) b s (pr_cuda p1) of
                 (Inl x, st) \<Rightarrow> (Inl x, p1\<lparr>pr_cuda := st\<rparr>)
               | (Inr rh, st) \<Rightarrow>
                   (let (r, st1) = memcpy_async (cp_memcpy e) host (rh_ptr rh) (n * es) DeviceToHost s st;
                        (r', st2) = (case r of
                            Inl x \<Rightarrow> (Inl x, st1)
                          | Inr _ \<Rightarrow>
                              if sync = cudaSuccess then (Inr n, gpu [StreamSynchronize s] st1)
                              else (Inl (CudaRuntimeError ''cudaStreamSynchronize(s)'' sync), st1))
                    in (r', p1\<lparr>pr_cuda := destroy_read_handle (cp_end_read e) True rh st2\<rparr>)))
         else (Inr n, p))"

definition clone_impl ::
  "alloc_env \<Rightarrow> copy_env \<Rightarrow> cudaError_t \<times> nat \<Rightarrow> u64 \<Rightarrow> nat \<Rightarrow> process \<Rightarrow> (exn + nat) \<times> process" where
  "clone_impl ea ec es_stream es b p =
     (case allocate_buffer ea es (bi_size (pr_impl p b)) p of
        (Inl x, p1) \<Rightarrow> (Inl x, p1)
      | (Inr c, p1) \<Rightarrow>
          if has_content b p1 then
            (let (s, p2) = stream_of es_stream b p1;
                 (r, st) = copy_buffer ec s (bi_size (pr_impl p2 b) * es) b c (pr_cuda p2);
                 p3 = p2\<lparr>pr_cuda := st\<rparr>
             in case r of
                  Inl x \<Rightarrow> (Inl x, on_cuda (destroy_buffer c) p3)
                | Inr _ \<Rightarrow> (Inr c, p3))
          else (Inr c, p1))"

section \<open>The functions that hand out handles\<close>

text \<open>
  The implementation behind a \<open>rosidl::Buffer\<close>: none, a CUDA one, or another one of \<open>n\<close> elements
  with its data at a host address.
\<close>

datatype buffer_impl = No_Impl | Cuda_Impl nat | Host_Impl u64 u64

fun impl_size :: "buffer_impl \<Rightarrow> process \<Rightarrow> u64" where
  "impl_size No_Impl p = 0"
| "impl_size (Cuda_Impl b) p = bi_size (pr_impl p b)"
| "impl_size (Host_Impl n host) p = n"

definition set_stream :: "nat \<Rightarrow> nat \<Rightarrow> process \<Rightarrow> process" where
  "set_stream b s p = upd_impl b (\<lambda>i. i\<lparr>bi_stream := s\<rparr>) p"

definition get_write :: "gpu_env \<Rightarrow> nat \<Rightarrow> nat \<Rightarrow> process \<Rightarrow> (exn + write_handle) \<times> process" where
  "get_write e b s p =
     (let (r, st) = get_write_handle e b s (pr_cuda p) in (r, p\<lparr>pr_cuda := st\<rparr>))"

definition get_read :: "gpu_env \<Rightarrow> nat \<Rightarrow> nat \<Rightarrow> process \<Rightarrow> (exn + read_handle) \<times> process" where
  "get_read e b s p =
     (let (r, st) = get_read_handle e b s (pr_cuda p) in (r, p\<lparr>pr_cuda := st\<rparr>))"

definition from_output_buffer ::
  "alloc_env \<Rightarrow> gpu_env \<Rightarrow> u64 \<Rightarrow> buffer_impl \<Rightarrow> nat \<Rightarrow> process \<Rightarrow> (exn + write_handle) \<times> process" where
  "from_output_buffer ea e es impl s p =
     (if impl = No_Impl then
        (Inl (CudaError ''from_output_buffer called on buffer with null implementation''), p)
      else if impl_size impl p = 0 then
        (Inl (CudaError ''from_output_buffer called on empty buffer''), p)
      else case impl of
          Cuda_Impl b \<Rightarrow> get_write e b s (set_stream b s p)
        | _ \<Rightarrow>
            (case allocate_buffer ea 1 (impl_size impl p * es) p of
               (Inl x, p1) \<Rightarrow> (Inl x, p1)
             | (Inr b, p1) \<Rightarrow>
                 (case get_write e b s (set_stream b s p1) of
                    (Inl x, p2) \<Rightarrow> (Inl x, on_cuda (destroy_buffer b) p2)
                  | (Inr wh, p2) \<Rightarrow> (Inr (wh\<lparr>wh_promoted := Some b\<rparr>), p2))))"

definition from_input_buffer ::
  "alloc_env \<Rightarrow> copy_env \<Rightarrow> u64 \<Rightarrow> buffer_impl \<Rightarrow> nat \<Rightarrow> process \<Rightarrow> (exn + read_handle) \<times> process" where
  "from_input_buffer ea e es impl s p =
     (if impl = No_Impl then
        (Inl (CudaError ''from_input_buffer called on buffer with null implementation''), p)
      else if impl_size impl p = 0 then
        (Inl (CudaError ''from_input_buffer called on empty buffer''), p)
      else case impl of
          Cuda_Impl b \<Rightarrow> get_read (cp_read e) b s p
        | Host_Impl n host \<Rightarrow>
            (let byte_count = n * es
             in case allocate_buffer ea 1 byte_count p of
               (Inl x, p1) \<Rightarrow> (Inl x, p1)
             | (Inr b, p1) \<Rightarrow>
                 (case get_write (cp_write e) b s p1 of
                    (Inl x, p2) \<Rightarrow> (Inl x, on_cuda (destroy_buffer b) p2)
                  | (Inr wh, p2) \<Rightarrow>
                      (let (r, st) = memcpy_async (cp_memcpy e) (wh_ptr wh) host byte_count HostToDevice s (pr_cuda p2);
                           p3 = p2\<lparr>pr_cuda := destroy_write_handle (cp_end_write e) True wh st\<rparr>
                       in case r of
                            Inl x \<Rightarrow> (Inl x, on_cuda (destroy_buffer b) p3)
                          | Inr _ \<Rightarrow>
                              (case get_read (cp_read e) b s p3 of
                                 (Inl x, p4) \<Rightarrow> (Inl x, on_cuda (destroy_buffer b) p4)
                               | (Inr rh, p4) \<Rightarrow> (Inr (rh\<lparr>rh_promoted := Some b\<rparr>), p4))))))"

text \<open>\<open>to_buffer\<close>, with \<open>src = 0\<close> for a null source.\<close>

definition to_buffer ::
  "cudaError_t \<Rightarrow> u64 \<Rightarrow> u64 \<Rightarrow> write_handle \<Rightarrow> nat \<Rightarrow> memcpy_kind \<Rightarrow> process \<Rightarrow> (exn + unit) \<times> process" where
  "to_buffer r src n wh s kind p =
     (if n = 0 \<or> src = 0 \<or> wh_ptr wh = 0 then (Inr (), p)
      else (let (res, st) = memcpy_async r (wh_ptr wh) src n kind s (pr_cuda p)
            in (res, p\<lparr>pr_cuda := st\<rparr>)))"

section \<open>A copy that succeeds\<close>

definition good_copy :: "copy_env \<Rightarrow> bool" where
  "good_copy e \<longleftrightarrow> cp_memcpy e = cudaSuccess \<and> ge_wait (cp_read e) = cudaSuccess \<and>
     (\<forall>s. s \<noteq> 0 \<longrightarrow> cuda_is_stream_usable (cp_end_write e) s \<and> cuda_is_stream_usable (cp_end_read e) s) \<and>
     ge_record (cp_end_write e) = cudaSuccess \<and> ge_record (cp_end_read e) = cudaSuccess \<and>
     fst (ge_create (cp_end_read e)) = cudaSuccess"

lemma get_read_handle_buffer:
  assumes "get_read_handle e b s st = (r, st')"
  shows "\<exists>kept. cs_buffer st' = (cs_buffer st)(b := (cs_buffer st b)\<lparr>cb_read_events := kept\<rparr>)"
    and "cs_queue st' = cs_queue st" and "cs_next st' = cs_next st"
    and "r = Inr h \<Longrightarrow> h = \<lparr>rh_ptr = cb_ptr (cs_buffer st b), rh_events = Some b, rh_stream = s, rh_promoted = None\<rparr>"
    and "ge_wait e = cudaSuccess \<Longrightarrow> \<exists>h. r = Inr h"
proof -
  note m = make_read_handle_fields [OF assms [unfolded get_read_handle_alt]]
  show "\<exists>kept. cs_buffer st' = (cs_buffer st)(b := (cs_buffer st b)\<lparr>cb_read_events := kept\<rparr>)"
    using m(1) by (auto simp: finalize_fields)
  show "cs_queue st' = cs_queue st" using m(3) by (simp add: finalize_fields)
  show "r = Inr h \<Longrightarrow> h = \<lparr>rh_ptr = cb_ptr (cs_buffer st b), rh_events = Some b, rh_stream = s, rh_promoted = None\<rparr>"
    using m(4) by (simp add: finalize_fields)
  have "cs_next (finalize_write_handle e b x) = cs_next x" for x
    by (auto simp: finalize_write_handle_def finalize_write_handle_locked_def Let_def split: option.splits)
  then show "cs_next st' = cs_next st"
    using assms unfolding get_read_handle_alt
    by (auto simp: make_read_handle_def Let_def reap_completed_read_events_def split: if_splits)
  show "\<exists>h. r = Inr h" if "ge_wait e = cudaSuccess"
    using assms that unfolding get_read_handle_alt make_read_handle_def Let_def by (auto split: if_splits)
qed

text \<open>A write handle on a buffer that was never used.\<close>

lemma get_write_handle_unused:
  assumes "cb_handle_state (cs_buffer st b) = None" and "cb_read_events (cs_buffer st b) = []"
  shows "\<exists>st'. get_write_handle e b s st =
      (Inr \<lparr>wh_ptr = cb_ptr (cs_buffer st b), wh_event = Some b, wh_stream = s, wh_state = Some (cs_next st),
            wh_promoted = None\<rparr>, st') \<and>
    cs_buffer st' = (cs_buffer st)(b := (cs_buffer st b)\<lparr>cb_handle_state := Some (cs_next st)\<rparr>) \<and>
    cs_handle_state st' = (cs_handle_state st)(cs_next st := \<lparr>hs_state = InUse, hs_write_stream = s\<rparr>) \<and>
    cs_queue st' = cs_queue st \<and> cs_trace st' = cs_trace st"
  using assms
  by (auto simp: get_write_handle_def reap_completed_read_events_def Let_def fun_eq_iff)

lemma copy_buffer_ok:
  assumes "copy_buffer e s n src dst st = (r, st')" and "good_copy e" and "s \<noteq> 0" and "src \<noteq> dst"
    and "cb_handle_state (cs_buffer st dst) = None" and "cb_read_events (cs_buffer st dst) = []"
    and "cb_write_event (cs_buffer st dst) \<noteq> 0"
  defines "ev \<equiv> snd (ge_create (cp_end_read e))" and "we \<equiv> cb_write_event (cs_buffer st dst)"
  shows "r = Inr () \<and> cs_queue st' = cs_queue st \<and>
    (\<exists>kept. cs_buffer st' src = (cs_buffer st src)\<lparr>cb_read_events := kept @ [ev]\<rparr>) \<and>
    cs_buffer st' dst = (cs_buffer st dst)\<lparr>cb_handle_state := Some (cs_next st)\<rparr> \<and>
    hs_state (cs_handle_state st' (cs_next st)) = Finalized \<and>
    (\<exists>pre. cs_trace st' = pre @
      [StreamWork s (Copy (cb_ptr (cs_buffer st dst)) (cb_ptr (cs_buffer st src)) n DeviceToDevice),
       EventRecord we s, EventCreate ev, EventRecord ev s])"
proof -
  obtain r1 st1 where g1: "get_read_handle (cp_read e) src s st = (r1, st1)"
    by (cases "get_read_handle (cp_read e) src s st")
  note f1 = get_read_handle_buffer [OF g1]
  let ?rh = "\<lparr>rh_ptr = cb_ptr (cs_buffer st src), rh_events = Some src, rh_stream = s, rh_promoted = None\<rparr>"
  have r1: "r1 = Inr ?rh" using f1(4,5) assms(2) by (auto simp: good_copy_def)
  obtain kept where b1: "cs_buffer st1 = (cs_buffer st)(src := (cs_buffer st src)\<lparr>cb_read_events := kept\<rparr>)"
    using f1(1) by blast
  have d1: "cs_buffer st1 dst = cs_buffer st dst" using b1 assms(4) by simp
  let ?wh = "\<lparr>wh_ptr = cb_ptr (cs_buffer st dst), wh_event = Some dst, wh_stream = s,
      wh_state = Some (cs_next st), wh_promoted = None\<rparr>"
  obtain st2 where g2: "get_write_handle (cp_write e) dst s st1 = (Inr ?wh, st2)"
    and b2: "cs_buffer st2 = (cs_buffer st1)(dst := (cs_buffer st dst)\<lparr>cb_handle_state := Some (cs_next st)\<rparr>)"
      "cs_handle_state st2 = (cs_handle_state st1)(cs_next st := \<lparr>hs_state = InUse, hs_write_stream = s\<rparr>)"
      "cs_queue st2 = cs_queue st1"
    using get_write_handle_unused [of st1 dst "cp_write e" s] assms(5,6) d1 f1(3) by auto
  let ?c = "StreamWork s (Copy (cb_ptr (cs_buffer st dst)) (cb_ptr (cs_buffer st src)) n DeviceToDevice)"
  let ?st3 = "gpu [?c] st2"
  let ?st4 = "upd_handle_state (cs_next st) Finalized 0 (gpu [EventRecord we s] ?st3)"
  have w: "destroy_write_handle (cp_end_write e) True ?wh ?st3 = ?st4"
    using assms(2,3,7) b2(1,2)
    by (simp add: destroy_write_handle_def drop_promoted_def write_release_def Let_def good_copy_def we_def)
  let ?st5 = "upd_buffer src (\<lambda>x. x\<lparr>cb_read_events := cb_read_events x @ [ev]\<rparr>) (gpu [EventCreate ev, EventRecord ev s] ?st4)"
  have "destroy_read_handle (cp_end_read e) True ?rh ?st4 = ?st5"
    using assms(2,3)
    by (simp add: destroy_read_handle_def drop_promoted_def read_release_def good_copy_def ev_def split_beta)
  then have "(r, st') = (Inr (), ?st5)"
    using assms(1,2) g1 g2 w r1 by (simp add: copy_buffer_def memcpy_async_def good_copy_def)
  then show ?thesis
    using b1 b2 f1(2) assms(4) by (auto simp: upd_handle_state_def)
qed

section \<open>Who owns the blocks of the pool\<close>

text \<open>
  The block that a pointer and its deleter own, the blocks owned by the buffers of a process and by the
  pending work of the recycler, and the invariant: the blocks that the pool has handed out, and mapped at an address,
  have exactly one owner each, and nothing else is owned. \<open>loose\<close> are blocks on their way between owners.
\<close>

definition block_of :: "u64 \<Rightarrow> deleter \<Rightarrow> nat multiset" where
  "block_of ptr d = (if ptr = 0 then {#} else case d of Pool_Free i \<Rightarrow> {#i#} | _ \<Rightarrow> {#})"

definition buffer_block :: "cuda_buffer \<Rightarrow> nat multiset" where
  "buffer_block b = block_of (cb_ptr b) (cb_deleter b)"

definition owned :: "nat \<Rightarrow> cuda_state \<Rightarrow> nat multiset" where
  "owned n st = (\<Sum>b<n. buffer_block (cs_buffer st b)) +
     sum_list (map (\<lambda>w. block_of (pw_ptr w) (pw_deleter w)) (cs_queue st))"

definition mapped_out :: "cuda_pool \<Rightarrow> nat set" where
  "mapped_out pool = {i \<in> handed_out pool. vb_va (all_blocks pool ! i) \<noteq> 0}"

definition exclusive :: "nat \<Rightarrow> nat multiset \<Rightarrow> cuda_state \<Rightarrow> bool" where
  "exclusive n loose st \<longleftrightarrow> pool_inv (cs_pool st) \<and> owned n st + loose = mset_set (mapped_out (cs_pool st))"

lemma finite_mapped_out [simp]: "finite (mapped_out pool)"
  by (rule finite_subset [of _ "{..<length (all_blocks pool)}"]) (auto simp: mapped_out_def handed_out_def)

lemma mapped_out_free:
  "pool_inv pool \<Longrightarrow> i \<in> handed_out pool \<Longrightarrow> mapped_out (free_block i pool) = mapped_out pool - {i}"
  by (auto simp: mapped_out_def free_block_step(3)) (simp_all add: free_block_def)

text \<open>An allocation keeps the addresses of the blocks, and adds the block it returns.\<close>

lemma allocate_mapped:
  assumes "pool_inv pool" and "allocate clk e n (m, pool) = (r, (m', pool'), cs)"
  shows "r = Inl x \<Longrightarrow> mapped_out pool' = mapped_out pool"
    and "r = Inr i \<Longrightarrow> i \<notin> mapped_out pool \<and>
      mapped_out pool' = mapped_out pool \<union> (if vb_va (all_blocks pool' ! i) = 0 then {} else {i})"
proof -
  show "mapped_out pool' = mapped_out pool" if "r = Inl x"
    using allocate_step(2) [OF assms that] by (simp add: mapped_out_def)
  assume r: "r = Inr i"
  have va: "vb_va (all_blocks pool' ! j) = vb_va (all_blocks pool ! j)" if j: "j < length (all_blocks pool)" for j
    using assms(2)
  proof (cases rule: allocate_cases)
    case (fresh a)
    then show ?thesis using create_block_cases [OF fresh(2)] j r by (auto simp: nth_append)
  next
    case (reused a key vec k)
    have "pool' = snd (reuse_block (vec ! k) (m, pool\<lparr>free_blocks := write_bucket key (swap_pop vec k) (free_blocks pool)\<rparr>))"
      using reused(6) by (metis snd_conv)
    then show ?thesis using j by (cases "vec ! k = j") (simp_all add: reuse_block_def Let_def)
  qed simp
  have "j < length (all_blocks pool)" if "j \<in> handed_out pool" for j using that by (simp add: handed_out_def)
  with va allocate_step(3) [OF assms r] show "i \<notin> mapped_out pool \<and>
      mapped_out pool' = mapped_out pool \<union> (if vb_va (all_blocks pool' ! i) = 0 then {} else {i})"
    by (auto simp: mapped_out_def)
qed

lemma exclusive_in: "exclusive n l st \<Longrightarrow> i \<in># owned n st + l \<longleftrightarrow> i \<in> mapped_out (cs_pool st)"
  by (simp add: exclusive_def)

lemma mapped_handed: "i \<in> mapped_out pool \<Longrightarrow> i \<in> handed_out pool"
  by (simp add: mapped_out_def)

definition same_storage :: "cuda_state \<Rightarrow> cuda_state \<Rightarrow> bool" where
  "same_storage st st' \<longleftrightarrow>
     (\<forall>b. cb_ptr (cs_buffer st' b) = cb_ptr (cs_buffer st b) \<and>
          cb_deleter (cs_buffer st' b) = cb_deleter (cs_buffer st b)) \<and>
     cs_queue st' = cs_queue st \<and> cs_pool st' = cs_pool st"

lemma same_storage_trans: "same_storage a b \<Longrightarrow> same_storage b c \<Longrightarrow> same_storage a c"
  by (simp add: same_storage_def)

lemma same_storage_refl [simp]: "same_storage st st"
  by (simp add: same_storage_def)

lemma same_storage_exclusive:
  assumes "same_storage st st'"
  shows "exclusive n l st' = exclusive n l st"
proof -
  have "owned n st' = owned n st" using assms by (simp add: owned_def same_storage_def buffer_block_def)
  then show ?thesis using assms by (simp add: exclusive_def same_storage_def)
qed

lemma same_storage_calls:
  "same_storage st (gpu cs st)"
  "same_storage st (upd_handle_state h x ws st)"
  "same_storage st (reap_completed_read_events e b st)"
  "same_storage st (finalize_write_handle e b st)"
  "same_storage st (read_release e rh st)"
  "same_storage st (write_release e wh st)"
proof -
  have r: "cs_pool (reap_completed_read_events e b st) = cs_pool st"
    by (simp add: reap_completed_read_events_def Let_def)
  have f: "cs_pool (finalize_write_handle e b st) = cs_pool st"
    by (simp add: finalize_write_handle_def finalize_write_handle_locked_def Let_def split: option.splits)
  show "same_storage st (reap_completed_read_events e b st)" by (simp add: same_storage_def r)
  show "same_storage st (finalize_write_handle e b st)" by (simp add: same_storage_def f finalize_fields)
qed (auto simp: same_storage_def read_release_def write_release_def Let_def split: option.splits prod.splits)

lemma same_storage_get_read: "get_read_handle e b s st = (r, st') \<Longrightarrow> same_storage st st'"
proof -
  assume g: "get_read_handle e b s st = (r, st')"
  have "same_storage x y" if "make_read_handle e b s x = (r, y)" for x y
    using that by (auto simp: make_read_handle_def Let_def same_storage_calls split: if_splits)
  then show ?thesis using g unfolding get_read_handle_alt by (meson same_storage_calls(3,4) same_storage_trans)
qed

lemma same_storage_get_write: "get_write_handle e b s st = (r, st') \<Longrightarrow> same_storage st st'"
  using same_storage_calls(3) [of st e b]
  by (auto simp: get_write_handle_def Let_def same_storage_def split: if_splits option.splits)

lemma exclusive_count: "exclusive n l st \<Longrightarrow> count (owned n st) i + count l i \<le> 1"
  by (metis count_mset_set' count_union exclusive_def le_numeral_extra(4) zero_le_one)

lemma owned_upd:
  assumes "b < n"
  shows "owned n (upd_buffer b f st) + buffer_block (cs_buffer st b) = owned n st + buffer_block (f (cs_buffer st b))"
proof -
  have s: "(\<Sum>a<n. g a) = g b + (\<Sum>a\<in>{..<n} - {b}. g a)" for g :: "nat \<Rightarrow> nat multiset"
    using assms by (simp add: sum.remove)
  have "(\<Sum>a\<in>{..<n} - {b}. buffer_block (cs_buffer (upd_buffer b f st) a)) =
      (\<Sum>a\<in>{..<n} - {b}. buffer_block (cs_buffer st a))"
    by (rule sum.cong) auto
  then show ?thesis by (simp add: owned_def s ac_simps)
qed

lemma run_deleter_exclusive:
  assumes "exclusive n (l + block_of p d) st"
  shows "exclusive n l (run_deleter d p st)"
proof (cases "p = 0 \<or> (\<forall>i. d \<noteq> Pool_Free i)")
  case True
  have "block_of p d = {#}" using True by (auto simp: block_of_def split: deleter.splits)
  then have "exclusive n l st" using assms by simp
  moreover have "same_storage st (run_deleter d p st)"
    using True by (auto simp: run_deleter_def same_storage_def split: deleter.splits)
  ultimately show ?thesis by (simp add: same_storage_exclusive)
next
  case False
  then obtain i where d: "p \<noteq> 0" "d = Pool_Free i" by auto
  have b: "block_of p d = {#i#}" using d by (simp add: block_of_def)
  have m: "i \<in> mapped_out (cs_pool st)" using exclusive_in [OF assms, of i] b by simp
  then have h: "i \<in> handed_out (cs_pool st)" by (rule mapped_handed)
  have "owned n st + (l + {#i#}) = mset_set (mapped_out (cs_pool st))" using assms b by (simp add: exclusive_def)
  also have "\<dots> = add_mset i (mset_set (mapped_out (cs_pool st) - {i}))" using m by (simp add: mset_set.remove)
  finally have o: "owned n st + l = mset_set (mapped_out (cs_pool st) - {i})" by simp
  have r: "run_deleter d p st = gpu [Deleted d p] (st\<lparr>cs_pool := free_block i (cs_pool st)\<rparr>)"
    using d by (simp add: run_deleter_def)
  have "owned n (run_deleter d p st) = owned n st" by (simp add: r owned_def)
  moreover have "pool_inv (free_block i (cs_pool st)) \<and> mapped_out (free_block i (cs_pool st)) = mapped_out (cs_pool st) - {i}"
    using free_block_step(1) [OF _ h] mapped_out_free [OF _ h] assms by (simp add: exclusive_def)
  ultimately show ?thesis using o by (simp add: exclusive_def r)
qed

lemma exclusive_eqI:
  assumes "exclusive n l st" and "owned n st' + l' = owned n st + l" and "cs_pool st' = cs_pool st"
  shows "exclusive n l' st'"
  using assms(1) unfolding exclusive_def assms(2,3) .

lemma destroy_value_exclusive:
  assumes "exclusive n (l + buffer_block b) st"
  shows "exclusive n l (destroy_value b st)"
proof (cases "events_to_sync b \<noteq> [] \<and> cb_recycler b")
  case True
  then have d: "destroy_value b st = enqueue (events_to_sync b) (cb_ptr b) (cb_deleter b) st"
    by (simp add: destroy_value_def)
  have "owned n (destroy_value b st) + l = owned n st + (l + buffer_block b)"
    by (simp add: d owned_def enqueue_def buffer_block_def ac_simps)
  then show ?thesis by (rule exclusive_eqI [OF assms]) (simp add: d enqueue_def)
next
  case False
  then have "destroy_value b st = run_deleter (cb_deleter b) (cb_ptr b) st" by (auto simp: destroy_value_def)
  then show ?thesis using assms run_deleter_exclusive by (simp add: buffer_block_def)
qed

lemma buffer_block_empty [simp]: "buffer_block empty_buffer = {#}"
  by (simp add: buffer_block_def block_of_def empty_buffer_def)

lemma exclusive_upd:
  assumes "exclusive n (l + buffer_block (f (cs_buffer st b))) st" and "b < n"
  shows "exclusive n (l + buffer_block (cs_buffer st b)) (upd_buffer b f st)"
proof -
  have "owned n (upd_buffer b f st) + (l + buffer_block (cs_buffer st b)) =
      owned n st + (l + buffer_block (f (cs_buffer st b)))"
    using owned_upd [OF assms(2), of f st] by (simp add: ac_simps)
  then show ?thesis by (rule exclusive_eqI [OF assms(1)]) simp
qed

lemma assign_buffer_exclusive:
  assumes "exclusive n (l + buffer_block new) st" and "b < n"
  shows "exclusive n l (assign_buffer b new st)"
  unfolding assign_buffer_def
  by (intro destroy_value_exclusive exclusive_upd) (use assms in simp_all)

lemma destroy_buffer_exclusive:
  assumes "exclusive n l st" and "b < n"
  shows "exclusive n l (destroy_buffer b st)"
proof -
  have e: "destroy_buffer b st = destroy_value (cs_buffer st b) (upd_buffer b (\<lambda>_. empty_buffer) st)"
    by (auto simp: destroy_buffer_def destroy_value_def run_deleter_def enqueue_def upd_buffer_def gpu_def
        split: deleter.splits)
  show ?thesis unfolding e
    by (intro destroy_value_exclusive exclusive_upd) (use assms in simp_all)
qed

lemma recycle_exclusive:
  assumes "exclusive n l st"
  shows "exclusive n l (recycle e st)"
proof (cases "cs_queue st")
  case Nil
  then show ?thesis using assms by (simp add: recycle_def)
next
  case (Cons w ws)
  let ?st = "gpu (concat (map (sync_calls e) (pw_events w))) (st\<lparr>cs_queue := ws\<rparr>)"
  have "owned n ?st + (l + block_of (pw_ptr w) (pw_deleter w)) = owned n st + l"
    using Cons by (simp add: owned_def ac_simps)
  then have "exclusive n (l + block_of (pw_ptr w) (pw_deleter w)) ?st"
    by (rule exclusive_eqI [OF assms]) simp
  then show ?thesis using Cons run_deleter_exclusive by (simp add: recycle_def)
qed

lemma drop_promoted_exclusive:
  assumes "exclusive n l st" and "\<forall>b. p = Some b \<longrightarrow> b < n"
  shows "exclusive n l (drop_promoted last_ref p st)"
  using assms destroy_buffer_exclusive by (auto simp: drop_promoted_def split: option.splits)

lemma end_handles_exclusive:
  "exclusive n l st \<Longrightarrow> \<forall>b. rh_promoted rh = Some b \<longrightarrow> b < n \<Longrightarrow> exclusive n l (destroy_read_handle e last_ref rh st)"
  "exclusive n l st \<Longrightarrow> \<forall>b. wh_promoted wh = Some b \<longrightarrow> b < n \<Longrightarrow> exclusive n l (destroy_write_handle e last_ref wh st)"
  unfolding destroy_read_handle_def destroy_write_handle_def
  using drop_promoted_exclusive same_storage_exclusive same_storage_calls(5,6) by metis+

lemma same_storage_end:
  "rh_promoted rh = None \<Longrightarrow> same_storage st (destroy_read_handle e last_ref rh st)"
  "wh_promoted wh = None \<Longrightarrow> same_storage st (destroy_write_handle e last_ref wh st)"
  by (simp_all add: destroy_read_handle_def destroy_write_handle_def drop_promoted_def same_storage_calls)

lemma same_storage_memcpy: "memcpy_async r dst src n kind s st = (res, st') \<Longrightarrow> same_storage st st'"
  by (auto simp: memcpy_async_def same_storage_calls split: if_splits)

lemma copy_buffer_same:
  assumes "copy_buffer e s k src dst st = (r, st')"
  shows "same_storage st st'"
proof -
  obtain r1 st1 where g1: "get_read_handle (cp_read e) src s st = (r1, st1)"
    by (cases "get_read_handle (cp_read e) src s st")
  note e1 = same_storage_get_read [OF g1]
  show ?thesis
  proof (cases r1)
    case (Inl x)
    then show ?thesis using assms g1 e1 by (simp add: copy_buffer_def)
  next
    case (Inr rh)
    have p: "rh_promoted rh = None" using get_read_handle_buffer(4) [OF g1 Inr] by simp
    obtain r2 st2 where g2: "get_write_handle (cp_write e) dst s st1 = (r2, st2)"
      by (cases "get_write_handle (cp_write e) dst s st1")
    note e2 = same_storage_trans [OF e1 same_storage_get_write [OF g2]]
    show ?thesis
    proof (cases r2)
      case (Inl x)
      then have "st' = destroy_read_handle (cp_end_read e) True rh st2"
        using assms g1 g2 \<open>r1 = Inr rh\<close> by (simp add: copy_buffer_def)
      then show ?thesis using same_storage_trans [OF e2 same_storage_end(1) [of rh]] p by simp
    next
      case (Inr wh)
      have p': "wh_promoted wh = None" using get_write_handle_cases(2) [OF g2 Inr] by auto
      obtain r3 st3 where m: "memcpy_async (cp_memcpy e) (wh_ptr wh) (rh_ptr rh) k DeviceToDevice s st2 = (r3, st3)"
        by (cases "memcpy_async (cp_memcpy e) (wh_ptr wh) (rh_ptr rh) k DeviceToDevice s st2")
      have "st' = destroy_read_handle (cp_end_read e) True rh (destroy_write_handle (cp_end_write e) True wh st3)"
        using assms g1 g2 \<open>r1 = Inr rh\<close> Inr m by (simp add: copy_buffer_def)
      then show ?thesis
        using same_storage_trans [OF same_storage_trans [OF e2 same_storage_memcpy [OF m]]]
          same_storage_trans [OF same_storage_end(2) [of wh] same_storage_end(1) [of rh]] p p' by simp
    qed
  qed
qed

section \<open>Allocation, in detail\<close>

definition new_storage :: "alloc_env \<Rightarrow> u64 \<Rightarrow> cuda_pool \<Rightarrow> nat \<Rightarrow> cuda_buffer" where
  "new_storage e bytes pool i =
     (let b = make_buffer (vb_va (all_blocks pool ! i)) bytes (device_id pool) (Pool_Free i)
      in if make_write_event e \<noteq> 0 then set_write_event (make_write_event e) True b else b)"

lemma get_or_create_fields:
  assumes "get_or_create_global_pool e p = (r, p')"
  shows "\<exists>pool. pr_cuda p' = (pr_cuda p)\<lparr>cs_pool := pool\<rparr> \<and> (r = Inr () \<longrightarrow> initialized pool) \<and>
      (pool = cs_pool (pr_cuda p) \<or> \<not> initialized (cs_pool (pr_cuda p)) \<and> free_blocks pool = [] \<and> all_blocks pool = [])"
    and "pr_impl p' = pr_impl p" and "pr_next p' = pr_next p" and "pr_internal p' = pr_internal p"
proof -
  have c: "free_blocks q = [] \<and> all_blocks q = [] \<and> (x = CUDA_SUCCESS \<longrightarrow> initialized q)" if "create_pool e (empty_pool, d) = (x, (q, d'), cs)" for q d x d' cs
    using that by (auto simp: create_pool_def Let_def empty_pool_def split: if_splits prod.splits)
  obtain x q d' cs where k: "create_pool e (empty_pool, pr_dispatcher p) = (x, (q, d'), cs)"
    by (cases "create_pool e (empty_pool, pr_dispatcher p)") auto
  have f: "\<exists>pool. pr_cuda p = (pr_cuda p)\<lparr>cs_pool := pool\<rparr> \<and> (pool = cs_pool (pr_cuda p) \<or> Q pool)"
    "initialized (cs_pool (pr_cuda p)) \<Longrightarrow>
      \<exists>pool. pr_cuda p = (pr_cuda p)\<lparr>cs_pool := pool\<rparr> \<and> initialized pool \<and> (pool = cs_pool (pr_cuda p) \<or> Q pool)" for Q
    by (rule exI [of _ "cs_pool (pr_cuda p)"], simp)+
  show "\<exists>pool. pr_cuda p' = (pr_cuda p)\<lparr>cs_pool := pool\<rparr> \<and> (r = Inr () \<longrightarrow> initialized pool) \<and>
      (pool = cs_pool (pr_cuda p) \<or> \<not> initialized (cs_pool (pr_cuda p)) \<and> free_blocks pool = [] \<and> all_blocks pool = [])"
    using assms k c [OF k] by (auto simp: get_or_create_global_pool_def on_cuda_def Let_def f split: if_splits)
  show "pr_impl p' = pr_impl p" "pr_next p' = pr_next p" "pr_internal p' = pr_internal p"
    using assms k by (auto simp: get_or_create_global_pool_def on_cuda_def Let_def split: if_splits)
qed

lemma allocate_buffer_internal_cases:
  assumes "allocate_buffer_internal e es b n p = (r, p')"
  obtains (failed) x m pool where "r = Inl x" "pr_cuda p' = (pr_cuda p)\<lparr>cs_meta := m, cs_pool := pool\<rparr>"
      "\<exists>pool0. (pool0 = cs_pool (pr_cuda p) \<or> \<not> initialized (cs_pool (pr_cuda p)) \<and> free_blocks pool0 = [] \<and> all_blocks pool0 = []) \<and>
        (pool = pool0 \<or> (\<exists>m0 m' y cs. allocate (ae_clock e) (ae_block e) (n * es) (m0, pool0) = (Inl y, (m', pool), cs)))"
      "pr_impl p' = pr_impl p" "pr_next p' = pr_next p" "pr_internal p' = pr_internal p"
    | (made) i m pool pool0 m0 cs where "r = Inr ()" "initialized pool0"
      "pool0 = cs_pool (pr_cuda p) \<or> \<not> initialized (cs_pool (pr_cuda p)) \<and> free_blocks pool0 = [] \<and> all_blocks pool0 = []"
      "allocate (ae_clock e) (ae_block e) (n * es) (m0, pool0) = (Inr i, (m, pool), cs)"
      "pr_cuda p' = (let st = (pr_cuda p)\<lparr>cs_meta := m, cs_pool := pool\<rparr>; ev = make_write_event e
         in (if ev \<noteq> 0 then upd_buffer b (set_write_event ev True) else id)
              (assign_buffer b (make_buffer (vb_va (all_blocks pool ! i)) (n * es) (device_id pool) (Pool_Free i))
                 (if ev \<noteq> 0 then gpu [EventCreate ev] st else st)))"
      "pr_impl p' = pr_impl p" "pr_next p' = pr_next p" "pr_internal p' = pr_internal p"
proof -
  obtain r1 p1 where g: "get_or_create_global_pool (ae_create e) p = (r1, p1)"
    by (cases "get_or_create_global_pool (ae_create e) p")
  note f = get_or_create_fields [OF g]
  obtain pool0 where q0: "r1 = Inr () \<longrightarrow> initialized pool0" and q: "pr_cuda p1 = (pr_cuda p)\<lparr>cs_pool := pool0\<rparr>"
    "pool0 = cs_pool (pr_cuda p) \<or> \<not> initialized (cs_pool (pr_cuda p)) \<and> free_blocks pool0 = [] \<and> all_blocks pool0 = []"
    using f(1) by blast
  show thesis
  proof (cases r1)
    case (Inl x)
    then have "r = Inl x" "p' = p1" using assms g by (simp_all add: allocate_buffer_internal_def)
    then show ?thesis using failed [where x = x and m = "cs_meta (pr_cuda p)" and pool = pool0] q f(2-4) by auto
  next
    case (Inr u)
    obtain r2 m pool cs where a: "allocate (ae_clock e) (ae_block e) (n * es) (cs_meta (pr_cuda p), pool0) = (r2, (m, pool), cs)"
      by (cases "allocate (ae_clock e) (ae_block e) (n * es) (cs_meta (pr_cuda p), pool0)") auto
    note d = assms [unfolded allocate_buffer_internal_def g Inr prod.case sum.case q(1) Let_def]
    show ?thesis
    proof (cases r2)
      case (Inl x)
      with d a have "r = Inl x" "pr_cuda p' = (pr_cuda p)\<lparr>cs_meta := m, cs_pool := pool\<rparr>"
        "pr_impl p' = pr_impl p" "pr_next p' = pr_next p" "pr_internal p' = pr_internal p"
        using f(2-4) by (auto simp: Inr)
      then show ?thesis using failed [where x = x and m = m and pool = pool] q(2) a Inl by blast
    next
      case (Inr i)
      with d a have "r = Inr ()"
        "pr_cuda p' = (let st = (pr_cuda p)\<lparr>cs_meta := m, cs_pool := pool\<rparr>; ev = make_write_event e
         in (if ev \<noteq> 0 then upd_buffer b (set_write_event ev True) else id)
              (assign_buffer b (make_buffer (vb_va (all_blocks pool ! i)) (n * es) (device_id pool) (Pool_Free i))
                 (if ev \<noteq> 0 then gpu [EventCreate ev] st else st)))"
        "pr_impl p' = pr_impl p" "pr_next p' = pr_next p" "pr_internal p' = pr_internal p"
        using f(2-4) by (auto simp: on_cuda_def Let_def)
      then show ?thesis using made [where i = i and m = m and pool = pool and ?pool0.0 = pool0 and ?m0.0 = "cs_meta (pr_cuda p)" and cs = cs] q0 q(2) a Inr \<open>r1 = Inr u\<close> by simp
    qed
  qed
qed

text \<open>The invariant of a process; a pool that does not exist yet has no blocks.\<close>

definition pool_made :: "cuda_pool \<Rightarrow> bool" where
  "pool_made pool \<longleftrightarrow> initialized pool \<or> all_blocks pool = []"

definition process_inv :: "process \<Rightarrow> bool" where
  "process_inv p \<longleftrightarrow> exclusive (pr_next p) {#} (pr_cuda p) \<and> pool_made (cs_pool (pr_cuda p))"

lemma allocate_initialized:
  "allocate clk e n (m, pool) = (r, (m', pool'), cs) \<Longrightarrow> initialized pool' = initialized pool"
  by (auto simp: allocate_def create_block_def reuse_block_def Let_def
      split: sum.splits option.splits if_splits prod.splits)

lemma made_run [simp]: "pool_made (cs_pool (run_deleter d q st)) = pool_made (cs_pool st)"
  by (simp add: run_deleter_def free_block_def pool_made_def split: deleter.splits)

lemma made_destroy [simp]:
  "pool_made (cs_pool (destroy_value v st)) = pool_made (cs_pool st)"
  "pool_made (cs_pool (assign_buffer b v st)) = pool_made (cs_pool st)"
  "pool_made (cs_pool (destroy_buffer b st)) = pool_made (cs_pool st)"
  "pool_made (cs_pool (recycle e st)) = pool_made (cs_pool st)"
  by (simp_all add: destroy_value_def enqueue_def assign_buffer_def destroy_buffer_def recycle_def split: list.splits)

lemma made_same: "same_storage st st' \<Longrightarrow> pool_made (cs_pool st') = pool_made (cs_pool st)"
  by (simp add: same_storage_def)

lemma empty_pool_inv: "free_blocks pool = [] \<Longrightarrow> all_blocks pool = [] \<Longrightarrow> pool_inv pool \<and> mapped_out pool = {}"
  by (simp add: pool_inv_def mapped_out_def handed_out_def free_set_def fb.sized_def fb.elems_def sorted_buckets_def)

lemma allocate_internal_inv:
  assumes "allocate_buffer_internal e es b k p = (r, p')" and "process_inv p" and "b < pr_next p"
  shows "process_inv p'"
proof -
  let ?n = "pr_next p" and ?st = "pr_cuda p"
  have pre: "pool_inv pool0 \<and> owned ?n ?st = mset_set (mapped_out pool0) \<and> pool_made pool0"
    if "pool0 = cs_pool ?st \<or> \<not> initialized (cs_pool ?st) \<and> free_blocks pool0 = [] \<and> all_blocks pool0 = []" for pool0
    using that
  proof
    assume n: "\<not> initialized (cs_pool ?st) \<and> free_blocks pool0 = [] \<and> all_blocks pool0 = []"
    then have "mapped_out (cs_pool ?st) = {}"
      using assms(2) by (simp add: process_inv_def pool_made_def mapped_out_def handed_out_def)
    then show ?thesis
      using assms(2) n empty_pool_inv [of pool0] by (auto simp: process_inv_def exclusive_def pool_made_def)
  qed (use assms(2) in \<open>auto simp: process_inv_def exclusive_def\<close>)
  from assms(1) show ?thesis
  proof (cases rule: allocate_buffer_internal_cases)
    case (failed x m pool)
    obtain pool0 where q: "pool0 = cs_pool ?st \<or> \<not> initialized (cs_pool ?st) \<and> free_blocks pool0 = [] \<and> all_blocks pool0 = []"
      "pool = pool0 \<or> (\<exists>m0 m' y cs. allocate (ae_clock e) (ae_block e) (k * es) (m0, pool0) = (Inl y, (m', pool), cs))"
      using failed(3) by blast
    note p0 = pre [OF q(1)]
    have "pool_inv pool \<and> mapped_out pool = mapped_out pool0 \<and> pool_made pool"
      using q(2)
    proof
      assume "\<exists>m0 m' y cs. allocate (ae_clock e) (ae_block e) (k * es) (m0, pool0) = (Inl y, (m', pool), cs)"
      then obtain m0 m' y cs where a: "allocate (ae_clock e) (ae_block e) (k * es) (m0, pool0) = (Inl y, (m', pool), cs)"
        by blast
      show ?thesis
        using allocate_step(1,2) [OF conjunct1 [OF p0] a] allocate_mapped(1) [OF conjunct1 [OF p0] a] allocate_initialized [OF a] p0
        by (auto simp: pool_made_def)
    qed (use p0 in simp)
    moreover have "owned ?n (pr_cuda p') = owned ?n ?st" by (simp add: failed owned_def)
    ultimately show ?thesis using p0 by (simp add: process_inv_def exclusive_def failed(2,5))
  next
    case (made i m pool pool0 m0 cs)
    note p0 = pre [OF made(3)]
    have h: "i \<notin> mapped_out pool0"
      "mapped_out pool = mapped_out pool0 \<union> (if vb_va (all_blocks pool ! i) = 0 then {} else {i})" "pool_inv pool"
      using allocate_mapped(2) [OF conjunct1 [OF p0] made(4)] allocate_step(1) [OF conjunct1 [OF p0] made(4)] by auto
    let ?st1 = "?st\<lparr>cs_meta := m, cs_pool := pool\<rparr>"
    let ?st2 = "if make_write_event e \<noteq> 0 then gpu [EventCreate (make_write_event e)] ?st1 else ?st1"
    let ?new = "make_buffer (vb_va (all_blocks pool ! i)) (k * es) (device_id pool) (Pool_Free i)"
    have o: "owned ?n ?st2 = owned ?n ?st" by (simp add: owned_def)
    have "buffer_block ?new = (if vb_va (all_blocks pool ! i) = 0 then {#} else {#i#})"
      by (simp add: buffer_block_def block_of_def make_buffer_def)
    then have "exclusive ?n ({#} + buffer_block ?new) ?st2"
      unfolding exclusive_def o using p0 h by simp
    then have ex: "exclusive ?n {#} (assign_buffer b ?new ?st2)"
      using assms(3) by (rule assign_buffer_exclusive)
    have "pool_made pool" using made(2) allocate_initialized [OF made(4)] by (simp add: pool_made_def)
    then have md: "pool_made (cs_pool (assign_buffer b ?new ?st2))" by simp
    have ss: "same_storage x (upd_buffer b (set_write_event ev True) x)" for x ev
      by (simp add: same_storage_def set_write_event_def)
    have "pr_cuda p' = (if make_write_event e \<noteq> 0 then upd_buffer b (set_write_event (make_write_event e) True) else id)
        (assign_buffer b ?new ?st2)"
      by (simp only: made(5) Let_def)
    then have s: "same_storage (assign_buffer b ?new ?st2) (pr_cuda p')"
      using ss [of "assign_buffer b ?new ?st2"] by (cases "make_write_event e = 0") simp_all
    show ?thesis
      unfolding process_inv_def made(7) same_storage_exclusive [OF s] made_same [OF s] using ex md by (rule conjI)
  qed
qed

lemma fresh_impl_inv:
  assumes "process_inv p" and "fresh_impl k p = (b, p')"
  shows "process_inv p'" and "b = pr_next p" and "pr_next p' = pr_next p + 1"
    and "cs_buffer (pr_cuda p') = (cs_buffer (pr_cuda p))(b := empty_buffer)"
    and "pr_impl p' = (pr_impl p)(b := \<lparr>bi_size = k, bi_stream = 0\<rparr>)"
proof -
  have p': "b = pr_next p" "pr_cuda p' = upd_buffer (pr_next p) (\<lambda>_. empty_buffer) (pr_cuda p)" "pr_next p' = pr_next p + 1"
    "pr_impl p' = (pr_impl p)(b := \<lparr>bi_size = k, bi_stream = 0\<rparr>)"
    using assms(2) by (auto simp: fresh_impl_def on_cuda_def upd_impl_def)
  have "owned (pr_next p + 1) (pr_cuda p') = owned (pr_next p) (pr_cuda p)"
    by (simp add: owned_def p')
  then show "process_inv p'" using assms(1) by (simp add: process_inv_def exclusive_def p')
qed (use assms(2) in \<open>auto simp: fresh_impl_def on_cuda_def upd_impl_def\<close>)

section \<open>Every operation keeps the ownership of blocks\<close>

lemma process_inv_upd:
  "process_inv (p\<lparr>pr_cuda := st\<rparr>) \<longleftrightarrow> exclusive (pr_next p) {#} st \<and> pool_made (cs_pool st)"
  by (simp add: process_inv_def)

lemma keeps_same: "process_inv p \<Longrightarrow> same_storage (pr_cuda p) st \<Longrightarrow> process_inv (p\<lparr>pr_cuda := st\<rparr>)"
  by (simp add: process_inv_def same_storage_exclusive made_same)

lemma keeps_destroy:
  "process_inv p \<Longrightarrow> b < pr_next p \<Longrightarrow> process_inv (on_cuda (destroy_buffer b) p)"
  by (simp add: process_inv_def on_cuda_def destroy_buffer_exclusive)

lemma keeps_recycle: "process_inv p \<Longrightarrow> process_inv (on_cuda (recycle e) p)"
  by (simp add: process_inv_def on_cuda_def recycle_exclusive)

lemma keeps_upd_impl: "process_inv (upd_impl b f p) = process_inv p"
  "process_inv (set_stream b s p) = process_inv p"
  by (simp_all add: process_inv_def upd_impl_def set_stream_def)

lemma upd_impl_fields [simp]:
  "pr_cuda (upd_impl b f p) = pr_cuda p" "pr_next (upd_impl b f p) = pr_next p"
  "pr_next (on_cuda g p) = pr_next p" "pr_cuda (on_cuda g p) = g (pr_cuda p)"
  "pr_impl (on_cuda g p) = pr_impl p"
  by (simp_all add: upd_impl_def on_cuda_def)

lemma keeps_clear: "process_inv p \<Longrightarrow> b < pr_next p \<Longrightarrow> process_inv (clear_impl b p)"
  unfolding clear_impl_def keeps_upd_impl
  using assign_buffer_exclusive [of "pr_next p" "{#}" empty_buffer "pr_cuda p" b]
  by (simp add: process_inv_def on_cuda_def)

lemma allocate_internal_fields:
  assumes "allocate_buffer_internal e es b k p = (r, p')"
  shows "pr_next p' = pr_next p" and "pr_impl p' = pr_impl p" and "pr_internal p' = pr_internal p"
    and "a \<noteq> b \<Longrightarrow> cs_buffer (pr_cuda p') a = cs_buffer (pr_cuda p) a"
    and "r = Inl x \<Longrightarrow> cs_buffer (pr_cuda p') = cs_buffer (pr_cuda p)"
proof -
  from assms have "pr_next p' = pr_next p \<and> pr_impl p' = pr_impl p \<and> pr_internal p' = pr_internal p \<and>
      (a \<noteq> b \<longrightarrow> cs_buffer (pr_cuda p') a = cs_buffer (pr_cuda p) a) \<and>
      (r = Inl x \<longrightarrow> cs_buffer (pr_cuda p') = cs_buffer (pr_cuda p))"
    by (cases rule: allocate_buffer_internal_cases) (simp_all add: Let_def assign_buffer_def)
  then show "pr_next p' = pr_next p" and "pr_impl p' = pr_impl p" and "pr_internal p' = pr_internal p"
    and "a \<noteq> b \<Longrightarrow> cs_buffer (pr_cuda p') a = cs_buffer (pr_cuda p) a"
    and "r = Inl x \<Longrightarrow> cs_buffer (pr_cuda p') = cs_buffer (pr_cuda p)" by simp_all
qed

lemma allocate_buffer_inv:
  assumes "allocate_buffer e es k p = (r, p')" and "process_inv p"
  shows "process_inv p'" and "pr_next p' = pr_next p + 1" and "r = Inr b \<Longrightarrow> b = pr_next p"
    and "a < pr_next p \<Longrightarrow> cs_buffer (pr_cuda p') a = cs_buffer (pr_cuda p) a \<and> pr_impl p' a = pr_impl p a"
proof -
  obtain c p1 where f: "fresh_impl k p = (c, p1)" by (cases "fresh_impl k p")
  note fi = fresh_impl_inv [OF assms(2) f]
  obtain r2 p2 where i: "allocate_buffer_internal e es c k p1 = (r2, p2)"
    by (cases "allocate_buffer_internal e es c k p1")
  note ai = allocate_internal_inv [OF i fi(1)] allocate_internal_fields(1,2) [OF i]
    allocate_internal_fields(4) [OF i, of a]
  have "p' = (if k > 0 then p2 else p1) \<and> (\<forall>b. r = Inr b \<longrightarrow> b = c)"
    using assms(1) f i by (cases r2) (auto simp: allocate_buffer_def split: if_splits)
  then show "process_inv p'" and "pr_next p' = pr_next p + 1" and "r = Inr b \<Longrightarrow> b = pr_next p"
    and "a < pr_next p \<Longrightarrow> cs_buffer (pr_cuda p') a = cs_buffer (pr_cuda p) a \<and> pr_impl p' a = pr_impl p a"
    using fi ai by auto
qed

lemma stream_of_fields:
  assumes "stream_of e b p = (s, p')"
  shows "pr_cuda p' = pr_cuda p" and "pr_next p' = pr_next p" and "pr_impl p' = pr_impl p"
    and "process_inv p' = process_inv p"
  using assms by (auto simp: stream_of_def get_internal_stream_def process_inv_def Let_def
      split: if_splits option.splits)

text \<open>The end of \<open>resize\<close>: the two buffers are swapped and the old one is destroyed.\<close>

lemma keeps_swap:
  assumes "process_inv p" and "b < pr_next p" and "t < pr_next p" and "b \<noteq> t"
  defines "st \<equiv> pr_cuda p"
  shows "process_inv (p\<lparr>pr_cuda := destroy_buffer t
     (upd_buffer t (\<lambda>_. cs_buffer st b) (upd_buffer b (\<lambda>_. cs_buffer st t) st))\<rparr>)"
proof -
  let ?s1 = "upd_buffer b (\<lambda>_. cs_buffer st t) st" and ?n = "pr_next p"
  let ?s2 = "upd_buffer t (\<lambda>_. cs_buffer st b) ?s1"
  have "owned ?n ?s2 + buffer_block (cs_buffer st t) = owned ?n ?s1 + buffer_block (cs_buffer st b)"
    using owned_upd [OF assms(3), of "\<lambda>_. cs_buffer st b" ?s1] assms(4) by simp
  moreover have "owned ?n ?s1 + buffer_block (cs_buffer st b) = owned ?n st + buffer_block (cs_buffer st t)"
    using owned_upd [OF assms(2), of "\<lambda>_. cs_buffer st t" st] by simp
  ultimately have o: "owned ?n ?s2 = owned ?n st" by (metis add_right_imp_eq)
  have "exclusive ?n {#} st" using assms(1) by (simp add: process_inv_def st_def)
  then have "exclusive ?n {#} ?s2" by (rule exclusive_eqI) (simp_all only: o upd_buffer_simps)
  then have "exclusive ?n {#} (destroy_buffer t ?s2)" using assms(3) by (rule destroy_buffer_exclusive)
  moreover have "pool_made (cs_pool (destroy_buffer t ?s2))"
    using assms(1) by (simp only: made_destroy upd_buffer_simps process_inv_def st_def)
  ultimately show ?thesis by (simp only: process_inv_upd simp_thms)
qed

lemma resize_impl_inv:
  assumes "resize_impl ea ec es_stream es b n p = (r, p')" and "process_inv p" and "b < pr_next p"
  shows "process_inv p' \<and> pr_next p \<le> pr_next p'"
proof -
  consider "n = bi_size (pr_impl p b)" | "n \<noteq> bi_size (pr_impl p b)" "n = 0"
    | "n \<noteq> bi_size (pr_impl p b)" "n \<noteq> 0" by blast
  then show ?thesis
  proof cases
    case 1
    then show ?thesis using assms(1,2) by (simp add: resize_impl_def)
  next
    case 2
    then show ?thesis using assms keeps_clear [OF assms(2,3)] by (auto simp: resize_impl_def clear_impl_def)
  next
    case 3
    obtain t p0 where f: "fresh_impl 0 p = (t, p0)" by (cases "fresh_impl 0 p")
    note fi = fresh_impl_inv [OF assms(2) f]
    obtain r1 p1 where i: "allocate_buffer_internal ea es t n p0 = (r1, p1)"
      by (cases "allocate_buffer_internal ea es t n p0")
    have tn: "t < pr_next p0" "b < pr_next p0" "b \<noteq> t" using fi(2,3) assms(3) by simp_all
    have i1: "process_inv p1" "pr_next p1 = pr_next p0"
      using allocate_internal_inv [OF i fi(1) tn(1)] allocate_internal_fields(1) [OF i] by simp_all
    show ?thesis
    proof (cases r1)
      case (Inl x)
      then have "p' = on_cuda (destroy_buffer t) p1" using assms(1) 3 f i by (simp add: resize_impl_def)
      then show ?thesis using keeps_destroy i1 tn fi(3) by simp
    next
      case (Inr u)
      define cp where "cp = (if has_content b p1 then
                      (let (s, p1') = stream_of es_stream b p1;
                           (r, st) = copy_buffer ec s (min n (bi_size (pr_impl p1' b)) * es) b t (pr_cuda p1')
                       in (r, p1'\<lparr>pr_cuda := st\<rparr>))
                    else (Inr (), p1))"
      obtain r2 p2 where c: "cp = (r2, p2)" by (cases cp)
      have i2: "process_inv p2" "pr_next p2 = pr_next p1"
      proof -
        obtain s q where s: "stream_of es_stream b p1 = (s, q)" by (cases "stream_of es_stream b p1")
        obtain r3 st where k: "copy_buffer ec s (min n (bi_size (pr_impl q b)) * es) b t (pr_cuda q) = (r3, st)"
          by (cases "copy_buffer ec s (min n (bi_size (pr_impl q b)) * es) b t (pr_cuda q)")
        have "process_inv (q\<lparr>pr_cuda := st\<rparr>)"
          using i1 stream_of_fields(4) [OF s] copy_buffer_same [OF k] by (intro keeps_same) simp_all
        then show "process_inv p2" "pr_next p2 = pr_next p1"
          using c i1 s k stream_of_fields(2) [OF s] by (auto simp: cp_def split: if_splits)
      qed
      have p': "p' = (case r2 of Inl x \<Rightarrow> on_cuda (destroy_buffer t) p2
          | Inr _ \<Rightarrow> upd_impl b (\<lambda>i. i\<lparr>bi_size := n\<rparr>) (p2\<lparr>pr_cuda := destroy_buffer t
             (upd_buffer t (\<lambda>_. cs_buffer (pr_cuda p2) b) (upd_buffer b (\<lambda>_. cs_buffer (pr_cuda p2) t) (pr_cuda p2)))\<rparr>))"
        using assms(1) 3 f i Inr c by (auto simp: resize_impl_def cp_def [symmetric] Let_def split: sum.splits)
      show ?thesis
      proof (cases r2)
        case (Inl x)
        then show ?thesis using p' keeps_destroy [OF i2(1)] tn i1 i2 fi(3) by simp
      next
        case (Inr v)
        then show ?thesis using p' keeps_swap [OF i2(1), of b t] tn i1 i2 fi(3)
          by (simp only: keeps_upd_impl sum.case upd_impl_fields) simp
      qed
    qed
  qed
qed

lemma clone_impl_inv:
  assumes "clone_impl ea ec es_stream es b p = (r, p')" and "process_inv p" and "b < pr_next p"
  shows "process_inv p' \<and> pr_next p \<le> pr_next p'"
proof -
  obtain r1 p1 where a: "allocate_buffer ea es (bi_size (pr_impl p b)) p = (r1, p1)"
    by (cases "allocate_buffer ea es (bi_size (pr_impl p b)) p")
  note ai = allocate_buffer_inv [OF a assms(2)]
  show ?thesis
  proof (cases r1)
    case (Inl x)
    then show ?thesis using assms(1) a ai by (simp add: clone_impl_def)
  next
    case (Inr c)
    obtain s q where s: "stream_of es_stream b p1 = (s, q)" by (cases "stream_of es_stream b p1")
    obtain r3 st where k: "copy_buffer ec s (bi_size (pr_impl q b) * es) b c (pr_cuda q) = (r3, st)"
      by (cases "copy_buffer ec s (bi_size (pr_impl q b) * es) b c (pr_cuda q)")
    have i: "process_inv (q\<lparr>pr_cuda := st\<rparr>)" "pr_next q = pr_next p1" "c < pr_next q"
      using ai Inr stream_of_fields [OF s] copy_buffer_same [OF k] by (auto intro!: keeps_same)
    have "p' = p1 \<or> p' = q\<lparr>pr_cuda := st\<rparr> \<or> p' = on_cuda (destroy_buffer c) (q\<lparr>pr_cuda := st\<rparr>)"
      using assms(1) a Inr s k by (auto simp: clone_impl_def Let_def split: if_splits sum.splits)
    then show ?thesis using ai i keeps_destroy [OF i(1), of c] by auto
  qed
qed

lemma to_cpu_inv:
  assumes "to_cpu e sync es_stream es host b p = (r, p')" and "process_inv p"
  shows "process_inv p' \<and> pr_next p' = pr_next p"
proof -
  obtain s q where s: "stream_of es_stream b p = (s, q)" by (cases "stream_of es_stream b p")
  obtain r1 st where g: "get_read_handle (cp_read e) b s (pr_cuda q) = (r1, st)"
    by (cases "get_read_handle (cp_read e) b s (pr_cuda q)")
  note sf = stream_of_fields [OF s]
  have "p' = p \<or> (\<exists>st'. p' = q\<lparr>pr_cuda := st'\<rparr> \<and> same_storage (pr_cuda q) st')"
  proof (cases "has_content b p")
    case True
    note t = assms(1) [unfolded to_cpu_def Let_def if_P [OF True] s prod.case g]
    show ?thesis
    proof (cases r1)
      case (Inl x)
      then have "p' = q\<lparr>pr_cuda := st\<rparr>" using t by simp
      then show ?thesis using same_storage_get_read [OF g] by blast
    next
      case (Inr rh)
      obtain r2 st1 where m: "memcpy_async (cp_memcpy e) host (rh_ptr rh) (bi_size (pr_impl p b) * es) DeviceToHost s st = (r2, st1)"
        by (cases "memcpy_async (cp_memcpy e) host (rh_ptr rh) (bi_size (pr_impl p b) * es) DeviceToHost s st")
      note ss = same_storage_trans [OF same_storage_get_read [OF g] same_storage_memcpy [OF m]]
      have pr: "rh_promoted rh = None" using get_read_handle_buffer(4) [OF g Inr] by simp
      obtain st2 where st2: "same_storage (pr_cuda q) st2"
        "p' = q\<lparr>pr_cuda := destroy_read_handle (cp_end_read e) True rh st2\<rparr>"
        using t Inr m ss same_storage_trans [OF ss same_storage_calls(1)]
        by (auto split: sum.splits if_splits)
      then show ?thesis using same_storage_trans [OF st2(1) same_storage_end(1) [OF pr]] by blast
    qed
  qed (use assms(1) in \<open>simp add: to_cpu_def\<close>)
  then show ?thesis using sf assms(2) keeps_same by auto
qed

lemma get_write_fields:
  assumes "get_write e b s p = (r, p')"
  shows "\<exists>st. p' = p\<lparr>pr_cuda := st\<rparr> \<and> same_storage (pr_cuda p) st"
    and "r = Inr wh \<Longrightarrow> wh_promoted wh = None"
proof -
  obtain r1 st where g: "get_write_handle e b s (pr_cuda p) = (r1, st)"
    by (cases "get_write_handle e b s (pr_cuda p)")
  show "\<exists>st. p' = p\<lparr>pr_cuda := st\<rparr> \<and> same_storage (pr_cuda p) st"
    using assms g same_storage_get_write [OF g] by (auto simp: get_write_def)
  show "wh_promoted wh = None" if "r = Inr wh"
    using assms g that get_write_handle_cases(2) [OF g] by (auto simp: get_write_def)
qed

lemma get_read_fields:
  assumes "get_read e b s p = (r, p')"
  shows "\<exists>st. p' = p\<lparr>pr_cuda := st\<rparr> \<and> same_storage (pr_cuda p) st"
    and "r = Inr rh \<Longrightarrow> rh_promoted rh = None"
proof -
  obtain r1 st where g: "get_read_handle e b s (pr_cuda p) = (r1, st)"
    by (cases "get_read_handle e b s (pr_cuda p)")
  show "\<exists>st. p' = p\<lparr>pr_cuda := st\<rparr> \<and> same_storage (pr_cuda p) st"
    using assms g same_storage_get_read [OF g] by (auto simp: get_read_def)
  show "rh_promoted rh = None" if "r = Inr rh"
    using assms g that get_read_handle_buffer(4) [OF g] by (auto simp: get_read_def)
qed

lemma get_inv:
  "get_write e b s p = (r, p') \<Longrightarrow> process_inv p \<Longrightarrow> process_inv p' \<and> pr_next p' = pr_next p"
  "get_read e b s p = (r', p') \<Longrightarrow> process_inv p \<Longrightarrow> process_inv p' \<and> pr_next p' = pr_next p"
  using get_write_fields(1) [of e b s p r p'] get_read_fields(1) [of e b s p r' p'] keeps_same by fastforce+

lemma from_output_buffer_inv:
  assumes "from_output_buffer ea e es impl s p = (r, p')" and "process_inv p"
  shows "process_inv p' \<and> pr_next p \<le> pr_next p' \<and>
    (\<forall>wh b. r = Inr wh \<longrightarrow> wh_promoted wh = Some b \<longrightarrow> b < pr_next p')"
proof (cases "impl = No_Impl \<or> impl_size impl p = 0")
  case True
  then have "(r, p') = (if impl = No_Impl
      then (Inl (CudaError ''from_output_buffer called on buffer with null implementation''), p)
      else (Inl (CudaError ''from_output_buffer called on empty buffer''), p))"
    using assms(1) unfolding from_output_buffer_def by argo
  then show ?thesis using assms(2) by (simp split: if_splits)
next
  case False
  show ?thesis
  proof (cases "\<exists>b. impl = Cuda_Impl b")
    case True
    then obtain b where b: "impl = Cuda_Impl b" by blast
    with False assms(1) have g: "get_write e b s (set_stream b s p) = (r, p')"
      by (simp add: from_output_buffer_def)
    have "pr_next (set_stream b s p) = pr_next p" by (simp add: set_stream_def)
    then show ?thesis using get_inv(1) [OF g] get_write_fields(2) [OF g] assms(2) by (auto simp: keeps_upd_impl)
  next
    case host: False
    obtain r1 p1 where a: "allocate_buffer ea 1 (impl_size impl p * es) p = (r1, p1)"
      by (cases "allocate_buffer ea 1 (impl_size impl p * es) p")
    note ai = allocate_buffer_inv [OF a assms(2)]
    have d: "(r, p') = (case (r1, p1) of
               (Inl x, p1) \<Rightarrow> (Inl x, p1)
             | (Inr b, p1) \<Rightarrow>
                 (case get_write e b s (set_stream b s p1) of
                    (Inl x, p2) \<Rightarrow> (Inl x, on_cuda (destroy_buffer b) p2)
                  | (Inr wh, p2) \<Rightarrow> (Inr (wh\<lparr>wh_promoted := Some b\<rparr>), p2)))"
      using assms(1) False host a by (cases impl) (simp_all add: from_output_buffer_def)
    show ?thesis
    proof (cases r1)
      case (Inl x)
      then show ?thesis using d ai by simp
    next
      case (Inr b)
      obtain r2 p2 where g: "get_write e b s (set_stream b s p1) = (r2, p2)"
        by (cases "get_write e b s (set_stream b s p1)")
      have i: "process_inv p2" "pr_next p2 = pr_next p1" "b < pr_next p2"
        using get_inv(1) [OF g] ai Inr by (simp_all add: keeps_upd_impl set_stream_def)
      then show ?thesis using d Inr g ai keeps_destroy [OF i(1,3)] by (cases r2) auto
    qed
  qed
qed

lemma from_input_buffer_inv:
  assumes "from_input_buffer ea e es impl s p = (r, p')" and "process_inv p"
  shows "process_inv p' \<and> pr_next p \<le> pr_next p' \<and>
    (\<forall>rh b. r = Inr rh \<longrightarrow> rh_promoted rh = Some b \<longrightarrow> b < pr_next p')"
proof (cases "impl = No_Impl \<or> impl_size impl p = 0")
  case True
  then have "(r, p') = (if impl = No_Impl
      then (Inl (CudaError ''from_input_buffer called on buffer with null implementation''), p)
      else (Inl (CudaError ''from_input_buffer called on empty buffer''), p))"
    using assms(1) unfolding from_input_buffer_def by argo
  then show ?thesis using assms(2) by (simp split: if_splits)
next
  case False
  show ?thesis
  proof (cases impl)
    case (Cuda_Impl b)
    with False assms(1) have g: "get_read (cp_read e) b s p = (r, p')" by (simp add: from_input_buffer_def)
    show ?thesis using get_inv(2) [OF g] get_read_fields(2) [OF g] assms(2) by auto
  next
    case (Host_Impl n host)
    obtain r1 p1 where a: "allocate_buffer ea 1 (n * es) p = (r1, p1)" by (cases "allocate_buffer ea 1 (n * es) p")
    note ai = allocate_buffer_inv [OF a assms(2)]
    show ?thesis
    proof (cases r1)
      case (Inl x)
      then show ?thesis using assms(1) False Host_Impl a ai by (auto simp: from_input_buffer_def Let_def)
    next
      case (Inr b)
      obtain r2 p2 where g: "get_write (cp_write e) b s p1 = (r2, p2)" by (cases "get_write (cp_write e) b s p1")
      have i2: "process_inv p2" "pr_next p2 = pr_next p1" "b < pr_next p2"
        using get_inv(1) [OF g] ai Inr by simp_all
      show ?thesis
      proof (cases r2)
        case (Inl x)
        then show ?thesis
          using assms(1) False Host_Impl a Inr g ai i2 keeps_destroy [OF i2(1,3)]
          by (auto simp: from_input_buffer_def Let_def)
      next
        case wh: (Inr wh)
        obtain r3 st where m: "memcpy_async (cp_memcpy e) (wh_ptr wh) host (n * es) HostToDevice s (pr_cuda p2) = (r3, st)"
          by (cases "memcpy_async (cp_memcpy e) (wh_ptr wh) host (n * es) HostToDevice s (pr_cuda p2)")
        let ?p3 = "p2\<lparr>pr_cuda := destroy_write_handle (cp_end_write e) True wh st\<rparr>"
        have "wh_promoted wh = None" using get_write_fields(2) [OF g] wh by simp
        then have i3: "process_inv ?p3" "pr_next ?p3 = pr_next p2"
          using same_storage_trans [OF same_storage_memcpy [OF m] same_storage_end(2)] i2 by (auto intro: keeps_same)
        obtain r4 p4 where g4: "get_read (cp_read e) b s ?p3 = (r4, p4)" by (cases "get_read (cp_read e) b s ?p3")
        have i4: "process_inv p4" "pr_next p4 = pr_next p2" using get_inv(2) [OF g4 i3(1)] i3(2) by simp_all
        have "(r, p') = (case r3 of Inl x \<Rightarrow> (Inl x, on_cuda (destroy_buffer b) ?p3)
            | Inr _ \<Rightarrow> (case r4 of Inl x \<Rightarrow> (Inl x, on_cuda (destroy_buffer b) p4)
                | Inr rh \<Rightarrow> (Inr (rh\<lparr>rh_promoted := Some b\<rparr>), p4)))"
          using assms(1) False Host_Impl a Inr g wh m g4
          by (auto simp: from_input_buffer_def Let_def split: sum.splits)
        then show ?thesis
          using ai i2 i3 i4 keeps_destroy [OF i3(1), of b] keeps_destroy [OF i4(1), of b]
          by (cases r3; cases r4) auto
      qed
    qed
  qed (use False in simp)
qed

section \<open>Exclusive storage\<close>

text \<open>The operations of a process on its buffers, in any order.\<close>

inductive process_step :: "process \<Rightarrow> process \<Rightarrow> bool" where
  "allocate_buffer e es n p = (r, p') \<Longrightarrow> process_step p p'"
| "b < pr_next p \<Longrightarrow> resize_impl ea ec es_stream es b n p = (r, p') \<Longrightarrow> process_step p p'"
| "b < pr_next p \<Longrightarrow> process_step p (clear_impl b p)"
| "b < pr_next p \<Longrightarrow> clone_impl ea ec es_stream es b p = (r', p') \<Longrightarrow> process_step p p'"
| "to_cpu ec sync es_stream es host b p = (r'', p') \<Longrightarrow> process_step p p'"
| "from_output_buffer ea ge es impl s p = (r1, p') \<Longrightarrow> process_step p p'"
| "from_input_buffer ea ec es impl s p = (r2, p') \<Longrightarrow> process_step p p'"
| "process_step p (on_cuda (finalize_write_handle ge b) p)"
| "process_step p (on_cuda (gpu [StreamWork s k]) p)"
| "\<forall>b. rh_promoted rh = Some b \<longrightarrow> b < pr_next p \<Longrightarrow>
     process_step p (on_cuda (destroy_read_handle ge last_ref rh) p)"
| "\<forall>b. wh_promoted wh = Some b \<longrightarrow> b < pr_next p \<Longrightarrow>
     process_step p (on_cuda (destroy_write_handle ge last_ref wh) p)"
| "b < pr_next p \<Longrightarrow> process_step p (on_cuda (destroy_buffer b) p)"
| "process_step p (on_cuda (recycle ge) p)"

definition process_start :: "process \<Rightarrow> bool" where
  "process_start p \<longleftrightarrow> pool_inv (cs_pool (pr_cuda p)) \<and> pool_made (cs_pool (pr_cuda p)) \<and> handed_out (cs_pool (pr_cuda p)) = {} \<and>
     cs_buffer (pr_cuda p) = (\<lambda>_. empty_buffer) \<and> cs_queue (pr_cuda p) = []"

inductive process_reachable :: "process \<Rightarrow> bool" where
  "process_start p \<Longrightarrow> process_reachable p"
| "process_reachable p \<Longrightarrow> process_step p p' \<Longrightarrow> process_reachable p'"

lemma end_handles_inv:
  "process_inv p \<Longrightarrow> \<forall>b. rh_promoted rh = Some b \<longrightarrow> b < pr_next p \<Longrightarrow>
     process_inv (on_cuda (destroy_read_handle ge last_ref rh) p)"
  "process_inv p \<Longrightarrow> \<forall>b. wh_promoted wh = Some b \<longrightarrow> b < pr_next p \<Longrightarrow>
     process_inv (on_cuda (destroy_write_handle ge last_ref wh) p)"
proof -
  have d: "pool_made (cs_pool (drop_promoted l q st)) = pool_made (cs_pool st)" for l q st
    by (simp add: drop_promoted_def split: option.splits)
  show "process_inv (on_cuda (destroy_read_handle ge last_ref rh) p)"
    if "process_inv p" "\<forall>b. rh_promoted rh = Some b \<longrightarrow> b < pr_next p"
    using that end_handles_exclusive(1) made_same [OF same_storage_calls(5)]
    by (simp add: process_inv_def destroy_read_handle_def d)
  show "process_inv (on_cuda (destroy_write_handle ge last_ref wh) p)"
    if "process_inv p" "\<forall>b. wh_promoted wh = Some b \<longrightarrow> b < pr_next p"
    using that end_handles_exclusive(2) made_same [OF same_storage_calls(6)]
    by (simp add: process_inv_def destroy_write_handle_def d)
qed

lemma keeps_on_cuda: "process_inv p \<Longrightarrow> same_storage (pr_cuda p) (f (pr_cuda p)) \<Longrightarrow> process_inv (on_cuda f p)"
  by (simp add: on_cuda_def keeps_same)

lemma process_step_inv:
  assumes "process_step p p'" and "process_inv p"
  shows "process_inv p'"
  using assms(1)
proof cases
  case 1
  then show ?thesis using allocate_buffer_inv(1) assms(2) by blast
next
  case 2
  then show ?thesis using resize_impl_inv assms(2) by blast
next
  case 4
  then show ?thesis using clone_impl_inv assms(2) by blast
next
  case 5
  then show ?thesis using to_cpu_inv assms(2) by blast
next
  case 6
  then show ?thesis using from_output_buffer_inv assms(2) by blast
next
  case 7
  then show ?thesis using from_input_buffer_inv assms(2) by blast
qed (auto intro: keeps_on_cuda same_storage_calls end_handles_inv keeps_destroy keeps_recycle keeps_clear assms(2))

lemma process_reachable_inv: "process_reachable p \<Longrightarrow> process_inv p"
proof (induction rule: process_reachable.induct)
  case (1 p)
  then show ?case by (simp add: process_start_def process_inv_def exclusive_def owned_def mapped_out_def)
qed (rule process_step_inv)

lemma count_two: "count ({#i#} + X) i \<le> 1 \<Longrightarrow> i \<notin># X"
  by (simp add: not_in_iff)

lemma sum_list_member: "x \<in> set xs \<Longrightarrow> (f x :: nat multiset) \<subseteq># sum_list (map f xs)"
  by (induction xs) (auto intro: subset_mset.add_increasing subset_mset.add_increasing2)

lemma storage_disjoint:
  assumes "process_inv p" and "b < pr_next p"
    and "cb_ptr (cs_buffer (pr_cuda p) b) \<noteq> 0" and "cb_deleter (cs_buffer (pr_cuda p) b) = Pool_Free i"
  shows "i \<in> handed_out (cs_pool (pr_cuda p)) \<and>
    (\<forall>c < pr_next p. c \<noteq> b \<longrightarrow> cb_ptr (cs_buffer (pr_cuda p) c) \<noteq> 0 \<longrightarrow>
       cb_deleter (cs_buffer (pr_cuda p) c) \<noteq> Pool_Free i) \<and>
    (\<forall>w \<in> set (cs_queue (pr_cuda p)). pw_ptr w \<noteq> 0 \<longrightarrow> pw_deleter w \<noteq> Pool_Free i)"
proof -
  let ?st = "pr_cuda p" and ?n = "pr_next p"
  let ?q = "sum_list (map (\<lambda>w. block_of (pw_ptr w) (pw_deleter w)) (cs_queue ?st))"
  have ex: "exclusive ?n {#} ?st" using assms(1) by (simp add: process_inv_def)
  have o: "owned ?n ?st = buffer_block (cs_buffer ?st b) +
      ((\<Sum>a\<in>{..<?n} - {b}. buffer_block (cs_buffer ?st a)) + ?q)"
    using assms(2) by (simp add: owned_def sum.remove ac_simps)
  have b: "buffer_block (cs_buffer ?st b) = {#i#}" using assms(3,4) by (simp add: buffer_block_def block_of_def)
  have no: "i \<notin># (\<Sum>a\<in>{..<?n} - {b}. buffer_block (cs_buffer ?st a)) + ?q"
    by (rule count_two) (use exclusive_count [OF ex, of i] in \<open>simp only: o b count_empty add_0_right\<close>)
  have c: "cb_deleter (cs_buffer ?st c) \<noteq> Pool_Free i"
    if "c < ?n" "c \<noteq> b" "cb_ptr (cs_buffer ?st c) \<noteq> 0" for c
  proof
    assume "cb_deleter (cs_buffer ?st c) = Pool_Free i"
    then have "i \<in># buffer_block (cs_buffer ?st c)" using that by (simp add: buffer_block_def block_of_def)
    moreover have "(\<Sum>a\<in>{..<?n} - {b}. buffer_block (cs_buffer ?st a)) =
        buffer_block (cs_buffer ?st c) + (\<Sum>a\<in>{..<?n} - {b} - {c}. buffer_block (cs_buffer ?st a))"
      using that by (intro sum.remove) auto
    ultimately show False using no by simp
  qed
  have w: "pw_deleter w \<noteq> Pool_Free i" if "w \<in> set (cs_queue ?st)" "pw_ptr w \<noteq> 0" for w
  proof
    assume "pw_deleter w = Pool_Free i"
    then have "i \<in># block_of (pw_ptr w) (pw_deleter w)" using that by (simp add: block_of_def)
    then have "i \<in># ?q" using sum_list_member [OF that(1)] by (rule mset_subset_eqD [rotated])
    then show False using no by simp
  qed
  have "i \<in># owned ?n ?st + {#}" unfolding o b by simp
  then have "i \<in> handed_out (cs_pool ?st)" using exclusive_in [OF ex] mapped_handed by blast
  with c w show ?thesis by blast
qed

lemma owned_in:
  "i \<in># owned n st \<longleftrightarrow>
     (\<exists>b < n. cb_ptr (cs_buffer st b) \<noteq> 0 \<and> cb_deleter (cs_buffer st b) = Pool_Free i) \<or>
     (\<exists>w \<in> set (cs_queue st). pw_ptr w \<noteq> 0 \<and> pw_deleter w = Pool_Free i)"
proof -
  have d: "i \<in># block_of ptr d \<longleftrightarrow> ptr \<noteq> 0 \<and> d = Pool_Free i" for ptr d
    by (auto simp: block_of_def split: deleter.splits)
  have s: "i \<in># (\<Sum>b<n. f b) \<longleftrightarrow> (\<exists>b < n. i \<in># f b)" for f :: "nat \<Rightarrow> nat multiset"
    by (induction n) (auto simp: less_Suc_eq)
  have l: "i \<in># sum_list (map g ws) \<longleftrightarrow> (\<exists>w \<in> set ws. i \<in># g w)" for g :: "pending_work \<Rightarrow> nat multiset" and ws
    by (induction ws) auto
  show ?thesis by (simp add: owned_def s l d buffer_block_def)
qed

lemma mapped_out_owned:
  "process_inv p \<Longrightarrow> i \<in> mapped_out (cs_pool (pr_cuda p)) \<longleftrightarrow> i \<in># owned (pr_next p) (pr_cuda p)"
  using exclusive_in [of "pr_next p" "{#}" "pr_cuda p" i] by (simp add: process_inv_def)

text \<open>
  Nobody shares storage: whatever a process does with its buffers (allocate, resize, clone, clear, copy, take and
  end handles, destroy, recycle), in whatever order and whatever the calls answer, a pool block that a buffer
  owns is handed out, is owned by no other buffer, and is not waiting in the recycler.
\<close>

theorem storage_exclusive:
  assumes "process_reachable p" and "b < pr_next p"
    and "cb_ptr (cs_buffer (pr_cuda p) b) \<noteq> 0" and "cb_deleter (cs_buffer (pr_cuda p) b) = Pool_Free i"
  shows "i \<in> handed_out (cs_pool (pr_cuda p)) \<and>
    (\<forall>c < pr_next p. c \<noteq> b \<longrightarrow> cb_ptr (cs_buffer (pr_cuda p) c) \<noteq> 0 \<longrightarrow>
       cb_deleter (cs_buffer (pr_cuda p) c) \<noteq> Pool_Free i) \<and>
    (\<forall>w \<in> set (cs_queue (pr_cuda p)). pw_ptr w \<noteq> 0 \<longrightarrow> pw_deleter w \<noteq> Pool_Free i)"
  by (rule storage_disjoint [OF process_reachable_inv [OF assms(1)] assms(2-4)])

text \<open>A process with a pool of three free blocks and no buffers, and the allocation of 4000 bytes in it.\<close>

definition idle_pool :: cuda_pool where
  "idle_pool = free_block 2 sample_pool"

lemma idle_pool_eq: "idle_pool = sample_pool\<lparr>free_blocks := [(4096, [0, 2]), (8192, [1])]\<rparr>"
  by (simp add: idle_pool_def free_block_def sample_pool_def new_block_def)

lemma idle_reuse:
  "allocate (\<lambda>_. 0) sample_block_env 4000 (\<lambda>_. init_metadata, idle_pool) =
     (Inr 0, (\<lambda>_. init_metadata, snd (reuse_block 0 (\<lambda>_. init_metadata,
        sample_pool\<lparr>free_blocks := [(4096, [2]), (8192, [1])]\<rparr>))), [])"
  unfolding idle_pool_eq by (simp add: pool_eval fun_eq_iff)

lemma idle_pool_start: "pool_inv idle_pool" "handed_out idle_pool = {}"
proof -
  have h: "handed_out sample_pool = {2}"
    by (auto simp: handed_out_def sample_free) (auto simp: sample_pool_def)
  show "pool_inv idle_pool" "handed_out idle_pool = {}"
    using free_block_step(1,3) [OF sample_pool_inv, of 2] h by (simp_all add: idle_pool_def)
qed

definition sample_process :: process where
  "sample_process = \<lparr>pr_cuda = sample_cuda_state\<lparr>cs_buffer := \<lambda>_. empty_buffer, cs_pool := idle_pool\<rparr>,
     pr_impl = (\<lambda>_. \<lparr>bi_size = 0, bi_stream = 0\<rparr>), pr_next = 0, pr_dispatcher = None, pr_internal = Some 3,
     pr_calls = []\<rparr>"

definition sample_alloc_env :: alloc_env where
  "sample_alloc_env = \<lparr>ae_create = sample_create_env, ae_clock = (\<lambda>_. 0), ae_block = sample_block_env,
     ae_event = (cudaSuccess, 8), ae_local_event = (cudaSuccess, 8)\<rparr>"

lemma sample_process_start: "process_start sample_process"
  using idle_pool_start
  by (simp add: process_start_def sample_process_def sample_cuda_state_def pool_made_def)
     (simp add: idle_pool_eq sample_pool_def)

lemma sample_allocation:
  "\<exists>p. allocate_buffer sample_alloc_env 1 4000 sample_process = (Inr 0, p) \<and> pr_next p = 1 \<and>
     cs_buffer (pr_cuda p) 0 = new_storage sample_alloc_env 4000 sample_pool 0 \<and>
     bi_size (pr_impl p 0) = 4000 \<and> pr_internal p = Some 3 \<and> bi_stream (pr_impl p 0) = 0"
proof -
  have i: "initialized idle_pool" by (simp add: idle_pool_eq sample_pool_def)
  have v: "all_blocks (snd (reuse_block 0 (\<lambda>_. init_metadata, sample_pool\<lparr>free_blocks := f\<rparr>))) ! 0 =
      (all_blocks sample_pool ! 0)\<lparr>vb_current_uid := 0\<rparr>" for f
    by (simp add: reuse_block_def sample_pool_def Let_def)
  have d: "device_id (snd (reuse_block 0 (\<lambda>_. init_metadata, sample_pool\<lparr>free_blocks := f\<rparr>))) =
      device_id sample_pool" for f
    by (simp add: reuse_block_def Let_def)
  show ?thesis
    by (simp add: allocate_buffer_def fresh_impl_def allocate_buffer_internal_def get_or_create_global_pool_def
        sample_process_def sample_cuda_state_def on_cuda_def upd_impl_def i sample_alloc_env_def idle_reuse
        make_write_event_def assign_buffer_def destroy_value_def run_deleter_def new_storage_def v d
        set_write_event_def make_buffer_def empty_buffer_def events_to_sync_def Let_def)
qed

theorem storage_exclusive_witness:
  "\<exists>p. process_reachable p \<and> cb_deleter (cs_buffer (pr_cuda p) 0) = Pool_Free 0 \<and>
     0 \<in> handed_out (cs_pool (pr_cuda p))"
proof -
  obtain p where p: "allocate_buffer sample_alloc_env 1 4000 sample_process = (Inr 0, p)" "pr_next p = 1"
    "cs_buffer (pr_cuda p) 0 = new_storage sample_alloc_env 4000 sample_pool 0"
    using sample_allocation by blast
  have r: "process_reachable p"
    using process_reachable.intros sample_process_start process_step.intros(1) [OF p(1)] by blast
  have f: "cb_ptr (cs_buffer (pr_cuda p) 0) \<noteq> 0" "cb_deleter (cs_buffer (pr_cuda p) 0) = Pool_Free 0"
    by (simp_all add: p(3) new_storage_def make_buffer_def set_write_event_def Let_def sample_pool_def)
  have "0 < pr_next p" using p(2) by simp
  from storage_exclusive [OF r this f] r f show ?thesis by blast
qed

section \<open>Resizing\<close>

text \<open>What a copy does to its two buffers, also when it fails.\<close>

lemma read_release_buffer:
  "\<exists>evs. cs_buffer (read_release e rh st) b = (cs_buffer st b)\<lparr>cb_read_events := evs\<rparr>"
  "cs_handle_state (read_release e rh st) = cs_handle_state st"
  by (auto simp: read_release_def split: option.splits prod.splits
      intro: exI [of _ "cb_read_events (cs_buffer st b)"])

lemma copy_buffer_buffers:
  assumes "copy_buffer e s k src dst st = (r, st')" and "src \<noteq> dst"
  shows "\<exists>evs. cs_buffer st' src = (cs_buffer st src)\<lparr>cb_read_events := evs\<rparr>"
    and "r = Inr u \<Longrightarrow> write_phase (cb_handle_state (cs_buffer st' dst)) (cs_handle_state st') = Finalized"
proof -
  obtain r1 st1 where g1: "get_read_handle (cp_read e) src s st = (r1, st1)"
    by (cases "get_read_handle (cp_read e) src s st")
  obtain kept where b1: "cs_buffer st1 src = (cs_buffer st src)\<lparr>cb_read_events := kept\<rparr>"
    using get_read_handle_buffer(1) [OF g1] by auto
  have "(\<exists>evs. cs_buffer st' src = (cs_buffer st src)\<lparr>cb_read_events := evs\<rparr>) \<and>
      (r = Inr u \<longrightarrow> write_phase (cb_handle_state (cs_buffer st' dst)) (cs_handle_state st') = Finalized)"
  proof (cases r1)
    case (Inl x)
    then show ?thesis using assms(1) g1 b1 by (auto simp: copy_buffer_def)
  next
    case (Inr rh)
    have pr: "rh_promoted rh = None" using get_read_handle_buffer(4) [OF g1 Inr] by simp
    have er: "destroy_read_handle (cp_end_read e) True rh x = read_release (cp_end_read e) rh x" for x
      by (simp add: destroy_read_handle_def drop_promoted_def pr)
    obtain r2 st2 where g2: "get_write_handle (cp_write e) dst s st1 = (r2, st2)"
      by (cases "get_write_handle (cp_write e) dst s st1")
    show ?thesis
    proof (cases r2)
      case (Inl x)
      then have c: "r = Inl x" "st' = read_release (cp_end_read e) rh st2"
        using assms(1) g1 g2 \<open>r1 = Inr rh\<close> by (auto simp: copy_buffer_def er)
      have b2: "cs_buffer st2 src = cs_buffer st1 src" using get_write_handle_cases(1) [OF g2 Inl] assms(2) by simp
      have "\<exists>evs. cs_buffer st' src = (cs_buffer st2 src)\<lparr>cb_read_events := evs\<rparr>"
        unfolding c by (rule read_release_buffer(1))
      then show ?thesis using c(1) b1 b2 by auto
    next
      case (Inr wh)
      obtain a where a: "wh_state wh = Some a" "wh_promoted wh = None" "cb_handle_state (cs_buffer st2 dst) = Some a"
        "cs_handle_state st2 a = \<lparr>hs_state = InUse, hs_write_stream = s\<rparr>" "cs_buffer st2 src = cs_buffer st1 src"
        using get_write_handle_cases(2) [OF g2 Inr] assms(2) by auto
      obtain r3 st3 where m: "memcpy_async (cp_memcpy e) (wh_ptr wh) (rh_ptr rh) k DeviceToDevice s st2 = (r3, st3)"
        by (cases "memcpy_async (cp_memcpy e) (wh_ptr wh) (rh_ptr rh) k DeviceToDevice s st2")
      have b3: "cs_buffer st3 = cs_buffer st2" "cs_handle_state st3 = cs_handle_state st2"
        using m by (auto simp: memcpy_async_def split: if_splits)
      let ?st4 = "write_release (cp_end_write e) wh st3"
      have b4: "cs_buffer ?st4 = cs_buffer st2" "hs_state (cs_handle_state ?st4 a) = Finalized"
        using a(1,4) b3 by (simp_all add: write_release_def Let_def)
      have c: "st' = read_release (cp_end_read e) rh ?st4"
        using assms(1) g1 g2 \<open>r1 = Inr rh\<close> Inr m a(2)
        by (simp add: copy_buffer_def er destroy_write_handle_def drop_promoted_def)
      have "\<exists>evs. cs_buffer st' src = (cs_buffer ?st4 src)\<lparr>cb_read_events := evs\<rparr>"
        unfolding c by (rule read_release_buffer(1))
      moreover have "cb_handle_state (cs_buffer st' dst) = Some a"
        unfolding c using a(3) b4 by (simp add: read_release_phase)
      ultimately show ?thesis
        using a(5) b1 b4 by (auto simp: c read_release_buffer(2))
    qed
  qed
  then show "\<exists>evs. cs_buffer st' src = (cs_buffer st src)\<lparr>cb_read_events := evs\<rparr>"
    and "r = Inr u \<Longrightarrow> write_phase (cb_handle_state (cs_buffer st' dst)) (cs_handle_state st') = Finalized"
    by simp_all
qed

text \<open>The course of a resize to another size, not 0, once the new storage is there.\<close>

lemma resize_course:
  assumes "resize_impl ea ec es_stream es b n p = (r, p')" and "n \<noteq> bi_size (pr_impl p b)" and "n \<noteq> 0"
    and "b < pr_next p"
  obtains (no_storage) x p1 where "r = Inl x" "p' = on_cuda (destroy_buffer (pr_next p)) p1"
      "cs_buffer (pr_cuda p1) b = cs_buffer (pr_cuda p) b" "pr_impl p1 b = pr_impl p b"
    | (storage) p1 r2 p2 where
      "allocate_buffer_internal ea es (pr_next p) n (snd (fresh_impl 0 p)) = (Inr (), p1)"
      "cs_buffer (pr_cuda p1) b = cs_buffer (pr_cuda p) b" "pr_impl p1 b = pr_impl p b" "pr_internal p1 = pr_internal p"
      "(r2, p2) = (if has_content b p1 then
          (let (s, p1') = stream_of es_stream b p1;
               (r, st) = copy_buffer ec s (min n (bi_size (pr_impl p1' b)) * es) b (pr_next p) (pr_cuda p1')
           in (r, p1'\<lparr>pr_cuda := st\<rparr>)) else (Inr (), p1))"
      "r = map_sum id (\<lambda>_. ()) r2"
      "p' = (case r2 of Inl x \<Rightarrow> on_cuda (destroy_buffer (pr_next p)) p2
         | Inr _ \<Rightarrow> upd_impl b (\<lambda>i. i\<lparr>bi_size := n\<rparr>) (p2\<lparr>pr_cuda := destroy_buffer (pr_next p)
             (upd_buffer (pr_next p) (\<lambda>_. cs_buffer (pr_cuda p2) b)
               (upd_buffer b (\<lambda>_. cs_buffer (pr_cuda p2) (pr_next p)) (pr_cuda p2)))\<rparr>))"
proof -
  let ?t = "pr_next p"
  obtain p0 where f: "fresh_impl 0 p = (?t, p0)" by (simp add: fresh_impl_def)
  have f0: "cs_buffer (pr_cuda p0) b = cs_buffer (pr_cuda p) b" "pr_impl p0 b = pr_impl p b" "pr_internal p0 = pr_internal p"
    using f assms(4) by (auto simp: fresh_impl_def upd_impl_def on_cuda_def)
  obtain r1 p1 where i: "allocate_buffer_internal ea es ?t n p0 = (r1, p1)"
    by (cases "allocate_buffer_internal ea es ?t n p0")
  have i1: "cs_buffer (pr_cuda p1) b = cs_buffer (pr_cuda p) b" "pr_impl p1 b = pr_impl p b" "pr_internal p1 = pr_internal p"
    using allocate_internal_fields(2,3) [OF i] allocate_internal_fields(4) [OF i, of b] f0 assms(4) by simp_all
  show thesis
  proof (cases r1)
    case (Inl x)
    then show thesis using no_storage [of x p1] assms(1-3) f i i1 by (simp add: resize_impl_def)
  next
    case (Inr u)
    define cp where "cp = (if has_content b p1 then
          (let (s, p1') = stream_of es_stream b p1;
               (r, st) = copy_buffer ec s (min n (bi_size (pr_impl p1' b)) * es) b ?t (pr_cuda p1')
           in (r, p1'\<lparr>pr_cuda := st\<rparr>)) else (Inr (), p1))"
    obtain r2 p2 where c: "cp = (r2, p2)" by (cases cp)
    have "r = map_sum id (\<lambda>_. ()) r2 \<and> p' = (case r2 of Inl x \<Rightarrow> on_cuda (destroy_buffer ?t) p2
         | Inr _ \<Rightarrow> upd_impl b (\<lambda>i. i\<lparr>bi_size := n\<rparr>) (p2\<lparr>pr_cuda := destroy_buffer ?t
             (upd_buffer ?t (\<lambda>_. cs_buffer (pr_cuda p2) b)
               (upd_buffer b (\<lambda>_. cs_buffer (pr_cuda p2) ?t) (pr_cuda p2)))\<rparr>))"
      using assms(1-3) f i Inr c by (auto simp: resize_impl_def cp_def [symmetric] Let_def split: sum.splits)
    then show thesis
      using storage [OF _ i1, of r2 p2] f i Inr c [symmetric] unfolding cp_def by simp
  qed
qed

lemma has_content_cong:
  "cs_buffer (pr_cuda q) b = cs_buffer (pr_cuda p) b \<Longrightarrow> pr_impl q b = pr_impl p b \<Longrightarrow> has_content b q = has_content b p"
  by (simp add: has_content_def)

lemma stream_of_same:
  assumes "pr_impl q b = pr_impl p b" and "pr_internal q = pr_internal p"
  shows "fst (stream_of e b q) = fst (stream_of e b p)"
  using assms by (simp add: stream_of_def get_internal_stream_def Let_def split: option.splits)

lemma destroy_buffer_other: "a \<noteq> t \<Longrightarrow> cs_buffer (destroy_buffer t st) a = cs_buffer st a"
  "cs_handle_state (destroy_buffer t st) = cs_handle_state st"
  by (simp_all add: destroy_buffer_def)

lemma get_write_handle_finalized:
  assumes "cb_handle_state (cs_buffer st b) = Some a" and "hs_state (cs_handle_state st a) = Finalized"
  shows "fst (get_write_handle e b s st) =
    Inl (CudaError ''CudaBuffer: write already finalized; cannot acquire write handle'')"
  using assms by (simp add: get_write_handle_def Let_def)

text \<open>
  A resize that throws (no storage, no handle, or a failed copy) leaves the buffer as it was: same size, storage,
  stream and events, except for read events that were found complete.
\<close>

theorem resize_failure_atomic:
  assumes "resize_impl ea ec es_stream es b n p = (Inl x, p')" and "b < pr_next p"
  shows "pr_impl p' b = pr_impl p b \<and>
    (\<exists>evs. cs_buffer (pr_cuda p') b = (cs_buffer (pr_cuda p) b)\<lparr>cb_read_events := evs\<rparr>)"
proof -
  have n: "n \<noteq> bi_size (pr_impl p b)" "n \<noteq> 0"
    using assms(1) by (auto simp: resize_impl_def split: if_splits)
  have self: "\<exists>evs. cs_buffer (pr_cuda p) b = (cs_buffer (pr_cuda p) b)\<lparr>cb_read_events := evs\<rparr>"
    by (rule exI [of _ "cb_read_events (cs_buffer (pr_cuda p) b)"]) simp
  from assms(1) n assms(2) show ?thesis
  proof (cases rule: resize_course)
    case (no_storage y p1)
    then show ?thesis using self assms(2) by (simp add: destroy_buffer_other)
  next
    case (storage p1 r2 p2)
    from storage(6) obtain y where r2: "r2 = Inl y" by (cases r2) auto
    obtain s q where s: "stream_of es_stream b p1 = (s, q)" by (cases "stream_of es_stream b p1")
    obtain r3 st where k: "copy_buffer ec s (min n (bi_size (pr_impl q b)) * es) b (pr_next p) (pr_cuda q) = (r3, st)"
      by (cases "copy_buffer ec s (min n (bi_size (pr_impl q b)) * es) b (pr_next p) (pr_cuda q)")
    have p2: "p2 = q\<lparr>pr_cuda := st\<rparr>" using storage(5) r2 s k by (auto split: if_splits)
    obtain evs where "cs_buffer st b = (cs_buffer (pr_cuda q) b)\<lparr>cb_read_events := evs\<rparr>"
      using copy_buffer_buffers(1) [OF k] assms(2) by auto
    then show ?thesis
      using storage(2,3,7) r2 p2 stream_of_fields [OF s] assms(2) by (auto simp: destroy_buffer_other)
  qed
qed

text \<open>
  Resizing is ordered with all other work: a buffer with content that is resized, on a stream other than the
  default one and with the calls to CUDA succeeding, gets the new storage and size, and one copy of the common
  part from the old to the new storage; readers of the new
  storage wait for that copy, and the old storage is given to the recycler with an event that waits
  for it.
\<close>

theorem resize_orders_copy:
  assumes "resize_impl ea ec es_stream es b n p = (Inr (), p')" and "b < pr_next p"
    and "n \<noteq> bi_size (pr_impl p b)" and "n \<noteq> 0" and "has_content b p"
    and "good_copy ec" and "fst (stream_of es_stream b p) = s" and "s \<noteq> 0"
    and "make_write_event ea \<noteq> 0" and "snd (ge_create (cp_end_read ec)) \<noteq> make_write_event ea"
    and "cb_recycler (cs_buffer (pr_cuda p) b)"
  shows "bi_size (pr_impl p' b) = n \<and> cb_size (cs_buffer (pr_cuda p') b) = n * es \<and>
    (\<exists>k < length (cs_trace (pr_cuda p')).
       cs_trace (pr_cuda p') ! k = StreamWork s (Copy (cb_ptr (cs_buffer (pr_cuda p') b))
         (cb_ptr (cs_buffer (pr_cuda p) b)) (min n (bi_size (pr_impl p b)) * es) DeviceToDevice) \<and>
       k \<in> gv_event (view (pr_cuda p')) (cb_write_event (cs_buffer (pr_cuda p') b)) \<and>
       (\<exists>w \<in> set (cs_queue (pr_cuda p')). pw_ptr w = cb_ptr (cs_buffer (pr_cuda p) b) \<and>
          pw_deleter w = cb_deleter (cs_buffer (pr_cuda p) b) \<and>
          (\<exists>ev \<in> set (pw_events w). k \<in> gv_event (view (pr_cuda p')) ev)))"
  using assms(1,3,4,2)
proof (cases rule: resize_course)
  case (storage p1 r2 p2)
  let ?t = "pr_next p" and ?ev = "snd (ge_create (cp_end_read ec))" and ?we = "make_write_event ea"
  obtain s' q where s: "stream_of es_stream b p1 = (s', q)" by (cases "stream_of es_stream b p1")
  have s': "s' = s" using stream_of_same [OF storage(3,4)] s assms(7) by (metis fst_conv)
  note sf = stream_of_fields [OF s]
  obtain r3 st where k: "copy_buffer ec s (min n (bi_size (pr_impl p b)) * es) b ?t (pr_cuda p1) = (r3, st)"
    by (cases "copy_buffer ec s (min n (bi_size (pr_impl p b)) * es) b ?t (pr_cuda p1)")
  have hc: "has_content b p1" using has_content_cong [OF storage(2,3)] assms(5) by simp
  have p2: "r2 = r3" "p2 = q\<lparr>pr_cuda := st\<rparr>"
    using storage(5) hc s s' k sf(1,3) storage(3) by simp_all
  obtain i and pool :: cuda_pool where t: "cs_buffer (pr_cuda p1) ?t = set_write_event ?we True
      (make_buffer (vb_va (all_blocks pool ! i)) (n * es) (device_id pool) (Pool_Free i))"
    using storage(1)
  proof (cases rule: allocate_buffer_internal_cases)
    case (made i m pool pool0 m0 cs)
    have "cs_buffer (pr_cuda p1) ?t = set_write_event ?we True
      (make_buffer (vb_va (all_blocks pool ! i)) (n * es) (device_id pool) (Pool_Free i))"
      using assms(9) by (simp add: made(5) Let_def assign_buffer_def)
    then show thesis using that by blast
  qed simp
  have tf: "cb_handle_state (cs_buffer (pr_cuda p1) ?t) = None" "cb_read_events (cs_buffer (pr_cuda p1) ?t) = []"
    "cb_write_event (cs_buffer (pr_cuda p1) ?t) = ?we" "cb_size (cs_buffer (pr_cuda p1) ?t) = n * es"
    by (simp_all add: t set_write_event_def make_buffer_def empty_buffer_def)
  have bt: "b \<noteq> ?t" using assms(2) by simp
  have ok: "r3 = Inr () \<and> cs_queue st = cs_queue (pr_cuda p1) \<and>
    (\<exists>kept. cs_buffer st b = (cs_buffer (pr_cuda p1) b)\<lparr>cb_read_events := kept @ [?ev]\<rparr>) \<and>
    cs_buffer st ?t = (cs_buffer (pr_cuda p1) ?t)\<lparr>cb_handle_state := Some (cs_next (pr_cuda p1))\<rparr> \<and>
    hs_state (cs_handle_state st (cs_next (pr_cuda p1))) = Finalized \<and>
    (\<exists>pre. cs_trace st = pre @
      [StreamWork s (Copy (cb_ptr (cs_buffer (pr_cuda p1) ?t)) (cb_ptr (cs_buffer (pr_cuda p1) b))
         (min n (bi_size (pr_impl p b)) * es) DeviceToDevice),
       EventRecord ?we s, EventCreate ?ev, EventRecord ?ev s])"
    using copy_buffer_ok [OF k assms(6,8) bt tf(1,2)] assms(9) tf(3) by simp
  then obtain kept pre where st: "cs_buffer st b = (cs_buffer (pr_cuda p) b)\<lparr>cb_read_events := kept @ [?ev]\<rparr>"
    "cs_trace st = pre @ [StreamWork s (Copy (cb_ptr (cs_buffer (pr_cuda p1) ?t)) (cb_ptr (cs_buffer (pr_cuda p) b))
         (min n (bi_size (pr_impl p b)) * es) DeviceToDevice),
       EventRecord ?we s, EventCreate ?ev, EventRecord ?ev s]"
    using storage(2) by metis
  let ?sw = "upd_buffer ?t (\<lambda>_. cs_buffer st b) (upd_buffer b (\<lambda>_. cs_buffer st ?t) st)"
  have p': "pr_cuda p' = destroy_buffer ?t ?sw" "bi_size (pr_impl p' b) = n"
    using storage(7) p2 ok by (simp_all add: upd_impl_def)
  have old: "cs_buffer ?sw ?t = cs_buffer st b" by simp
  have d: "destroy_buffer ?t ?sw = upd_buffer ?t (\<lambda>_. empty_buffer)
      (enqueue (events_to_sync (cs_buffer st b)) (cb_ptr (cs_buffer st b)) (cb_deleter (cs_buffer st b)) ?sw)"
    unfolding destroy_buffer_def destroy_value_def old using assms(11) st(1) by (simp add: events_to_sync_def)
  have tr: "cs_trace (pr_cuda p') = cs_trace st" unfolding p' d by (simp add: enqueue_def)
  have nb: "cs_buffer (pr_cuda p') b = cs_buffer st ?t" unfolding p' d using bt by (simp add: enqueue_def)
  have nf: "cb_ptr (cs_buffer (pr_cuda p') b) = cb_ptr (cs_buffer (pr_cuda p1) ?t)"
    "cb_write_event (cs_buffer (pr_cuda p') b) = ?we" "cb_size (cs_buffer (pr_cuda p') b) = n * es"
    unfolding nb using ok tf by simp_all
  have q: "\<exists>w \<in> set (cs_queue (pr_cuda p')). pw_ptr w = cb_ptr (cs_buffer (pr_cuda p) b) \<and>
      pw_deleter w = cb_deleter (cs_buffer (pr_cuda p) b) \<and> ?ev \<in> set (pw_events w)"
    unfolding p' d by (simp add: enqueue_def st(1) events_to_sync_def)
  have "length pre \<in> gv_event (view (pr_cuda p')) ?we \<and> length pre \<in> gv_event (view (pr_cuda p')) ?ev"
    unfolding tr st(2) using assms(10) by (simp add: gpu_run_append)
  moreover have "cs_trace (pr_cuda p') ! length pre = StreamWork s (Copy (cb_ptr (cs_buffer (pr_cuda p1) ?t))
      (cb_ptr (cs_buffer (pr_cuda p) b)) (min n (bi_size (pr_impl p b)) * es) DeviceToDevice)"
    "length pre < length (cs_trace (pr_cuda p'))"
    unfolding tr st(2) by simp_all
  ultimately show ?thesis using p'(2) nf q by auto
qed simp

text \<open>
  A buffer with content that was resized cannot be written any more: the copy used up its one write, so that every
  later request for a write handle throws.
\<close>

theorem resize_forbids_write:
  assumes "resize_impl ea ec es_stream es b n p = (Inr (), p')" and "b < pr_next p"
    and "n \<noteq> bi_size (pr_impl p b)" and "n \<noteq> 0" and "has_content b p"
  shows "fst (get_write_handle e b s (pr_cuda p')) =
    Inl (CudaError ''CudaBuffer: write already finalized; cannot acquire write handle'')"
  using assms(1,3,4,2)
proof (cases rule: resize_course)
  case (storage p1 r2 p2)
  let ?t = "pr_next p"
  obtain s' q where s: "stream_of es_stream b p1 = (s', q)" by (cases "stream_of es_stream b p1")
  obtain r3 st where k: "copy_buffer ec s' (min n (bi_size (pr_impl q b)) * es) b ?t (pr_cuda q) = (r3, st)"
    by (cases "copy_buffer ec s' (min n (bi_size (pr_impl q b)) * es) b ?t (pr_cuda q)")
  have "has_content b p1" using has_content_cong [OF storage(2,3)] assms(5) by simp
  then have "(r2, p2) = (r3, q\<lparr>pr_cuda := st\<rparr>)" using storage(5) by (simp only: if_True s k prod.case Let_def)
  then have p2: "r3 = r2" "p2 = q\<lparr>pr_cuda := st\<rparr>" by simp_all
  have r2: "r2 = Inr ()" using storage(6) by (cases r2) simp_all
  have bt: "b \<noteq> ?t" using assms(2) by simp
  have ph: "write_phase (cb_handle_state (cs_buffer st ?t)) (cs_handle_state st) = Finalized"
    by (rule copy_buffer_buffers(2) [OF k bt, of "()"]) (rule p2(1) [unfolded r2])
  let ?sw = "upd_buffer ?t (\<lambda>_. cs_buffer st b) (upd_buffer b (\<lambda>_. cs_buffer st ?t) st)"
  have p': "pr_cuda p' = destroy_buffer ?t ?sw"
    unfolding storage(7) r2 p2(2) sum.case upd_impl_fields by simp
  have "cs_buffer (pr_cuda p') b = cs_buffer st ?t" "cs_handle_state (pr_cuda p') = cs_handle_state st"
    unfolding p' destroy_buffer_other(1) [OF bt] destroy_buffer_other(2) using bt by simp_all
  moreover obtain a where "cb_handle_state (cs_buffer st ?t) = Some a" "hs_state (cs_handle_state st a) = Finalized"
    using ph by (cases "cb_handle_state (cs_buffer st ?t)") simp_all
  ultimately show ?thesis by (intro get_write_handle_finalized [of _ _ a]) simp_all
qed simp

definition sized_process :: process where
  "sized_process = sample_process\<lparr>pr_cuda := (pr_cuda sample_process)
       \<lparr>cs_buffer := (\<lambda>_. empty_buffer)(0 := sample_cuda_buffer), cs_next := 0\<rparr>,
     pr_impl := (\<lambda>_. \<lparr>bi_size = 64, bi_stream = 2\<rparr>), pr_next := 1\<rparr>"

definition sample_copy_env :: "cudaError_t \<Rightarrow> copy_env" where
  "sample_copy_env r = \<lparr>cp_read = sample_env, cp_write = sample_env, cp_memcpy = r,
     cp_end_write = sample_env, cp_end_read = sample_env\<rparr>"

lemma sized_process_facts:
  "0 < pr_next sized_process" "bi_size (pr_impl sized_process 0) = 64" "has_content 0 sized_process"
  "fst (stream_of e 0 sized_process) = 2" "cs_buffer (pr_cuda sized_process) 0 = sample_cuda_buffer"
  "cb_recycler sample_cuda_buffer" "good_copy (sample_copy_env cudaSuccess)"
  "make_write_event sample_alloc_env = 8" "snd (ge_create (cp_end_read (sample_copy_env r))) = 9"
  by (simp_all add: sized_process_def has_content_def stream_of_def sample_copy_env_def good_copy_def
      make_write_event_def sample_alloc_env_def sample_fields) (simp_all add: sample_defs)

lemma sized_allocation:
  "\<exists>p1. allocate_buffer_internal sample_alloc_env 1 1 4000 (snd (fresh_impl 0 sized_process)) = (Inr (), p1)"
  by (simp add: allocate_buffer_internal_def get_or_create_global_pool_def fresh_impl_def upd_impl_def on_cuda_def
      sized_process_def sample_process_def sample_cuda_state_def sample_alloc_env_def idle_reuse Let_def)
     (simp add: idle_pool_eq sample_pool_def)

lemma copy_buffer_result:
  assumes "ge_wait (cp_read e) = cudaSuccess" and "src \<noteq> dst"
    and "cb_handle_state (cs_buffer st dst) = None" and "cb_read_events (cs_buffer st dst) = []"
  shows "fst (copy_buffer e s k src dst st) =
    (if cp_memcpy e = cudaSuccess then Inr () else Inl (CudaRuntimeError ''cudaMemcpyAsync'' (cp_memcpy e)))"
proof -
  obtain r1 st1 where g1: "get_read_handle (cp_read e) src s st = (r1, st1)"
    by (cases "get_read_handle (cp_read e) src s st")
  note f1 = get_read_handle_buffer [OF g1]
  obtain rh where r1: "r1 = Inr rh" using f1(5) assms(1) by blast
  have d1: "cs_buffer st1 dst = cs_buffer st dst" using f1(1) assms(2) by auto
  obtain wh st2 where g2: "get_write_handle (cp_write e) dst s st1 = (Inr wh, st2)"
    using get_write_handle_unused [of st1 dst "cp_write e" s] assms(3,4) d1 by auto
  show ?thesis using g1 r1 g2 by (simp add: copy_buffer_def memcpy_async_def)
qed

lemma sized_resize:
  "\<exists>p'. resize_impl sample_alloc_env (sample_copy_env r) (cudaSuccess, 3) 1 0 4000 sized_process =
     (if r = cudaSuccess then Inr () else Inl (CudaRuntimeError ''cudaMemcpyAsync'' r), p')"
proof -
  obtain res p' where w: "resize_impl sample_alloc_env (sample_copy_env r) (cudaSuccess, 3) 1 0 4000 sized_process = (res, p')"
    by (cases "resize_impl sample_alloc_env (sample_copy_env r) (cudaSuccess, 3) 1 0 4000 sized_process")
  obtain p1 where a: "allocate_buffer_internal sample_alloc_env 1 1 4000 (snd (fresh_impl 0 sized_process)) = (Inr (), p1)"
    using sized_allocation by blast
  have n: "4000 \<noteq> bi_size (pr_impl sized_process 0)" "(4000 :: u64) \<noteq> 0" "pr_next sized_process = 1"
    by (simp_all add: sized_process_def)
  have f: "fresh_impl 0 sized_process = (1, snd (fresh_impl 0 sized_process))"
    by (simp add: fresh_impl_def n(3))
  have t: "cb_handle_state (cs_buffer (pr_cuda p1) 1) = None" "cb_read_events (cs_buffer (pr_cuda p1) 1) = []"
    using a by (cases rule: allocate_buffer_internal_cases;
      simp add: Let_def assign_buffer_def make_buffer_def empty_buffer_def set_write_event_def)+
  have b: "cs_buffer (pr_cuda p1) 0 = cs_buffer (pr_cuda sized_process) 0" "pr_impl p1 0 = pr_impl sized_process 0"
    using allocate_internal_fields(2) [OF a] allocate_internal_fields(4) [OF a, of 0]
    by (simp_all add: fresh_impl_def upd_impl_def on_cuda_def n(3))
  have hc: "has_content 0 p1" using has_content_cong [OF b] sized_process_facts(3) by simp
  obtain s q where s: "stream_of (cudaSuccess, 3) 0 p1 = (s, q)" by (cases "stream_of (cudaSuccess, 3) 0 p1")
  have q: "pr_cuda q = pr_cuda p1" using stream_of_fields [OF s] by simp
  have res: "fst (copy_buffer (sample_copy_env r) s k 0 1 (pr_cuda p1)) =
      (if r = cudaSuccess then Inr () else Inl (CudaRuntimeError ''cudaMemcpyAsync'' r))" for k
    using copy_buffer_result [of "sample_copy_env r" 0 1 "pr_cuda p1" s k] t
    by (simp add: sample_copy_env_def sample_env_def)
  have "res = (if r = cudaSuccess then Inr () else Inl (CudaRuntimeError ''cudaMemcpyAsync'' r))"
    using w n f a hc s q res
    by (cases "r = cudaSuccess") (auto simp: resize_impl_def Let_def split_beta prod_eq_iff)
  then show ?thesis using w by blast
qed

theorem resize_failure_atomic_witness:
  "\<exists>p'. fst (resize_impl sample_alloc_env (sample_copy_env cudaErrorInvalidValue) (cudaSuccess, 3) 1 0 4000 sized_process) =
      Inl (CudaRuntimeError ''cudaMemcpyAsync'' cudaErrorInvalidValue) \<and>
    p' = snd (resize_impl sample_alloc_env (sample_copy_env cudaErrorInvalidValue) (cudaSuccess, 3) 1 0 4000 sized_process) \<and>
    cb_ptr (cs_buffer (pr_cuda p') 0) = 4096 \<and> bi_size (pr_impl p' 0) = 64"
proof -
  obtain p' where p': "resize_impl sample_alloc_env (sample_copy_env cudaErrorInvalidValue) (cudaSuccess, 3) 1 0 4000 sized_process =
      (Inl (CudaRuntimeError ''cudaMemcpyAsync'' cudaErrorInvalidValue), p')"
    using sized_resize [of cudaErrorInvalidValue] by auto
  from resize_failure_atomic [OF this sized_process_facts(1)] p' show ?thesis
    by (auto simp: sized_process_facts sample_fields)
qed

theorem resize_orders_copy_witness:
  "\<exists>p' k. fst (resize_impl sample_alloc_env (sample_copy_env cudaSuccess) (cudaSuccess, 3) 1 0 4000 sized_process) = Inr () \<and>
    p' = snd (resize_impl sample_alloc_env (sample_copy_env cudaSuccess) (cudaSuccess, 3) 1 0 4000 sized_process) \<and>
    cs_trace (pr_cuda p') ! k = StreamWork 2 (Copy (cb_ptr (cs_buffer (pr_cuda p') 0)) 4096 64 DeviceToDevice) \<and>
    k \<in> gv_event (gpu_run (cs_trace (pr_cuda p'))) (cb_write_event (cs_buffer (pr_cuda p') 0))"
proof -
  obtain p' where p': "resize_impl sample_alloc_env (sample_copy_env cudaSuccess) (cudaSuccess, 3) 1 0 4000 sized_process = (Inr (), p')"
    using sized_resize [of cudaSuccess] by auto
  have h: "(4000 :: u64) \<noteq> bi_size (pr_impl sized_process 0)" "(4000 :: u64) \<noteq> 0"
    "fst (stream_of (cudaSuccess, 3) 0 sized_process) = 2" "(2 :: nat) \<noteq> 0"
    "make_write_event sample_alloc_env \<noteq> 0"
    "snd (ge_create (cp_end_read (sample_copy_env cudaSuccess))) \<noteq> make_write_event sample_alloc_env"
    "cb_recycler (cs_buffer (pr_cuda sized_process) 0)"
    by (simp_all only: sized_process_facts) simp_all
  from resize_orders_copy [OF p' sized_process_facts(1) h(1,2) sized_process_facts(3,7) h(3-7)] p' show ?thesis
    by (auto simp: sized_process_facts sample_fields)
qed

theorem resize_forbids_write_witness:
  "\<exists>p'. resize_impl sample_alloc_env (sample_copy_env cudaSuccess) (cudaSuccess, 3) 1 0 4000 sized_process = (Inr (), p') \<and>
    fst (get_write_handle sample_env 0 1 (pr_cuda p')) =
      Inl (CudaError ''CudaBuffer: write already finalized; cannot acquire write handle'')"
proof -
  obtain p' where p': "resize_impl sample_alloc_env (sample_copy_env cudaSuccess) (cudaSuccess, 3) 1 0 4000 sized_process = (Inr (), p')"
    using sized_resize [of cudaSuccess] by auto
  have h: "(4000 :: u64) \<noteq> bi_size (pr_impl sized_process 0)" "(4000 :: u64) \<noteq> 0"
    by (simp_all only: sized_process_facts) simp_all
  from resize_forbids_write [OF p' sized_process_facts(1) h sized_process_facts(3)] p' show ?thesis by blast
qed

end
