(* ===== verification/Endpoint_Registry.thy ===== *)
theory Endpoint_Registry
  imports Externals
begin

text \<open>
  \<open>HostEndpointManager\<close> of \<open>host_endpoint_manager.hpp\<close> and \<open>host_endpoint_manager.cpp\<close>: the table of
  the CUDA-aware endpoints of one host and ROS domain, kept in a named shared memory
  segment under a named semaphore, and each process's cache of it. The segments and their
  names are the state \<open>shm_world\<close>; a manager holds the segment it has mapped. Since every access
  to the table is made between \<open>sem_timedwait\<close> and \<open>sem_post\<close>, an operation on the table is one
  step.
\<close>

unbundle bit_operations_syntax

section \<open>Data\<close>

datatype entity_type = PUBLISHER | SUBSCRIPTION | SERVICE_CLIENT | SERVICE_SERVER
datatype endpoint_locality = UNDEFINED | INTRA_PROCESS | INTER_PROCESS_SAME_HOST | INTER_HOST

type_synonym gid = "u8 list"

record locality_info =
  li_locality :: endpoint_locality
  li_entity_type :: entity_type
  li_remote_instance_id :: u64
  li_device_id :: int
  li_uid :: u32
  li_ipc_capable :: bool
  li_found :: bool

definition max_endpoints :: nat where "max_endpoints = 512"

record endpoint_entry =
  ee_instance_id :: u64
  ee_gid :: gid
  ee_entity_type :: entity_type
  ee_device_id :: int
  ee_uid :: u32
  ee_active :: bool
  ee_ipc_capable :: bool
  ee_name :: string

record endpoint_registry =
  er_version :: u32
  er_hostname :: string
  er_max_entries :: u32
  er_num_entries :: u32
  er_entries :: "endpoint_entry list"

text \<open>\<open>RMW_GID_STORAGE_SIZE\<close> of \<open>rmw/types.h\<close>.\<close>

definition gid_size :: nat where "gid_size = 16"

text \<open>A segment that was just created and grown is all zero bytes.\<close>

definition zero_entry :: endpoint_entry where
  "zero_entry = \<lparr>ee_instance_id = 0, ee_gid = replicate gid_size 0, ee_entity_type = PUBLISHER, ee_device_id = 0,
     ee_uid = 0, ee_active = False, ee_ipc_capable = False, ee_name = []\<rparr>"

definition zero_registry :: endpoint_registry where
  "zero_registry = \<lparr>er_version = 0, er_hostname = [], er_max_entries = 0, er_num_entries = 0,
     er_entries = replicate max_endpoints zero_entry\<rparr>"

record cached_endpoint =
  ce_locality :: endpoint_locality
  ce_instance_id :: u64
  ce_entity_type :: entity_type
  ce_device_id :: int
  ce_uid :: u32
  ce_ipc_capable :: bool

record endpoint_manager =
  em_domain :: u64
  em_instance_id :: u64
  em_hostname :: string
  em_shm_fd :: int
  em_shm :: nat
  em_shm_name :: string
  em_cache :: "gid \<Rightarrow> cached_endpoint option"
  em_device_id :: int
  em_uid :: u32
  em_ipc_capable :: bool

section \<open>Overrides from the environment\<close>

text \<open>
  \<open>strtoll(value, &end, 10)\<close> of the C library: leading white space, a sign, digits; the result
  is the value, what is left of the string, whether any digit was read and whether the value
  is out of range.
\<close>

definition is_space :: "char \<Rightarrow> bool" where
  "is_space c \<longleftrightarrow> c = CHR '' '' \<or> (9 \<le> (of_char c :: nat) \<and> (of_char c :: nat) \<le> 13)"

definition is_digit :: "char \<Rightarrow> bool" where
  "is_digit c \<longleftrightarrow> 48 \<le> (of_char c :: nat) \<and> (of_char c :: nat) \<le> 57"

definition strtoll :: "string \<Rightarrow> int \<times> string \<times> bool \<times> bool" where
  "strtoll value =
     (let s = dropWhile is_space value;
          negative = (s \<noteq> [] \<and> hd s = CHR ''-'');
          s1 = (if s \<noteq> [] \<and> (hd s = CHR ''-'' \<or> hd s = CHR ''+'') then tl s else s);
          ds = takeWhile is_digit s1;
          v = (if negative then - int (read_dec ds) else int (read_dec ds))
      in if ds = [] then (0, value, False, False)
         else (max (- (2 ^ 63)) (min (2 ^ 63 - 1) v), dropWhile is_digit s1, True,
               v < - (2 ^ 63) \<or> v > 2 ^ 63 - 1))"

definition parse_override_int_env :: "string option \<Rightarrow> int \<Rightarrow> int \<Rightarrow> int option" where
  "parse_override_int_env env lo hi =
     (case env of
        None \<Rightarrow> None
      | Some value \<Rightarrow>
          if value = [] then None
          else
            (let (parsed, rest, any, erange) = strtoll value
             in if erange \<or> \<not> any \<or> rest \<noteq> [] \<or> parsed < lo \<or> parsed > hi then None
                else Some parsed))"

text \<open>
  \<open>hash_string\<close>. Whether \<open>char\<close> is signed depends on the platform; all processes of one host
  agree on it.
\<close>

definition char_to_u32 :: "bool \<Rightarrow> char \<Rightarrow> u32" where
  "char_to_u32 sx c =
     (if sx then scast (of_nat (of_char c) :: u8) else ucast (of_nat (of_char c) :: u8))"

definition hash_string :: "bool \<Rightarrow> string \<Rightarrow> u32" where
  "hash_string sx str = foldl (\<lambda>h c. h * 31 + char_to_u32 sx c) 0 str"

section \<open>The table\<close>

definition entries :: "endpoint_registry \<Rightarrow> endpoint_entry list" where
  "entries reg = take (unat (er_num_entries reg)) (er_entries reg)"

text \<open>The pid in an instance id, and the test of \<open>kill(pid, 0)\<close> for a process that is gone.\<close>

definition instance_pid :: "u64 \<Rightarrow> int" where
  "instance_pid iid = sint (ucast (drop_bit 32 iid) :: 32 word)"

definition is_dead :: "(int \<Rightarrow> bool) \<Rightarrow> endpoint_entry \<Rightarrow> bool" where
  "is_dead gone e \<longleftrightarrow>
     ee_active e \<and> instance_pid (ee_instance_id e) > 0 \<and> gone (instance_pid (ee_instance_id e))"

text \<open>Loops over the first \<open>num_entries\<close> entries that clear the active flag of some.\<close>

definition deactivate :: "(endpoint_entry \<Rightarrow> bool) \<Rightarrow> endpoint_registry \<Rightarrow> endpoint_registry" where
  "deactivate P reg =
     reg\<lparr>er_entries := map (\<lambda>e. if P e then e\<lparr>ee_active := False\<rparr> else e) (entries reg)
            @ drop (unat (er_num_entries reg)) (er_entries reg)\<rparr>"

definition purge_dead_entries ::
  "(int \<Rightarrow> bool) \<Rightarrow> endpoint_registry \<Rightarrow> endpoint_registry \<times> nat" where
  "purge_dead_entries gone reg =
     (deactivate (is_dead gone) reg, length (filter (is_dead gone) (entries reg)))"

definition has_active_entries :: "endpoint_registry \<Rightarrow> bool" where
  "has_active_entries reg \<longleftrightarrow> (\<exists>e \<in> set (entries reg). ee_active e)"

fun find_slot :: "(endpoint_entry \<Rightarrow> bool) \<Rightarrow> nat \<Rightarrow> endpoint_entry list \<Rightarrow> nat option" where
  "find_slot P i [] = None"
| "find_slot P i (e # es) = (if P e then Some i else find_slot P (Suc i) es)"

text \<open>
  \<open>register_endpoint\<close>, with the outcome \<open>sem_ok\<close> of the timed wait. A topic name longer than
  255 bytes is cut.
\<close>

definition choose_slot :: "gid \<Rightarrow> endpoint_registry \<Rightarrow> (nat \<times> endpoint_registry) option" where
  "choose_slot g reg =
     (case find_slot (\<lambda>e. ee_gid e = g) 0 (entries reg) of
        Some i \<Rightarrow> Some (i, reg)
      | None \<Rightarrow>
          (case find_slot (\<lambda>e. \<not> ee_active e) 0 (entries reg) of
             Some i \<Rightarrow> Some (i, reg)
           | None \<Rightarrow>
               if er_num_entries reg \<ge> er_max_entries reg then None
               else Some (unat (er_num_entries reg),
                          reg\<lparr>er_num_entries := er_num_entries reg + 1\<rparr>)))"

definition register_endpoint ::
  "bool \<Rightarrow> gid \<Rightarrow> string option \<Rightarrow> entity_type \<Rightarrow> endpoint_manager \<times> endpoint_registry \<Rightarrow>
     bool \<times> endpoint_manager \<times> endpoint_registry" where
  "register_endpoint sem_ok g name type st =
     (let (m, reg) = st
      in if \<not> sem_ok then (False, st)
         else case choose_slot g reg of
             None \<Rightarrow> (False, st)
           | Some (i, reg1) \<Rightarrow>
               (let slot = \<lparr>ee_instance_id = em_instance_id m, ee_gid = g, ee_entity_type = type,
                      ee_device_id = em_device_id m, ee_uid = em_uid m, ee_active = True,
                      ee_ipc_capable = em_ipc_capable m,
                      ee_name = (case name of None \<Rightarrow> [] | Some n \<Rightarrow> take 255 n)\<rparr>;
                    cached = \<lparr>ce_locality = INTRA_PROCESS, ce_instance_id = em_instance_id m,
                      ce_entity_type = type, ce_device_id = em_device_id m, ce_uid = em_uid m,
                      ce_ipc_capable = em_ipc_capable m\<rparr>
                in (True, m\<lparr>em_cache := (em_cache m)(g \<mapsto> cached)\<rparr>,
                    reg1\<lparr>er_entries := (er_entries reg1)[i := slot]\<rparr>)))"

definition register_publisher ::
  "bool \<Rightarrow> gid \<Rightarrow> string option \<Rightarrow> endpoint_manager \<times> endpoint_registry \<Rightarrow>
     bool \<times> endpoint_manager \<times> endpoint_registry" where
  "register_publisher sem_ok g name st = register_endpoint sem_ok g name PUBLISHER st"

definition register_subscription ::
  "bool \<Rightarrow> gid \<Rightarrow> string option \<Rightarrow> endpoint_manager \<times> endpoint_registry \<Rightarrow>
     bool \<times> endpoint_manager \<times> endpoint_registry" where
  "register_subscription sem_ok g name st = register_endpoint sem_ok g name SUBSCRIPTION st"

definition query_endpoint_locality :: "endpoint_manager \<Rightarrow> gid \<Rightarrow> locality_info" where
  "query_endpoint_locality m g =
     (case em_cache m g of
        None \<Rightarrow> \<lparr>li_locality = UNDEFINED, li_entity_type = PUBLISHER, li_remote_instance_id = 0,
                 li_device_id = -1, li_uid = 0, li_ipc_capable = False, li_found = False\<rparr>
      | Some c \<Rightarrow> \<lparr>li_locality = ce_locality c, li_entity_type = ce_entity_type c,
                   li_remote_instance_id = ce_instance_id c, li_device_id = ce_device_id c,
                   li_uid = ce_uid c, li_ipc_capable = ce_ipc_capable c, li_found = True\<rparr>)"

definition cache_entry :: "u64 \<Rightarrow> endpoint_entry \<Rightarrow> cached_endpoint" where
  "cache_entry self e =
     \<lparr>ce_locality = (if ee_instance_id e = self then INTRA_PROCESS else INTER_PROCESS_SAME_HOST),
      ce_instance_id = ee_instance_id e, ce_entity_type = ee_entity_type e,
      ce_device_id = ee_device_id e, ce_uid = ee_uid e, ce_ipc_capable = ee_ipc_capable e\<rparr>"

text \<open>\<open>refresh_from_remote\<close>: the map \<open>updates\<close> is built first, and then laid over the cache.\<close>

definition remote_updates :: "u64 \<Rightarrow> endpoint_registry \<Rightarrow> gid \<Rightarrow> cached_endpoint option" where
  "remote_updates self reg =
     fold (\<lambda>e updates. if ee_active e then updates(ee_gid e \<mapsto> cache_entry self e) else updates)
       (entries reg) Map.empty"

definition refresh_from_remote ::
  "bool \<Rightarrow> endpoint_registry \<Rightarrow> endpoint_manager \<Rightarrow> endpoint_manager" where
  "refresh_from_remote sem_ok reg m =
     (if \<not> sem_ok then m
      else m\<lparr>em_cache := em_cache m ++ remote_updates (em_instance_id m) reg\<rparr>)"

section \<open>Construction and destruction\<close>

text \<open>Named segments: what \<open>shm_open\<close> finds by name, and what the segments hold.\<close>

record shm_world =
  sw_names :: "string \<Rightarrow> nat option"
  sw_segments :: "nat \<Rightarrow> endpoint_registry"

record manager_env =
  me_pid :: u32
  me_next_id :: u64
  me_device :: "cudaError_t \<times> int"
  me_device_override :: "string option"
  me_uid :: u32
  me_uid_override :: "string option"
  me_hostname :: "string option"
  me_char_signed :: bool
  me_shm_open :: int
  me_new_segment :: nat
  me_ftruncate :: int
  me_mmap :: bool
  me_sem_open :: bool
  me_sem_wait :: bool
  me_gone :: "int \<Rightarrow> bool"
  me_strerror :: string

definition instance_id :: "u32 \<Rightarrow> u64 \<Rightarrow> u64" where
  "instance_id pid n = (push_bit 32 (ucast pid)) OR n"

definition registry_name :: "bool \<Rightarrow> u64 \<Rightarrow> string \<Rightarrow> string" where
  "registry_name sx domain hostname =
     ''/ros2_hem_d'' @ to_string (uint domain) @ ''_h'' @ to_string (uint (hash_string sx hostname))"

definition attach_registry :: "(int \<Rightarrow> bool) \<Rightarrow> string \<Rightarrow> endpoint_registry \<Rightarrow> endpoint_registry" where
  "attach_registry gone hostname reg =
     (if er_version reg = 0 then
        reg\<lparr>er_version := 1, er_hostname := take 255 hostname, er_max_entries := of_nat max_endpoints,
            er_num_entries := 0,
            er_entries := map (\<lambda>e. e\<lparr>ee_active := False\<rparr>) (er_entries reg)\<rparr>
      else fst (purge_dead_entries gone reg))"

definition create_endpoint_manager ::
  "manager_env \<Rightarrow> u64 \<Rightarrow> shm_world \<Rightarrow> (exn + endpoint_manager) \<times> shm_world \<times> call list" where
  "create_endpoint_manager e domain w =
     (let device0 = (if fst (me_device e) = cudaSuccess then snd (me_device e) else -1);
          device = (case parse_override_int_env (me_device_override e) 0 (2 ^ 31 - 1) of
                      Some v \<Rightarrow> v | None \<Rightarrow> device0);
          user = (case parse_override_int_env (me_uid_override e) 0 (2 ^ 32 - 1) of
                    Some v \<Rightarrow> of_int v | None \<Rightarrow> me_uid e)
      in case me_hostname e of
           None \<Rightarrow> (Inl (RuntimeError ''Failed to get hostname''), w, [])
         | Some hostname \<Rightarrow>
      (let shm_name = registry_name (me_char_signed e) domain hostname; fd = me_shm_open e
       in if fd < 0 then (Inl (RuntimeError (''Failed to open shared memory: '' @ me_strerror e)), w, [])
          else
      (let (s, w1) = (case sw_names w shm_name of
              Some s \<Rightarrow> (s, w)
            | None \<Rightarrow> (me_new_segment e,
                 w\<lparr>sw_names := (sw_names w)(shm_name \<mapsto> me_new_segment e),
                   sw_segments := (sw_segments w)(me_new_segment e := zero_registry)\<rparr>))
       in if me_ftruncate e \<noteq> 0 then
            (Inl (RuntimeError (''Failed to resize shared memory: '' @ me_strerror e)), w1, [OpenFd fd, Close fd])
          else if \<not> me_mmap e then
            (Inl (RuntimeError (''Failed to map shared memory: '' @ me_strerror e)), w1, [OpenFd fd, Close fd])
          else if \<not> me_sem_open e then
            (Inl (RuntimeError (''Failed to open mutex: '' @ me_strerror e)), w1,
             [OpenFd fd, Mmap s, Munmap s, Close fd])
          else
      (let cs = [OpenFd fd, Mmap s, Acquire (Semaphore (shm_name @ ''_mtx''))]
       in if \<not> me_sem_wait e then
            (Inl (RuntimeError ''Failed to acquire shared memory mutex during initialization''), w1, cs)
          else
            (Inr \<lparr>em_domain = domain, em_instance_id = instance_id (me_pid e) (me_next_id e),
                  em_hostname = hostname, em_shm_fd = fd, em_shm = s, em_shm_name = shm_name,
                  em_cache = Map.empty, em_device_id = device, em_uid = user,
                  em_ipc_capable = False\<rparr>,
             w1\<lparr>sw_segments := (sw_segments w1)
               (s := attach_registry (me_gone e) hostname (sw_segments w1 s))\<rparr>, cs)))))"

text \<open>
  The destructor, on a manager that was built: \<open>sem_ok\<close> is the outcome of its timed wait.
\<close>

definition destroy_endpoint_manager ::
  "bool \<Rightarrow> (int \<Rightarrow> bool) \<Rightarrow> endpoint_manager \<Rightarrow> shm_world \<Rightarrow> shm_world \<times> call list" where
  "destroy_endpoint_manager sem_ok gone m w =
     (let s = em_shm m; sem = Semaphore (em_shm_name m @ ''_mtx'');
          close_fd = (if em_shm_fd m \<ge> 0 then [Close (em_shm_fd m)] else [])
      in if \<not> sem_ok then (w, [Release sem, Munmap s] @ close_fd)
         else
      (let reg = deactivate (\<lambda>e. ee_active e \<and> ee_instance_id e = em_instance_id m) (sw_segments w s);
           reg' = fst (purge_dead_entries gone reg);
           should_unlink = (\<not> has_active_entries reg');
           w1 = w\<lparr>sw_segments := (sw_segments w)(s := reg')\<rparr>
       in (if should_unlink then w1\<lparr>sw_names := (sw_names w1)(em_shm_name m := None)\<rparr> else w1,
           [Release sem, Munmap s] @ close_fd
             @ (if should_unlink then [ShmUnlink (em_shm_name m)] else []))))"

definition set_ipc_capable :: "bool \<Rightarrow> endpoint_manager \<Rightarrow> endpoint_manager" where
  "set_ipc_capable capable m = m\<lparr>em_ipc_capable := capable\<rparr>"

text \<open>\<open>get_instance\<close>: one manager for each domain of a process.\<close>

definition get_instance ::
  "manager_env \<Rightarrow> u64 \<Rightarrow> (u64 \<Rightarrow> endpoint_manager option) \<times> shm_world \<Rightarrow>
     (exn + endpoint_manager) \<times> ((u64 \<Rightarrow> endpoint_manager option) \<times> shm_world) \<times> call list" where
  "get_instance e domain st =
     (let (instances, w) = st
      in case instances domain of
           Some m \<Rightarrow> (Inr m, st, [])
         | None \<Rightarrow>
             (case create_endpoint_manager e domain w of
                (Inl x, w', cs) \<Rightarrow> (Inl x, (instances, w'), cs)
              | (Inr m, w', cs) \<Rightarrow> (Inr m, (instances(domain \<mapsto> m), w'), cs)))"

section \<open>Abstraction: the map of active endpoints\<close>

definition registry_ok :: "endpoint_registry \<Rightarrow> bool" where
  "registry_ok reg \<longleftrightarrow>
     er_version reg \<noteq> 0 \<and> length (er_entries reg) = max_endpoints \<and>
     unat (er_max_entries reg) = max_endpoints \<and> unat (er_num_entries reg) \<le> max_endpoints \<and>
     distinct (map ee_gid (entries reg))"

definition lookup :: "endpoint_registry \<Rightarrow> gid \<Rightarrow> endpoint_entry option" where
  "lookup reg = map_of (map (\<lambda>e. (ee_gid e, e)) (filter ee_active (entries reg)))"

lemma lookup_Some:
  assumes "distinct (map ee_gid (entries reg))"
  shows "lookup reg g = Some e \<longleftrightarrow> e \<in> set (entries reg) \<and> ee_active e \<and> ee_gid e = g"
proof -
  have "distinct (map fst (map (\<lambda>e. (ee_gid e, e)) (filter ee_active (entries reg))))"
    using assms by (simp add: comp_def distinct_map_filter)
  then show ?thesis unfolding lookup_def by (subst map_of_eq_Some_iff) auto
qed

lemma find_slot_Some:
  "find_slot P k xs = Some i \<Longrightarrow> \<exists>as x bs. xs = as @ x # bs \<and> i = k + length as \<and> P x"
proof (induction xs arbitrary: k)
  case Nil
  then show ?case by simp
next
  case (Cons y xs)
  show ?case
  proof (cases "P y")
    case True
    with Cons.prems show ?thesis by (intro exI [of _ "[]"]) auto
  next
    case False
    with Cons obtain as x bs where "xs = as @ x # bs" "i = Suc k + length as" "P x" by force
    then show ?thesis by (intro exI [of _ "y # as"]) auto
  qed
qed

lemma find_slot_None: "find_slot P k xs = None \<longleftrightarrow> (\<forall>x \<in> set xs. \<not> P x)"
  by (induction P k xs rule: find_slot.induct) auto

lemma entries_length: "registry_ok reg \<Longrightarrow> length (entries reg) = unat (er_num_entries reg)"
  by (simp add: registry_ok_def entries_def)

lemma entries_update:
  "i < unat (er_num_entries reg) \<Longrightarrow>
     entries (reg\<lparr>er_entries := (er_entries reg)[i := x]\<rparr>) = (entries reg)[i := x]"
  by (simp add: entries_def take_update_swap)

text \<open>
  The slot that an endpoint gets: its own old one, an inactive one, or a new one at the end. In
  each case the other active endpoints stay.
\<close>

lemma choose_slot_Some:
  assumes ok: "registry_ok reg" and c: "choose_slot g reg = Some (i, reg1)"
  obtains as x bs where "entries reg1 = as @ x # bs" "i = length as" "er_entries reg1 = er_entries reg"
    "unat (er_num_entries reg1) \<le> max_endpoints" "unat (er_num_entries reg1) = length (entries reg1)"
    "er_version reg1 = er_version reg" "er_max_entries reg1 = er_max_entries reg"
    "g \<notin> ee_gid ` set (as @ bs)" "distinct (map ee_gid (as @ bs))"
    "\<And>e. e \<in> set (as @ bs) \<and> ee_active e \<longleftrightarrow> e \<in> set (entries reg) \<and> ee_active e \<and> ee_gid e \<noteq> g"
proof (cases "find_slot (\<lambda>e. ee_gid e = g) 0 (entries reg)")
  case (Some j)
  from find_slot_Some [OF Some] obtain as x bs where
    e: "entries reg = as @ x # bs" "j = length as" "ee_gid x = g" by auto
  have d: "distinct (map ee_gid (entries reg))" using ok by (simp add: registry_ok_def)
  then have g: "g \<notin> ee_gid ` set (as @ bs)" using e by auto
  then have "ee_gid y \<noteq> g" if "y \<in> set (as @ bs)" for y using that by blast
  moreover have "i = j" "reg1 = reg" using c Some by (simp_all add: choose_slot_def)
  ultimately show ?thesis
    using e d ok g entries_length [OF ok] by (intro that [of as x bs]) (simp_all add: registry_ok_def, blast)
next
  case None
  then have g: "g \<notin> ee_gid ` set (entries reg)" by (auto simp: find_slot_None)
  show ?thesis
  proof (cases "find_slot (\<lambda>e. \<not> ee_active e) 0 (entries reg)")
    case (Some j)
    from find_slot_Some [OF Some] obtain as x bs where
      e: "entries reg = as @ x # bs" "j = length as" "\<not> ee_active x" by auto
    have d: "distinct (map ee_gid (entries reg))" using ok by (simp add: registry_ok_def)
    have "i = j" "reg1 = reg" using c None Some by (simp_all add: choose_slot_def)
    then show ?thesis
      using e d g ok entries_length [OF ok] by (intro that [of as x bs]) (auto simp: registry_ok_def)
  next
    case n: None
    have lt: "er_num_entries reg < er_max_entries reg" and i: "i = unat (er_num_entries reg)"
      and r: "reg1 = reg\<lparr>er_num_entries := er_num_entries reg + 1\<rparr>"
      using c None n by (auto simp: choose_slot_def not_le split: if_splits)
    have b: "unat (er_num_entries reg) < max_endpoints"
      using lt ok by (simp add: registry_ok_def word_less_nat_alt)
    then have u: "unat (er_num_entries reg + 1) = Suc (unat (er_num_entries reg))"
      by (simp add: max_endpoints_def unat_word_ariths)
    have e: "entries reg1 = entries reg @ [er_entries reg ! unat (er_num_entries reg)]"
      using b ok u by (simp add: entries_def r take_Suc_conv_app_nth registry_ok_def)
    show ?thesis
      using e i r u b g ok entries_length [OF ok]
      by (intro that [of "entries reg" _ "[]"]) (auto simp: registry_ok_def)
  qed
qed

text \<open>Registering an endpoint updates the map of active endpoints at its gid.\<close>

lemma register_endpoint_lookup:
  assumes ok: "registry_ok reg" and r: "register_endpoint True g name type (m, reg) = (True, m', reg')"
  shows "registry_ok reg'"
    and "\<exists>slot. lookup reg' = (lookup reg)(g \<mapsto> slot) \<and> ee_instance_id slot = em_instance_id m \<and>
      ee_gid slot = g \<and> ee_entity_type slot = type \<and> ee_device_id slot = em_device_id m \<and>
      ee_uid slot = em_uid m \<and> ee_ipc_capable slot = em_ipc_capable m"
proof -
  obtain i reg1 where c: "choose_slot g reg = Some (i, reg1)"
    using r by (auto simp: register_endpoint_def split: option.splits)
  define slot where "slot = \<lparr>ee_instance_id = em_instance_id m, ee_gid = g, ee_entity_type = type,
      ee_device_id = em_device_id m, ee_uid = em_uid m, ee_active = True, ee_ipc_capable = em_ipc_capable m,
      ee_name = (case name of None \<Rightarrow> [] | Some n \<Rightarrow> take 255 n)\<rparr>"
  have reg': "reg' = reg1\<lparr>er_entries := (er_entries reg1)[i := slot]\<rparr>"
    using r c by (simp add: register_endpoint_def slot_def Let_def)
  from choose_slot_Some [OF ok c] obtain as x bs where
    s: "entries reg1 = as @ x # bs" "i = length as" "er_entries reg1 = er_entries reg"
    "unat (er_num_entries reg1) \<le> max_endpoints" "unat (er_num_entries reg1) = length (entries reg1)"
    "er_version reg1 = er_version reg" "er_max_entries reg1 = er_max_entries reg"
    "g \<notin> ee_gid ` set (as @ bs)" "distinct (map ee_gid (as @ bs))"
    "\<And>e. e \<in> set (as @ bs) \<and> ee_active e \<longleftrightarrow> e \<in> set (entries reg) \<and> ee_active e \<and> ee_gid e \<noteq> g"
    by blast
  have "entries reg' = (entries reg1)[i := slot]"
    unfolding reg' by (rule entries_update) (simp add: s(1,2,5))
  then have e: "entries reg' = as @ slot # bs" by (simp add: s(1,2))
  have gs: "ee_gid slot = g" "ee_active slot" by (simp_all add: slot_def)
  have d': "distinct (map ee_gid (entries reg'))" using s(8,9) by (auto simp: e gs)
  show "registry_ok reg'"
    using ok s d' by (simp add: registry_ok_def reg')
  have d: "distinct (map ee_gid (entries reg))" using ok by (simp add: registry_ok_def)
  have "lookup reg' = (lookup reg)(g \<mapsto> slot)"
  proof
    fix h
    show "lookup reg' h = ((lookup reg)(g \<mapsto> slot)) h"
    proof (cases "h = g")
      case True
      have "lookup reg' g = Some slot" by (simp add: lookup_Some [OF d'] e gs)
      with True show ?thesis by simp
    next
      case False
      have "lookup reg' h = Some e \<longleftrightarrow> lookup reg h = Some e" for e
        using False s(10) [of e] by (auto simp: lookup_Some [OF d'] lookup_Some [OF d] e gs)
      with False show ?thesis by (metis fun_upd_other option.exhaust)
    qed
  qed
  then show "\<exists>slot. lookup reg' = (lookup reg)(g \<mapsto> slot) \<and> ee_instance_id slot = em_instance_id m \<and>
      ee_gid slot = g \<and> ee_entity_type slot = type \<and> ee_device_id slot = em_device_id m \<and>
      ee_uid slot = em_uid m \<and> ee_ipc_capable slot = em_ipc_capable m"
    by (intro exI [of _ slot]) (simp add: slot_def)
qed

lemma deactivate_entries: 
  assumes "registry_ok reg"
  shows "entries (deactivate P reg) = map (\<lambda>e. if P e then e\<lparr>ee_active := False\<rparr> else e) (entries reg)"
    and "registry_ok (deactivate P reg)"
proof -
  have len: "length (entries reg) = unat (er_num_entries reg)" using assms by (rule entries_length)
  then show e: "entries (deactivate P reg) = map (\<lambda>e. if P e then e\<lparr>ee_active := False\<rparr> else e) (entries reg)"
    by (simp add: deactivate_def entries_def)
  have "map ee_gid (entries (deactivate P reg)) = map ee_gid (entries reg)" by (simp add: e)
  moreover have "length (er_entries (deactivate P reg)) = max_endpoints"
    using assms len by (simp add: deactivate_def registry_ok_def)
  ultimately show "registry_ok (deactivate P reg)"
    using assms by (simp add: registry_ok_def) (simp add: deactivate_def)
qed

lemma option_filter:
  assumes "\<And>e. x = Some e \<longleftrightarrow> y = Some e \<and> \<not> P e"
  shows "x = (case y of None \<Rightarrow> None | Some e \<Rightarrow> if P e then None else Some e)"
proof (cases x)
  case (Some e)
  from iffD1 [OF assms Some] show ?thesis by (simp add: Some)
next
  case None
  show ?thesis
  proof (cases y)
    case (Some e)
    have "P e" using iffD2 [OF assms, of e] Some None by auto
    then show ?thesis by (simp add: Some None)
  qed (simp add: None)
qed

lemma deactivate_lookup:
  assumes "registry_ok reg"
  shows "lookup (deactivate P reg) g = (case lookup reg g of None \<Rightarrow> None | Some e \<Rightarrow> if P e then None else Some e)"
proof -
  have d: "distinct (map ee_gid (entries reg))" "distinct (map ee_gid (entries (deactivate P reg)))"
    using assms deactivate_entries(2) [OF assms, of P] by (simp_all add: registry_ok_def)
  have "lookup (deactivate P reg) g = Some e \<longleftrightarrow> lookup reg g = Some e \<and> \<not> P e" for e
    unfolding lookup_Some [OF d(1)] lookup_Some [OF d(2)] deactivate_entries(1) [OF assms] by auto
  then show ?thesis by (rule option_filter)
qed

text \<open>What a refresh takes from the table.\<close>

lemma remote_updates_lookup:
  assumes "registry_ok reg"
  shows "remote_updates self reg g = map_option (cache_entry self) (lookup reg g)"
proof -
  have fold: "distinct (map ee_gid es) \<Longrightarrow> fold (\<lambda>e u. if ee_active e then u(ee_gid e \<mapsto> cache_entry self e) else u) es m g =
      (case map_of (map (\<lambda>e. (ee_gid e, e)) (filter ee_active es)) g of
         None \<Rightarrow> m g | Some e \<Rightarrow> Some (cache_entry self e))" for es m
  proof (induction es arbitrary: m)
    case Nil
    then show ?case by simp
  next
    case (Cons e es)
    have "map_of (map (\<lambda>e. (ee_gid e, e)) (filter ee_active es)) (ee_gid e) = None"
      using Cons.prems by (auto simp: map_of_eq_None_iff image_image)
    with Cons show ?case by (auto split: option.split)
  qed
  have "distinct (map ee_gid (entries reg))" using assms by (simp add: registry_ok_def)
  from fold [OF this, of Map.empty] show ?thesis
    by (simp add: remote_updates_def lookup_def split: option.split)
qed

lemma refresh_query:
  assumes "registry_ok reg" and "lookup reg g = Some e"
  shows "query_endpoint_locality (refresh_from_remote True reg m) g =
    \<lparr>li_locality = (if ee_instance_id e = em_instance_id m then INTRA_PROCESS else INTER_PROCESS_SAME_HOST),
     li_entity_type = ee_entity_type e, li_remote_instance_id = ee_instance_id e,
     li_device_id = ee_device_id e, li_uid = ee_uid e, li_ipc_capable = ee_ipc_capable e, li_found = True\<rparr>"
  using assms remote_updates_lookup [OF assms(1), of "em_instance_id m" g]
  by (simp add: refresh_from_remote_def query_endpoint_locality_def cache_entry_def map_add_Some_iff
      map_add_find_right)

section \<open>Properties of the registry\<close>

text \<open>
  C23. Registration refines a map update: seen as the map from gid to active entry, a successful
  registration changes the shared table at the endpoint's gid only, never loses another active endpoint, and
  keeps the table well formed (gids distinct, at most 512 entries).
\<close>

theorem register_endpoint_refines:
  assumes "registry_ok reg" and "register_endpoint sem_ok g name type (m, reg) = (True, m', reg')"
  shows "registry_ok reg' \<and> (\<exists>slot. lookup reg' = (lookup reg)(g \<mapsto> slot) \<and>
    ee_instance_id slot = em_instance_id m \<and> ee_entity_type slot = type \<and>
    ee_device_id slot = em_device_id m \<and> ee_uid slot = em_uid m \<and> ee_ipc_capable slot = em_ipc_capable m)"
proof -
  have r: "register_endpoint True g name type (m, reg) = (True, m', reg')"
    using assms(2) by (cases sem_ok) (simp_all add: register_endpoint_def)
  from register_endpoint_lookup [OF assms(1) r] show ?thesis by blast
qed

definition sample_registry :: endpoint_registry where
  "sample_registry = attach_registry (\<lambda>_. False) ''host'' zero_registry"

definition sample_manager :: "u64 \<Rightarrow> endpoint_manager" where
  "sample_manager iid = \<lparr>em_domain = 0, em_instance_id = iid, em_hostname = ''host'', em_shm_fd = 3,
     em_shm = 0, em_shm_name = ''/ros2_hem_d0_h1'', em_cache = Map.empty, em_device_id = 2, em_uid = 1000,
     em_ipc_capable = True\<rparr>"

lemma sample_registry_ok: "registry_ok sample_registry"
  by (simp add: registry_ok_def sample_registry_def attach_registry_def zero_registry_def entries_def
      max_endpoints_def)

lemma sample_entries: "entries sample_registry = []"
  by (simp add: sample_registry_def attach_registry_def zero_registry_def entries_def)

lemma sample_register:
  "\<exists>m' reg'. register_endpoint True g (Some n) SUBSCRIPTION (sample_manager iid, sample_registry) = (True, m', reg')"
  by (simp add: register_endpoint_def choose_slot_def sample_entries Let_def)
     (simp add: sample_registry_def attach_registry_def zero_registry_def max_endpoints_def)

theorem register_endpoint_refines_witness:
  "\<exists>m' reg' slot. register_endpoint True [1, 2] (Some ''t'') SUBSCRIPTION (sample_manager 5, sample_registry) =
     (True, m', reg') \<and> lookup reg' [1, 2] = Some slot \<and> ee_device_id slot = 2 \<and> registry_ok reg'"
proof -
  obtain m' reg' where r: "register_endpoint True [1, 2] (Some ''t'') SUBSCRIPTION
      (sample_manager 5, sample_registry) = (True, m', reg')"
    using sample_register by blast
  from register_endpoint_refines [OF sample_registry_ok r] r show ?thesis
    by (auto simp: sample_manager_def)
qed

text \<open>A registration, as it is seen after a refresh.\<close>

lemma registered_query:
  assumes "registry_ok reg" and "register_endpoint sem_ok g name type (m, reg) = (True, m', reg')"
  shows "query_endpoint_locality (refresh_from_remote True reg' other) g =
    \<lparr>li_locality = (if em_instance_id m = em_instance_id other then INTRA_PROCESS else INTER_PROCESS_SAME_HOST),
     li_entity_type = type, li_remote_instance_id = em_instance_id m, li_device_id = em_device_id m,
     li_uid = em_uid m, li_ipc_capable = em_ipc_capable m, li_found = True\<rparr>"
proof -
  have r: "register_endpoint True g name type (m, reg) = (True, m', reg')"
    using assms(2) by (cases sem_ok) (simp_all add: register_endpoint_def)
  note l = register_endpoint_lookup [OF assms(1) r]
  then obtain slot where "lookup reg' g = Some slot" "ee_instance_id slot = em_instance_id m"
    "ee_entity_type slot = type" "ee_device_id slot = em_device_id m" "ee_uid slot = em_uid m"
    "ee_ipc_capable slot = em_ipc_capable m" by auto
  with refresh_query [OF l(1), of g slot other] show ?thesis by simp
qed

text \<open>
  What one process registers, another one learns: after a registration in any
  process and a refresh in any other that has the table mapped, a query there finds the endpoint
  with the registering process's instance, device, user and IPC capability, as local or as
  of the same host according to whose it is.
\<close>

theorem register_refresh_query:
  assumes "registry_ok reg" and "register_endpoint sem_ok g name type (m, reg) = (True, m', reg')"
  shows "query_endpoint_locality (refresh_from_remote True reg' other) g =
    \<lparr>li_locality = (if em_instance_id m = em_instance_id other then INTRA_PROCESS else INTER_PROCESS_SAME_HOST),
     li_entity_type = type, li_remote_instance_id = em_instance_id m, li_device_id = em_device_id m,
     li_uid = em_uid m, li_ipc_capable = em_ipc_capable m, li_found = True\<rparr>"
  using assms by (rule registered_query)

theorem register_refresh_query_witness:
  "\<exists>m' reg'. register_endpoint True [1, 2] (Some ''t'') SUBSCRIPTION (sample_manager 5, sample_registry) =
     (True, m', reg') \<and>
     li_locality (query_endpoint_locality (refresh_from_remote True reg' (sample_manager 6)) [1, 2]) =
       INTER_PROCESS_SAME_HOST"
proof -
  obtain m' reg' where r: "register_endpoint True [1, 2] (Some ''t'') SUBSCRIPTION
      (sample_manager 5, sample_registry) = (True, m', reg')"
    using sample_register by blast
  from register_refresh_query [OF sample_registry_ok r, of "sample_manager 6"] r show ?thesis
    by (simp add: sample_manager_def)
qed

text \<open>
  When a registration fails, and what it leaves: with the semaphore taken, it is refused
  exactly when the table has its 512 entries, all active, and none of them is of this gid; a refused
  registration, or one that did not get the semaphore, changes neither table nor cache.
\<close>

theorem register_endpoint_refused:
  assumes "registry_ok reg"
  shows "(fst (register_endpoint True g name type (m, reg)) = False \<longleftrightarrow>
      length (entries reg) = max_endpoints \<and> (\<forall>e \<in> set (entries reg). ee_active e \<and> ee_gid e \<noteq> g)) \<and>
    (\<forall>sem_ok st'. register_endpoint sem_ok g name type (m, reg) = (False, st') \<longrightarrow> st' = (m, reg))"
proof
  have len: "length (entries reg) = unat (er_num_entries reg)" using assms by (rule entries_length)
  have "fst (register_endpoint True g name type (m, reg)) = False \<longleftrightarrow> choose_slot g reg = None"
    by (auto simp: register_endpoint_def Let_def split: option.splits)
  also have "\<dots> \<longleftrightarrow> (\<forall>e \<in> set (entries reg). ee_active e \<and> ee_gid e \<noteq> g) \<and> er_num_entries reg \<ge> er_max_entries reg"
    by (auto simp: choose_slot_def find_slot_None split: option.splits dest!: find_slot_Some)
  also have "er_num_entries reg \<ge> er_max_entries reg \<longleftrightarrow> length (entries reg) = max_endpoints"
    using assms len by (auto simp: registry_ok_def word_le_nat_alt)
  finally show "fst (register_endpoint True g name type (m, reg)) = False \<longleftrightarrow>
      length (entries reg) = max_endpoints \<and> (\<forall>e \<in> set (entries reg). ee_active e \<and> ee_gid e \<noteq> g)"
    by blast
qed (auto simp: register_endpoint_def Let_def split: if_splits option.splits)

theorem register_endpoint_refused_witness:
  "fst (register_endpoint True [1, 2] None PUBLISHER (sample_manager 5, sample_registry)) = True"
  using register_endpoint_refused [OF sample_registry_ok, of "[1, 2]" None PUBLISHER "sample_manager 5"]
  by (simp add: sample_entries max_endpoints_def)

text \<open>
  Removing processes: purging takes exactly the endpoints of dead processes out of the map of
  active endpoints, the destructor of a manager exactly those and its own, and neither touches another
  endpoint.
\<close>

theorem purge_removes_dead:
  assumes "registry_ok reg"
  shows "registry_ok (fst (purge_dead_entries gone reg)) \<and>
    lookup (fst (purge_dead_entries gone reg)) g =
      (case lookup reg g of
         None \<Rightarrow> None
       | Some e \<Rightarrow> if 0 < instance_pid (ee_instance_id e) \<and> gone (instance_pid (ee_instance_id e))
                   then None else Some e)"
proof -
  have a: "ee_active e" if "lookup reg g = Some e" for e
    using that lookup_Some [of reg g e] assms by (simp add: registry_ok_def)
  show ?thesis
    using deactivate_entries(2) [OF assms] deactivate_lookup [OF assms, of "is_dead gone" g] a
    by (auto simp: purge_dead_entries_def is_dead_def split: option.splits)
qed

theorem purge_removes_dead_witness:
  "lookup (fst (purge_dead_entries (\<lambda>_. True) sample_registry)) [1] = None"
  using purge_removes_dead [OF sample_registry_ok, of "\<lambda>_. True" "[1]"]
  by (simp add: lookup_def sample_entries)

text \<open>
  A process never unlearns an endpoint: when an endpoint has been deactivated (its process
  died or its manager was destroyed), a refresh keeps what the cache knew of it, so that a
  query still reports it as found and usable.
\<close>

theorem refresh_keeps_dead_endpoints:
  assumes "registry_ok reg" and "lookup reg g = None" and "em_cache m g = Some c"
  shows "query_endpoint_locality (refresh_from_remote sem_ok reg m) g =
    \<lparr>li_locality = ce_locality c, li_entity_type = ce_entity_type c,
     li_remote_instance_id = ce_instance_id c, li_device_id = ce_device_id c, li_uid = ce_uid c,
     li_ipc_capable = ce_ipc_capable c, li_found = True\<rparr>"
  using assms remote_updates_lookup [OF assms(1), of "em_instance_id m" g]
  by (simp add: refresh_from_remote_def query_endpoint_locality_def map_add_def)

theorem refresh_keeps_dead_endpoints_witness:
  "\<exists>c. li_found (query_endpoint_locality (refresh_from_remote True sample_registry
     ((sample_manager 5)\<lparr>em_cache := [[1] \<mapsto> c]\<rparr>)) [1])"
proof -
  let ?c = "\<lparr>ce_locality = INTER_PROCESS_SAME_HOST, ce_instance_id = 9, ce_entity_type = SUBSCRIPTION,
      ce_device_id = 0, ce_uid = 0, ce_ipc_capable = True\<rparr>"
  let ?m = "(sample_manager 5)\<lparr>em_cache := [[1] \<mapsto> ?c]\<rparr>"
  have "lookup sample_registry [1] = None" "em_cache ?m [1] = Some ?c"
    by (simp_all add: lookup_def sample_entries)
  from refresh_keeps_dead_endpoints [OF sample_registry_ok this, of True] show ?thesis
    by (intro exI [of _ ?c]) simp
qed

section \<open>Life of a manager\<close>

text \<open>
  The pid can be read back from an instance id as long as fewer than \<open>2^32\<close> managers have
  been made in the process.
\<close>

lemma instance_pid_instance_id:
  assumes "unat n < 2 ^ 32"
  shows "instance_pid (instance_id pid n) = sint pid"
proof -
  have "n = take_bit 32 n"
    using assms by (simp add: word_unat_eq_iff unsigned_take_bit_eq take_bit_nat_eq_self)
  then have "drop_bit 32 n = 0" by (metis drop_bit_take_bit take_bit_0 diff_self_eq_0)
  moreover have "drop_bit 32 (push_bit 32 (ucast pid :: u64)) = ucast pid"
    by (rule bit_word_eqI) (auto simp: bit_simps dest: bit_imp_le_length)
  ultimately have "drop_bit 32 (instance_id pid n) = (ucast pid :: u64)"
    by (simp add: instance_id_def drop_bit_or)
  moreover have "(ucast (ucast pid :: u64) :: 32 word) = pid"
    by (rule bit_word_eqI) (simp add: bit_simps)
  ultimately have "(ucast (drop_bit 32 (instance_id pid n)) :: 32 word) = pid" by (simp only:)
  then show ?thesis by (simp add: instance_pid_def)
qed

definition endpoint_manager_res :: "endpoint_manager \<Rightarrow> resource multiset" where
  "endpoint_manager_res m =
     {#MetaMapping (em_shm m), Semaphore (em_shm_name m @ ''_mtx'')#} + fd_res (em_shm_fd m)"

lemma create_endpoint_manager_ledger:
  assumes "create_endpoint_manager e domain w = (Inr m, w', cs)"
  shows "ledger cs R = Some (endpoint_manager_res m + R)"
  using assms
  by (auto simp: create_endpoint_manager_def Let_def endpoint_manager_res_def add_mset_commute
      split: option.splits prod.splits if_splits)

lemma destroy_endpoint_manager_ledger:
  "ledger (snd (destroy_endpoint_manager sem_ok gone m w)) (endpoint_manager_res m + R) = Some R"
  by (cases "0 \<le> em_shm_fd m")
     (auto simp: destroy_endpoint_manager_def Let_def endpoint_manager_res_def)

lemma create_endpoint_manager_fails:
  assumes "create_endpoint_manager e domain w = (Inl x, w', cs)"
  shows "if x = RuntimeError ''Failed to acquire shared memory mutex during initialization''
    then \<exists>s n. ledger cs R = Some ({#Fd (me_shm_open e), MetaMapping s, Semaphore n#} + R)
    else ledger cs R = Some R"
proof (cases "me_hostname e")
  case None
  with assms show ?thesis by (auto simp: create_endpoint_manager_def)
next
  case (Some h)
  define n where "n = registry_name (me_char_signed e) domain h"
  define sw where "sw = (case sw_names w n of
              Some s \<Rightarrow> (s, w)
            | None \<Rightarrow> (me_new_segment e,
                 w\<lparr>sw_names := (sw_names w)(n \<mapsto> me_new_segment e),
                   sw_segments := (sw_segments w)(me_new_segment e := zero_registry)\<rparr>))"
  note c = assms [unfolded create_endpoint_manager_def Let_def Some option.case n_def [symmetric]
      sw_def [symmetric] split_beta]
  consider "me_shm_open e < 0" | "0 \<le> me_shm_open e" "me_ftruncate e \<noteq> 0 \<or> \<not> me_mmap e"
    | "0 \<le> me_shm_open e" "me_ftruncate e = 0" "me_mmap e" "\<not> me_sem_open e"
    | "0 \<le> me_shm_open e" "me_ftruncate e = 0" "me_mmap e" "me_sem_open e" "\<not> me_sem_wait e"
    | "0 \<le> me_shm_open e" "me_ftruncate e = 0" "me_mmap e" "me_sem_open e" "me_sem_wait e"
    by linarith
  then show ?thesis
  proof cases
    case 4
    with c have "x = RuntimeError ''Failed to acquire shared memory mutex during initialization''"
      "cs = [OpenFd (me_shm_open e), Mmap (fst sw), Acquire (Semaphore (n @ ''_mtx''))]" by simp_all
    then show ?thesis by (intro if_P [THEN iffD2]) (auto simp: add_mset_commute)
  qed (use c in \<open>auto split: if_splits\<close>)
qed

text \<open>
  Making a manager: if it fails, everything opened on the way is closed again, with one exception:
  when the semaphore cannot be taken in time, the descriptor, the mapping and the semaphore stay open, since
  the constructor throws without closing them and no destructor runs. A manager
  that was made gives everything back when it is destroyed.
\<close>

theorem endpoint_manager_resources:
  "case create_endpoint_manager e domain w of
     (Inr m, w', cs) \<Rightarrow>
       ledger (cs @ snd (destroy_endpoint_manager sem_ok gone m w'')) R = Some R
   | (Inl x, w', cs) \<Rightarrow>
       (if x = RuntimeError ''Failed to acquire shared memory mutex during initialization''
        then \<exists>s n. ledger cs R = Some ({#Fd (me_shm_open e), MetaMapping s, Semaphore n#} + R)
        else ledger cs R = Some R)"
proof (cases "create_endpoint_manager e domain w")
  case (fields r w' cs)
  show ?thesis
  proof (cases r)
    case (Inr m)
    with fields have "ledger cs R = Some (endpoint_manager_res m + R)"
      by (simp add: create_endpoint_manager_ledger)
    then show ?thesis using fields Inr destroy_endpoint_manager_ledger by (simp add: ledger_append_Some)
  next
    case (Inl x)
    with create_endpoint_manager_fails [of e domain w x w' cs R] fields show ?thesis by simp
  qed
qed

text \<open>
  The unlink race: destroying a manager when no endpoint is active removes the name of
  the table, also while another process has the table mapped and has not registered yet; a
  manager made after that gets a new table, so that the two processes never see each other's
  endpoints.
\<close>

theorem unlink_strands_attached_manager:
  assumes "em_shm a = em_shm b"
    and "destroy_endpoint_manager True gone a w = (w1, cs1)"
    and "\<not> has_active_entries (sw_segments w1 (em_shm a))"
    and "em_shm_name a = registry_name (me_char_signed e) domain host" and "me_hostname e = Some host"
    and "me_new_segment e \<noteq> em_shm b"
    and "create_endpoint_manager e domain w1 = (Inr c, w2, cs2)"
  shows "em_shm_name c = em_shm_name a \<and> em_shm c \<noteq> em_shm b"
proof -
  have "sw_names w1 (em_shm_name a) = None"
    using assms(2,3) by (auto simp: destroy_endpoint_manager_def Let_def split: if_splits)
  then show ?thesis
    using assms(4-7) by (auto simp: create_endpoint_manager_def Let_def split: if_splits)
qed

definition sample_manager_env :: manager_env where
  "sample_manager_env = \<lparr>me_pid = 77, me_next_id = 1, me_device = (cudaSuccess, 0),
     me_device_override = None, me_uid = 1000, me_uid_override = None, me_hostname = Some ''host'',
     me_char_signed = True, me_shm_open = 3, me_new_segment = 0, me_ftruncate = 0, me_mmap = True,
     me_sem_open = True, me_sem_wait = True, me_gone = (\<lambda>_. False), me_strerror = []\<rparr>"

theorem unlink_strands_attached_manager_witness:
  "\<exists>a b c w0 w1 w2 w3 w4 csa csb csd csc.
     create_endpoint_manager sample_manager_env 0 w0 = (Inr a, w1, csa) \<and>
     create_endpoint_manager sample_manager_env 0 w1 = (Inr b, w2, csb) \<and>
     destroy_endpoint_manager True (\<lambda>_. False) a w2 = (w3, csd) \<and>
     create_endpoint_manager (sample_manager_env\<lparr>me_new_segment := 1\<rparr>) 0 w3 = (Inr c, w4, csc) \<and>
     em_shm a = em_shm b \<and> em_shm_name c = em_shm_name b \<and> em_shm c \<noteq> em_shm b"
proof -
  let ?w0 = "\<lparr>sw_names = (\<lambda>_. None), sw_segments = (\<lambda>_. zero_registry)\<rparr>"
  let ?n = "registry_name True 0 ''host''"
  note ev = create_endpoint_manager_def sample_manager_env_def parse_override_int_env_def Let_def
  have e0: "entries (attach_registry g h zero_registry) = []" for g h
    by (simp add: entries_def attach_registry_def zero_registry_def)
  have e1: "entries (attach_registry g h (attach_registry g' h' zero_registry)) = []" for g h g' h'
    by (simp add: entries_def attach_registry_def [of g h] purge_dead_entries_def deactivate_def e0)
       (simp add: attach_registry_def zero_registry_def)
  obtain a w1 csa where a: "create_endpoint_manager sample_manager_env 0 ?w0 = (Inr a, w1, csa)"
    "em_shm a = 0" "em_shm_name a = ?n" "sw_names w1 ?n = Some 0"
    "sw_segments w1 0 = attach_registry (\<lambda>_. False) ''host'' zero_registry"
    by (simp add: ev)
  obtain b w2 csb where b: "create_endpoint_manager sample_manager_env 0 w1 = (Inr b, w2, csb)"
    "em_shm b = 0" "em_shm_name b = ?n"
    "sw_segments w2 0 = attach_registry (\<lambda>_. False) ''host'' (attach_registry (\<lambda>_. False) ''host'' zero_registry)"
    using a(4,5) by (simp add: ev)
  obtain w3 csd where d: "destroy_endpoint_manager True (\<lambda>_. False) a w2 = (w3, csd)"
    by (cases "destroy_endpoint_manager True (\<lambda>_. False) a w2")
  have none: "entries (deactivate P (deactivate Q reg)) = []" if "entries reg = []" for P Q reg
    using that by (auto simp: entries_def deactivate_def)
  have idle: "\<not> has_active_entries (sw_segments w3 (em_shm a))"
    using d none [OF e1]
    by (auto simp: destroy_endpoint_manager_def Let_def a(2) b(4) purge_dead_entries_def
        has_active_entries_def split: if_splits)
  let ?e = "sample_manager_env\<lparr>me_new_segment := 1\<rparr>"
  obtain c w4 csc where c: "create_endpoint_manager ?e 0 w3 = (Inr c, w4, csc)"
    by (cases "sw_names w3 ?n") (simp_all add: ev)
  have "em_shm a = em_shm b" "em_shm_name a = registry_name (me_char_signed ?e) 0 ''host''"
    "me_hostname ?e = Some ''host''" "me_new_segment ?e \<noteq> em_shm b"
    using a b by (simp_all add: sample_manager_env_def)
  from unlink_strands_attached_manager [OF this(1) d idle this(2-4) c] a b c d this(1)
  show ?thesis by metis
qed

end
