(* ===== verification/Cuda_Backend.thy ===== *)
theory Cuda_Backend
  imports Cuda_Buffer_Impl Endpoint_Registry
begin

text \<open>
  \<open>CudaBufferBackend\<close> of \<open>cuda_buffer_backend_plugin.cpp\<close>: the plugin that the ROS middleware
  asks whether a peer can receive CUDA buffers, and that turns a buffer into a descriptor message and back. It
  puts together the models of its parts: the buffers and the pool of the process, the table of
  endpoints of the host and the cache of imports. The middleware's calls have the implementation pointers
  and endpoint infos as arguments; the log messages are left out.
\<close>

section \<open>State\<close>

text \<open>
  \<open>nd_instances\<close> are the endpoint managers of the process, \<open>nd_manager\<close> says that
  \<open>endpoint_manager_\<close> is set, to the manager of domain 0.
\<close>

record node =
  nd_process :: process
  nd_instances :: "u64 \<Rightarrow> endpoint_manager option"
  nd_shm :: shm_world
  nd_manager :: bool
  nd_decisions :: "gid \<Rightarrow> bool option"
  nd_imports :: import_cache
  nd_calls :: "call list"

datatype endpoint_type = RMW_ENDPOINT_INVALID | RMW_ENDPOINT_PUBLISHER | RMW_ENDPOINT_SUBSCRIPTION

record endpoint_info =
  ei_topic_type :: string
  ei_type :: endpoint_type
  ei_gid :: gid

record descriptor =
  cd_size :: u64
  cd_element_type_name :: string
  cd_device_id :: int
  cd_use_ipc :: bool
  cd_vmm_pid :: int
  cd_vmm_block_id :: u32
  cd_vmm_block_size :: u64
  cd_vmm_socket_path :: string
  cd_ipc_uid :: u64
  cd_ipc_event_handle :: "u8 list"

definition create_empty_descriptor :: descriptor where
  "create_empty_descriptor = \<lparr>cd_size = 0, cd_element_type_name = [], cd_device_id = 0, cd_use_ipc = False,
     cd_vmm_pid = 0, cd_vmm_block_id = 0, cd_vmm_block_size = 0, cd_vmm_socket_path = [], cd_ipc_uid = 0,
     cd_ipc_event_handle = replicate 64 0\<rparr>"

text \<open>\<open>typeid(uint8_t).name()\<close>, as \<open>CudaBufferDescriptor.msg\<close> has it.\<close>

definition uint8_name :: string where "uint8_name = ''h''"

text \<open>The answers of the libraries during one call of the plugin.\<close>

record plugin_env =
  pe_pool :: create_env
  pe_manager :: manager_env
  pe_sem :: bool            \<comment> \<open>the timed wait of a registration or a refresh\<close>
  pe_register :: register_env
  pe_random :: u64
  pe_clock :: u64
  pe_gpu :: gpu_env
  pe_sync :: cudaError_t
  pe_event_handle :: "cudaError_t \<times> u8 list"
  pe_device :: "cudaError_t \<times> int"
  pe_import :: import_env
  pe_open_event :: "cudaError_t \<times> nat"

definition manager_of :: "node \<Rightarrow> endpoint_manager" where
  "manager_of nd = the (nd_instances nd 0)"

definition upd_manager :: "(endpoint_manager \<Rightarrow> endpoint_manager) \<Rightarrow> node \<Rightarrow> node" where
  "upd_manager f nd = nd\<lparr>nd_instances := (nd_instances nd)(0 \<mapsto> f (manager_of nd))\<rparr>"

definition table_of :: "node \<Rightarrow> endpoint_registry" where
  "table_of nd = sw_segments (nd_shm nd) (em_shm (manager_of nd))"

section \<open>Endpoints\<close>

definition get_endpoint_manager :: "plugin_env \<Rightarrow> node \<Rightarrow> (exn + unit) \<times> node" where
  "get_endpoint_manager e nd =
     (if nd_manager nd then (Inr (), nd)
      else
        (let (r, (inst, shm), cs) = get_instance (pe_manager e) 0 (nd_instances nd, nd_shm nd);
             nd1 = nd\<lparr>nd_instances := inst, nd_shm := shm, nd_calls := nd_calls nd @ cs\<rparr>
         in case r of
              Inl x \<Rightarrow> (Inl x, nd1)
            | Inr m \<Rightarrow>
                (let (capable, p) = is_pool_ipc_capable (pe_pool e) (nd_process nd1)
                 in (Inr (), upd_manager (set_ipc_capable capable)
                       (nd1\<lparr>nd_process := p, nd_manager := True\<rparr>)))))"

definition can_import_descriptor :: "locality_info \<Rightarrow> endpoint_manager \<Rightarrow> bool" where
  "can_import_descriptor peer manager =
     (if \<not> li_found peer \<or> \<not> li_ipc_capable peer then False
      else if li_locality peer = INTRA_PROCESS then True
      else if li_locality peer = INTER_PROCESS_SAME_HOST then
        li_device_id peer = em_device_id manager \<and> li_uid peer = em_uid manager
      else False)"

text \<open>The result of the registration is ignored.\<close>

definition on_creating_endpoint :: "plugin_env \<Rightarrow> endpoint_info \<Rightarrow> node \<Rightarrow> (exn + unit) \<times> node" where
  "on_creating_endpoint e info nd =
     (case get_endpoint_manager e nd of
        (Inl x, nd1) \<Rightarrow> (Inl x, nd1)
      | (Inr _, nd1) \<Rightarrow>
          (let st = (manager_of nd1, table_of nd1);
               (done, m, reg) =
                 (case ei_type info of
                    RMW_ENDPOINT_PUBLISHER \<Rightarrow>
                      register_publisher (pe_sem e) (ei_gid info) (Some (ei_topic_type info)) st
                  | RMW_ENDPOINT_SUBSCRIPTION \<Rightarrow>
                      register_subscription (pe_sem e) (ei_gid info) (Some (ei_topic_type info)) st
                  | RMW_ENDPOINT_INVALID \<Rightarrow> (False, st))
           in (Inr (), upd_manager (\<lambda>_. m)
                 (nd1\<lparr>nd_shm := (nd_shm nd1)\<lparr>sw_segments :=
                    (sw_segments (nd_shm nd1))(em_shm (manager_of nd1) := reg)\<rparr>\<rparr>))))"

text \<open>
  What \<open>on_discovering_endpoint\<close> and the first publication to an endpoint share: refresh the
  cache, look the peer up, decide, and remember the decision if the peer was found.
\<close>

definition classify_peer :: "plugin_env \<Rightarrow> gid \<Rightarrow> node \<Rightarrow> (exn + bool) \<times> node" where
  "classify_peer e g nd =
     (case get_endpoint_manager e nd of
        (Inl x, nd1) \<Rightarrow> (Inl x, nd1)
      | (Inr _, nd1) \<Rightarrow>
          (let nd2 = upd_manager (refresh_from_remote (pe_sem e) (table_of nd1)) nd1;
               locality = query_endpoint_locality (manager_of nd2) g;
               can_import = can_import_descriptor locality (manager_of nd2)
           in (Inr can_import,
               if li_found locality
               then nd2\<lparr>nd_decisions := (nd_decisions nd2)(g \<mapsto> can_import)\<rparr> else nd2)))"

definition on_discovering_endpoint ::
  "plugin_env \<Rightarrow> endpoint_info \<Rightarrow> (string \<Rightarrow> string option) \<Rightarrow> node \<Rightarrow>
     (exn + bool \<times> u32 set list) \<times> node" where
  "on_discovering_endpoint e info supported nd =
     (if supported ''cuda'' = None then (Inr (False, []), nd)
      else
        (let (capable, p) = is_pool_ipc_capable (pe_pool e) (nd_process nd);
             nd1 = nd\<lparr>nd_process := p\<rparr>
         in if \<not> capable then (Inr (False, []), nd1)
            else (case classify_peer e (ei_gid info) nd1 of
                    (Inl x, nd2) \<Rightarrow> (Inl x, nd2)
                  | (Inr b, nd2) \<Rightarrow> (Inr (b, []), nd2))))"

section \<open>From a buffer to a descriptor\<close>

fun cuda_impl_of :: "buffer_impl \<Rightarrow> nat option" where
  "cuda_impl_of (Cuda_Impl b) = Some b"
| "cuda_impl_of _ = None"

text \<open>
  The end of a publication: the write handle is finalized, a subscriber in this process has
  to wait on the host, and the write event becomes part of the descriptor.
\<close>

definition attach_event ::
  "plugin_env \<Rightarrow> gid \<Rightarrow> nat \<Rightarrow> descriptor \<Rightarrow> node \<Rightarrow> (exn + descriptor option) \<times> node" where
  "attach_event e g b d nd0 =
     (let nd = nd0\<lparr>nd_process := on_cuda (finalize_write_handle (pe_gpu e) b) (nd_process nd0)\<rparr>;
          write_event = cb_write_event (cs_buffer (pr_cuda (nd_process nd)) b)
      in case get_endpoint_manager e nd of
           (Inl x, nd1) \<Rightarrow> (Inl x, nd1)
         | (Inr _, nd1) \<Rightarrow>
             (let locality = query_endpoint_locality (manager_of nd1) g;
                  nd2 = (if li_found locality \<and> li_locality locality = INTRA_PROCESS \<and> write_event \<noteq> 0
                            \<and> pe_sync e = cudaSuccess
                         then nd1\<lparr>nd_process := on_cuda (gpu [EventSynchronize write_event]) (nd_process nd1)\<rparr>
                         else nd1)
              in if write_event \<noteq> 0 then
                   (if fst (pe_event_handle e) \<noteq> cudaSuccess
                    then (Inl (CudaRuntimeError ''cudaIpcGetEventHandle(&event_handle, write_event)''
                                 (fst (pe_event_handle e))), nd2)
                    else (Inr (Some (d\<lparr>cd_ipc_event_handle := snd (pe_event_handle e)\<rparr>)), nd2))
                 else (Inr (Some (d\<lparr>cd_ipc_event_handle := replicate 64 0\<rparr>)), nd2)))"

definition publish_block ::
  "plugin_env \<Rightarrow> gid \<Rightarrow> nat \<Rightarrow> nat \<Rightarrow> node \<Rightarrow> (exn + descriptor option) \<times> node" where
  "publish_block e g b i nd =
     (let p = nd_process nd; st = pr_cuda p;
          (r, (pool, disp), cs) =
            register_block_for_ipc (pe_register e) i
              (cs_pool st, case pr_dispatcher p of Some d \<Rightarrow> d | None \<Rightarrow> idle_dispatcher (-1) (-1));
          nd1 = nd\<lparr>nd_process := p\<lparr>pr_cuda := st\<lparr>cs_pool := pool\<rparr>,
            pr_dispatcher := (if pr_dispatcher p = None then None else Some disp), pr_calls := pr_calls p @ cs\<rparr>\<rparr>
      in case r of
           Inl x \<Rightarrow> (Inl x, nd1)
         | Inr socket_path \<Rightarrow>
             if socket_path = [] then (Inr None, nd1)
             else
               (let (uid, (meta, pool')) = assign_uid (pe_random e) (pe_clock e) i (cs_meta st, pool);
                    block = all_blocks pool' ! i;
                    d = create_empty_descriptor
                      \<lparr>cd_size := bi_size (pr_impl p b), cd_element_type_name := uint8_name,
                       cd_device_id := cb_device_id (cs_buffer st b), cd_use_ipc := True,
                       cd_vmm_pid := re_pid (pe_register e), cd_vmm_block_id := vb_block_id block,
                       cd_vmm_block_size := vb_size block, cd_vmm_socket_path := socket_path,
                       cd_ipc_uid := uid\<rparr>
                in attach_event e g b d
                     (nd1\<lparr>nd_process := on_cuda (\<lambda>s. s\<lparr>cs_meta := meta, cs_pool := pool'\<rparr>) (nd_process nd1)\<rparr>)))"

definition describe_buffer ::
  "plugin_env \<Rightarrow> gid \<Rightarrow> buffer_impl \<Rightarrow> node \<Rightarrow> (exn + descriptor option) \<times> node" where
  "describe_buffer e g impl nd =
     (case cuda_impl_of impl of
        None \<Rightarrow> (Inr None, nd)
      | Some b \<Rightarrow>
          (case get_or_create_global_pool (pe_pool e) (nd_process nd) of
             (Inl x, p) \<Rightarrow> (Inl x, nd\<lparr>nd_process := p\<rparr>)
           | (Inr _, p) \<Rightarrow>
               (let nd1 = nd\<lparr>nd_process := p\<rparr>; pool = cs_pool (pr_cuda p)
                in if \<not> ipc_capable pool then (Inr None, nd1)
                   else (case find_block_for_va (cb_ptr (cs_buffer (pr_cuda p) b)) pool of
                           None \<Rightarrow> (Inr None, nd1)
                         | Some i \<Rightarrow>
                             if vb_exported_fd (all_blocks pool ! i) < 0 then (Inr None, nd1)
                             else publish_block e g b i nd1))))"

definition create_descriptor_with_endpoint ::
  "plugin_env \<Rightarrow> buffer_impl \<Rightarrow> endpoint_info \<Rightarrow> node \<Rightarrow> (exn + descriptor option) \<times> node" where
  "create_descriptor_with_endpoint e impl info nd =
     (let g = ei_gid info
      in case nd_decisions nd g of
           Some True \<Rightarrow> describe_buffer e g impl nd
         | Some False \<Rightarrow> (Inr None, nd)
         | None \<Rightarrow>
             (case classify_peer e g nd of
                (Inl x, nd1) \<Rightarrow> (Inl x, nd1)
              | (Inr can_import, nd1) \<Rightarrow>
                  if can_import then describe_buffer e g impl nd1 else (Inr None, nd1)))"

section \<open>From a descriptor to a buffer\<close>

text \<open>
  The body of the \<open>try\<close>. An event that is opened by its handle is an event object of this process,
  like one that is created.
\<close>

definition import_descriptor :: "plugin_env \<Rightarrow> descriptor \<Rightarrow> node \<Rightarrow> (exn + nat) \<times> node" where
  "import_descriptor e d nd =
     (if cd_device_id d \<noteq> snd (pe_device e) then (Inl (CudaError ''Cross-device IPC not implemented''), nd)
      else
        (let p = nd_process nd; st = pr_cuda p;
             (r, (cache, meta), cs) =
               import_block (pe_import e) (cd_vmm_socket_path d) (cd_vmm_pid d) (cd_vmm_block_id d)
                 (cd_vmm_block_size d) (cd_ipc_uid d) (nd_imports nd, cs_meta st);
             p1 = p\<lparr>pr_cuda := st\<lparr>cs_meta := meta\<rparr>\<rparr>;
             nd1 = nd\<lparr>nd_process := p1, nd_imports := cache, nd_calls := nd_calls nd @ cs\<rparr>
         in case r of
              Inl x \<Rightarrow> (Inl x, nd1)
            | Inr res \<Rightarrow>
                (let imported = make_buffer (ir_va res) (cd_size d * 1) (cd_device_id d) (Drop_Import (ir_ipc_meta res));
                     has_event = (\<exists>x \<in> set (cd_ipc_event_handle d). x \<noteq> 0);
                     opened = (has_event \<and> fst (pe_open_event e) = cudaSuccess);
                     ev = snd (pe_open_event e);
                     p2 = (if opened then on_cuda (gpu [EventCreate ev]) p1 else p1);
                     (b, p3) = fresh_impl (cd_size d) p2
                 in (Inr b, nd1\<lparr>nd_process := on_cuda (upd_buffer b (\<lambda>_.
                       if opened then set_write_event ev True imported else imported)) p3\<rparr>))))"

text \<open>Whatever is thrown in it, the subscriber gets an empty buffer.\<close>

definition drop_descriptor :: "node \<Rightarrow> (exn + nat) \<times> node" where
  "drop_descriptor nd = (let (b, p) = fresh_impl 0 (nd_process nd) in (Inr b, nd\<lparr>nd_process := p\<rparr>))"

definition from_descriptor_with_endpoint :: "plugin_env \<Rightarrow> descriptor \<Rightarrow> node \<Rightarrow> (exn + nat) \<times> node" where
  "from_descriptor_with_endpoint e d nd =
     (if fst (pe_device e) \<noteq> cudaSuccess
      then (Inl (CudaRuntimeError ''cudaGetDevice(&local_device_id)'' (fst (pe_device e))), nd)
      else if cd_element_type_name d \<noteq> uint8_name then
        (Inl (CudaError (''CudaBufferDescriptor element type mismatch: expected '' @ uint8_name @ '', got ''
           @ cd_element_type_name d)), nd)
      else if cd_use_ipc d \<and> cd_vmm_socket_path d \<noteq> [] then
        (case import_descriptor e d nd of
           (Inl _, nd1) \<Rightarrow> drop_descriptor nd1
         | (Inr b, nd1) \<Rightarrow> (Inr b, nd1))
      else drop_descriptor nd)"

section \<open>Endpoints: who can import\<close>

lemma manager_of_simps [simp]:
  "manager_of (upd_manager f nd) = f (manager_of nd)"
  "manager_of (nd\<lparr>nd_process := p\<rparr>) = manager_of nd"
  "manager_of (nd\<lparr>nd_shm := w\<rparr>) = manager_of nd"
  "manager_of (nd\<lparr>nd_decisions := dec\<rparr>) = manager_of nd"
  "manager_of (nd\<lparr>nd_manager := b\<rparr>) = manager_of nd"
  by (simp_all add: manager_of_def upd_manager_def)

lemma upd_manager_fields [simp]:
  "nd_process (upd_manager f nd) = nd_process nd" "nd_shm (upd_manager f nd) = nd_shm nd"
  "nd_manager (upd_manager f nd) = nd_manager nd" "nd_decisions (upd_manager f nd) = nd_decisions nd"
  "nd_imports (upd_manager f nd) = nd_imports nd" "nd_calls (upd_manager f nd) = nd_calls nd"
  by (simp_all add: upd_manager_def)

lemma get_endpoint_manager_set [simp]: "nd_manager nd \<Longrightarrow> get_endpoint_manager e nd = (Inr (), nd)"
  by (simp add: get_endpoint_manager_def)

lemma refresh_identity [simp]:
  "em_device_id (refresh_from_remote ok reg m) = em_device_id m"
  "em_uid (refresh_from_remote ok reg m) = em_uid m"
  "em_instance_id (refresh_from_remote ok reg m) = em_instance_id m"
  "em_shm (refresh_from_remote ok reg m) = em_shm m"
  by (simp_all add: refresh_from_remote_def)

lemma register_full:
  "register_endpoint True g name type (m, reg) = (b, st) \<Longrightarrow> choose_slot g reg \<noteq> None \<Longrightarrow> b"
  by (auto simp: register_endpoint_def Let_def split: option.splits)

text \<open>What a subscriber of this process leaves in the table.\<close>

lemma on_creating_subscription:
  assumes "on_creating_endpoint e info nd = (Inr (), nd')" and "get_endpoint_manager e nd = (Inr (), nd1)"
    and "ei_type info = RMW_ENDPOINT_SUBSCRIPTION"
  shows "\<exists>b m. register_endpoint (pe_sem e) (ei_gid info) (Some (ei_topic_type info)) SUBSCRIPTION
      (manager_of nd1, table_of nd1) = (b, m, sw_segments (nd_shm nd') (em_shm (manager_of nd1)))"
  using assms
  by (auto simp: on_creating_endpoint_def register_subscription_def Let_def split_beta prod_eq_iff)

definition importable :: "endpoint_manager \<Rightarrow> endpoint_manager \<Rightarrow> bool" where
  "importable subscriber publisher \<longleftrightarrow> em_ipc_capable subscriber \<and>
     (em_instance_id subscriber = em_instance_id publisher \<or>
      em_device_id subscriber = em_device_id publisher \<and> em_uid subscriber = em_uid publisher)"

lemma classify_registered:
  assumes "nd_manager nd" and "pe_sem e" and "registry_ok reg"
    and "register_endpoint sem_ok g name type (m, reg) = (True, m', table_of nd)"
  shows "\<exists>nd'. classify_peer e g nd = (Inr (importable m (manager_of nd)), nd') \<and>
    nd_decisions nd' = (nd_decisions nd)(g \<mapsto> importable m (manager_of nd)) \<and> nd_process nd' = nd_process nd"
  using registered_query [OF assms(3,4), of "manager_of nd"] assms(1,2)
  by (auto simp: classify_peer_def can_import_descriptor_def importable_def Let_def)

text \<open>
  A peer that announces itself is judged rightly: after a process has created a subscription, with the table of
  the host not full and the semaphore free, discovery in any process that shares the table answers that CUDA
  buffers can be sent to it exactly when the peer can open them (its pool is IPC capable, and it is the same process,
  or has the same device and user), and remembers that answer.
\<close>

theorem discovery_accepts_importers:
  assumes sub: "on_creating_endpoint es info sub = (Inr (), sub')" "get_endpoint_manager es sub = (Inr (), sub1)"
    and "ei_type info = RMW_ENDPOINT_SUBSCRIPTION" and "pe_sem es"
    and "registry_ok (table_of sub1)" and "choose_slot (ei_gid info) (table_of sub1) \<noteq> None"
    and pub: "nd_manager pub" "nd_shm pub = nd_shm sub'" "em_shm (manager_of pub) = em_shm (manager_of sub1)"
    and "pe_sem ep" and "supported ''cuda'' \<noteq> None"
    and "is_pool_ipc_capable (pe_pool ep) (nd_process pub) = (True, p)"
  shows "\<exists>pub'. on_discovering_endpoint ep info supported pub =
      (Inr (importable (manager_of sub1) (manager_of pub), []), pub') \<and>
    nd_decisions pub' = (nd_decisions pub)(ei_gid info \<mapsto> importable (manager_of sub1) (manager_of pub)) \<and>
    nd_process pub' = p"
proof -
  obtain b m where "register_endpoint (pe_sem es) (ei_gid info) (Some (ei_topic_type info)) SUBSCRIPTION
      (manager_of sub1, table_of sub1) = (b, m, table_of pub)"
    using on_creating_subscription [OF sub assms(3)] pub by (auto simp: table_of_def)
  then have r: "register_endpoint True (ei_gid info) (Some (ei_topic_type info)) SUBSCRIPTION
      (manager_of sub1, table_of sub1) = (True, m, table_of (pub\<lparr>nd_process := p\<rparr>))"
    using register_full assms(4,6) by (simp add: table_of_def)
  have "nd_manager (pub\<lparr>nd_process := p\<rparr>)" using pub by simp
  from classify_registered [OF this assms(10,5) r] assms(11,12) show ?thesis
    by (auto simp: on_discovering_endpoint_def Let_def)
qed

section \<open>Publishing\<close>

text \<open>
  Two facts about a publisher: the socket names it has registered are valid ones, and the metadata of
  a block that has a uid carry it. Both hold of a new pool and are kept by its operations.
\<close>

definition valid_path :: "string \<Rightarrow> bool" where
  "valid_path path \<longleftrightarrow> path \<noteq> [] \<and> length path \<le> 107"

definition registrations_ok :: "cuda_pool \<Rightarrow> bool" where
  "registrations_ok p \<longleftrightarrow> (\<forall>mgr r. pool_ipc p = Some mgr \<and> r \<in> set mgr \<longrightarrow> valid_path (ri_socket_path (snd r)))"

definition uids_current :: "meta_store \<Rightarrow> cuda_pool \<Rightarrow> bool" where
  "uids_current m p \<longleftrightarrow> (\<forall>blk \<in> set (all_blocks p). \<forall>s.
     vb_ipc_meta blk = Some s \<and> vb_current_uid blk \<noteq> 0 \<longrightarrow> uid (m s) = vb_current_uid blk)"

lemma valid_path_addr: "valid_path path \<longleftrightarrow> (\<exists>a. make_abstract_unix_addr path = Inr a)"
  by (auto simp: valid_path_def make_abstract_unix_addr_def sun_path_size_def)

lemma register_block_path:
  assumes "register_block e blk (d, mgr) = (Inr path, (d', mgr'), cs)"
    and "\<And>r. r \<in> set mgr \<Longrightarrow> valid_path (ri_socket_path (snd r))"
  shows "valid_path path"
proof (cases "map_of mgr (vb_block_id blk)")
  case None
  let ?p = "block_socket_path (re_pid e) (vb_block_id blk)"
  obtain s cs' where "create_fd_server_socket (re_listen e) ?p = (Inr s, cs')" "\<not> s < 0" "path = ?p"
    using assms(1) None by (auto simp: register_block_def Let_def split: prod.splits sum.splits if_splits)
  then show ?thesis
    by (auto simp: create_fd_server_socket_def Let_def valid_path_addr split: if_splits sum.splits)
next
  case (Some info)
  then have "path = ri_socket_path info" "(vb_block_id blk, info) \<in> set mgr"
    using assms(1) by (auto simp: register_block_def dest: map_of_SomeD)
  then show ?thesis using assms(2) by force
qed

lemma register_block_for_ipc_fields:
  assumes "register_block_for_ipc e i (p, d) = (r, (p', d'), cs)"
  shows "all_blocks p' = all_blocks p" "free_blocks p' = free_blocks p" "device_id p' = device_id p"
    "initialized p' = initialized p" "ipc_capable p' = ipc_capable p"
  using assms by (auto simp: register_block_for_ipc_def Let_def split: prod.splits option.splits if_splits)

lemma register_block_for_ipc_path:
  assumes "register_block_for_ipc e i (p, d) = (Inr path, (p', d'), cs)" and "path \<noteq> []"
    and "registrations_ok p"
  shows "valid_path path"
  using assms register_block_path [of e "all_blocks p ! i" d]
  by (auto simp: register_block_for_ipc_def registrations_ok_def Let_def split: prod.splits option.splits if_splits)

lemma assign_uid_current:
  assumes "assign_uid rnd now i (m, p) = (u, (m', p'))" and "i < length (all_blocks p)"
    and "uids_current m p" and "vb_ipc_meta (all_blocks p ! i) = Some s"
  shows "uid (m' s) = u \<or> u = 0"
  using assms nth_mem [OF assms(2)]
  by (auto simp: assign_uid_def uids_current_def Let_def split: if_splits)

lemma assign_uid_block:
  assumes "assign_uid rnd now i (m, p) = (u, (m', p'))" and "i < length (all_blocks p)"
  shows "vb_size (all_blocks p' ! i) = vb_size (all_blocks p ! i)"
    "vb_block_id (all_blocks p' ! i) = vb_block_id (all_blocks p ! i)"
    "vb_current_uid (all_blocks p' ! i) = u" "initialized p' = initialized p"
  using assms by (auto simp: assign_uid_def Let_def split: if_splits)

lemma get_or_create_meta:
  "cs_meta (pr_cuda (snd (get_or_create_global_pool e p))) = cs_meta (pr_cuda p)"
  "cs_buffer (pr_cuda (snd (get_or_create_global_pool e p))) = cs_buffer (pr_cuda p)"
  "cs_handle_state (pr_cuda (snd (get_or_create_global_pool e p))) = cs_handle_state (pr_cuda p)"
  "pr_impl (snd (get_or_create_global_pool e p)) = pr_impl p"
proof -
  obtain r p' where k: "get_or_create_global_pool e p = (r, p')" by (cases "get_or_create_global_pool e p")
  from get_or_create_fields [OF k] obtain pool where "pr_cuda p' = (pr_cuda p)\<lparr>cs_pool := pool\<rparr>" by blast
  then show "cs_meta (pr_cuda (snd (get_or_create_global_pool e p))) = cs_meta (pr_cuda p)"
    "cs_buffer (pr_cuda (snd (get_or_create_global_pool e p))) = cs_buffer (pr_cuda p)"
    "cs_handle_state (pr_cuda (snd (get_or_create_global_pool e p))) = cs_handle_state (pr_cuda p)"
    "pr_impl (snd (get_or_create_global_pool e p)) = pr_impl p"
    using get_or_create_fields(2) [OF k] by (simp_all add: k)
qed

lemma is_pool_ipc_capable_process:
  "snd (is_pool_ipc_capable e p) = snd (get_or_create_global_pool e p)"
  by (auto simp: is_pool_ipc_capable_def split: prod.splits sum.splits)

lemma get_endpoint_manager_process:
  "cs_meta (pr_cuda (nd_process (snd (get_endpoint_manager e nd)))) = cs_meta (pr_cuda (nd_process nd))"
  "cs_buffer (pr_cuda (nd_process (snd (get_endpoint_manager e nd)))) = cs_buffer (pr_cuda (nd_process nd))"
  "cs_handle_state (pr_cuda (nd_process (snd (get_endpoint_manager e nd)))) = cs_handle_state (pr_cuda (nd_process nd))"
  by (auto simp: get_endpoint_manager_def Let_def split_beta is_pool_ipc_capable_process get_or_create_meta
      split: sum.splits)

lemma finalize_meta [simp]: "cs_meta (finalize_write_handle e b st) = cs_meta st"
  by (simp add: finalize_write_handle_def finalize_write_handle_locked_def Let_def split: option.splits)

text \<open>What a published buffer's state is after the last part of a publication.\<close>

lemma attach_event_fields:
  assumes "attach_event e g b d nd = (r, nd')"
  shows "\<And>d'. r = Inr (Some d') \<Longrightarrow> d' = d\<lparr>cd_ipc_event_handle :=
      if cb_write_event (cs_buffer (pr_cuda (nd_process nd)) b) \<noteq> 0 then snd (pe_event_handle e) else replicate 64 0\<rparr>"
    and "cs_meta (pr_cuda (nd_process nd')) = cs_meta (pr_cuda (nd_process nd))"
    and "cs_handle_state (pr_cuda (nd_process nd')) =
      cs_handle_state (finalize_write_handle (pe_gpu e) b (pr_cuda (nd_process nd)))"
    and "cs_buffer (pr_cuda (nd_process nd')) = cs_buffer (pr_cuda (nd_process nd))"
proof -
  let ?nd = "nd\<lparr>nd_process := on_cuda (finalize_write_handle (pe_gpu e) b) (nd_process nd)\<rparr>"
  obtain x nd1 where g: "get_endpoint_manager e ?nd = (x, nd1)" by (cases "get_endpoint_manager e ?nd")
  note p = get_endpoint_manager_process [of e ?nd, unfolded g]
  show "d' = d\<lparr>cd_ipc_event_handle :=
      if cb_write_event (cs_buffer (pr_cuda (nd_process nd)) b) \<noteq> 0 then snd (pe_event_handle e) else replicate 64 0\<rparr>"
    if "r = Inr (Some d')" for d'
    using assms g that p
    by (auto simp: attach_event_def Let_def on_cuda_def finalize_fields split: sum.splits if_splits)
  show "cs_meta (pr_cuda (nd_process nd')) = cs_meta (pr_cuda (nd_process nd))"
    "cs_handle_state (pr_cuda (nd_process nd')) =
      cs_handle_state (finalize_write_handle (pe_gpu e) b (pr_cuda (nd_process nd)))"
    "cs_buffer (pr_cuda (nd_process nd')) = cs_buffer (pr_cuda (nd_process nd))"
    using assms g p
    by (auto simp: attach_event_def Let_def on_cuda_def finalize_fields gpu_def split: sum.splits if_splits)
qed

lemma publish_block_facts:
  assumes "publish_block e g b i nd = (Inr (Some d), nd')"
    and "i < length (all_blocks (cs_pool (pr_cuda (nd_process nd))))"
    and "registrations_ok (cs_pool (pr_cuda (nd_process nd)))"
    and "uids_current (cs_meta (pr_cuda (nd_process nd))) (cs_pool (pr_cuda (nd_process nd)))"
  defines "blk \<equiv> all_blocks (cs_pool (pr_cuda (nd_process nd))) ! i"
  shows "cd_size d = bi_size (pr_impl (nd_process nd) b)" "cd_element_type_name d = uint8_name"
    "cd_device_id d = cb_device_id (cs_buffer (pr_cuda (nd_process nd)) b)" "cd_use_ipc d"
    "cd_vmm_pid d = re_pid (pe_register e)" "cd_vmm_block_id d = vb_block_id blk"
    "cd_vmm_block_size d = vb_size blk" "valid_path (cd_vmm_socket_path d)"
    "\<And>s. vb_ipc_meta blk = Some s \<Longrightarrow> uid (cs_meta (pr_cuda (nd_process nd')) s) = cd_ipc_uid d \<or> cd_ipc_uid d = 0"
    "cd_ipc_event_handle d = (if cb_write_event (cs_buffer (pr_cuda (nd_process nd)) b) \<noteq> 0
       then snd (pe_event_handle e) else replicate 64 0)"
    "cs_handle_state (pr_cuda (nd_process nd')) =
       cs_handle_state (finalize_write_handle (pe_gpu e) b (pr_cuda (nd_process nd)))"
    "cs_buffer (pr_cuda (nd_process nd')) = cs_buffer (pr_cuda (nd_process nd))"
proof -
  let ?p = "nd_process nd"
  let ?st = "pr_cuda ?p"
  obtain r pool disp cs where r: "register_block_for_ipc (pe_register e) i
      (cs_pool ?st, case pr_dispatcher ?p of Some d \<Rightarrow> d | None \<Rightarrow> idle_dispatcher (-1) (-1)) = (r, (pool, disp), cs)"
    by (cases "register_block_for_ipc (pe_register e) i
      (cs_pool ?st, case pr_dispatcher ?p of Some d \<Rightarrow> d | None \<Rightarrow> idle_dispatcher (-1) (-1))") auto
  note rf = register_block_for_ipc_fields [OF r]
  obtain path where path: "r = Inr path" "path \<noteq> []"
    using assms(1) r by (auto simp: publish_block_def Let_def split: sum.splits if_splits)
  obtain u m pool' where u: "assign_uid (pe_random e) (pe_clock e) i (cs_meta ?st, pool) = (u, (m, pool'))"
    by (cases "assign_uid (pe_random e) (pe_clock e) i (cs_meta ?st, pool)") auto
  have i: "i < length (all_blocks pool)" using assms(2) rf by simp
  have cur: "uids_current (cs_meta ?st) pool" using assms(4) rf by (simp add: uids_current_def)
  note ub = assign_uid_block [OF u i]
  let ?nd = "nd\<lparr>nd_process := on_cuda (\<lambda>s. s\<lparr>cs_meta := m, cs_pool := pool'\<rparr>)
      (?p\<lparr>pr_cuda := ?st\<lparr>cs_pool := pool\<rparr>, pr_dispatcher := (if pr_dispatcher ?p = None then None else Some disp),
          pr_calls := pr_calls ?p @ cs\<rparr>)\<rparr>"
  let ?d = "create_empty_descriptor
      \<lparr>cd_size := bi_size (pr_impl ?p b), cd_element_type_name := uint8_name,
       cd_device_id := cb_device_id (cs_buffer ?st b), cd_use_ipc := True,
       cd_vmm_pid := re_pid (pe_register e), cd_vmm_block_id := vb_block_id (all_blocks pool' ! i),
       cd_vmm_block_size := vb_size (all_blocks pool' ! i), cd_vmm_socket_path := path, cd_ipc_uid := u\<rparr>"
  have a: "attach_event e g b ?d ?nd = (Inr (Some d), nd')"
    using assms(1) r u path by (simp add: publish_block_def Let_def)
  note af = attach_event_fields [OF a]
  have nd: "cs_buffer (pr_cuda (nd_process ?nd)) = cs_buffer ?st" "cs_meta (pr_cuda (nd_process ?nd)) = m"
    by (simp_all add: on_cuda_def)
  have fin: "cs_handle_state (finalize_write_handle (pe_gpu e) b (pr_cuda (nd_process ?nd))) =
      cs_handle_state (finalize_write_handle (pe_gpu e) b ?st)"
    by (auto simp: on_cuda_def finalize_write_handle_def finalize_write_handle_locked_def Let_def
        upd_handle_state_def gpu_def split: option.splits)
  show "cd_size d = bi_size (pr_impl (nd_process nd) b)" "cd_element_type_name d = uint8_name"
    "cd_device_id d = cb_device_id (cs_buffer (pr_cuda (nd_process nd)) b)" "cd_use_ipc d"
    "cd_vmm_pid d = re_pid (pe_register e)" "cd_vmm_block_id d = vb_block_id blk"
    "cd_vmm_block_size d = vb_size blk" "valid_path (cd_vmm_socket_path d)"
    using af(1) ub rf register_block_for_ipc_path [OF r [unfolded path(1)] path(2) assms(3)]
    by (simp_all add: blk_def)
  show "uid (cs_meta (pr_cuda (nd_process nd')) s) = cd_ipc_uid d \<or> cd_ipc_uid d = 0"
    if "vb_ipc_meta blk = Some s" for s
    using assign_uid_current [OF u i cur, of s] that rf af(1,2) nd by (simp add: blk_def)
  show "cd_ipc_event_handle d = (if cb_write_event (cs_buffer (pr_cuda (nd_process nd)) b) \<noteq> 0
       then snd (pe_event_handle e) else replicate 64 0)" using af(1) nd by simp
  show "cs_handle_state (pr_cuda (nd_process nd')) =
       cs_handle_state (finalize_write_handle (pe_gpu e) b (pr_cuda (nd_process nd)))"
    "cs_buffer (pr_cuda (nd_process nd')) = cs_buffer (pr_cuda (nd_process nd))"
    using af(3,4) nd fin by simp_all
qed

text \<open>The buffer, the pool and the metadata are the same before and after the peer is classified.\<close>

definition same_storage_of :: "node \<Rightarrow> node \<Rightarrow> bool" where
  "same_storage_of nd nd' \<longleftrightarrow>
     cs_meta (pr_cuda (nd_process nd')) = cs_meta (pr_cuda (nd_process nd)) \<and>
     cs_buffer (pr_cuda (nd_process nd')) = cs_buffer (pr_cuda (nd_process nd)) \<and>
     cs_handle_state (pr_cuda (nd_process nd')) = cs_handle_state (pr_cuda (nd_process nd)) \<and>
     pr_impl (nd_process nd') = pr_impl (nd_process nd) \<and>
     (initialized (cs_pool (pr_cuda (nd_process nd))) \<longrightarrow> nd_process nd' = nd_process nd)"

lemma get_or_create_initialized:
  "initialized (cs_pool (pr_cuda p)) \<Longrightarrow> get_or_create_global_pool e p = (Inr (), p)"
  by (simp add: get_or_create_global_pool_def)

lemma get_endpoint_manager_same: "same_storage_of nd (snd (get_endpoint_manager e nd))"
  by (auto simp: same_storage_of_def get_endpoint_manager_def Let_def split_beta is_pool_ipc_capable_process
      get_or_create_meta get_or_create_initialized split: sum.splits)

lemma classify_peer_same: "classify_peer e g nd = (r, nd') \<Longrightarrow> same_storage_of nd nd'"
  using get_endpoint_manager_same [of nd e]
  by (auto simp: classify_peer_def Let_def same_storage_of_def split: prod.splits sum.splits if_splits)

text \<open>A publication that succeeds, of a buffer in a pool that is initialized.\<close>

lemma created_descriptor:
  assumes "create_descriptor_with_endpoint e (Cuda_Impl b) info nd = (Inr (Some d), nd')"
    and "initialized (cs_pool (pr_cuda (nd_process nd)))"
  obtains nd1 i where "publish_block e (ei_gid info) b i nd1 = (Inr (Some d), nd')"
    "nd_process nd1 = nd_process nd" "ipc_capable (cs_pool (pr_cuda (nd_process nd)))"
    "find_block_for_va (cb_ptr (cs_buffer (pr_cuda (nd_process nd)) b)) (cs_pool (pr_cuda (nd_process nd))) = Some i"
proof -
  let ?G = "\<lambda>n i. publish_block e (ei_gid info) b i n = (Inr (Some d), nd') \<and> nd_process n = nd_process nd \<and>
      ipc_capable (cs_pool (pr_cuda (nd_process nd))) \<and>
      find_block_for_va (cb_ptr (cs_buffer (pr_cuda (nd_process nd)) b)) (cs_pool (pr_cuda (nd_process nd))) = Some i"
  have d: "\<exists>n i. ?G n i" if "describe_buffer e (ei_gid info) (Cuda_Impl b) n = (Inr (Some d), nd')"
    "nd_process n = nd_process nd" for n
  proof -
    have "\<exists>i. ?G (n\<lparr>nd_process := nd_process n\<rparr>) i"
      using that assms(2)
      by (auto simp: describe_buffer_def get_or_create_initialized Let_def split: if_splits option.splits)
    then show ?thesis by blast
  qed
  have "\<exists>n i. ?G n i"
  proof (cases "nd_decisions nd (ei_gid info)")
    case None
    obtain x n where c: "classify_peer e (ei_gid info) nd = (x, n)" by (cases "classify_peer e (ei_gid info) nd")
    have "nd_process n = nd_process nd" using classify_peer_same [OF c] assms(2) by (simp add: same_storage_of_def)
    moreover have "describe_buffer e (ei_gid info) (Cuda_Impl b) n = (Inr (Some d), nd')"
      using assms(1) None c by (auto simp: create_descriptor_with_endpoint_def Let_def split: sum.splits if_splits)
    ultimately show ?thesis by (rule d [rotated])
  next
    case (Some v)
    then have "describe_buffer e (ei_gid info) (Cuda_Impl b) nd = (Inr (Some d), nd')"
      using assms(1) by (cases v) (simp_all add: create_descriptor_with_endpoint_def Let_def)
    then show ?thesis by (rule d) (rule refl)
  qed
  then show ?thesis using that by blast
qed

section \<open>Importing\<close>

text \<open>All the calls of an import succeed, and the segment \<open>s\<close> is attached.\<close>

definition import_answers :: "import_env \<Rightarrow> segment \<Rightarrow> bool" where
  "import_answers e s \<longleftrightarrow>
     0 \<le> im_shm_open e \<and> im_mmap e = Some s \<and> 0 \<le> rv_socket (im_recv e) \<and> 0 \<le> rv_connect (im_recv e) \<and>
     0 < rv_recvmsg (im_recv e) \<and> (\<exists>fd. rv_cmsg (im_recv e) = Some fd \<and> 0 \<le> fd) \<and>
     fst (im_import e) = CUDA_SUCCESS \<and> fst (im_reserve e) = CUDA_SUCCESS \<and> snd (im_reserve e) \<noteq> 0 \<and>
     im_map e = CUDA_SUCCESS \<and> fst (im_device e) = cudaSuccess \<and> im_access e = CUDA_SUCCESS"

lemma import_block_works:
  assumes "import_answers e s" and "valid_path path" and "uid (m s) = u \<or> u = 0"
    and "\<And>c. cache (pid, bid) = Some c \<Longrightarrow> ci_ipc_meta c = Some s \<and> ci_va c \<noteq> 0"
  shows "\<exists>res cache' cs. import_block e path pid bid sz u (cache, m) = (Inr res, (cache', add_ref 1 (Some s) m), cs) \<and>
    ir_ipc_meta res = Some s \<and> ir_va res \<noteq> 0"
proof (cases "cache (pid, bid)")
  case None
  obtain a where "make_abstract_unix_addr path = Inr a" using assms(2) by (auto simp: valid_path_addr)
  then show ?thesis
    using assms(1,3) None
    by (auto simp: import_answers_def import_block_def open_metadata_def receive_fd_from_socket_def map_imported_def
        Let_def split_beta check_uid_staleness_def)
next
  case (Some c)
  then show ?thesis
    using assms(3) assms(4) [OF Some] by (auto simp: import_block_def Let_def check_uid_staleness_def)
qed

lemma no_write_event: "set_write_event 0 False (make_buffer va sz dev del) = make_buffer va sz dev del"
  by (simp add: make_buffer_def empty_buffer_def set_write_event_def)

text \<open>The import of a descriptor whose block can be imported.\<close>

lemma import_descriptor_works:
  assumes "cd_device_id d = snd (pe_device e)" and "import_answers (pe_import e) s" and "valid_path (cd_vmm_socket_path d)"
    and "uid (cs_meta (pr_cuda (nd_process nd)) s) = cd_ipc_uid d \<or> cd_ipc_uid d = 0"
    and "\<And>c. nd_imports nd (cd_vmm_pid d, cd_vmm_block_id d) = Some c \<Longrightarrow> ci_ipc_meta c = Some s \<and> ci_va c \<noteq> 0"
  defines "opened \<equiv> (\<exists>x \<in> set (cd_ipc_event_handle d). x \<noteq> 0) \<and> fst (pe_open_event e) = cudaSuccess"
  shows "\<exists>va nd'. import_descriptor e d nd = (Inr (pr_next (nd_process nd)), nd') \<and> va \<noteq> 0 \<and>
    cs_meta (pr_cuda (nd_process nd')) = add_ref 1 (Some s) (cs_meta (pr_cuda (nd_process nd))) \<and>
    bi_size (pr_impl (nd_process nd') (pr_next (nd_process nd))) = cd_size d \<and>
    cs_buffer (pr_cuda (nd_process nd')) (pr_next (nd_process nd)) =
      set_write_event (if opened then snd (pe_open_event e) else 0) opened
        (make_buffer va (cd_size d) (cd_device_id d) (Drop_Import (Some s)))"
proof -
  let ?m = "cs_meta (pr_cuda (nd_process nd))"
  obtain res cache' cs where "import_block (pe_import e) (cd_vmm_socket_path d) (cd_vmm_pid d) (cd_vmm_block_id d)
      (cd_vmm_block_size d) (cd_ipc_uid d) (nd_imports nd, ?m) = (Inr res, (cache', add_ref 1 (Some s) ?m), cs)"
    "ir_ipc_meta res = Some s" "ir_va res \<noteq> 0"
    using import_block_works [where cache = "nd_imports nd" and m = "cs_meta (pr_cuda (nd_process nd))" and pid = "cd_vmm_pid d" and bid = "cd_vmm_block_id d",
        OF assms(2,3,4,5)] by blast
  then show ?thesis
    using assms(1)
    by (intro exI [of _ "ir_va res"])
      (simp add: import_descriptor_def fresh_impl_def opened_def on_cuda_def upd_impl_def no_write_event Let_def)
qed


text \<open>
  What is published stays: after a publication no write handle can be had on a buffer that had given
  one out, even if the writer still holds it. A buffer that was never written is not protected: it can still be
  opened for writing after its publication.
\<close>

theorem published_data_final:
  fixes nd nd' :: node and b :: nat
  defines "st \<equiv> pr_cuda (nd_process nd)" and "st' \<equiv> pr_cuda (nd_process nd')"
  assumes "create_descriptor_with_endpoint e (Cuda_Impl b) info nd = (Inr (Some d), nd')"
    and "initialized (cs_pool st)" and "registrations_ok (cs_pool st)" and "uids_current (cs_meta st) (cs_pool st)"
  shows "(write_phase (cb_handle_state (cs_buffer st b)) (cs_handle_state st) \<noteq> Unset \<longrightarrow>
      fst (get_write_handle e' b s st') = Inl (CudaError ''CudaBuffer: write already finalized; cannot acquire write handle'')) \<and>
    (cb_handle_state (cs_buffer st b) = None \<and> cb_read_events (cs_buffer st b) = [] \<longrightarrow>
      (\<exists>wh. fst (get_write_handle e' b s st') = Inr wh))"
proof -
  obtain nd1 i where p: "publish_block e (ei_gid info) b i nd1 = (Inr (Some d), nd')" "nd_process nd1 = nd_process nd"
    "find_block_for_va (cb_ptr (cs_buffer st b)) (cs_pool st) = Some i"
    using created_descriptor [OF assms(3) assms(4) [unfolded st_def]] unfolding st_def by metis
  have i: "i < length (all_blocks (cs_pool st))" using p(3) by (simp add: find_block_for_va_def find_from_Some)
  note f = publish_block_facts(11,12) [OF p(1), unfolded p(2), folded st_def st'_def, OF i assms(5,6)]
  have "fst (get_write_handle e' b s st') = Inl (CudaError ''CudaBuffer: write already finalized; cannot acquire write handle'')"
    if h: "write_phase (cb_handle_state (cs_buffer st b)) (cs_handle_state st) \<noteq> Unset"
  proof -
    obtain a where a: "cb_handle_state (cs_buffer st b) = Some a" "hs_state (cs_handle_state st a) \<noteq> Unset"
      using h by (cases "cb_handle_state (cs_buffer st b)") simp_all
    have "hs_state (cs_handle_state st' a) = Finalized"
      using a by (cases "hs_state (cs_handle_state st a)")
        (simp_all add: f(1) finalize_write_handle_def finalize_write_handle_locked_def Let_def upd_handle_state_def)
    then show ?thesis using a(1) f(2) by (intro get_write_handle_finalized [of _ _ a]) simp_all
  qed
  moreover have "\<exists>wh. fst (get_write_handle e' b s st') = Inr wh"
    if "cb_handle_state (cs_buffer st b) = None" "cb_read_events (cs_buffer st b) = []"
    using get_write_handle_unused [of st' b e' s] that f(2) by auto
  ultimately show ?thesis by blast
qed

lemma import_descriptor_failed:
  assumes "import_descriptor e d nd = (Inl x, nd')" and "valid_path (cd_vmm_socket_path d)"
  shows "nd_process nd' = nd_process nd \<and> nd_imports nd' = nd_imports nd"
proof (cases "cd_device_id d = snd (pe_device e)")
  case True
  obtain r cache m cs where i: "import_block (pe_import e) (cd_vmm_socket_path d) (cd_vmm_pid d) (cd_vmm_block_id d)
      (cd_vmm_block_size d) (cd_ipc_uid d) (nd_imports nd, cs_meta (pr_cuda (nd_process nd))) = (r, (cache, m), cs)"
    by (cases "import_block (pe_import e) (cd_vmm_socket_path d) (cd_vmm_pid d) (cd_vmm_block_id d)
      (cd_vmm_block_size d) (cd_ipc_uid d) (nd_imports nd, cs_meta (pr_cuda (nd_process nd)))") auto
  obtain y where r: "r = Inl y" using assms(1) i True
    by (cases r) (auto simp: import_descriptor_def Let_def split: prod.splits)
  obtain a where "make_abstract_unix_addr (cd_vmm_socket_path d) = Inr a" using assms(2) by (auto simp: valid_path_addr)
  from import_block_outcome [OF this i [unfolded r]] show ?thesis
    using assms(1) i r True by (auto simp: import_descriptor_def Let_def)
qed (use assms(1) in \<open>simp add: import_descriptor_def\<close>)

text \<open>
  A descriptor that cannot be imported (another device, a stale uid, no answer from the publisher, a CUDA call
  that fails) or that has no IPC data is not an error for the subscriber: it gets an empty CUDA buffer of size 0, and
  nothing else of the process changes.
\<close>

theorem failed_import_gives_empty_buffer:
  assumes "fst (pe_device e) = cudaSuccess" and "cd_element_type_name d = uint8_name"
    and "cd_use_ipc d \<Longrightarrow> length (cd_vmm_socket_path d) \<le> 107"
    and "cd_use_ipc d \<Longrightarrow> cd_vmm_socket_path d \<noteq> [] \<Longrightarrow> \<exists>x nd1. import_descriptor e d nd = (Inl x, nd1)"
  shows "\<exists>nd'. from_descriptor_with_endpoint e d nd = (Inr (pr_next (nd_process nd)), nd') \<and>
    nd_process nd' = snd (fresh_impl 0 (nd_process nd)) \<and> nd_imports nd' = nd_imports nd \<and>
    bi_size (pr_impl (nd_process nd') (pr_next (nd_process nd))) = 0 \<and>
    cs_buffer (pr_cuda (nd_process nd')) (pr_next (nd_process nd)) = empty_buffer"
proof -
  have d: "\<exists>nd'. drop_descriptor n = (Inr (pr_next (nd_process nd)), nd') \<and>
    nd_process nd' = snd (fresh_impl 0 (nd_process nd)) \<and> nd_imports nd' = nd_imports nd \<and>
    bi_size (pr_impl (nd_process nd') (pr_next (nd_process nd))) = 0 \<and>
    cs_buffer (pr_cuda (nd_process nd')) (pr_next (nd_process nd)) = empty_buffer"
    if "nd_process n = nd_process nd \<and> nd_imports n = nd_imports nd" for n
    using that by (simp add: drop_descriptor_def fresh_impl_def on_cuda_def upd_impl_def Let_def)
  show ?thesis
  proof (cases "cd_use_ipc d \<and> cd_vmm_socket_path d \<noteq> []")
    case True
    then obtain x nd1 where i: "import_descriptor e d nd = (Inl x, nd1)" using assms(4) by blast
    have "from_descriptor_with_endpoint e d nd = drop_descriptor nd1"
      using True i assms(1,2) by (simp add: from_descriptor_with_endpoint_def)
    then show ?thesis
      using d import_descriptor_failed [OF i] True assms(3) by (simp add: valid_path_def)
  next
    case False
    then show ?thesis using d [of nd] assms(1,2) by (auto simp: from_descriptor_with_endpoint_def)
  qed
qed

text \<open>
  A buffer whose event could only be made as a local one cannot be published: the failing
  \<open>cudaIpcGetEventHandle\<close> throws out of the publication, after the block got its uid and the write was finalized.
\<close>

theorem publish_local_event_throws:
  fixes nd :: node and b i :: nat
  defines "st \<equiv> pr_cuda (nd_process nd)"
  assumes "nd_manager nd" and "nd_decisions nd (ei_gid info) = Some True"
    and "initialized (cs_pool st)" and "ipc_capable (cs_pool st)"
    and "find_block_for_va (cb_ptr (cs_buffer st b)) (cs_pool st) = Some i"
    and "0 \<le> vb_exported_fd (all_blocks (cs_pool st) ! i)" and "vb_current_uid (all_blocks (cs_pool st) ! i) = 0"
    and "pr_dispatcher (nd_process nd) = Some disp0"
    and "register_block_for_ipc (pe_register e) i (cs_pool st, disp0) = (Inr path, (pool, disp), cs)" and "path \<noteq> []"
    and "cb_write_event (cs_buffer st b) \<noteq> 0" and "fst (pe_event_handle e) \<noteq> cudaSuccess"
  shows "\<exists>nd'. create_descriptor_with_endpoint e (Cuda_Impl b) info nd =
      (Inl (CudaRuntimeError ''cudaIpcGetEventHandle(&event_handle, write_event)'' (fst (pe_event_handle e))), nd') \<and>
    vb_current_uid (all_blocks (cs_pool (pr_cuda (nd_process nd'))) ! i) = pe_random e \<and>
    (write_phase (cb_handle_state (cs_buffer st b)) (cs_handle_state st) \<noteq> Unset \<longrightarrow>
      write_phase (cb_handle_state (cs_buffer st b)) (cs_handle_state (pr_cuda (nd_process nd'))) = Finalized)"
proof -
  have i: "i < length (all_blocks (cs_pool st))" using assms(6) by (simp add: find_block_for_va_def find_from_Some)
  have b: "all_blocks pool = all_blocks (cs_pool st)" using register_block_for_ipc_fields(1) assms(10) by blast
  have fin: "cs_pool (finalize_write_handle ge c x) = cs_pool x" for ge c x
    by (simp add: finalize_write_handle_def finalize_write_handle_locked_def Let_def upd_handle_state_def gpu_def
        split: option.splits)
  have ph: "write_phase (cb_handle_state (cs_buffer st b)) (cs_handle_state (finalize_write_handle ge b x)) = Finalized"
    if h: "write_phase (cb_handle_state (cs_buffer st b)) (cs_handle_state st) \<noteq> Unset"
      "cs_buffer x = cs_buffer st" "cs_handle_state x = cs_handle_state st" for ge x
  proof -
    obtain a where a: "cb_handle_state (cs_buffer st b) = Some a" "hs_state (cs_handle_state st a) \<noteq> Unset"
      using h(1) by (cases "cb_handle_state (cs_buffer st b)") simp_all
    then show ?thesis using h(2,3)
      by (cases "hs_state (cs_handle_state st a)")
        (simp_all add: finalize_write_handle_def finalize_write_handle_locked_def Let_def upd_handle_state_def)
  qed
  show ?thesis
    using assms(2-13) i b ph
    by (simp add: st_def create_descriptor_with_endpoint_def describe_buffer_def get_or_create_initialized Let_def
        publish_block_def assign_uid_def attach_event_def on_cuda_def finalize_fields fin)
qed

lemma miss_query:
  assumes "nd_manager nd" and "em_cache (refresh_from_remote (pe_sem e) (table_of nd) (manager_of nd)) g = None"
  shows "\<exists>nd'. classify_peer e g nd = (Inr False, nd') \<and> nd_process nd' = nd_process nd \<and>
    nd_decisions nd' = nd_decisions nd \<and> nd_manager nd' \<and> nd_shm nd' = nd_shm nd \<and>
    manager_of nd' = refresh_from_remote (pe_sem e) (table_of nd) (manager_of nd)"
  using assms by (simp add: classify_peer_def query_endpoint_locality_def can_import_descriptor_def Let_def)

text \<open>
  C34. A subscriber that is not in the table yet is not shut out: the first publication to it takes the host path,
  publishes nothing and remembers nothing; once it has registered, whatever else happened to the table, the next
  publication sends it what the buffer's description gives, and remembers that it can import.
\<close>

theorem late_subscriber_is_served:
  fixes pub :: node and info :: endpoint_info
  defines "g \<equiv> ei_gid info"
  assumes "nd_manager pub" and "nd_decisions pub g = None"
    and "em_cache (refresh_from_remote (pe_sem ep) (table_of pub) (manager_of pub)) g = None"
  shows "\<exists>pub1. create_descriptor_with_endpoint ep impl info pub = (Inr None, pub1) \<and>
    nd_process pub1 = nd_process pub \<and>
    (\<forall>w reg m m' name type ep'.
       registry_ok reg \<and> register_endpoint True g name type (m, reg) = (True, m', sw_segments w (em_shm (manager_of pub))) \<and>
       importable m (manager_of pub) \<and> pe_sem ep' \<longrightarrow>
       (\<exists>pub2. create_descriptor_with_endpoint ep' impl info (pub1\<lparr>nd_shm := w\<rparr>) = describe_buffer ep' g impl pub2 \<and>
          nd_process pub2 = nd_process pub \<and> nd_decisions pub2 g = Some True))"
proof -
  obtain pub1 where c: "classify_peer ep g pub = (Inr False, pub1)" "nd_process pub1 = nd_process pub"
    "nd_decisions pub1 = nd_decisions pub" "nd_manager pub1"
    "manager_of pub1 = refresh_from_remote (pe_sem ep) (table_of pub) (manager_of pub)"
    using miss_query [OF assms(2,4)] by blast
  have "create_descriptor_with_endpoint ep impl info pub = (Inr None, pub1)"
    using c(1) assms(3) by (simp add: create_descriptor_with_endpoint_def g_def Let_def)
  moreover have "\<exists>pub2. create_descriptor_with_endpoint ep' impl info (pub1\<lparr>nd_shm := w\<rparr>) = describe_buffer ep' g impl pub2 \<and>
      nd_process pub2 = nd_process pub \<and> nd_decisions pub2 g = Some True"
    if r: "registry_ok reg" "register_endpoint True g name type (m, reg) = (True, m', sw_segments w (em_shm (manager_of pub)))"
      "importable m (manager_of pub)" "pe_sem ep'" for w reg m m' name type ep'
  proof -
    let ?p = "pub1\<lparr>nd_shm := w\<rparr>"
    have t: "table_of ?p = sw_segments w (em_shm (manager_of pub))" by (simp add: table_of_def c(5))
    have i: "importable m (manager_of ?p)" using r(3) by (simp add: c(5) importable_def)
    obtain pub2 where "classify_peer ep' g ?p = (Inr True, pub2)"
      "nd_decisions pub2 = (nd_decisions ?p)(g \<mapsto> True)" "nd_process pub2 = nd_process ?p"
      using classify_registered [of ?p ep', OF _ r(4,1) r(2) [folded t]] c(4) i by auto
    then show ?thesis using c(2,3) assms(3)
      by (intro exI [of _ pub2]) (simp add: create_descriptor_with_endpoint_def g_def Let_def)
  qed
  ultimately show ?thesis using c(2) by blast
qed

section \<open>A sample run\<close>

definition sample_plugin_env :: "cudaError_t \<Rightarrow> plugin_env" where
  "sample_plugin_env r =
     \<lparr>pe_pool = sample_create_env, pe_manager = sample_manager_env, pe_sem = True,
      pe_register = \<lparr>re_pid = 7, re_listen = \<lparr>le_socket = 15, le_bind = 0, le_listen = 0\<rparr>, re_dup = 16, re_epoll_ctl = 0\<rparr>,
      pe_random = 99, pe_clock = 1000, pe_gpu = sample_env, pe_sync = cudaSuccess,
      pe_event_handle = (r, 1 # replicate 63 0), pe_device = (cudaSuccess, 0),
      pe_import = sample_import_env CUDA_SUCCESS, pe_open_event = (cudaSuccess, 12)\<rparr>"

definition sample_info :: endpoint_info where
  "sample_info = \<lparr>ei_topic_type = ''t'', ei_type = RMW_ENDPOINT_SUBSCRIPTION, ei_gid = [1, 2]\<rparr>"

definition sample_block :: vmm_block where
  "sample_block = (new_block 4096 0)\<lparr>vb_handle := 9, vb_va := 524288, vb_exported_fd := 5, vb_ipc_meta := Some 9\<rparr>"

definition export_pool :: cuda_pool where
  "export_pool = empty_pool\<lparr>granularity := 4096, ipc_capable := True, initialized := True, next_block_id := 1,
     all_blocks := [sample_block], pool_ipc := Some []\<rparr>"

definition sample_published :: cuda_buffer where
  "sample_published = (set_write_event 7 True (make_buffer 524288 100 0 (Pool_Free 0)))\<lparr>cb_handle_state := Some 0\<rparr>"

definition sample_node :: "(gid \<Rightarrow> bool option) \<Rightarrow> node" where
  "sample_node dec =
     \<lparr>nd_process = \<lparr>pr_cuda = \<lparr>cs_buffer = (\<lambda>_. empty_buffer)(0 := sample_published),
          cs_handle_state = (\<lambda>_. \<lparr>hs_state = InUse, hs_write_stream = 1\<rparr>), cs_next = 1, cs_queue = [],
          cs_meta = (\<lambda>_. init_metadata), cs_pool = export_pool, cs_trace = []\<rparr>,
        pr_impl = (\<lambda>_. \<lparr>bi_size = 100, bi_stream = 1\<rparr>), pr_next = 1,
        pr_dispatcher = Some (idle_dispatcher 3 4), pr_internal = None, pr_calls = []\<rparr>,
      nd_instances = (\<lambda>_. Some (sample_manager 5)),
      nd_shm = \<lparr>sw_names = (\<lambda>_. Some 0), sw_segments = (\<lambda>_. sample_registry)\<rparr>, nd_manager = True,
      nd_decisions = dec, nd_imports = Map.empty, nd_calls = []\<rparr>"

lemma sample_node_fields [simp]:
  "nd_manager (sample_node dec)" "nd_decisions (sample_node dec) = dec" "nd_imports (sample_node dec) = Map.empty"
  "manager_of (sample_node dec) = sample_manager 5" "table_of (sample_node dec) = sample_registry"
  "cs_pool (pr_cuda (nd_process (sample_node dec))) = export_pool"
  "cs_meta (pr_cuda (nd_process (sample_node dec))) = (\<lambda>_. init_metadata)"
  "cs_buffer (pr_cuda (nd_process (sample_node dec))) 0 = sample_published"
  "pr_dispatcher (nd_process (sample_node dec)) = Some (idle_dispatcher 3 4)"
  "cs_handle_state (pr_cuda (nd_process (sample_node dec))) 0 = \<lparr>hs_state = InUse, hs_write_stream = 1\<rparr>"
  by (simp_all add: sample_node_def manager_of_def table_of_def)

lemma export_pool_facts:
  "initialized export_pool" "ipc_capable export_pool" "all_blocks export_pool = [sample_block]"
  "registrations_ok export_pool" "uids_current m export_pool" "find_block_for_va 524288 export_pool = Some 0"
  "cb_ptr sample_published = 524288" "cb_write_event sample_published = 7" "cb_handle_state sample_published = Some 0"
  "cb_device_id sample_published = 0" "vb_exported_fd sample_block = 5" "vb_current_uid sample_block = 0"
  "vb_ipc_meta sample_block = Some 9"
  by (simp_all add: export_pool_def sample_block_def sample_published_def registrations_ok_def uids_current_def
      find_block_for_va_def va_in_block_def new_block_def make_buffer_def empty_buffer_def set_write_event_def)

lemma sample_registration:
  "\<exists>pool disp cs. register_block_for_ipc (pe_register (sample_plugin_env r)) 0 (export_pool, idle_dispatcher 3 4) =
     (Inr (block_socket_path 7 0), (pool, disp), cs)"
proof -
  obtain a where "make_abstract_unix_addr (block_socket_path 7 0) = Inr a" using make_addr_block_path [of 7 0] by auto
  then show ?thesis
    by (simp add: register_block_for_ipc_def export_pool_def sample_block_def new_block_def register_block_def
        sample_plugin_env_def create_fd_server_socket_def Let_def split_beta)
qed

lemma block_path_nonempty: "block_socket_path p i \<noteq> []"
  by (simp add: block_socket_path_def)

lemma sample_publish:
  "\<exists>d nd'. create_descriptor_with_endpoint (sample_plugin_env r) (Cuda_Impl 0) sample_info (sample_node [[1, 2] \<mapsto> True]) =
     (if r = cudaSuccess then Inr (Some d)
      else Inl (CudaRuntimeError ''cudaIpcGetEventHandle(&event_handle, write_event)'' r), nd')"
proof -
  obtain pool disp cs where "register_block_for_ipc (pe_register (sample_plugin_env r)) 0 (export_pool, idle_dispatcher 3 4) =
     (Inr (block_socket_path 7 0), (pool, disp), cs)"
    using sample_registration by blast
  moreover obtain u m pool' where "assign_uid (pe_random (sample_plugin_env r)) (pe_clock (sample_plugin_env r)) 0
      (\<lambda>_. init_metadata, pool) = (u, (m, pool'))"
    by (cases "assign_uid (pe_random (sample_plugin_env r)) (pe_clock (sample_plugin_env r)) 0 (\<lambda>_. init_metadata, pool)") auto
  moreover have "fst (pe_event_handle (sample_plugin_env r)) = r" "ei_gid sample_info = [1, 2]"
    by (simp_all add: sample_plugin_env_def sample_info_def)
  ultimately show ?thesis
    by (simp add: create_descriptor_with_endpoint_def describe_buffer_def get_or_create_initialized Let_def
        publish_block_def attach_event_def on_cuda_def finalize_fields export_pool_facts block_path_nonempty)
qed

lemma sample_answers: "import_answers (pe_import (sample_plugin_env r)) 9"
  by (simp add: import_answers_def sample_plugin_env_def sample_import_env_def)


theorem published_data_final_witness:
  "\<exists>(d :: descriptor) (nd' :: node).
     create_descriptor_with_endpoint (sample_plugin_env cudaSuccess) (Cuda_Impl 0) sample_info (sample_node [[1, 2] \<mapsto> True]) =
       (Inr (Some d), nd') \<and>
     fst (get_write_handle sample_env 0 2 (pr_cuda (nd_process nd'))) =
       Inl (CudaError ''CudaBuffer: write already finalized; cannot acquire write handle'')"
proof -
  obtain d and nd' :: node where p: "create_descriptor_with_endpoint (sample_plugin_env cudaSuccess) (Cuda_Impl 0) sample_info
      (sample_node [[1, 2] \<mapsto> True]) = (Inr (Some d), nd')"
    using sample_publish [of cudaSuccess] by auto
  let ?n = "sample_node [[1, 2] \<mapsto> True]"
  have i: "initialized (cs_pool (pr_cuda (nd_process ?n)))" "registrations_ok (cs_pool (pr_cuda (nd_process ?n)))"
    "uids_current (cs_meta (pr_cuda (nd_process ?n))) (cs_pool (pr_cuda (nd_process ?n)))"
    by (simp_all add: export_pool_facts)
  from published_data_final [OF p i] p show ?thesis by (simp add: export_pool_facts)
qed

definition stale_descriptor :: descriptor where
  "stale_descriptor = create_empty_descriptor\<lparr>cd_size := 100, cd_element_type_name := ''h'', cd_use_ipc := True,
     cd_device_id := 1, cd_vmm_socket_path := ''cuda_vmm_7_0''\<rparr>"

theorem failed_import_gives_empty_buffer_witness:
  "\<exists>nd'. from_descriptor_with_endpoint (sample_plugin_env cudaSuccess) stale_descriptor (sample_node Map.empty) = (Inr 1, nd') \<and>
     cs_buffer (pr_cuda (nd_process nd')) 1 = empty_buffer"
proof -
  have d: "fst (pe_device (sample_plugin_env cudaSuccess)) = cudaSuccess" "cd_element_type_name stale_descriptor = uint8_name"
    "length (cd_vmm_socket_path stale_descriptor) \<le> 107"
    "\<exists>x nd1. import_descriptor (sample_plugin_env cudaSuccess) stale_descriptor (sample_node Map.empty) = (Inl x, nd1)"
    by (simp_all add: sample_plugin_env_def stale_descriptor_def uint8_name_def import_descriptor_def create_empty_descriptor_def)
  have "pr_next (nd_process (sample_node Map.empty)) = 1" by (simp add: sample_node_def)
  with failed_import_gives_empty_buffer [OF d(1,2), of "sample_node Map.empty"] d(3,4) show ?thesis by auto
qed

theorem publish_local_event_throws_witness:
  "\<exists>nd' :: node. create_descriptor_with_endpoint (sample_plugin_env cudaErrorInvalidValue) (Cuda_Impl 0) sample_info
       (sample_node [[1, 2] \<mapsto> True]) =
     (Inl (CudaRuntimeError ''cudaIpcGetEventHandle(&event_handle, write_event)'' cudaErrorInvalidValue), nd') \<and>
     vb_current_uid (all_blocks (cs_pool (pr_cuda (nd_process nd'))) ! 0) = 99"
proof -
  let ?n = "sample_node [[1, 2] \<mapsto> True]" and ?e = "sample_plugin_env cudaErrorInvalidValue"
  obtain pool disp cs where r: "register_block_for_ipc (pe_register ?e) 0
      (cs_pool (pr_cuda (nd_process ?n)), idle_dispatcher 3 4) = (Inr (block_socket_path 7 0), (pool, disp), cs)"
    using sample_registration by (auto simp: sample_plugin_env_def)
  have h: "nd_manager ?n" "nd_decisions ?n (ei_gid sample_info) = Some True"
    "initialized (cs_pool (pr_cuda (nd_process ?n)))" "ipc_capable (cs_pool (pr_cuda (nd_process ?n)))"
    "find_block_for_va (cb_ptr (cs_buffer (pr_cuda (nd_process ?n)) 0)) (cs_pool (pr_cuda (nd_process ?n))) = Some 0"
    "0 \<le> vb_exported_fd (all_blocks (cs_pool (pr_cuda (nd_process ?n))) ! 0)"
    "vb_current_uid (all_blocks (cs_pool (pr_cuda (nd_process ?n))) ! 0) = 0"
    "pr_dispatcher (nd_process ?n) = Some (idle_dispatcher 3 4)"
    "cb_write_event (cs_buffer (pr_cuda (nd_process ?n)) 0) \<noteq> 0"
    "fst (pe_event_handle ?e) = cudaErrorInvalidValue" "pe_random ?e = 99"
    by (simp_all add: export_pool_facts sample_info_def sample_plugin_env_def)
  have "fst (pe_event_handle ?e) \<noteq> cudaSuccess" by (simp add: h(10))
  from publish_local_event_throws [OF h(1-8) r block_path_nonempty h(9) this] show ?thesis
    by (auto simp: h(10,11))
qed

lemma sample_subscription:
  "\<exists>m' reg'. register_endpoint True [1, 2] (Some ''t'') SUBSCRIPTION (sample_manager 6, sample_registry) = (True, m', reg')"
  by (rule sample_register)

theorem late_subscriber_is_served_witness:
  "\<exists>pub1 pub2 (w :: shm_world).
     create_descriptor_with_endpoint (sample_plugin_env cudaSuccess) (Cuda_Impl 0) sample_info (sample_node Map.empty) =
       (Inr None, pub1) \<and>
     create_descriptor_with_endpoint (sample_plugin_env cudaSuccess) (Cuda_Impl 0) sample_info (pub1\<lparr>nd_shm := w\<rparr>) =
       describe_buffer (sample_plugin_env cudaSuccess) [1, 2] (Cuda_Impl 0) pub2"
proof -
  obtain m' reg' where r: "register_endpoint True [1, 2] (Some ''t'') SUBSCRIPTION (sample_manager 6, sample_registry) = (True, m', reg')"
    using sample_subscription by blast
  let ?w = "\<lparr>sw_names = (\<lambda>_. None), sw_segments = (\<lambda>_. reg')\<rparr>"
  let ?n = "sample_node Map.empty" and ?e = "sample_plugin_env cudaSuccess"
  have g: "ei_gid sample_info = [1, 2]" by (simp add: sample_info_def)
  have h: "nd_manager ?n" "nd_decisions ?n (ei_gid sample_info) = None"
    "em_cache (refresh_from_remote (pe_sem ?e) (table_of ?n) (manager_of ?n)) (ei_gid sample_info) = None"
    by (simp_all add: refresh_from_remote_def remote_updates_def sample_entries sample_manager_def)
  have i: "importable (sample_manager 6) (manager_of ?n)" "pe_sem ?e"
    by (simp_all add: importable_def sample_manager_def sample_plugin_env_def)
  have "register_endpoint True [1, 2] (Some ''t'') SUBSCRIPTION (sample_manager 6, sample_registry) =
      (True, m', sw_segments ?w (em_shm (manager_of ?n)))" using r by simp
  with late_subscriber_is_served [OF h, of "Cuda_Impl 0"] sample_registry_ok i show ?thesis
    unfolding g by blast
qed

theorem discovery_accepts_importers_witness:
  "\<exists>sub' pub'. on_creating_endpoint (sample_plugin_env cudaSuccess) sample_info (sample_node Map.empty) = (Inr (), sub') \<and>
     on_discovering_endpoint (sample_plugin_env cudaSuccess) sample_info (\<lambda>_. Some [])
       ((sample_node Map.empty)\<lparr>nd_shm := nd_shm sub'\<rparr>) = (Inr (True, []), pub')"
proof -
  let ?n = "sample_node Map.empty" and ?e = "sample_plugin_env cudaSuccess"
  obtain sub' where s: "on_creating_endpoint ?e sample_info ?n = (Inr (), sub')"
    by (auto simp: on_creating_endpoint_def split_beta Let_def)
  let ?p = "?n\<lparr>nd_shm := nd_shm sub'\<rparr>"
  have h: "get_endpoint_manager ?e ?n = (Inr (), ?n)" "ei_type sample_info = RMW_ENDPOINT_SUBSCRIPTION" "pe_sem ?e"
    "registry_ok (table_of ?n)" "choose_slot (ei_gid sample_info) (table_of ?n) \<noteq> None"
    "nd_manager ?p" "nd_shm ?p = nd_shm sub'" "em_shm (manager_of ?p) = em_shm (manager_of ?n)"
    using sample_registry_ok
    by (simp_all add: sample_info_def sample_plugin_env_def choose_slot_def sample_entries)
      (simp add: sample_registry_def attach_registry_def zero_registry_def max_endpoints_def)
  have c: "is_pool_ipc_capable (pe_pool ?e) (nd_process ?p) = (True, nd_process ?p)"
    by (simp add: is_pool_ipc_capable_def get_or_create_initialized export_pool_facts)
  have i: "importable (manager_of ?n) (manager_of ?p)" by (simp add: importable_def sample_manager_def)
  have "Some [] \<noteq> None" by simp
  from discovery_accepts_importers [where supported = "\<lambda>_. Some []", OF s h h(3) this c] s i show ?thesis
    by auto
qed

end
