(* ===== verification/Qc_Broker.thy ===== *)
theory Qc_Broker
  imports Externals
begin

text \<open>
  \<open>FdBroker\<close> of \<open>fd_broker.hpp\<close> and \<open>fd_broker.cpp\<close>: one per publisher process, it keeps a
  duplicate of the dma-buf descriptor of each of the last 64 buffers published, and sends it to the
  subscribers that ask for it by uid over a Unix socket. Each connection is served by a thread of its
  own. What a descriptor refers to is followed through the calls of the trace, so that the reuse of
  descriptor numbers by the kernel is part of the model.
\<close>

section \<open>State\<close>

record broker_entry =
  en_dup_fd :: int
  en_dmabuf_size :: u64

record fd_broker =
  fb_table :: "(u64 \<times> broker_entry) list"
  fb_order :: "u64 list"
  fb_server_fd :: int
  fb_socket_path :: string
  fb_running :: bool
  fb_active :: nat

definition capacity :: nat where "capacity = 64"
definition status_ok :: u8 where "status_ok = 1"
definition status_miss :: u8 where "status_miss = 2"

record start_env =
  st_pid :: int
  st_socket :: int
  st_bind :: int
  st_listen :: int

section \<open>Operations\<close>

text \<open>The constructor with \<open>start\<close>.\<close>

definition start_broker :: "start_env \<Rightarrow> fd_broker \<times> call list" where
  "start_broker e =
     (let b = \<lparr>fb_table = [], fb_order = [], fb_server_fd = st_socket e, fb_socket_path = [],
                fb_running = False, fb_active = 0\<rparr>
      in if st_socket e < 0 then (b, [])
         else
           (let b1 = b\<lparr>fb_socket_path := ''/tmp/qc_broker_'' @ to_string (st_pid e) @ ''.sock''\<rparr>;
                failed = (b1\<lparr>fb_server_fd := -1\<rparr>, [OpenFd (st_socket e), Close (st_socket e)])
            in if st_bind e < 0 then failed
               else if st_listen e < 0 then failed
               else (b1\<lparr>fb_running := True\<rparr>, [OpenFd (st_socket e)])))"

text \<open>The loop at the end of \<open>register_buffer\<close>: the oldest entries go until the window fits.\<close>

fun evict :: "u64 list \<Rightarrow> (u64 \<times> broker_entry) list \<Rightarrow> u64 list \<times> (u64 \<times> broker_entry) list \<times> call list" where
  "evict [] table = ([], table, [])"
| "evict (old # order) table =
     (if length (old # order) > capacity then
        (case map_of table old of
           None \<Rightarrow> evict order table
         | Some en \<Rightarrow>
             (let (order', table', cs) = evict order (AList.delete old table)
              in (order', table', Close (en_dup_fd en) # cs)))
      else (old # order, table, []))"

definition register_buffer :: "int \<Rightarrow> u64 \<Rightarrow> int \<Rightarrow> u64 \<Rightarrow> fd_broker \<Rightarrow> fd_broker \<times> call list" where
  "register_buffer dup_fd uid fd dmabuf_size b =
     (if \<not> fb_running b \<or> uid = 0 \<or> fd < 0 then (b, [])
      else if map_of (fb_table b) uid \<noteq> None then (b, [])
      else if dup_fd < 0 then (b, [])
      else
        (let (order, table, cs) =
           evict (fb_order b @ [uid])
             (AList.update uid \<lparr>en_dup_fd = dup_fd, en_dmabuf_size = dmabuf_size\<rparr> (fb_table b))
         in (b\<lparr>fb_table := table, fb_order := order\<rparr>, Dup fd dup_fd # cs)))"

text \<open>
  \<open>handle_connection\<close> in two parts, since the lock is given up between them: the request, which ends the
  connection or gives a descriptor to send, and the sending. \<open>cn_recv\<close> is the result
  of \<open>recv\<close>, \<open>cn_uid\<close> what it read.
\<close>

record conn_env =
  cn_recv :: int
  cn_uid :: u64
  cn_dup :: int

definition handle_request ::
  "conn_env \<Rightarrow> int \<Rightarrow> fd_broker \<Rightarrow> (u8 option \<times> int option) \<times> fd_broker \<times> call list" where
  "handle_request e conn_fd b =
     (let finished = b\<lparr>fb_active := fb_active b - 1\<rparr>
      in if cn_recv e \<noteq> 8 then ((None, None), finished, [Close conn_fd])
         else case map_of (fb_table b) (cn_uid e) of
             None \<Rightarrow> ((Some status_miss, None), finished, [Close conn_fd])
           | Some it \<Rightarrow>
               if cn_dup e < 0 then ((Some status_miss, None), finished, [Close conn_fd])
               else ((None, Some (cn_dup e)), b, [Dup (en_dup_fd it) (cn_dup e)]))"

definition send_fd :: "int \<Rightarrow> int \<Rightarrow> fd_broker \<Rightarrow> u8 \<times> fd_broker \<times> call list" where
  "send_fd conn_fd tmp_fd b =
     (status_ok, b\<lparr>fb_active := fb_active b - 1\<rparr>, [Close tmp_fd, Close conn_fd])"

text \<open>One turn of \<open>worker_loop\<close>, on what \<open>accept\<close> returns.\<close>

definition accept_connection :: "int \<Rightarrow> fd_broker \<Rightarrow> fd_broker \<times> call list" where
  "accept_connection conn_fd b =
     (if \<not> fb_running b \<or> conn_fd < 0 then (b, [])
      else (b\<lparr>fb_active := fb_active b + 1\<rparr>, [OpenFd conn_fd]))"

text \<open>The destructor, up to where it waits for the connections, and after.\<close>

definition stop_broker :: "fd_broker \<Rightarrow> fd_broker \<times> call list" where
  "stop_broker b =
     (if fb_server_fd b \<ge> 0
      then (b\<lparr>fb_running := False, fb_server_fd := -1\<rparr>, [Close (fb_server_fd b)])
      else (b\<lparr>fb_running := False\<rparr>, []))"

definition clear_broker :: "fd_broker \<Rightarrow> fd_broker \<times> call list" where
  "clear_broker b = (b\<lparr>fb_table := []\<rparr>, map (\<lambda>r. Close (en_dup_fd (snd r))) (fb_table b))"

section \<open>The window\<close>

text \<open>
  The contract of a bounded window: it holds the last \<open>cap\<close> of the keys put in, a key that it holds
  keeps its place and value when it is put again.
\<close>

definition last_n :: "nat \<Rightarrow> 'a list \<Rightarrow> 'a list" where
  "last_n n xs = drop (length xs - n) xs"

locale bounded_window =
  fixes cap :: nat
    and items :: "'s \<Rightarrow> ('k \<times> 'v) list"
    and put :: "'k \<Rightarrow> 'i \<Rightarrow> 's \<Rightarrow> 's"
    and get :: "'s \<Rightarrow> 'k \<Rightarrow> 'v option"
    and ok :: "'s \<Rightarrow> bool"
    and fits :: "'k \<Rightarrow> 'i \<Rightarrow> bool"
    and content :: "'i \<Rightarrow> 'v"
  assumes ok_put: "ok s \<Longrightarrow> fits k i \<Longrightarrow> ok (put k i s)"
    and get_items: "ok s \<Longrightarrow> get s k = map_of (items s) k"
    and distinct_items: "ok s \<Longrightarrow> distinct (map fst (items s))"
    and items_put: "ok s \<Longrightarrow> fits k i \<Longrightarrow> items (put k i s) =
      (if k \<in> fst ` set (items s) then items s else last_n cap (items s @ [(k, content i)]))"
begin

lemma ok_puts: "ok s \<Longrightarrow> \<forall>(k, i) \<in> set ps. fits k i \<Longrightarrow> ok (fold (\<lambda>(k, i). put k i) ps s)"
  by (induction ps arbitrary: s) (auto simp: ok_put)

lemma put_keeps:
  assumes "ok s" and "fits k' i'" and "items s = as @ (k, v) # bs" and "length bs + 1 < cap"
  shows "\<exists>as' bs'. items (put k' i' s) = as' @ (k, v) # bs' \<and> length bs' \<le> length bs + 1"
proof (cases "k' \<in> fst ` set (items s)")
  case True
  then show ?thesis using items_put [OF assms(1,2)] assms(3) by (intro exI [of _ as] exI [of _ bs]) simp
next
  case False
  let ?n = "length (items s @ [(k', content i')]) - cap"
  have "?n \<le> length as" using assms(3,4) by simp
  then have "last_n cap (items s @ [(k', content i')]) = drop ?n as @ (k, v) # bs @ [(k', content i')]"
    by (simp add: last_n_def assms(3))
  then show ?thesis
    using items_put [OF assms(1,2)] False
    by (intro exI [of _ "drop ?n as"] exI [of _ "bs @ [(k', content i')]"]) simp
qed

text \<open>A key stays while fewer than \<open>cap\<close> others come after it.\<close>

lemma kept:
  assumes "ok s" and "\<forall>(k, i) \<in> set ps. fits k i" and "items s = as @ (k, v) # bs"
    and "length bs + length ps < cap"
  shows "get (fold (\<lambda>(k, i). put k i) ps s) k = Some v"
  using assms
proof (induction ps arbitrary: s as bs)
  case Nil
  have "distinct (map fst (items s))" by (rule distinct_items [OF Nil.prems(1)])
  then have "map_of as k = None" unfolding Nil.prems(3) by (simp add: map_of_eq_None_iff)
  then show ?case using Nil by (simp add: get_items map_add_def)
next
  case (Cons p ps)
  obtain k' i' where p: "p = (k', i')" by (cases p)
  have f: "fits k' i'" using Cons.prems(2) p by simp
  obtain as' bs' where "items (put k' i' s) = as' @ (k, v) # bs'" "length bs' \<le> length bs + 1"
    using put_keeps [OF Cons.prems(1) f Cons.prems(3)] Cons.prems(4) by auto
  then show ?case
    using Cons.IH [of "put k' i' s" as' bs'] Cons.prems(2,4) ok_put [OF Cons.prems(1) f] p by simp
qed

text \<open>After \<open>cap\<close> new keys nothing older is left.\<close>

lemma items_new:
  assumes "ok s" and "\<forall>(k, i) \<in> set ps. fits k i" and "distinct (map fst ps)"
    and "fst ` set ps \<inter> fst ` set (items s) = {}"
  shows "items (fold (\<lambda>(k, i). put k i) ps s) =
    (if ps = [] then items s else last_n cap (items s @ map (\<lambda>(k, i). (k, content i)) ps))"
  using assms
proof (induction ps arbitrary: s)
  case Nil
  then show ?case by simp
next
  case (Cons p ps)
  obtain k i where p: "p = (k, i)" by (cases p)
  have f: "fits k i" using Cons.prems(2) p by simp
  have it: "items (put k i s) = last_n cap (items s @ [(k, content i)])"
    using items_put [OF Cons.prems(1) f] Cons.prems(4) p by auto
  have sub: "fst ` set (items (put k i s)) \<subseteq> insert k (fst ` set (items s))"
    unfolding it last_n_def using set_drop_subset by fastforce
  have d: "fst ` set ps \<inter> fst ` set (items (put k i s)) = {}"
  proof -
    have "k \<notin> fst ` set ps" "fst ` set ps \<inter> fst ` set (items s) = {}" using Cons.prems(3,4) p by auto
    then show ?thesis using sub by blast
  qed
  have "last_n cap (last_n cap xs @ ys) = last_n cap (xs @ ys)" for xs ys :: "('k \<times> 'v) list"
    by (cases "length xs \<le> cap") (simp_all add: last_n_def add.commute)
  then show ?case
    using Cons.IH [OF ok_put [OF Cons.prems(1) f] _ _ d] Cons.prems(2,3) it p by auto
qed

lemma gone:
  assumes "ok s" and "\<forall>(k, i) \<in> set ps. fits k i" and "distinct (map fst ps)"
    and "fst ` set ps \<inter> fst ` set (items s) = {}" and "cap \<le> length ps" and "0 < cap" and "k \<notin> fst ` set ps"
  shows "get (fold (\<lambda>(k, i). put k i) ps s) k = None"
proof -
  have "ps \<noteq> []" using assms(5,6) by auto
  then have "items (fold (\<lambda>(k, i). put k i) ps s) = drop (length ps - cap) (map (\<lambda>(k, i). (k, content i)) ps)"
    using items_new [OF assms(1-4)] assms(5) by (simp add: last_n_def drop_append)
  then have "fst ` set (items (fold (\<lambda>(k, i). put k i) ps s)) \<subseteq> fst ` set ps"
    by (force dest!: in_set_dropD)
  then show ?thesis
    using assms(7) get_items [OF ok_puts [OF assms(1,2)]] by (auto simp: map_of_eq_None_iff)
qed

end

definition window :: "fd_broker \<Rightarrow> (u64 \<times> broker_entry) list" where
  "window b = map (\<lambda>u. (u, the (map_of (fb_table b) u))) (fb_order b)"

text \<open>The table and the order have the same uids, and each holds a descriptor.\<close>

definition broker_ok :: "fd_broker \<Rightarrow> bool" where
  "broker_ok b \<longleftrightarrow>
     distinct (map fst (fb_table b)) \<and> distinct (fb_order b) \<and> set (fb_order b) = fst ` set (fb_table b) \<and>
     length (fb_order b) \<le> capacity"

lemma evict_fits: "length order \<le> capacity \<Longrightarrow> evict order table = (order, table, [])"
  by (cases order) simp_all

lemma evict_one:
  assumes "length (old # order) = Suc capacity" and "map_of table old = Some en"
  shows "evict (old # order) table = (order, AList.delete old table, [Close (en_dup_fd en)])"
  using assms by (simp add: evict_fits)

text \<open>What a registration that is not refused does.\<close>

lemma register_buffer_new:
  fixes sz :: u64
  assumes "broker_ok b" and "fb_running b" and "uid \<noteq> 0" and "0 \<le> fd" and "0 \<le> dup_fd"
    and "uid \<notin> fst ` set (fb_table b)"
  defines "en \<equiv> \<lparr>en_dup_fd = dup_fd, en_dmabuf_size = sz\<rparr>"
  obtains (room) "length (fb_order b) < capacity"
      "register_buffer dup_fd uid fd sz b =
        (b\<lparr>fb_table := fb_table b @ [(uid, en)], fb_order := fb_order b @ [uid]\<rparr>, [Dup fd dup_fd])"
  | (full) old order old_en where "fb_order b = old # order" "length (fb_order b) = capacity"
      "map_of (fb_table b) old = Some old_en" "old \<noteq> uid"
      "register_buffer dup_fd uid fd sz b =
        (b\<lparr>fb_table := AList.delete old (fb_table b) @ [(uid, en)], fb_order := order @ [uid]\<rparr>,
         [Dup fd dup_fd, Close (en_dup_fd old_en)])"
proof (cases "length (fb_order b) < capacity")
  case True
  then show ?thesis
    using assms by (intro room) (simp_all add: register_buffer_def evict_fits AList_update_absent map_of_eq_None_iff)
next
  case False
  then have len: "length (fb_order b) = capacity" using assms(1) by (simp add: broker_ok_def)
  then obtain old order where o: "fb_order b = old # order" by (cases "fb_order b") (auto simp: capacity_def)
  have old: "old \<in> fst ` set (fb_table b)" using assms(1) o by (auto simp: broker_ok_def)
  then obtain old_en where en: "map_of (fb_table b) old = Some old_en"
    using map_of_eq_None_iff [of "fb_table b" old] by (cases "map_of (fb_table b) old") auto
  have ne: "old \<noteq> uid" using old assms(6) by auto
  have "map_of (fb_table b @ [(uid, en)]) old = Some old_en" using en by simp
  moreover have "AList.delete old (fb_table b @ [(uid, en)]) = AList.delete old (fb_table b) @ [(uid, en)]"
    using ne by (simp add: AList.delete_eq)
  ultimately have "register_buffer dup_fd uid fd sz b =
      (b\<lparr>fb_table := AList.delete old (fb_table b) @ [(uid, en)], fb_order := order @ [uid]\<rparr>,
       [Dup fd dup_fd, Close (en_dup_fd old_en)])"
    using assms(2-6) o len evict_one [of old "order @ [uid]" "fb_table b @ [(uid, en)]" old_en]
    by (simp add: register_buffer_def AList_update_absent map_of_eq_None_iff en_def)
  then show ?thesis using full o len en ne by blast
qed

lemma register_buffer_refused:
  "\<not> (fb_running b \<and> uid \<noteq> 0 \<and> 0 \<le> fd \<and> 0 \<le> dup_fd \<and> uid \<notin> fst ` set (fb_table b)) \<Longrightarrow>
     register_buffer dup_fd uid fd sz b = (b, [])"
  by (auto simp: register_buffer_def map_of_eq_None_iff not_le not_less split: option.splits)

lemma broker_ok_evict:
  assumes "broker_ok b" and "fb_order b = old # order"
  shows "broker_ok (b\<lparr>fb_table := AList.delete old (fb_table b), fb_order := order\<rparr>)"
proof -
  have d: "map fst (AList.delete old (fb_table b)) = removeAll old (map fst (fb_table b))" by (rule AList.delete_keys)
  then have "fst ` set (AList.delete old (fb_table b)) = fst ` set (fb_table b) - {old}" by (metis set_map set_removeAll)
  moreover have "set order = fst ` set (fb_table b) - {old}" using assms by (auto simp: broker_ok_def)
  ultimately show ?thesis using assms d by (simp add: broker_ok_def distinct_removeAll)
qed

lemma register_buffer_ok:
  assumes "broker_ok b"
  shows "broker_ok (fst (register_buffer dup_fd uid fd sz b))"
    and "fb_running (fst (register_buffer dup_fd uid fd sz b)) = fb_running b"
proof -
  let ?b = "fst (register_buffer dup_fd uid fd sz b)"
  have "broker_ok ?b \<and> fb_running ?b = fb_running b"
  proof (cases "fb_running b \<and> uid \<noteq> 0 \<and> 0 \<le> fd \<and> 0 \<le> dup_fd \<and> uid \<notin> fst ` set (fb_table b)")
    case True
    then have c: "fb_running b" "uid \<noteq> 0" "0 \<le> fd" "0 \<le> dup_fd" "uid \<notin> fst ` set (fb_table b)" by simp_all
    from assms c show ?thesis
    proof (cases rule: register_buffer_new [where sz = sz])
      case room
      then show ?thesis using assms True by (auto simp: broker_ok_def)
    next
      case (full old order old_en)
      have "uid \<notin> fst ` set (AList.delete old (fb_table b))" using c(5) set_delete_subset [of old "fb_table b"] by auto
      then show ?thesis using broker_ok_evict [OF assms full(1)] c full(1,2,5) by (auto simp: broker_ok_def)
    qed
  qed (simp add: register_buffer_refused assms)
  then show "broker_ok ?b" "fb_running ?b = fb_running b" by simp_all
qed

lemma window_keys: "map fst (window b) = fb_order b"
  by (simp add: window_def comp_def)

lemma window_lookup:
  assumes "broker_ok b"
  shows "map_of (fb_table b) u = map_of (window b) u"
proof (cases "u \<in> set (fb_order b)")
  case True
  then have "u \<in> fst ` set (fb_table b)" using assms by (simp add: broker_ok_def)
  then obtain en where "map_of (fb_table b) u = Some en"
    using map_of_eq_None_iff [of "fb_table b" u] by (cases "map_of (fb_table b) u") auto
  moreover have "map_of (window b) u = Some (the (map_of (fb_table b) u))"
    using True by (simp add: window_def map_of_map_restrict)
  ultimately show ?thesis by simp
next
  case False
  then have "u \<notin> fst ` set (fb_table b)" "u \<notin> fst ` set (window b)"
    using assms by (simp_all add: broker_ok_def flip: window_keys set_map)
  then show ?thesis by (simp add: map_of_eq_None_iff [THEN iffD2])
qed

lemma table_snoc:
  assumes "uid \<notin> fst ` set t" and "\<forall>u \<in> set us. u \<in> fst ` set t \<and> map_of t u = map_of t0 u"
  shows "map (\<lambda>u. (u, the (map_of (t @ [(uid, en)]) u))) (us @ [uid]) =
    map (\<lambda>u. (u, the (map_of t0 u))) us @ [(uid, en)]"
proof -
  have "map_of t uid = None" using assms(1) by (simp add: map_of_eq_None_iff)
  moreover have "map_of (t @ [(uid, en)]) u = map_of t0 u" if "u \<in> set us" for u
  proof -
    have "map_of t u \<noteq> None" using assms(2) that map_of_eq_None_iff [of t u] by blast
    then show ?thesis using assms(2) that by (auto simp: map_add_def)
  qed
  ultimately show ?thesis by (simp add: map_add_def)
qed

lemma window_register:
  assumes "broker_ok b" and "fb_running b" and "uid \<noteq> 0" and "0 \<le> fd" and "0 \<le> dup_fd"
    and "uid \<notin> fst ` set (window b)"
  shows "window (fst (register_buffer dup_fd uid fd sz b)) =
    last_n capacity (window b @ [(uid, \<lparr>en_dup_fd = dup_fd, en_dmabuf_size = sz\<rparr>)])"
proof -
  have o: "distinct (fb_order b)" "set (fb_order b) = fst ` set (fb_table b)" using assms(1) by (simp_all add: broker_ok_def)
  have uid: "uid \<notin> fst ` set (fb_table b)"
    using assms(6) o(2) by (simp flip: window_keys set_map)
  from assms(1-5) uid show ?thesis
  proof (cases rule: register_buffer_new [where sz = sz])
    case room
    then show ?thesis
      using table_snoc [OF uid, of "fb_order b" "fb_table b"] o(2) by (simp add: window_def last_n_def)
  next
    case (full old order old_en)
    let ?t = "AList.delete old (fb_table b)"
    have "uid \<notin> fst ` set ?t" using uid by (auto simp: AList.delete_eq)
    moreover have "\<forall>u \<in> set order. u \<in> fst ` set ?t \<and> map_of ?t u = map_of (fb_table b) u"
    proof
      fix u
      assume u: "u \<in> set order"
      then have "u \<noteq> old" "u \<in> fst ` set (fb_table b)" using o full(1) by auto
      then show "u \<in> fst ` set ?t \<and> map_of ?t u = map_of (fb_table b) u"
        by (simp add: AList.delete_conv') (force simp: AList.delete_eq)
    qed
    ultimately show ?thesis
      using table_snoc [of uid ?t order "fb_table b"] full(1,2,5) by (simp add: window_def last_n_def)
  qed
qed

lemma window_register_again:
  "broker_ok b \<Longrightarrow> uid \<in> fst ` set (window b) \<Longrightarrow> register_buffer dup_fd uid fd sz b = (b, [])"
  by (rule register_buffer_refused) (simp add: broker_ok_def flip: window_keys set_map)

interpretation bw: bounded_window capacity window
  "\<lambda>uid (dup_fd, fd, sz) b. fst (register_buffer dup_fd uid fd sz b)"
  "\<lambda>b. map_of (fb_table b)" "\<lambda>b. broker_ok b \<and> fb_running b"
  "\<lambda>uid (dup_fd, fd, sz). uid \<noteq> 0 \<and> 0 \<le> dup_fd \<and> 0 \<le> fd"
  "\<lambda>(dup_fd, fd, sz). \<lparr>en_dup_fd = dup_fd, en_dmabuf_size = sz\<rparr>"
proof
  show "distinct (map fst (window s))" if "broker_ok s \<and> fb_running s" for s
    using that by (simp add: window_keys broker_ok_def)
  show "window ((\<lambda>(dup_fd, fd, sz) b. fst (register_buffer dup_fd k fd sz b)) i s) =
      (if k \<in> fst ` set (window s) then window s
       else last_n capacity (window s @ [(k, (\<lambda>(dup_fd, fd, sz). \<lparr>en_dup_fd = dup_fd, en_dmabuf_size = sz\<rparr>) i)]))"
    if "broker_ok s \<and> fb_running s" "(\<lambda>(dup_fd, fd, sz). k \<noteq> 0 \<and> 0 \<le> dup_fd \<and> 0 \<le> fd) i" for s k i
    using that window_register window_register_again by (cases i) simp
qed (auto simp: register_buffer_ok window_lookup)

section \<open>What the descriptors refer to\<close>

text \<open>
  The descriptor table of the process: a number is unused or refers to an object, 0 standing for
  sockets. The calls of a trace change it; \<open>dup\<close> makes another reference to the same object.
\<close>

type_synonym fds = "int \<Rightarrow> nat option"

fun run_fds :: "call list \<Rightarrow> fds \<Rightarrow> fds" where
  "run_fds [] m = m"
| "run_fds (Acquire (Fd f) # cs) m = run_fds cs (m(f \<mapsto> 0))"
| "run_fds (Release (Fd f) # cs) m = run_fds cs (m(f := None))"
| "run_fds (Dup old new # cs) m = run_fds cs (m(new := m old))"
| "run_fds (_ # cs) m = run_fds cs m"

text \<open>
  The broker with its threads, the descriptor table, and, as a ghost, the object registered for each uid. A thread
  that has a descriptor to send also keeps the object that was registered for the uid when it asked.
\<close>

datatype thread = Reading int | Sending int int nat

fun thread_fds :: "thread \<Rightarrow> int list" where
  "thread_fds (Reading c) = [c]"
| "thread_fds (Sending c t obj) = [c, t]"

record broker_world =
  wb_broker :: fd_broker
  wb_threads :: "thread list"
  wb_fds :: fds
  wb_object :: "u64 \<Rightarrow> nat"

definition broker_fds :: "broker_world \<Rightarrow> int list" where
  "broker_fds w =
     (if fb_server_fd (wb_broker w) \<ge> 0 then [fb_server_fd (wb_broker w)] else [])
       @ map (\<lambda>r. en_dup_fd (snd r)) (fb_table (wb_broker w)) @ concat (map thread_fds (wb_threads w))"

text \<open>
  The steps: connections, their two parts in any order, registrations, the rest of the process with its own descriptors,
  and the first part of the destructor. The kernel gives out numbers that are not in use.
\<close>

inductive broker_step :: "broker_world \<Rightarrow> broker_world \<Rightarrow> bool" where
  accept:
    "fb_running (wb_broker w) \<Longrightarrow> 0 \<le> c \<Longrightarrow> wb_fds w c = None \<Longrightarrow> accept_connection c (wb_broker w) = (b', cs) \<Longrightarrow>
     broker_step w (w\<lparr>wb_broker := b', wb_threads := Reading c # wb_threads w, wb_fds := run_fds cs (wb_fds w)\<rparr>)"
| request:
    "wb_threads w = xs @ Reading c # ys \<Longrightarrow> (0 \<le> cn_dup e \<Longrightarrow> wb_fds w (cn_dup e) = None) \<Longrightarrow>
     handle_request e c (wb_broker w) = ((status, next), b', cs) \<Longrightarrow>
     broker_step w (w\<lparr>wb_broker := b',
       wb_threads := xs @ (case next of None \<Rightarrow> [] | Some t \<Rightarrow> [Sending c t (wb_object w (cn_uid e))]) @ ys,
       wb_fds := run_fds cs (wb_fds w)\<rparr>)"
| send:
    "wb_threads w = xs @ Sending c t obj # ys \<Longrightarrow> send_fd c t (wb_broker w) = (status, b', cs) \<Longrightarrow>
     broker_step w (w\<lparr>wb_broker := b', wb_threads := xs @ ys, wb_fds := run_fds cs (wb_fds w)\<rparr>)"
| register:
    "wb_fds w fd = Some obj \<Longrightarrow> (0 \<le> d \<Longrightarrow> wb_fds w d = None) \<Longrightarrow>
     register_buffer d uid fd sz (wb_broker w) = (b', cs) \<Longrightarrow>
     broker_step w (w\<lparr>wb_broker := b', wb_fds := run_fds cs (wb_fds w),
       wb_object := (if uid \<in> fst ` set (fb_table (wb_broker w)) then wb_object w else (wb_object w)(uid := obj))\<rparr>)"
| others:
    "\<forall>f \<in> set (broker_fds w). fds f = wb_fds w f \<Longrightarrow> broker_step w (w\<lparr>wb_fds := fds\<rparr>)"
| stop:
    "stop_broker (wb_broker w) = (b', cs) \<Longrightarrow>
     broker_step w (w\<lparr>wb_broker := b', wb_fds := run_fds cs (wb_fds w)\<rparr>)"

inductive broker_reachable :: "broker_world \<Rightarrow> bool" where
  start: "start_broker e = (b, cs) \<Longrightarrow> fds (st_socket e) = None \<Longrightarrow>
     broker_reachable \<lparr>wb_broker = b, wb_threads = [], wb_fds = run_fds cs fds, wb_object = obj\<rparr>"
| step: "broker_reachable w \<Longrightarrow> broker_step w w' \<Longrightarrow> broker_reachable w'"

definition broker_world_ok :: "broker_world \<Rightarrow> bool" where
  "broker_world_ok w \<longleftrightarrow>
     broker_ok (wb_broker w) \<and> fb_active (wb_broker w) = length (wb_threads w) \<and>
     distinct (broker_fds w) \<and> (\<forall>f \<in> set (broker_fds w). wb_fds w f \<noteq> None) \<and>
     (\<forall>(u, en) \<in> set (fb_table (wb_broker w)). wb_fds w (en_dup_fd en) = Some (wb_object w u)) \<and>
     (\<forall>c t obj. Sending c t obj \<in> set (wb_threads w) \<longrightarrow> wb_fds w t = Some obj)"

lemma broker_fds_threads:
  "wb_threads w = xs @ t # ys \<Longrightarrow> mset (broker_fds w) =
     mset (thread_fds t) + mset (broker_fds (w\<lparr>wb_threads := xs @ ys\<rparr>))"
  by (simp add: broker_fds_def)

lemma distinct_mset: "distinct xs \<longleftrightarrow> (\<forall>x. count (mset xs) x \<le> 1)"
  by (auto simp: distinct_count_atmost_1 count_mset_0_iff le_Suc_eq)

lemma broker_world_okI:
  assumes "broker_ok (wb_broker w)" "fb_active (wb_broker w) = length (wb_threads w)"
    and "distinct (broker_fds w)" "\<And>f. f \<in> set (broker_fds w) \<Longrightarrow> wb_fds w f \<noteq> None"
    and "\<And>u en. (u, en) \<in> set (fb_table (wb_broker w)) \<Longrightarrow> wb_fds w (en_dup_fd en) = Some (wb_object w u)"
    and "\<And>c t obj. Sending c t obj \<in> set (wb_threads w) \<Longrightarrow> wb_fds w t = Some obj"
  shows "broker_world_ok w"
  using assms by (auto simp: broker_world_ok_def)

lemma thread_fd_member: "Sending c t obj \<in> set (wb_threads w) \<Longrightarrow> t \<in> set (broker_fds w)"
  by (force simp: broker_fds_def)

lemma entry_fd_member: "(u, en) \<in> set (fb_table (wb_broker w)) \<Longrightarrow> en_dup_fd en \<in> set (broker_fds w)"
  by (force simp: broker_fds_def)

lemma broker_ok_simps [simp]:
  "broker_ok (b\<lparr>fb_active := n\<rparr>) = broker_ok b" "broker_ok (b\<lparr>fb_running := r\<rparr>) = broker_ok b"
  "broker_ok (b\<lparr>fb_server_fd := f\<rparr>) = broker_ok b"
  by (simp_all add: broker_ok_def)

text \<open>Steps that give descriptors up, and steps that take a new one.\<close>

lemma broker_shrinks:
  assumes "broker_world_ok w" and "mset (broker_fds w) = R + mset (broker_fds w')"
    and "\<And>f. f \<notin># R \<Longrightarrow> wb_fds w' f = wb_fds w f"
    and "broker_ok (wb_broker w')" "fb_active (wb_broker w') = length (wb_threads w')"
    and "set (fb_table (wb_broker w')) \<subseteq> set (fb_table (wb_broker w))"
    and "set (wb_threads w') \<subseteq> set (wb_threads w)" and "wb_object w' = wb_object w"
  shows "broker_world_ok w'"
proof -
  have c: "count R x + count (mset (broker_fds w')) x \<le> 1" for x
    using assms(1,2) by (simp add: broker_world_ok_def distinct_mset)
  have same: "wb_fds w' f = wb_fds w f" "f \<in> set (broker_fds w)" if "f \<in> set (broker_fds w')" for f
  proof -
    have "0 < count (mset (broker_fds w')) f" using that by simp
    then have "count R f = 0" using c [of f] by linarith
    then have "f \<notin># R" by (simp add: not_in_iff)
    then show "wb_fds w' f = wb_fds w f" by (rule assms(3))
    have "f \<in># R + mset (broker_fds w')" using that by simp
    then show "f \<in> set (broker_fds w)" unfolding assms(2) [symmetric] by simp
  qed
  show ?thesis
  proof (rule broker_world_okI)
    have "count (mset (broker_fds w')) x \<le> 1" for x using c [of x] by simp
    then show "distinct (broker_fds w')" by (simp add: distinct_mset)
    show "wb_fds w' f \<noteq> None" if "f \<in> set (broker_fds w')" for f
      using same [OF that] assms(1) by (simp add: broker_world_ok_def)
    show "wb_fds w' (en_dup_fd en) = Some (wb_object w' u)" if "(u, en) \<in> set (fb_table (wb_broker w'))" for u en
      using same(1) [OF entry_fd_member [OF that]] assms(1,6,8) that by (auto simp: broker_world_ok_def)
    show "wb_fds w' t = Some obj" if "Sending c t obj \<in> set (wb_threads w')" for c t obj
      using same(1) [OF thread_fd_member [OF that]] assms(1,7) that by (auto simp: broker_world_ok_def)
  qed (fact assms(4,5))+
qed

lemma broker_grows:
  assumes "broker_world_ok w" and "mset (broker_fds w') = add_mset d (mset (broker_fds w))"
    and "wb_fds w d = None" and "wb_fds w' = (wb_fds w)(d \<mapsto> obj)"
    and "broker_ok (wb_broker w')" "fb_active (wb_broker w') = length (wb_threads w')"
    and "\<And>u en. (u, en) \<in> set (fb_table (wb_broker w')) \<Longrightarrow>
      (u, en) \<in> set (fb_table (wb_broker w)) \<and> wb_object w' u = wb_object w u \<or> en_dup_fd en = d \<and> wb_object w' u = obj"
    and "\<And>c t x. Sending c t x \<in> set (wb_threads w') \<Longrightarrow> Sending c t x \<in> set (wb_threads w) \<or> t = d \<and> x = obj"
  shows "broker_world_ok w'"
proof -
  have d: "d \<notin> set (broker_fds w)" using assms(1,3) by (auto simp: broker_world_ok_def)
  have same: "wb_fds w' f = wb_fds w f" if "f \<in> set (broker_fds w)" for f
    using that d by (auto simp: assms(4))
  show ?thesis
  proof (rule broker_world_okI)
    show "distinct (broker_fds w')"
      using mset_eq_imp_distinct_iff [of "broker_fds w'" "d # broker_fds w"] assms(1,2) d
      by (simp add: broker_world_ok_def)
    show "wb_fds w' f \<noteq> None" if "f \<in> set (broker_fds w')" for f
    proof -
      have "f \<in># add_mset d (mset (broker_fds w))" unfolding assms(2) [symmetric] using that by simp
      then show ?thesis using assms(1) by (auto simp: assms(4) broker_world_ok_def)
    qed
    have e: "wb_fds w' (en_dup_fd en) = Some (wb_object w u)" if "(u, en) \<in> set (fb_table (wb_broker w))" for u en
      using same [OF entry_fd_member [OF that]] assms(1) that by (auto simp: broker_world_ok_def)
    have t: "wb_fds w' t = Some x" if "Sending c t x \<in> set (wb_threads w)" for c t x
      using same [OF thread_fd_member [OF that]] assms(1) that by (auto simp: broker_world_ok_def)
    have d': "wb_fds w' d = Some obj" by (simp add: assms(4))
    show "wb_fds w' (en_dup_fd en) = Some (wb_object w' u)" if "(u, en) \<in> set (fb_table (wb_broker w'))" for u en
      using assms(7) [OF that] e d' by metis
    show "wb_fds w' t = Some x" if "Sending c t x \<in> set (wb_threads w')" for c t x
      using assms(8) [OF that] t d' by metis
  qed (fact assms(5,6))+
qed

lemma world_facts:
  "broker_world_ok w \<Longrightarrow> broker_ok (wb_broker w)"
  "broker_world_ok w \<Longrightarrow> fb_active (wb_broker w) = length (wb_threads w)"
  by (simp_all add: broker_world_ok_def)

lemma accept_ok:
  assumes "broker_world_ok w" and "fb_running (wb_broker w)" and "0 \<le> c" and "wb_fds w c = None"
    and "accept_connection c (wb_broker w) = (b', cs)"
  shows "broker_world_ok (w\<lparr>wb_broker := b', wb_threads := Reading c # wb_threads w, wb_fds := run_fds cs (wb_fds w)\<rparr>)"
  using assms(1)
proof (rule broker_grows [where d = c and obj = 0])
  show "mset (broker_fds (w\<lparr>wb_broker := b', wb_threads := Reading c # wb_threads w, wb_fds := run_fds cs (wb_fds w)\<rparr>)) =
      add_mset c (mset (broker_fds w))"
    using assms(2-5) by (auto simp: accept_connection_def broker_fds_def)
qed (use assms in \<open>auto simp: accept_connection_def broker_world_ok_def\<close>)

lemma handle_request_result:
  assumes "handle_request e c b = ((status, nx), b', cs)"
  shows "nx = None \<and> b' = b\<lparr>fb_active := fb_active b - 1\<rparr> \<and> cs = [Close c] \<or>
    (\<exists>it. nx = Some (cn_dup e) \<and> 0 \<le> cn_dup e \<and> b' = b \<and> map_of (fb_table b) (cn_uid e) = Some it \<and>
       cs = [Dup (en_dup_fd it) (cn_dup e)])"
  using assms
  by (cases "cn_recv e = 8"; cases "map_of (fb_table b) (cn_uid e)"; cases "cn_dup e < 0")
    (simp_all add: handle_request_def)

lemma request_ok:
  assumes "broker_world_ok w" and t: "wb_threads w = xs @ Reading c # ys"
    and "0 \<le> cn_dup e \<Longrightarrow> wb_fds w (cn_dup e) = None"
    and h: "handle_request e c (wb_broker w) = ((status, nx), b', cs)"
  shows "broker_world_ok (w\<lparr>wb_broker := b',
       wb_threads := xs @ (case nx of None \<Rightarrow> [] | Some t \<Rightarrow> [Sending c t (wb_object w (cn_uid e))]) @ ys,
       wb_fds := run_fds cs (wb_fds w)\<rparr>)" (is "broker_world_ok ?w")
proof (cases nx)
  case None
  then have b: "b' = (wb_broker w)\<lparr>fb_active := fb_active (wb_broker w) - 1\<rparr>" "cs = [Close c]"
    using handle_request_result [OF h] by simp_all
  have "mset (broker_fds w) = {#c#} + mset (broker_fds ?w)"
    using broker_fds_threads [OF t] by (simp add: None b broker_fds_def)
  moreover have "set (xs @ ys) \<subseteq> set (wb_threads w)" by (auto simp: t)
  ultimately show ?thesis
    by (intro broker_shrinks [OF assms(1), where R = "{#c#}"]) (simp_all add: world_facts [OF assms(1)] t b None)
next
  case (Some d)
  then obtain it where b: "b' = wb_broker w" "cs = [Dup (en_dup_fd it) d]" "d = cn_dup e" "0 \<le> d"
    "map_of (fb_table (wb_broker w)) (cn_uid e) = Some it"
    using handle_request_result [OF h] by auto
  have obj: "wb_fds w (en_dup_fd it) = Some (wb_object w (cn_uid e))"
    using assms(1) map_of_SomeD [OF b(5)] by (auto simp: broker_world_ok_def)
  from assms(1) show ?thesis
  proof (rule broker_grows [where d = d and obj = "wb_object w (cn_uid e)"])
    show "mset (broker_fds ?w) = add_mset d (mset (broker_fds w))"
      using broker_fds_threads [OF t] by (simp add: Some b(1) broker_fds_def)
    show "wb_fds w d = None" using assms(3) b by simp
    show "wb_fds ?w = (wb_fds w)(d \<mapsto> wb_object w (cn_uid e))" using obj b(2) by simp
    show "Sending c' t' x \<in> set (wb_threads w) \<or> t' = d \<and> x = wb_object w (cn_uid e)"
      if "Sending c' t' x \<in> set (wb_threads ?w)" for c' t' x
      using that by (auto simp: t Some)
  qed (simp_all add: world_facts [OF assms(1)] t b(1) Some)
qed

lemma send_ok:
  assumes "broker_world_ok w" and t: "wb_threads w = xs @ Sending c t obj # ys"
    and h: "send_fd c t (wb_broker w) = (status, b', cs)"
  shows "broker_world_ok (w\<lparr>wb_broker := b', wb_threads := xs @ ys, wb_fds := run_fds cs (wb_fds w)\<rparr>)"
    (is "broker_world_ok ?w")
proof -
  have b: "b' = (wb_broker w)\<lparr>fb_active := fb_active (wb_broker w) - 1\<rparr>" "cs = [Close t, Close c]"
    using h by (simp_all add: send_fd_def)
  have "mset (broker_fds w) = {#c, t#} + mset (broker_fds ?w)"
    using broker_fds_threads [OF t] by (simp add: b broker_fds_def)
  moreover have "set (xs @ ys) \<subseteq> set (wb_threads w)" by (auto simp: t)
  ultimately show ?thesis
    by (intro broker_shrinks [OF assms(1), where R = "{#c, t#}"]) (simp_all add: world_facts [OF assms(1)] t b)
qed

lemma stop_ok:
  assumes "broker_world_ok w" and h: "stop_broker (wb_broker w) = (b', cs)"
  shows "broker_world_ok (w\<lparr>wb_broker := b', wb_fds := run_fds cs (wb_fds w)\<rparr>)" (is "broker_world_ok ?w")
proof -
  let ?s = "fb_server_fd (wb_broker w)"
  have "mset (broker_fds w) = (if 0 \<le> ?s then {#?s#} else {#}) + mset (broker_fds ?w)"
    using h by (auto simp: stop_broker_def broker_fds_def split: if_splits)
  with assms(1) show ?thesis
    by (rule broker_shrinks)
      (use assms in \<open>auto simp: broker_world_ok_def stop_broker_def split: if_splits\<close>)
qed

lemma others_ok:
  assumes "broker_world_ok w" and "\<forall>f \<in> set (broker_fds w). fds f = wb_fds w f"
  shows "broker_world_ok (w\<lparr>wb_fds := fds\<rparr>)"
proof -
  have b: "broker_fds (w\<lparr>wb_fds := fds\<rparr>) = broker_fds w" by (simp add: broker_fds_def)
  have e: "fds (en_dup_fd en) = wb_fds w (en_dup_fd en)" if "(u, en) \<in> set (fb_table (wb_broker w))" for u en
    using assms(2) entry_fd_member [OF that] by blast
  have t: "fds t = wb_fds w t" if "Sending c t obj \<in> set (wb_threads w)" for c t obj
    using assms(2) thread_fd_member [OF that] by blast
  show ?thesis
    by (rule broker_world_okI) (use assms e t in \<open>auto simp: broker_world_ok_def b\<close>)
qed

lemma register_refused_ok:
  assumes "broker_world_ok w"
    and f: "wb_broker w' = wb_broker w" "wb_threads w' = wb_threads w" "wb_fds w' = wb_fds w"
    and o: "\<And>u en. (u, en) \<in> set (fb_table (wb_broker w)) \<Longrightarrow> wb_object w' u = wb_object w u"
  shows "broker_world_ok w'"
proof (rule broker_world_okI)
  have b: "broker_fds w' = broker_fds w" by (simp add: f broker_fds_def)
  show "wb_fds w' (en_dup_fd en) = Some (wb_object w' u)" if "(u, en) \<in> set (fb_table (wb_broker w'))" for u en
  proof -
    have m: "(u, en) \<in> set (fb_table (wb_broker w))" using that by (simp add: f)
    then have "wb_fds w (en_dup_fd en) = Some (wb_object w u)" using assms(1) by (auto simp: broker_world_ok_def)
    then show ?thesis unfolding o [OF m] f .
  qed
  show "distinct (broker_fds w')" "\<And>g. g \<in> set (broker_fds w') \<Longrightarrow> wb_fds w' g \<noteq> None"
    unfolding b f using assms(1) by (simp_all add: broker_world_ok_def)
  show "\<And>c t obj. Sending c t obj \<in> set (wb_threads w') \<Longrightarrow> wb_fds w' t = Some obj"
    unfolding f using assms(1) by (simp add: broker_world_ok_def)
qed (use assms(1) in \<open>simp_all add: f broker_world_ok_def\<close>)

lemma register_ok:
  assumes "broker_world_ok w" and "wb_fds w fd = Some obj" and "0 \<le> d \<Longrightarrow> wb_fds w d = None"
    and h: "register_buffer d uid fd sz (wb_broker w) = (b', cs)"
  shows "broker_world_ok (w\<lparr>wb_broker := b', wb_fds := run_fds cs (wb_fds w),
       wb_object := (if uid \<in> fst ` set (fb_table (wb_broker w)) then wb_object w else (wb_object w)(uid := obj))\<rparr>)"
    (is "broker_world_ok ?w")
proof (cases "fb_running (wb_broker w) \<and> uid \<noteq> 0 \<and> 0 \<le> fd \<and> 0 \<le> d \<and> uid \<notin> fst ` set (fb_table (wb_broker w))")
  case False
  then have b: "b' = wb_broker w" "cs = []" using register_buffer_refused h by auto
  have "wb_object ?w u = wb_object w u" if "(u, en) \<in> set (fb_table (wb_broker w))" for u en
    using that by force
  then show ?thesis by (intro register_refused_ok [OF assms(1)]) (simp_all only: b, simp_all)
next
  case True
  then have c: "fb_running (wb_broker w)" "uid \<noteq> 0" "0 \<le> fd" "0 \<le> d" "uid \<notin> fst ` set (fb_table (wb_broker w))" by simp_all
  note ok = world_facts(1) [OF assms(1)]
  have d: "wb_fds w d = None" using assms(3) c(4) by simp
  let ?en = "\<lparr>en_dup_fd = d, en_dmabuf_size = sz\<rparr>"
  have old: "u \<noteq> uid" if "(u, en) \<in> set (fb_table (wb_broker w))" for u en using that c(5) by force
  have ok': "broker_ok b'" using register_buffer_ok(1) [OF ok, of d uid fd sz] h by simp
  show ?thesis
    using ok c
  proof (cases rule: register_buffer_new [where sz = sz])
    case room
    then have b: "b' = (wb_broker w)\<lparr>fb_table := fb_table (wb_broker w) @ [(uid, ?en)], fb_order := fb_order (wb_broker w) @ [uid]\<rparr>"
      "cs = [Dup fd d]" using h by simp_all
    from assms(1) show ?thesis
    proof (rule broker_grows [where d = d and obj = obj])
      show "mset (broker_fds ?w) = add_mset d (mset (broker_fds w))" by (simp add: broker_fds_def b(1))
    qed (use world_facts(2) [OF assms(1)] b assms(2) c(5) d ok' old in auto)
  next
    case (full u0 order en0)
    then have b: "b' = (wb_broker w)\<lparr>fb_table := AList.delete u0 (fb_table (wb_broker w)) @ [(uid, ?en)], fb_order := order @ [uid]\<rparr>"
      "cs = [Dup fd d, Close (en_dup_fd en0)]" using h by simp_all
    let ?v = "w\<lparr>wb_broker := (wb_broker w)\<lparr>fb_table := AList.delete u0 (fb_table (wb_broker w)), fb_order := order\<rparr>,
        wb_fds := (wb_fds w)(en_dup_fd en0 := None)\<rparr>"
    have m: "mset (fb_table (wb_broker w)) = add_mset (u0, en0) (mset (AList.delete u0 (fb_table (wb_broker w))))"
      using ok full(3) by (intro AList_delete_split) (simp_all add: broker_ok_def)
    have "mset (broker_fds w) = {#en_dup_fd en0#} + mset (broker_fds ?v)"
      using arg_cong [OF m, of "image_mset (\<lambda>r. en_dup_fd (snd r))"] by (simp add: broker_fds_def)
    then have v: "broker_world_ok ?v"
      using world_facts(2) [OF assms(1)] set_delete_subset broker_ok_evict [OF ok full(1)]
      by (intro broker_shrinks [OF assms(1), where R = "{#en_dup_fd en0#}"]) simp_all
    have "wb_fds w (en_dup_fd en0) \<noteq> None"
      using assms(1) entry_fd_member [OF map_of_SomeD [OF full(3)]] by (simp add: broker_world_ok_def)
    then have ne: "en_dup_fd en0 \<noteq> d" using d by auto
    from v show ?thesis
    proof (rule broker_grows [where d = d and obj = obj])
      show "mset (broker_fds ?w) = add_mset d (mset (broker_fds ?v))" by (simp add: broker_fds_def b(1))
      show "wb_fds ?w = (wb_fds ?v)(d \<mapsto> obj)" using b(2) assms(2) ne by (simp add: fun_upd_twist)
      show "(u, en) \<in> set (fb_table (wb_broker ?v)) \<and> wb_object ?w u = wb_object ?v u \<or> en_dup_fd en = d \<and> wb_object ?w u = obj"
        if "(u, en) \<in> set (fb_table (wb_broker ?w))" for u en
        using that c(5) old set_delete_subset [of u0 "fb_table (wb_broker w)"] by (auto simp: b(1))
    qed (use world_facts(2) [OF assms(1)] b(1) d ok' in auto)
  qed
qed

lemma broker_step_ok:
  assumes "broker_step w w'" and "broker_world_ok w"
  shows "broker_world_ok w'"
  using assms(1)
proof cases
  case (accept c b' cs)
  then show ?thesis using accept_ok [OF assms(2)] by simp
next
  case (request xs c ys e status nx b' cs)
  then show ?thesis using request_ok [OF assms(2)] by simp
next
  case (send xs c t obj ys status b' cs)
  then show ?thesis using send_ok [OF assms(2)] by simp
next
  case (register fd obj d uid sz b' cs)
  show ?thesis unfolding register(1) by (rule register_ok [OF assms(2) register(2-4)])
next
  case (others fds)
  then show ?thesis using others_ok [OF assms(2)] by simp
next
  case (stop b' cs)
  then show ?thesis using stop_ok [OF assms(2)] by simp
qed

lemma broker_reachable_ok: "broker_reachable w \<Longrightarrow> broker_world_ok w"
proof (induction rule: broker_reachable.induct)
  case (start e b cs fds obj)
  then show ?case
    by (auto simp: start_broker_def Let_def broker_world_ok_def broker_ok_def broker_fds_def split: if_splits)
next
  case (step w w')
  then show ?case using broker_step_ok by blast
qed

section \<open>Properties of the broker\<close>

text \<open>
  C24. The broker's table and order are a window: a registration that is accepted puts its entry at the end and drops the
  oldest entry when there are more than 64; a refused one (broker not running, uid 0, no descriptor, failed \<open>dup\<close>), and
  that of a uid which is in the window, change nothing, so a buffer that is published again keeps its old place; and
  a lookup in the table finds exactly what is in the window.
\<close>

theorem broker_refines_window:
  assumes "broker_ok b" and "register_buffer dup_fd uid fd sz b = (b', cs)"
  shows "broker_ok b' \<and> (\<forall>u. map_of (fb_table b') u = map_of (window b') u) \<and>
    window b' =
      (if fb_running b \<and> uid \<noteq> 0 \<and> 0 \<le> fd \<and> 0 \<le> dup_fd \<and> uid \<notin> fst ` set (window b)
       then last_n capacity (window b @ [(uid, \<lparr>en_dup_fd = dup_fd, en_dmabuf_size = sz\<rparr>)]) else window b)"
proof -
  have k: "fst ` set (window b) = fst ` set (fb_table b)"
    using assms(1) by (simp add: broker_ok_def flip: window_keys set_map)
  have ok: "broker_ok b'" using register_buffer_ok(1) [OF assms(1), of dup_fd uid fd sz] assms(2) by simp
  show ?thesis
  proof (cases "fb_running b \<and> uid \<noteq> 0 \<and> 0 \<le> fd \<and> 0 \<le> dup_fd \<and> uid \<notin> fst ` set (window b)")
    case True
    then show ?thesis using window_register [OF assms(1), of uid fd dup_fd sz] assms(2) ok window_lookup [OF ok] by simp
  next
    case False
    then have "b' = b" using register_buffer_refused [of b uid fd dup_fd sz] assms(2) k by auto
    then show ?thesis unfolding if_not_P [OF False] using assms(1) window_lookup by simp
  qed
qed

text \<open>A sequence of registrations.\<close>

definition register_buffers :: "(u64 \<times> int \<times> int \<times> u64) list \<Rightarrow> fd_broker \<Rightarrow> fd_broker" where
  "register_buffers = fold (\<lambda>(uid, dup_fd, fd, sz) b. fst (register_buffer dup_fd uid fd sz b))"

text \<open>
  A published buffer can be fetched until 64 others are published: after its registration its entry is found whatever up to 63
  further registrations do, and after 64 registrations of new buffers it is gone.
\<close>

theorem recent_buffers_available:
  fixes sz :: u64
  assumes "broker_ok b" and "fb_running b" and "uid \<noteq> 0" and "0 \<le> fd" and "0 \<le> dup_fd" and "uid \<notin> fst ` set (fb_table b)"
    and "\<forall>(u, d, f, s) \<in> set rs. u \<noteq> 0 \<and> 0 \<le> d \<and> 0 \<le> f"
  defines "b' \<equiv> register_buffers rs (fst (register_buffer dup_fd uid fd sz b))"
  shows "(length rs < capacity \<longrightarrow> map_of (fb_table b') uid = Some \<lparr>en_dup_fd = dup_fd, en_dmabuf_size = sz\<rparr>) \<and>
    (distinct (map fst rs) \<and> fst ` set rs \<inter> insert uid (fst ` set (fb_table b)) = {} \<and> capacity \<le> length rs \<longrightarrow>
      map_of (fb_table b') uid = None)"
proof -
  let ?b = "fst (register_buffer dup_fd uid fd sz b)"
  let ?en = "\<lparr>en_dup_fd = dup_fd, en_dmabuf_size = sz\<rparr>"
  have ok: "broker_ok ?b \<and> fb_running ?b" using register_buffer_ok assms(1,2) by simp
  have keys: "fst ` set (window c) = fst ` set (fb_table c)" if "broker_ok c" for c
    using that by (simp add: broker_ok_def flip: window_keys set_map)
  have w: "window ?b = last_n capacity (window b @ [(uid, ?en)])"
    using window_register [OF assms(1-5)] assms(6) keys [OF assms(1)] by simp
  have p: "\<forall>(u, i) \<in> set rs. (\<lambda>uid (dup_fd, fd, sz). uid \<noteq> 0 \<and> 0 \<le> dup_fd \<and> 0 \<le> fd) u i" using assms(7) by auto
  have f: "b' = fold (\<lambda>(k, i). (\<lambda>uid (dup_fd, fd, sz) b. fst (register_buffer dup_fd uid fd sz b)) k i) rs ?b"
    unfolding b'_def register_buffers_def by (rule fold_cong) (auto simp: split_beta)
  have "map_of (fb_table b') uid = Some ?en" if "length rs < capacity"
  proof -
    let ?n = "length (window b @ [(uid, ?en)]) - capacity"
    have "?n \<le> length (window b)" by (simp add: capacity_def)
    then have "window ?b = drop ?n (window b) @ (uid, ?en) # []" unfolding w last_n_def by simp
    from bw.kept [OF ok p this] show ?thesis unfolding f using that by simp
  qed
  moreover have "map_of (fb_table b') uid = None"
    if h: "distinct (map fst rs)" "fst ` set rs \<inter> insert uid (fst ` set (fb_table b)) = {}" "capacity \<le> length rs"
  proof -
    have "fst ` set (window ?b) \<subseteq> insert uid (fst ` set (fb_table b))"
      unfolding w last_n_def using keys [OF assms(1)] by (force dest: in_set_dropD)
    then have "fst ` set rs \<inter> fst ` set (window ?b) = {}" "uid \<notin> fst ` set rs" using h(2) by auto
    then show ?thesis unfolding f using h by (intro bw.gone [OF ok p]) (simp_all add: capacity_def)
  qed
  ultimately show ?thesis by blast
qed

text \<open>
  C7. The broker never sends the wrong buffer: in every reachable state, with connections, registrations, evictions and the
  process's own use of descriptors in any order, and although numbers are used again once closed, each entry's
  descriptor refers to the buffer registered for its uid, and one that is about to be sent to the buffer that was
  registered when it was asked for. The broker's descriptors are all different, and at most 65 and two
  for each connection.
\<close>

theorem broker_serves_registered_buffer:
  assumes "broker_reachable w"
  shows "(\<forall>c t obj. Sending c t obj \<in> set (wb_threads w) \<longrightarrow> wb_fds w t = Some obj) \<and>
    (\<forall>(uid, en) \<in> set (fb_table (wb_broker w)). wb_fds w (en_dup_fd en) = Some (wb_object w uid)) \<and>
    distinct (broker_fds w) \<and> length (broker_fds w) \<le> 1 + capacity + 2 * fb_active (wb_broker w)"
proof -
  note ok = broker_reachable_ok [OF assms]
  have t: "length (thread_fds x) \<le> 2" for x by (cases x) simp_all
  have c: "length (concat (map thread_fds ts)) \<le> 2 * length ts" for ts
  proof (induction ts)
    case (Cons x ts)
    then show ?case using t [of x] by simp
  qed simp
  have "length (fb_table (wb_broker w)) \<le> capacity"
  proof -
    have "length (fb_table (wb_broker w)) = card (fst ` set (fb_table (wb_broker w)))"
      using world_facts(1) [OF ok] distinct_card [of "map fst (fb_table (wb_broker w))"] by (simp add: broker_ok_def)
    also have "\<dots> \<le> length (fb_order (wb_broker w))"
      using world_facts(1) [OF ok] card_length [of "fb_order (wb_broker w)"] by (simp add: broker_ok_def)
    finally show ?thesis using world_facts(1) [OF ok] by (simp add: broker_ok_def)
  qed
  then have "length (broker_fds w) \<le> 1 + capacity + 2 * fb_active (wb_broker w)"
    using world_facts(2) [OF ok] c [of "wb_threads w"] by (simp add: broker_fds_def del: length_concat)
  then show ?thesis using ok by (simp add: broker_world_ok_def)
qed

text \<open>A thread at the head of the list can always finish.\<close>

lemma thread_finishes:
  assumes "wb_threads w = x # ys"
  shows "\<exists>w'. broker_step w w' \<and> wb_threads w' = ys \<and> fb_server_fd (wb_broker w') = fb_server_fd (wb_broker w) \<and>
    fb_table (wb_broker w') = fb_table (wb_broker w)"
proof (cases x)
  case (Reading c)
  let ?e = "\<lparr>cn_recv = 0, cn_uid = 0, cn_dup = -1\<rparr>"
  have "handle_request ?e c (wb_broker w) =
      ((None, None), (wb_broker w)\<lparr>fb_active := fb_active (wb_broker w) - 1\<rparr>, [Close c])"
    by (simp add: handle_request_def)
  from broker_step.request [of w "[]" c ys ?e, OF _ _ this] assms Reading show ?thesis by fastforce
next
  case (Sending c t obj)
  have "send_fd c t (wb_broker w) =
      (status_ok, (wb_broker w)\<lparr>fb_active := fb_active (wb_broker w) - 1\<rparr>, [Close t, Close c])"
    by (simp add: send_fd_def)
  from broker_step.send [of w "[]" c t obj ys, OF _ this] assms Sending show ?thesis by fastforce
qed

lemma threads_finish:
  "\<exists>w'. broker_step\<^sup>*\<^sup>* w w' \<and> wb_threads w' = [] \<and> fb_server_fd (wb_broker w') = fb_server_fd (wb_broker w) \<and>
     fb_table (wb_broker w') = fb_table (wb_broker w)"
proof (induction "wb_threads w" arbitrary: w)
  case Nil
  then show ?case by (metis rtranclp.rtrancl_refl)
next
  case (Cons x ys)
  obtain w1 where 1: "broker_step w w1" "wb_threads w1 = ys" "fb_server_fd (wb_broker w1) = fb_server_fd (wb_broker w)"
    "fb_table (wb_broker w1) = fb_table (wb_broker w)"
    using thread_finishes [OF Cons(2) [symmetric]] by blast
  obtain w' where "broker_step\<^sup>*\<^sup>* w1 w'" "wb_threads w' = []" "fb_server_fd (wb_broker w') = fb_server_fd (wb_broker w1)"
    "fb_table (wb_broker w') = fb_table (wb_broker w1)"
    using Cons(1) [of w1] 1(2) by blast
  then show ?case using 1 by (metis converse_rtranclp_into_rtranclp)
qed

lemma reachable_steps: "broker_step\<^sup>*\<^sup>* w w' \<Longrightarrow> broker_reachable w \<Longrightarrow> broker_reachable w'"
  by (induction rule: rtranclp_induct) (auto intro: broker_reachable.step)

lemma run_closes:
  "run_fds (map (\<lambda>r. Close (en_dup_fd (snd r))) t) m = (\<lambda>f. if f \<in> set (map (\<lambda>r. en_dup_fd (snd r)) t) then None else m f)"
  by (induction t arbitrary: m) (auto simp: fun_eq_iff)

text \<open>When the destructor of the broker is past its wait, it closes what is left and nothing else.\<close>

lemma cleared:
  assumes "broker_reachable w" and "fb_active (wb_broker w) = 0" and "fb_server_fd (wb_broker w) < 0"
  shows "run_fds (snd (clear_broker (wb_broker w))) (wb_fds w) =
    (\<lambda>f. if f \<in> set (broker_fds w) then None else wb_fds w f)"
proof -
  have "wb_threads w = []" using world_facts(2) [OF broker_reachable_ok [OF assms(1)]] assms(2) by simp
  then have "broker_fds w = map (\<lambda>r. en_dup_fd (snd r)) (fb_table (wb_broker w))"
    using assms(3) by (simp add: broker_fds_def)
  then show ?thesis by (simp add: clear_broker_def run_closes)
qed


section \<open>A sample run\<close>

definition sample_broker :: fd_broker where
  "sample_broker = fst (start_broker \<lparr>st_pid = 7, st_socket = 3, st_bind = 0, st_listen = 0\<rparr>)"

lemma sample_broker_facts:
  "broker_ok sample_broker" "fb_running sample_broker" "fb_table sample_broker = []" "fb_order sample_broker = []"
  "fb_server_fd sample_broker = 3" "fb_active sample_broker = 0"
  by (simp_all add: sample_broker_def start_broker_def broker_ok_def)

theorem broker_refines_window_witness:
  "window (fst (register_buffer 6 1 10 4096 sample_broker)) = [(1, \<lparr>en_dup_fd = 6, en_dmabuf_size = 4096\<rparr>)]"
proof -
  obtain b' cs where r: "register_buffer 6 1 10 4096 sample_broker = (b', cs)"
    by (cases "register_buffer 6 1 10 4096 sample_broker")
  have "window sample_broker = []" by (simp add: window_def sample_broker_facts)
  with conjunct2 [OF conjunct2 [OF broker_refines_window [OF sample_broker_facts(1) r]]] show ?thesis
    by (simp add: r sample_broker_facts(2) last_n_def capacity_def)
qed

theorem recent_buffers_available_witness:
  "map_of (fb_table (register_buffers [(2, 20, 10, 8), (3, 21, 11, 8)]
     (fst (register_buffer 6 1 10 4096 sample_broker)))) 1 = Some \<lparr>en_dup_fd = 6, en_dmabuf_size = 4096\<rparr>"
proof -
  let ?rs = "[(2, 20, 10, 8), (3, 21, 11, 8)] :: (u64 \<times> int \<times> int \<times> u64) list"
  have "\<forall>(u, d, f, s) \<in> set ?rs. u \<noteq> 0 \<and> 0 \<le> d \<and> 0 \<le> f" "1 \<notin> fst ` set (fb_table sample_broker)"
    "length ?rs < capacity"
    by (simp_all add: sample_broker_facts capacity_def)
  then show ?thesis
    using recent_buffers_available [OF sample_broker_facts(1,2), of 1 10 6 ?rs 4096] by simp
qed

lemma sample_sending: "\<exists>w. broker_reachable w \<and> wb_threads w = [Sending 4 6 5] \<and> fb_server_fd (wb_broker w) = 3"
proof -
  let ?fds = "[10 \<mapsto> 5, 3 \<mapsto> 0] :: fds"
  let ?w0 = "\<lparr>wb_broker = sample_broker, wb_threads = [], wb_fds = ?fds, wb_object = \<lambda>_. 0\<rparr>"
  have "start_broker \<lparr>st_pid = 7, st_socket = 3, st_bind = 0, st_listen = 0\<rparr> = (sample_broker, [OpenFd 3])"
    by (simp add: sample_broker_def start_broker_def)
  from broker_reachable.start [OF this, of "[10 \<mapsto> 5]" "\<lambda>_. 0"] have r0: "broker_reachable ?w0"
    by simp
  let ?b1 = "sample_broker\<lparr>fb_table := [(1, \<lparr>en_dup_fd = 8, en_dmabuf_size = 4096\<rparr>)], fb_order := [1]\<rparr>"
  have "register_buffer 8 1 10 4096 sample_broker = (?b1, [Dup 10 8])"
    by (simp add: register_buffer_def sample_broker_facts capacity_def)
  from broker_step.register [of ?w0 10 5 8 1 4096, OF _ _] this
  have r1: "broker_reachable (?w0\<lparr>wb_broker := ?b1, wb_fds := ?fds(8 \<mapsto> 5), wb_object := (\<lambda>_. 0)(1 := 5)\<rparr>)" (is "broker_reachable ?w1")
    using broker_reachable.step [OF r0] by (fastforce simp: sample_broker_facts)
  have "accept_connection 4 ?b1 = (?b1\<lparr>fb_active := 1\<rparr>, [OpenFd 4])"
    by (simp add: accept_connection_def sample_broker_facts)
  with broker_step.accept [of ?w1 4]
  have r2: "broker_reachable (?w1\<lparr>wb_broker := ?b1\<lparr>fb_active := 1\<rparr>, wb_threads := [Reading 4], wb_fds := (wb_fds ?w1)(4 \<mapsto> 0)\<rparr>)" (is "broker_reachable ?w2")
    using broker_reachable.step [OF r1] by (fastforce simp: sample_broker_facts)
  let ?e = "\<lparr>cn_recv = 8, cn_uid = 1, cn_dup = 6\<rparr>"
  have "handle_request ?e 4 (wb_broker ?w2) = ((None, Some 6), wb_broker ?w2, [Dup 8 6])"
    by (simp add: handle_request_def)
  from broker_step.request [of ?w2 "[]" 4 "[]" ?e, OF _ _ this] broker_reachable.step [OF r2]
  show ?thesis by (fastforce simp: sample_broker_facts)
qed

theorem broker_serves_registered_buffer_witness:
  "\<exists>w. broker_reachable w \<and> wb_threads w = [Sending 4 6 5] \<and> wb_fds w 6 = Some 5"
proof -
  obtain w where w: "broker_reachable w" "wb_threads w = [Sending 4 6 5]" using sample_sending by blast
  from broker_serves_registered_buffer [OF w(1)] w show ?thesis by auto
qed


end
