(* ===== verification/Qc_Buffer.thy ===== *)
theory Qc_Buffer
  imports Externals
begin

text \<open>
  The buffers of the Qualcomm backend: \<open>RpcMemLoader\<close> (\<open>rpcmem_loader.cpp\<close>), which finds the
  functions of the rpcmem library, \<open>QcBuffer\<close> (\<open>qc_buffer.cpp\<close>), the owner of one dma-buf,
  \<open>QcBufferImpl\<close> (\<open>qc_buffer_impl.hpp\<close>) and the functions of \<open>qc_buffer_api.hpp\<close>. A dma-buf is an
  object of physical memory that several processes map; a process knows it by the addresses of its mappings.
\<close>

section \<open>The rpcmem library\<close>

record rpcmem_loader =
  rl_lib :: bool
  rl_available :: bool
  rl_deinit :: bool

text \<open>What \<open>dlopen\<close> and \<open>dlsym\<close> find.\<close>

record library_env =
  dl_open :: bool
  dl_init :: bool
  dl_deinit :: bool
  dl_alloc :: bool
  dl_free :: bool
  dl_to_fd :: bool

datatype library_call = Dlopen | Dlclose | Rpcmem_Init | Rpcmem_Deinit

definition new_loader :: "library_env \<Rightarrow> rpcmem_loader \<times> library_call list" where
  "new_loader e =
     (if \<not> dl_open e then (\<lparr>rl_lib = False, rl_available = False, rl_deinit = False\<rparr>, [])
      else if \<not> dl_alloc e \<or> \<not> dl_free e \<or> \<not> dl_to_fd e
      then (\<lparr>rl_lib = False, rl_available = False, rl_deinit = dl_deinit e\<rparr>, [Dlopen, Dlclose])
      else (\<lparr>rl_lib = True, rl_available = True, rl_deinit = dl_deinit e\<rparr>,
            Dlopen # (if dl_init e then [Rpcmem_Init] else [])))"

definition destroy_loader :: "rpcmem_loader \<Rightarrow> library_call list" where
  "destroy_loader l = (if rl_lib l then (if rl_deinit l then [Rpcmem_Deinit] else []) @ [Dlclose] else [])"

text \<open>
  The answers of the library: \<open>rpcmem_alloc\<close>, by the \<open>int\<close> that it is asked for, gives an
  address (0 for a failure) and the memory behind it; \<open>rpcmem_to_fd\<close> the descriptor of an address.
\<close>

record rpcmem_env =
  rp_alloc :: "int \<Rightarrow> u64 \<times> nat"
  rp_to_fd :: "u64 \<Rightarrow> int"

definition to_int :: "u64 \<Rightarrow> int" where
  "to_int n = sint (ucast n :: 32 word)"

definition rpcmem_alloc :: "rpcmem_env \<Rightarrow> rpcmem_loader \<Rightarrow> u64 \<Rightarrow> u64 \<times> nat" where
  "rpcmem_alloc e l n = (if \<not> rl_available l then (0, 0) else rp_alloc e (to_int n))"

definition rpcmem_to_fd :: "rpcmem_env \<Rightarrow> rpcmem_loader \<Rightarrow> u64 \<Rightarrow> int" where
  "rpcmem_to_fd e l ptr = (if \<not> rl_available l \<or> ptr = 0 then -1 else rp_to_fd e ptr)"

definition rpcmem_free :: "rpcmem_loader \<Rightarrow> u64 \<Rightarrow> call list" where
  "rpcmem_free l ptr = (if rl_available l \<and> ptr \<noteq> 0 then [Release (RpcMem ptr)] else [])"

section \<open>Memory\<close>

text \<open>
  \<open>qs_memory\<close> are the contents of the dma-bufs, the same for all processes, \<open>qs_mapped\<close> the mappings of
  one process: the object and the length mapped. An access outside what is mapped, or beyond the end of the
  object, is undefined behaviour; it is the value \<open>None\<close>.
\<close>

record qc_state =
  qs_loader :: rpcmem_loader
  qs_next_uid :: u64
  qs_mapped :: "u64 \<Rightarrow> (nat \<times> nat) option"
  qs_memory :: "nat \<Rightarrow> u8 list"
  qs_calls :: "call list"

definition read_memory :: "qc_state \<Rightarrow> u64 \<Rightarrow> nat \<Rightarrow> u8 list option" where
  "read_memory st ptr n =
     (case qs_mapped st ptr of
        None \<Rightarrow> None
      | Some (obj, len) \<Rightarrow> if n \<le> len \<and> n \<le> length (qs_memory st obj) then Some (take n (qs_memory st obj)) else None)"

definition write_memory :: "u64 \<Rightarrow> u8 list \<Rightarrow> qc_state \<Rightarrow> qc_state option" where
  "write_memory ptr bs st =
     (case qs_mapped st ptr of
        None \<Rightarrow> None
      | Some (obj, len) \<Rightarrow>
          if length bs \<le> len \<and> length bs \<le> length (qs_memory st obj)
          then Some (st\<lparr>qs_memory := (qs_memory st)(obj := bs @ drop (length bs) (qs_memory st obj))\<rparr>) else None)"

section \<open>\<open>QcBuffer\<close>\<close>

datatype origin = kRpcmem | kMmap

record qc_buffer =
  qb_ptr :: u64
  qb_fd :: int
  qb_size :: u64
  qb_uid :: u64
  qb_origin :: origin

definition empty_qc :: qc_buffer where
  "empty_qc = \<lparr>qb_ptr = 0, qb_fd = -1, qb_size = 0, qb_uid = 0, qb_origin = kRpcmem\<rparr>"

definition next_uid :: "qc_state \<Rightarrow> u64 \<times> qc_state" where
  "next_uid st = (qs_next_uid st, st\<lparr>qs_next_uid := qs_next_uid st + 1\<rparr>)"

definition allocate_qc :: "rpcmem_env \<Rightarrow> u64 \<Rightarrow> qc_state \<Rightarrow> (exn + qc_buffer) \<times> qc_state" where
  "allocate_qc e byte_size st =
     (if byte_size = 0 then (Inr empty_qc, st)
      else if \<not> rl_available (qs_loader st) then
        (Inl (QcError ''qc buffer allocation requested but rpcmem (libcdsprpc.so) is unavailable''), st)
      else
        (let (ptr, obj) = rpcmem_alloc e (qs_loader st) byte_size
         in if ptr = 0 then
              (Inl (QcError (''rpcmem_alloc failed for '' @ to_string (uint byte_size) @ '' bytes'')), st)
            else
              (let fd = rpcmem_to_fd e (qs_loader st) ptr;
                   st1 = st\<lparr>qs_calls := qs_calls st @ [Acquire (RpcMem ptr)]\<rparr>
               in if fd < 0 then
                    (Inl (QcError ''rpcmem_to_fd failed''),
                     st1\<lparr>qs_calls := qs_calls st1 @ rpcmem_free (qs_loader st) ptr\<rparr>)
                  else
                    (let (uid, st2) =
                       next_uid (st1\<lparr>qs_mapped := (qs_mapped st1)(ptr \<mapsto> (obj, length (qs_memory st obj)))\<rparr>)
                     in (Inr \<lparr>qb_ptr = ptr, qb_fd = fd, qb_size = byte_size, qb_uid = uid, qb_origin = kRpcmem\<rparr>,
                         st2)))))"

text \<open>The constructor that adopts a mapping.\<close>

definition adopt_qc :: "u64 \<Rightarrow> u64 \<Rightarrow> int \<Rightarrow> qc_state \<Rightarrow> qc_buffer \<times> qc_state" where
  "adopt_qc ptr sz fd st =
     (let (uid, st1) = next_uid st
      in (\<lparr>qb_ptr = ptr, qb_fd = fd, qb_size = sz, qb_uid = uid, qb_origin = kMmap\<rparr>, st1))"

definition reset_qc :: "qc_buffer \<Rightarrow> qc_state \<Rightarrow> qc_buffer \<times> qc_state" where
  "reset_qc b st =
     (b\<lparr>qb_ptr := 0, qb_fd := -1, qb_size := 0, qb_uid := 0\<rparr>,
      if qb_ptr b = 0 then st
      else
        (let cs = (if qb_origin b = kMmap
                   then Release (DataMapping (qb_ptr b)) # (if qb_fd b \<ge> 0 then [Close (qb_fd b)] else [])
                   else rpcmem_free (qs_loader st) (qb_ptr b))
         in st\<lparr>qs_calls := qs_calls st @ cs, qs_mapped := (qs_mapped st)(qb_ptr b := None)\<rparr>))"

text \<open>The move constructor and the move assignment: what the target and the source become.\<close>

definition move_qc :: "qc_buffer \<Rightarrow> qc_buffer \<times> qc_buffer" where
  "move_qc other = (other, other\<lparr>qb_ptr := 0, qb_fd := -1, qb_size := 0, qb_uid := 0\<rparr>)"

definition move_assign_qc :: "qc_buffer \<Rightarrow> qc_buffer \<Rightarrow> qc_state \<Rightarrow> (qc_buffer \<times> qc_buffer) \<times> qc_state" where
  "move_assign_qc this other st = (move_qc other, snd (reset_qc this st))"

section \<open>\<open>QcBufferImpl\<close>\<close>

text \<open>The element type is known by its size \<open>es\<close>.\<close>

record qc_impl =
  qi_size :: u64
  qi_buffer :: "qc_buffer option"

definition empty_impl :: qc_impl where
  "empty_impl = \<lparr>qi_size = 0, qi_buffer = None\<rparr>"

definition new_impl :: "rpcmem_env \<Rightarrow> u64 \<Rightarrow> u64 \<Rightarrow> qc_state \<Rightarrow> (exn + qc_impl) \<times> qc_state" where
  "new_impl e es n st =
     (if n > 0 then
        (case allocate_qc e (n * es) st of
           (Inl x, st1) \<Rightarrow> (Inl x, st1)
         | (Inr b, st1) \<Rightarrow> (Inr \<lparr>qi_size = n, qi_buffer = Some b\<rparr>, st1))
      else (Inr \<lparr>qi_size = n, qi_buffer = None\<rparr>, st))"

text \<open>
  The subscriber's constructor: \<open>mm\<close> is the address that \<open>mmap\<close> gives, if any, \<open>obj\<close> the dma-buf that
  \<open>fd\<close> refers to.
\<close>

definition map_impl :: "u64 option \<Rightarrow> nat \<Rightarrow> string \<Rightarrow> int \<Rightarrow> u64 \<Rightarrow> u64 \<Rightarrow> qc_state \<Rightarrow> (exn + qc_impl) \<times> qc_state" where
  "map_impl mm obj strerror fd dmabuf_size element_count st =
     (case mm of
        None \<Rightarrow>
          (Inl (QcError (''QcBufferImpl: mmap of cross-process dma-buf failed: '' @ strerror)),
           st\<lparr>qs_calls := qs_calls st @ [Close fd]\<rparr>)
      | Some ptr \<Rightarrow>
          (let (b, st1) = adopt_qc ptr dmabuf_size fd
             (st\<lparr>qs_calls := qs_calls st @ [Acquire (DataMapping ptr)],
                 qs_mapped := (qs_mapped st)(ptr \<mapsto> (obj, unat dmabuf_size))\<rparr>)
           in (Inr \<lparr>qi_size = element_count, qi_buffer = Some b\<rparr>, st1)))"

definition data_of :: "qc_impl \<Rightarrow> u64" where
  "data_of i = (case qi_buffer i of None \<Rightarrow> 0 | Some b \<Rightarrow> qb_ptr b)"

text \<open>\<open>to_cpu\<close>: zeroed storage for all elements, over which the bytes are copied.\<close>

definition qc_to_cpu :: "u64 \<Rightarrow> qc_impl \<Rightarrow> qc_state \<Rightarrow> u8 list option" where
  "qc_to_cpu es i st =
     (let storage = replicate (unat (qi_size i) * unat es) 0
      in if qi_size i > 0 \<and> data_of i \<noteq> 0 then
           (case read_memory st (data_of i) (unat (qi_size i * es)) of
              None \<Rightarrow> None
            | Some bs \<Rightarrow> Some (bs @ drop (length bs) storage))
         else Some storage)"

text \<open>\<open>clone\<close>, with \<open>None\<close> for a copy that leaves the memory.\<close>

definition qc_clone :: "rpcmem_env \<Rightarrow> u64 \<Rightarrow> qc_impl \<Rightarrow> qc_state \<Rightarrow> ((exn + qc_impl) \<times> qc_state) option" where
  "qc_clone e es i st =
     (case new_impl e es (qi_size i) st of
        (Inl x, st1) \<Rightarrow> Some (Inl x, st1)
      | (Inr copy, st1) \<Rightarrow>
          if qi_size i > 0 \<and> data_of i \<noteq> 0 \<and> data_of copy \<noteq> 0 then
            (case read_memory st1 (data_of i) (unat (qi_size i * es)) of
               None \<Rightarrow> None
             | Some bs \<Rightarrow> map_option (\<lambda>st2. (Inr copy, st2)) (write_memory (data_of copy) bs st1))
          else Some (Inr copy, st1))"

section \<open>The functions for applications\<close>

text \<open>The implementation behind a \<open>rosidl::Buffer<uint8_t>\<close>: a Qualcomm one or another one.\<close>

datatype qc_any_impl = Qc_Impl qc_impl | Other_Impl

fun qc_impl_of :: "qc_any_impl \<Rightarrow> qc_impl option" where
  "qc_impl_of (Qc_Impl i) = Some i"
| "qc_impl_of Other_Impl = None"

definition get_dmabuf_fd :: "qc_any_impl \<Rightarrow> int" where
  "get_dmabuf_fd a =
     (case qc_impl_of a of
        None \<Rightarrow> -1
      | Some i \<Rightarrow> (case qi_buffer i of None \<Rightarrow> -1 | Some b \<Rightarrow> qb_fd b))"

definition get_data_ptr :: "qc_any_impl \<Rightarrow> u64" where
  "get_data_ptr a = (case qc_impl_of a of None \<Rightarrow> 0 | Some i \<Rightarrow> data_of i)"

section \<open>What a buffer owns\<close>

definition qc_res :: "qc_buffer \<Rightarrow> resource multiset" where
  "qc_res b =
     (if qb_ptr b = 0 then {#}
      else case qb_origin b of
        kRpcmem \<Rightarrow> {#RpcMem (qb_ptr b)#} | kMmap \<Rightarrow> add_mset (DataMapping (qb_ptr b)) (fd_res (qb_fd b)))"

text \<open>
  The buffers of a process, in slots, and what is done with them: made in either way, moved, assigned
  and destroyed. A descriptor that is adopted was received before.
\<close>

record qc_world =
  qw_slots :: "qc_buffer list"
  qw_state :: qc_state

inductive qc_step :: "qc_world \<Rightarrow> qc_world \<Rightarrow> bool" where
  allocate:
    "allocate_qc e n (qw_state w) = (r, st) \<Longrightarrow>
     qc_step w (w\<lparr>qw_slots := qw_slots w @ (case r of Inl x \<Rightarrow> [] | Inr b \<Rightarrow> [b]), qw_state := st\<rparr>)"
| receive:
    "0 \<le> fd \<Longrightarrow> mm \<noteq> Some 0 \<Longrightarrow>
     map_impl mm obj err fd sz n ((qw_state w)\<lparr>qs_calls := qs_calls (qw_state w) @ [OpenFd fd]\<rparr>) = (r, st) \<Longrightarrow>
     qc_step w (w\<lparr>qw_slots := qw_slots w @ (case r of Inl x \<Rightarrow> [] | Inr i \<Rightarrow> [the (qi_buffer i)]), qw_state := st\<rparr>)"
| move:
    "i < length (qw_slots w) \<Longrightarrow> move_qc (qw_slots w ! i) = (new, old) \<Longrightarrow>
     qc_step w (w\<lparr>qw_slots := (qw_slots w)[i := old] @ [new]\<rparr>)"
| assign:
    "i < length (qw_slots w) \<Longrightarrow> j < length (qw_slots w) \<Longrightarrow> i \<noteq> j \<Longrightarrow>
     move_assign_qc (qw_slots w ! i) (qw_slots w ! j) (qw_state w) = ((this, other), st) \<Longrightarrow>
     qc_step w (w\<lparr>qw_slots := (qw_slots w)[i := this, j := other], qw_state := st\<rparr>)"
| destroy:
    "i < length (qw_slots w) \<Longrightarrow> reset_qc (qw_slots w ! i) (qw_state w) = (b, st) \<Longrightarrow>
     qc_step w (w\<lparr>qw_slots := (qw_slots w)[i := b], qw_state := st\<rparr>)"

inductive qc_reachable :: "qc_world \<Rightarrow> bool" where
  start: "qs_calls st = [] \<Longrightarrow> qc_reachable \<lparr>qw_slots = [], qw_state = st\<rparr>"
| step: "qc_reachable w \<Longrightarrow> qc_step w w' \<Longrightarrow> qc_reachable w'"

definition qc_inv :: "qc_world \<Rightarrow> bool" where
  "qc_inv w \<longleftrightarrow>
     (\<forall>b \<in> set (qw_slots w). qb_ptr b \<noteq> 0 \<and> qb_origin b = kRpcmem \<longrightarrow> rl_available (qs_loader (qw_state w))) \<and>
     ledger (qs_calls (qw_state w)) {#} = Some (sum_list (map qc_res (qw_slots w)))"

lemma qc_res_null [simp]: "qb_ptr b = 0 \<Longrightarrow> qc_res b = {#}"
  by (simp add: qc_res_def)

lemma moved_res [simp]: "qc_res (b\<lparr>qb_ptr := 0, qb_fd := fd, qb_size := sz, qb_uid := u\<rparr>) = {#}"
  by (simp add: qc_res_def)

lemma reset_qc_calls:
  assumes "reset_qc b st = (b', st')" and "qb_ptr b \<noteq> 0 \<and> qb_origin b = kRpcmem \<longrightarrow> rl_available (qs_loader st)"
  shows "\<exists>cs. qs_calls st' = qs_calls st @ cs \<and> (\<forall>R. ledger cs (qc_res b + R) = Some R)"
    and "qs_loader st' = qs_loader st" and "qb_ptr b' = 0"
  using assms
  by (cases "qb_origin b"; auto simp: reset_qc_def Let_def rpcmem_free_def qc_res_def)+

lemma sum_list_cleared:
  assumes "i < length xs" and "f y = ({#} :: 'a multiset)"
  shows "sum_list (map f xs) = f (xs ! i) + sum_list (map f (xs[i := y]))"
  using assms(1)
proof (induction xs arbitrary: i)
  case (Cons x xs)
  then show ?case using assms(2) by (cases i) (simp_all add: ac_simps)
qed simp

lemma allocate_qc_calls:
  assumes "allocate_qc e n st = (r, st')"
  shows "\<exists>cs. qs_calls st' = qs_calls st @ cs \<and>
      (\<forall>R. ledger cs R = Some ((case r of Inl x \<Rightarrow> {#} | Inr b \<Rightarrow> qc_res b) + R))"
    and "qs_loader st' = qs_loader st"
    and "r = Inr b \<Longrightarrow> qb_ptr b \<noteq> 0 \<longrightarrow> rl_available (qs_loader st)"
  using assms
  by (auto simp: allocate_qc_def next_uid_def Let_def rpcmem_free_def empty_qc_def qc_res_def split_beta
      split: if_splits)

lemma map_impl_calls:
  assumes "map_impl mm obj err fd sz n st = (r, st')" and "0 \<le> fd" and "mm \<noteq> Some 0"
  shows "\<exists>cs. qs_calls st' = qs_calls st @ cs \<and> (\<forall>R. ledger cs (add_mset (Fd fd) R) =
      Some ((case r of Inl x \<Rightarrow> {#} | Inr i \<Rightarrow> qc_res (the (qi_buffer i))) + R))"
    and "qs_loader st' = qs_loader st"
    and "r = Inr i \<Longrightarrow> qb_origin (the (qi_buffer i)) = kMmap"
  using assms
  by (auto simp: map_impl_def adopt_qc_def next_uid_def Let_def qc_res_def split: option.splits)

lemma qc_step_inv:
  assumes "qc_step w w'" and "qc_inv w"
  shows "qc_inv w'"
  using assms(1)
proof cases
  case (allocate e n r st)
  obtain cs where cs: "qs_calls st = qs_calls (qw_state w) @ cs"
    "\<And>R. ledger cs R = Some ((case r of Inl x \<Rightarrow> {#} | Inr b \<Rightarrow> qc_res b) + R)"
    using allocate_qc_calls(1) [OF allocate(2)] by blast
  then show ?thesis
    using assms(2) allocate_qc_calls(2,3) [OF allocate(2)]
    by (cases r) (auto simp: allocate(1) qc_inv_def ledger_append_Some ac_simps)
next
  case (receive fd mm obj err sz n r st)
  obtain cs where cs: "qs_calls st = (qs_calls (qw_state w) @ [OpenFd fd]) @ cs"
    "\<And>R. ledger cs (add_mset (Fd fd) R) = Some ((case r of Inl x \<Rightarrow> {#} | Inr i \<Rightarrow> qc_res (the (qi_buffer i))) + R)"
    using map_impl_calls(1) [OF receive(4,2,3)] by auto
  then show ?thesis
    using assms(2) map_impl_calls(2,3) [OF receive(4,2,3)]
    by (cases r) (auto simp: receive(1) qc_inv_def ledger_append_Some ac_simps)
next
  case (move i new old)
  then have "new = qw_slots w ! i" "qc_res old = {#}" "qb_ptr old = 0" by (auto simp: move_qc_def)
  then show ?thesis
    using assms(2) move(1,2) sum_list_cleared [OF move(2), of qc_res old]
    by (auto simp: qc_inv_def ac_simps dest: set_update_subset_insert [THEN subsetD])
next
  case (assign i j this other st)
  obtain b st' where b: "reset_qc (qw_slots w ! i) (qw_state w) = (b, st')" by (cases "reset_qc (qw_slots w ! i) (qw_state w)")
  have t: "this = qw_slots w ! j" "qb_ptr other = 0" "st = st'"
    using assign(5) b by (auto simp: move_assign_qc_def move_qc_def)
  have "qb_ptr (qw_slots w ! i) \<noteq> 0 \<and> qb_origin (qw_slots w ! i) = kRpcmem \<longrightarrow> rl_available (qs_loader (qw_state w))"
    using assms(2) nth_mem [OF assign(2)] unfolding qc_inv_def by blast
  note r = reset_qc_calls [OF b this]
  then obtain cs where cs: "qs_calls st' = qs_calls (qw_state w) @ cs"
    "\<And>R. ledger cs (qc_res (qw_slots w ! i) + R) = Some R" by blast
  let ?xs = "(qw_slots w)[i := empty_qc]"
  have e: "qc_res empty_qc = {#}" by (simp add: empty_qc_def)
  have 1: "sum_list (map qc_res (qw_slots w)) = qc_res (qw_slots w ! i) + sum_list (map qc_res ?xs)"
    by (rule sum_list_cleared [OF assign(2), of qc_res, OF e])
  have "sum_list (map qc_res ?xs) = qc_res (?xs ! j) + sum_list (map qc_res (?xs[j := other]))"
    using assign(3) t(2) by (intro sum_list_cleared) simp_all
  moreover have "sum_list (map qc_res ((qw_slots w)[i := this, j := other])) =
      qc_res this + sum_list (map qc_res (?xs[j := other]))"
  proof -
    have "((qw_slots w)[i := this, j := other])[i := empty_qc] = ?xs[j := other]"
      using assign(4) by (simp add: list_update_swap)
    then show ?thesis
      using sum_list_cleared [of i "(qw_slots w)[i := this, j := other]" qc_res empty_qc] e assign(2,4) by simp
  qed
  ultimately have "sum_list (map qc_res (qw_slots w)) =
      qc_res (qw_slots w ! i) + sum_list (map qc_res ((qw_slots w)[i := this, j := other]))"
    using 1 assign(4) t(1) by simp
  moreover have "\<forall>b \<in> set ((qw_slots w)[i := this, j := other]). qb_ptr b \<noteq> 0 \<and> qb_origin b = kRpcmem \<longrightarrow>
      rl_available (qs_loader (qw_state w))"
    using assms(2) assign(3) t(1,2)
    by (auto simp: qc_inv_def dest!: set_update_subset_insert [THEN subsetD])
  ultimately show ?thesis
    using assms(2) cs r(2) t(3) by (simp add: assign(1) qc_inv_def ledger_append_Some)
next
  case (destroy i b st)
  have "qb_ptr (qw_slots w ! i) \<noteq> 0 \<and> qb_origin (qw_slots w ! i) = kRpcmem \<longrightarrow> rl_available (qs_loader (qw_state w))"
    using assms(2) nth_mem [OF destroy(2)] unfolding qc_inv_def by blast
  note r = reset_qc_calls [OF destroy(3) this]
  then obtain cs where cs: "qs_calls st = qs_calls (qw_state w) @ cs"
    "\<And>R. ledger cs (qc_res (qw_slots w ! i) + R) = Some R" by blast
  have "sum_list (map qc_res (qw_slots w)) = qc_res (qw_slots w ! i) + sum_list (map qc_res ((qw_slots w)[i := b]))"
    using sum_list_cleared [OF destroy(2), of qc_res b] r(3) by simp
  then show ?thesis
    using assms(2) cs r(2,3)
    by (auto simp: destroy(1) qc_inv_def ledger_append_Some dest!: set_update_subset_insert [THEN subsetD])
qed

lemma qc_reachable_inv: "qc_reachable w \<Longrightarrow> qc_inv w"
proof (induction rule: qc_reachable.induct)
  case (start st)
  then show ?case by (simp add: qc_inv_def)
qed (rule qc_step_inv)

text \<open>
  C35. In every state that a process reaches by allocating, receiving, moving, assigning and destroying Qualcomm buffers, the
  calls made acquire and release in order, and what is still held is exactly what the buffers that are not null own: one
  rpcmem allocation each, or one mapping and its descriptor. When all buffers are null nothing is held: each resource was
  released exactly once, by the library that gave it.
\<close>

theorem qc_buffers_released_once:
  assumes "qc_reachable w"
  shows "ledger (qs_calls (qw_state w)) {#} = Some (sum_list (map qc_res (qw_slots w))) \<and>
    ((\<forall>b \<in> set (qw_slots w). qb_ptr b = 0) \<longrightarrow> ledger (qs_calls (qw_state w)) {#} = Some {#})"
proof -
  have "ledger (qs_calls (qw_state w)) {#} = Some (sum_list (map qc_res (qw_slots w)))"
    using qc_reachable_inv [OF assms] by (simp add: qc_inv_def)
  moreover have "sum_list (map qc_res bs) = {#}" if "\<forall>b \<in> set bs. qb_ptr b = 0" for bs
    using that by (induction bs) simp_all
  ultimately show ?thesis by simp
qed

section \<open>The size of an allocation\<close>

text \<open>\<open>rpcmem_alloc\<close> as it is documented: memory of as many bytes as it was asked for.\<close>

definition honours_size :: "rpcmem_env \<Rightarrow> qc_state \<Rightarrow> bool" where
  "honours_size e st \<longleftrightarrow> (\<forall>k ptr obj. rp_alloc e k = (ptr, obj) \<and> ptr \<noteq> 0 \<longrightarrow> length (qs_memory st obj) = nat k)"

lemma to_int_bound: "to_int n < 2147483648"
  unfolding to_int_def by (rule order_less_le_trans [OF sint_lt]) simp

lemma to_int_small:
  assumes "unat n < 2147483648"
  shows "to_int n = int (unat n)"
proof -
  have b: "uint n < 2147483648" using assms by (metis of_nat_less_iff of_nat_numeral uint_nat)
  have nn: "0 \<le> uint n" by (rule unsigned_greater_eq)
  have "take_bit 32 (uint n) = uint n"
    by (rule take_bit_int_eq_self [OF nn]) (rule order_less_trans [OF b], simp)
  then have "uint (ucast n :: 32 word) = uint n" by (simp add: unsigned_ucast_eq)
  then have "to_int n = signed_take_bit 31 (uint n)" by (simp add: to_int_def sint_uint)
  also have "\<dots> = uint n"
  proof (rule signed_take_bit_int_eq_self)
    show "- (2 ^ 31) \<le> uint n" by (rule order_trans [OF _ nn]) simp
    show "uint n < 2 ^ 31" using b by simp
  qed
  finally show ?thesis by (simp only: uint_nat)
qed

lemma to_int_fits: "unat n \<le> nat (to_int n) \<longleftrightarrow> unat n < 2147483648"
proof
  assume "unat n \<le> nat (to_int n)"
  moreover have "nat (to_int n) < 2147483648" using to_int_bound [of n] by simp
  ultimately show "unat n < 2147483648" by linarith
qed (simp add: to_int_small)

lemma allocate_qc_succeeds:
  assumes "rl_available (qs_loader st)" and "n \<noteq> 0" and "rp_alloc e (to_int n) = (ptr, obj)" and "ptr \<noteq> 0"
    and "0 \<le> rp_to_fd e ptr"
  shows "\<exists>st'. allocate_qc e n st =
      (Inr \<lparr>qb_ptr = ptr, qb_fd = rp_to_fd e ptr, qb_size = n, qb_uid = qs_next_uid st, qb_origin = kRpcmem\<rparr>, st') \<and>
    qs_mapped st' = (qs_mapped st)(ptr \<mapsto> (obj, length (qs_memory st obj))) \<and> qs_memory st' = qs_memory st \<and>
    qs_next_uid st' = qs_next_uid st + 1"
  using assms by (simp add: allocate_qc_def rpcmem_alloc_def rpcmem_to_fd_def next_uid_def Let_def)

text \<open>
  An implementation of \<open>n\<close> bytes whose allocation succeeds can be read as a whole exactly if \<open>n\<close> is below 2 GiB: the
  size is cast to \<open>int\<close> for \<open>rpcmem_alloc\<close>, so that a larger size asks for other, possibly smaller memory, while the
  buffer keeps \<open>n\<close> as its size and a read of it leaves the memory.
\<close>

theorem allocation_usable_below_2GiB:
  assumes "rl_available (qs_loader st)" and "n \<noteq> 0" and "rp_alloc e (to_int n) = (ptr, obj)" and "ptr \<noteq> 0"
    and "0 \<le> rp_to_fd e ptr" and "honours_size e st"
  shows "\<exists>i st'. new_impl e 1 n st = (Inr i, st') \<and> qi_size i = n \<and> data_of i = ptr \<and>
    (qc_to_cpu 1 i st' = None \<longleftrightarrow> 2147483648 \<le> unat n) \<and>
    (unat n < 2147483648 \<longrightarrow> qc_to_cpu 1 i st' = Some (qs_memory st obj))"
proof -
  obtain st' where a: "allocate_qc e n st =
      (Inr \<lparr>qb_ptr = ptr, qb_fd = rp_to_fd e ptr, qb_size = n, qb_uid = qs_next_uid st, qb_origin = kRpcmem\<rparr>, st')"
    "qs_mapped st' = (qs_mapped st)(ptr \<mapsto> (obj, length (qs_memory st obj)))" "qs_memory st' = qs_memory st"
    using allocate_qc_succeeds [OF assms(1-5)] by blast
  let ?i = "\<lparr>qi_size = n, qi_buffer = Some \<lparr>qb_ptr = ptr, qb_fd = rp_to_fd e ptr, qb_size = n,
      qb_uid = qs_next_uid st, qb_origin = kRpcmem\<rparr>\<rparr>"
  have pos: "0 < n" using assms(2) by (simp add: word_gt_0)
  have i: "new_impl e 1 n st = (Inr ?i, st')" using a(1) pos by (simp add: new_impl_def)
  have len: "length (qs_memory st obj) = nat (to_int n)" using assms(3,4,6) by (simp add: honours_size_def)
  have r: "read_memory st' ptr (unat n) = (if unat n < 2147483648 then Some (take (unat n) (qs_memory st obj)) else None)"
    using a(2,3) len to_int_fits [of n] by (simp add: read_memory_def)
  have c: "qc_to_cpu 1 ?i st' = (if unat n < 2147483648 then Some (qs_memory st obj) else None)"
    using r pos assms(4) len to_int_small [of n] by (auto simp: qc_to_cpu_def data_of_def)
  show ?thesis
    by (intro exI [of _ ?i] exI [of _ st']) (use i c in \<open>auto simp: data_of_def\<close>)
qed

text \<open>
  A clone of a readable buffer of less than 2 GiB has its bytes in other memory, and leaves the bytes of the original as
  they are.
\<close>

theorem clone_copies:
  assumes "rl_available (qs_loader st)" and "qi_size i \<noteq> 0" and "unat (qi_size i) < 2147483648" and "data_of i \<noteq> 0"
    and "qc_to_cpu 1 i st = Some bs" and "qs_mapped st (data_of i) = Some (src, len)"
    and "rp_alloc e (to_int (qi_size i)) = (ptr, obj)" and "ptr \<noteq> 0" and "0 \<le> rp_to_fd e ptr" and "honours_size e st"
    and "qs_mapped st ptr = None" and "obj \<noteq> src"
  shows "\<exists>c st'. qc_clone e 1 i st = Some (Inr c, st') \<and> qc_to_cpu 1 c st' = Some bs \<and> qc_to_cpu 1 i st' = Some bs \<and>
    data_of c = ptr \<and> ptr \<noteq> data_of i \<and> qs_memory st' src = qs_memory st src"
proof -
  let ?n = "qi_size i"
  let ?b = "\<lparr>qb_ptr = ptr, qb_fd = rp_to_fd e ptr, qb_size = ?n, qb_uid = qs_next_uid st, qb_origin = kRpcmem\<rparr>"
  let ?c = "\<lparr>qi_size = ?n, qi_buffer = Some ?b\<rparr>"
  obtain st1 where a: "allocate_qc e ?n st = (Inr ?b, st1)"
    "qs_mapped st1 = (qs_mapped st)(ptr \<mapsto> (obj, length (qs_memory st obj)))" "qs_memory st1 = qs_memory st"
    using allocate_qc_succeeds [OF assms(1,2,7-9)] by blast
  have pos: "0 < ?n" using assms(2) by (simp add: word_gt_0)
  have ne: "ptr \<noteq> data_of i" using assms(6,11) by auto
  have len: "length (qs_memory st obj) = unat ?n"
    using assms(3,7,8,10) to_int_small [of ?n] by (simp add: honours_size_def)
  have rd: "unat ?n \<le> len" "unat ?n \<le> length (qs_memory st src)" "bs = take (unat ?n) (qs_memory st src)"
    using assms(4,5,6) pos by (auto simp: qc_to_cpu_def read_memory_def split: if_splits)
  let ?st = "st1\<lparr>qs_memory := (qs_memory st)(obj := bs)\<rparr>"
  have "new_impl e 1 ?n st = (Inr ?c, st1)" using a(1) pos by (simp add: new_impl_def)
  then have "qc_clone e 1 i st = Some (Inr ?c, ?st)"
    using a(2,3) rd len ne assms(4,6,8) pos
    by (simp add: qc_clone_def data_of_def [of ?c] read_memory_def write_memory_def)
  moreover have "qc_to_cpu 1 ?c ?st = Some bs"
    using a(2) rd len pos assms(8) by (simp add: qc_to_cpu_def data_of_def read_memory_def)
  moreover have "qc_to_cpu 1 i ?st = Some bs"
    using a(2) rd pos ne assms(4,6,12) by (simp add: qc_to_cpu_def read_memory_def)
  ultimately show ?thesis
    using ne assms(12) by (intro exI [of _ ?c] exI [of _ ?st]) (simp add: data_of_def)
qed

section \<open>Samples\<close>

definition sample_rpcmem :: "int \<Rightarrow> rpcmem_env" where
  "sample_rpcmem n = \<lparr>rp_alloc = (\<lambda>k. if k = n then (4096, 1) else (0, 0)), rp_to_fd = (\<lambda>_. 10)\<rparr>"

definition sample_qc_state :: "u8 list \<Rightarrow> qc_state" where
  "sample_qc_state bs =
     \<lparr>qs_loader = \<lparr>rl_lib = True, rl_available = True, rl_deinit = True\<rparr>, qs_next_uid = 1, qs_mapped = Map.empty,
      qs_memory = (\<lambda>_. bs), qs_calls = []\<rparr>"

lemma sample_qc_facts:
  "rl_available (qs_loader (sample_qc_state bs))" "rp_alloc (sample_rpcmem n) n = (4096, 1)"
  "0 \<le> rp_to_fd (sample_rpcmem n) ptr" "qs_mapped (sample_qc_state bs) = Map.empty"
  "length bs = nat n \<Longrightarrow> honours_size (sample_rpcmem n) (sample_qc_state bs)"
  by (auto simp: sample_qc_state_def sample_rpcmem_def honours_size_def split: if_splits)

theorem qc_buffers_released_once_witness:
  "\<exists>b st st2. allocate_qc (sample_rpcmem 3) 3 (sample_qc_state [1, 2, 3]) = (Inr b, st) \<and> qb_ptr b = 4096 \<and>
     reset_qc b st = (b\<lparr>qb_ptr := 0, qb_fd := -1, qb_size := 0, qb_uid := 0\<rparr>, st2) \<and> qs_calls st2 \<noteq> [] \<and>
     ledger (qs_calls st2) {#} = Some {#}"
proof -
  let ?s = "sample_qc_state [1, 2, 3]" and ?e = "sample_rpcmem 3"
  let ?b = "\<lparr>qb_ptr = 4096, qb_fd = 10, qb_size = 3, qb_uid = 1, qb_origin = kRpcmem\<rparr>"
  obtain st where a: "allocate_qc ?e 3 ?s = (Inr ?b, st)" "qs_calls st = [Acquire (RpcMem 4096)]"
    by (simp add: allocate_qc_def sample_qc_state_def sample_rpcmem_def rpcmem_alloc_def rpcmem_to_fd_def next_uid_def
        to_int_def Let_def)
  let ?b' = "?b\<lparr>qb_ptr := 0, qb_fd := -1, qb_size := 0, qb_uid := 0\<rparr>"
  obtain st2 where d: "reset_qc ?b st = (?b', st2)" "qs_calls st2 \<noteq> []" using a(2) by (simp add: reset_qc_def Let_def)
  have "qc_reachable \<lparr>qw_slots = [], qw_state = ?s\<rparr>" by (rule qc_reachable.start) (simp add: sample_qc_state_def)
  from qc_reachable.step [OF this qc_step.allocate [of ?e 3 _ "Inr ?b" st]] a(1)
  have "qc_reachable \<lparr>qw_slots = [?b], qw_state = st\<rparr>" by simp
  from qc_reachable.step [OF this qc_step.destroy [of 0 _ ?b' st2]] d(1)
  have r: "qc_reachable \<lparr>qw_slots = [?b'], qw_state = st2\<rparr>" by simp
  from qc_buffers_released_once [OF r] have "ledger (qs_calls st2) {#} = Some {#}" by simp
  with a(1) d show ?thesis by (intro exI [of _ ?b]) auto
qed

text \<open>4 GiB and 4096 bytes are asked for; 4096 are allocated.\<close>

theorem allocation_usable_below_2GiB_witness:
  "\<exists>i st'. new_impl (sample_rpcmem 4096) 1 4294971392 (sample_qc_state (replicate 4096 0)) = (Inr i, st') \<and>
     qi_size i = 4294971392 \<and> qc_to_cpu 1 i st' = None"
proof -
  let ?s = "sample_qc_state (replicate 4096 0)"
  have t: "to_int 4294971392 = 4096" by (simp add: to_int_def)
  have "rp_alloc (sample_rpcmem 4096) (to_int 4294971392) = (4096, 1)" "(4294971392 :: u64) \<noteq> 0" "(4096 :: u64) \<noteq> 0"
    "honours_size (sample_rpcmem 4096) ?s"
    unfolding t by (simp_all add: sample_qc_facts)
  from allocation_usable_below_2GiB [OF sample_qc_facts(1) this(2,1,3) sample_qc_facts(3) this(4)] show ?thesis by auto
qed

theorem clone_copies_witness:
  "\<exists>c st'. qc_clone (sample_rpcmem 3) 1 \<lparr>qi_size = 3, qi_buffer = Some \<lparr>qb_ptr = 8192, qb_fd = 5, qb_size = 3, qb_uid = 9,
       qb_origin = kMmap\<rparr>\<rparr> ((sample_qc_state [1, 2, 3])\<lparr>qs_mapped := [8192 \<mapsto> (2, 3)]\<rparr>) = Some (Inr c, st') \<and>
     qc_to_cpu 1 c st' = Some [1, 2, 3] \<and> data_of c = 4096"
proof -
  let ?i = "\<lparr>qi_size = 3, qi_buffer = Some \<lparr>qb_ptr = 8192, qb_fd = 5, qb_size = 3, qb_uid = 9, qb_origin = kMmap\<rparr>\<rparr> :: qc_impl"
  let ?s = "(sample_qc_state [1, 2, 3])\<lparr>qs_mapped := [8192 \<mapsto> (2, 3)]\<rparr>"
  have h: "rl_available (qs_loader ?s)" "qi_size ?i \<noteq> 0" "unat (qi_size ?i) < 2147483648" "data_of ?i \<noteq> 0"
    "qc_to_cpu 1 ?i ?s = Some [1, 2, 3]" "qs_mapped ?s (data_of ?i) = Some (2, 3)"
    "rp_alloc (sample_rpcmem 3) (to_int (qi_size ?i)) = (4096, 1)" "(4096 :: u64) \<noteq> 0"
    "0 \<le> rp_to_fd (sample_rpcmem 3) 4096" "honours_size (sample_rpcmem 3) ?s" "qs_mapped ?s 4096 = None"
    by (simp_all add: sample_qc_facts data_of_def qc_to_cpu_def read_memory_def to_int_def)
      (auto simp: sample_qc_state_def sample_rpcmem_def honours_size_def split: if_splits)
  have "(1 :: nat) \<noteq> 2" by simp
  from clone_copies [OF h this] show ?thesis by blast
qed

end
