(* ===== verification/Qc_Backend.thy ===== *)
theory Qc_Backend
  imports Qc_Broker Qc_Buffer
begin

text \<open>
  \<open>QcBufferBackend\<close> of \<open>qc_buffer_backend_plugin.cpp\<close>: a published buffer is registered with the
  broker of its process and described by a message; a subscriber asks the broker named in the message for the
  descriptor of the dma-buf and maps it.
\<close>

section \<open>Publishing\<close>

record qc_descriptor =
  qd_size :: u64
  qd_element_type_name :: string
  qd_pid :: int
  qd_vaddr :: u64
  qd_uid :: u64
  qd_dmabuf_fd :: int
  qd_dmabuf_size :: u64
  qd_use_ipc :: bool
  qd_ipc_socket_path :: string

text \<open>\<open>typeid(uint8_t).name()\<close>.\<close>

definition qc_element_type :: string where "qc_element_type = ''h''"

definition empty_qc_descriptor :: qc_descriptor where
  "empty_qc_descriptor = \<lparr>qd_size = 0, qd_element_type_name = [], qd_pid = 0, qd_vaddr = 0, qd_uid = 0,
     qd_dmabuf_fd = 0, qd_dmabuf_size = 0, qd_use_ipc = False, qd_ipc_socket_path = []\<rparr>"

text \<open>\<open>dup_fd\<close> is the answer of the broker's \<open>dup\<close>.\<close>

definition create_qc_descriptor ::
  "int \<Rightarrow> int \<Rightarrow> qc_any_impl \<Rightarrow> qc_state \<Rightarrow> fd_broker \<Rightarrow> qc_descriptor option \<times> fd_broker \<times> call list" where
  "create_qc_descriptor pid dup_fd impl st broker =
     (case qc_impl_of impl of
        None \<Rightarrow> (None, broker, [])
      | Some i \<Rightarrow>
          if \<not> rl_available (qs_loader st) then (None, broker, [])
          else
            (case qi_buffer i of
               None \<Rightarrow> (None, broker, [])
             | Some qc \<Rightarrow>
                 if qb_fd qc < 0 then (None, broker, [])
                 else if \<not> fb_running broker then (None, broker, [])
                 else
                   (let (broker', cs) = register_buffer dup_fd (qb_uid qc) (qb_fd qc) (qb_size qc) broker
                    in (Some \<lparr>qd_size = qi_size i, qd_element_type_name = qc_element_type, qd_pid = pid,
                          qd_vaddr = qb_ptr qc, qd_uid = qb_uid qc, qd_dmabuf_fd = qb_fd qc,
                          qd_dmabuf_size = qb_size qc, qd_use_ipc = True,
                          qd_ipc_socket_path = fb_socket_path broker'\<rparr>, broker', cs))))"

section \<open>Receiving\<close>

text \<open>
  The answers of the subscriber's kernel: the results of \<open>socket\<close>, \<open>connect\<close>, \<open>send\<close> and \<open>recvmsg\<close>, the status
  byte, whether \<open>MSG_CTRUNC\<close> was set, the descriptor of an \<open>SCM_RIGHTS\<close> message, what that descriptor
  refers to, and the result of \<open>mmap\<close>.
\<close>

record client_env =
  cl_socket :: int
  cl_connect :: int
  cl_send :: int
  cl_recvmsg :: int
  cl_status :: u8
  cl_ctrunc :: bool
  cl_cmsg :: "int option"
  cl_object :: nat
  cl_mmap :: "u64 option"
  cl_strerror :: string

text \<open>The exchange with the broker: the descriptor, or \<open>None\<close> where the code returns an empty buffer.\<close>

definition request_fd :: "client_env \<Rightarrow> int option \<times> call list" where
  "request_fd e =
     (let sock = cl_socket e
      in if sock < 0 then (None, [])
         else if cl_connect e < 0 then (None, [OpenFd sock, Close sock])
         else if cl_send e \<noteq> 8 then (None, [OpenFd sock, Close sock])
         else
           (let received_fd = (case cl_cmsg e of None \<Rightarrow> -1 | Some fd \<Rightarrow> fd);
                cs = OpenFd sock # (if cl_recvmsg e > 0 \<and> received_fd \<ge> 0 then [OpenFd received_fd] else []) @ [Close sock]
            in if cl_recvmsg e \<le> 0 \<or> cl_status e \<noteq> 1 then (None, cs)
               else if cl_ctrunc e then (None, cs)
               else if received_fd < 0 then (None, cs)
               else (Some received_fd, cs)))"

definition from_qc_descriptor :: "client_env \<Rightarrow> qc_descriptor \<Rightarrow> qc_state \<Rightarrow> qc_impl \<times> qc_state" where
  "from_qc_descriptor e d st =
     (if qd_element_type_name d \<noteq> qc_element_type then (empty_impl, st)
      else if \<not> qd_use_ipc d \<or> qd_ipc_socket_path d = [] then (empty_impl, st)
      else
        (let (received, cs) = request_fd e; st1 = st\<lparr>qs_calls := qs_calls st @ cs\<rparr>
         in case received of
              None \<Rightarrow> (empty_impl, st1)
            | Some fd \<Rightarrow>
                (case map_impl (cl_mmap e) (cl_object e) (cl_strerror e) fd (qd_dmabuf_size d) (qd_size d) st1 of
                   (Inl _, st2) \<Rightarrow> (empty_impl, st2)
                 | (Inr i, st2) \<Rightarrow> (i, st2))))"

section \<open>What a subscriber holds\<close>

text \<open>A descriptor that came with a message that the subscriber does not accept.\<close>

definition unclaimed :: "client_env \<Rightarrow> resource multiset" where
  "unclaimed e =
     (case cl_cmsg e of
        None \<Rightarrow> {#}
      | Some fd \<Rightarrow>
          if 0 \<le> cl_socket e \<and> 0 \<le> cl_connect e \<and> cl_send e = 8 \<and> 0 < cl_recvmsg e \<and> (cl_status e \<noteq> 1 \<or> cl_ctrunc e)
          then fd_res fd else {#})"

lemma request_fd_result:
  assumes "request_fd e = (r, cs)"
  shows "(case r of None \<Rightarrow> ledger cs R = Some (unclaimed e + R)
    | Some fd \<Rightarrow> 0 \<le> fd \<and> unclaimed e = {#} \<and> ledger cs R = Some (add_mset (Fd fd) R))"
  using assms
  by (cases "cl_socket e < 0"; cases "cl_connect e < 0"; cases "cl_send e = 8"; cases "cl_recvmsg e > 0";
      cases "cl_cmsg e"; cases "cl_status e = 1"; cases "cl_ctrunc e")
    (auto simp: request_fd_def unclaimed_def Let_def fd_res_def split: if_splits option.splits)

lemma request_fd_accepted:
  assumes "0 \<le> cl_socket e" and "0 \<le> cl_connect e" and "cl_send e = 8" and "0 < cl_recvmsg e" and "cl_status e = 1"
    and "\<not> cl_ctrunc e" and "cl_cmsg e = Some fd" and "0 \<le> fd"
  shows "request_fd e = (Some fd, [OpenFd (cl_socket e), OpenFd fd, Close (cl_socket e)])"
  using assms by (simp add: request_fd_def Let_def)

text \<open>
  C36. Whatever the broker and the kernel answer a subscriber, what it holds after \<open>from_descriptor_with_endpoint\<close> is the
  mapping and the descriptor of the buffer that it returns, or nothing with an empty buffer, except for one case: a
  descriptor that came with a status other than ok, or with a truncated control message, is never closed.
\<close>

theorem qc_receive_balanced:
  assumes "from_qc_descriptor e d st = (i, st')" and "cl_mmap e \<noteq> Some 0"
  shows "\<exists>cs. qs_calls st' = qs_calls st @ cs \<and> (qi_buffer i = None \<longrightarrow> i = empty_impl) \<and>
    ledger cs {#} = Some ((case qi_buffer i of None \<Rightarrow> {#} | Some b \<Rightarrow> qc_res b) +
      (if qd_element_type_name d = qc_element_type \<and> qd_use_ipc d \<and> qd_ipc_socket_path d \<noteq> [] then unclaimed e else {#}))"
proof (cases "qd_element_type_name d = qc_element_type \<and> qd_use_ipc d \<and> qd_ipc_socket_path d \<noteq> []")
  case False
  then have "i = empty_impl" "st' = st" using assms(1) by (auto simp: from_qc_descriptor_def split: if_splits)
  then show ?thesis using False by (auto simp: empty_impl_def)
next
  case True
  obtain r cs where r: "request_fd e = (r, cs)" by (cases "request_fd e")
  note rr = request_fd_result [OF r]
  let ?st = "st\<lparr>qs_calls := qs_calls st @ cs\<rparr>"
  show ?thesis
  proof (cases r)
    case None
    then have "i = empty_impl" "st' = ?st" using assms(1) True r by (auto simp: from_qc_descriptor_def)
    then show ?thesis using True rr [of "{#}"] None by (simp add: empty_impl_def)
  next
    case (Some fd)
    have f: "0 \<le> fd" "unclaimed e = {#}" "ledger cs {#} = Some {#Fd fd#}" using rr [of "{#}"] Some by simp_all
    obtain m st2 where m: "map_impl (cl_mmap e) (cl_object e) (cl_strerror e) fd (qd_dmabuf_size d) (qd_size d) ?st = (m, st2)"
      by (cases "map_impl (cl_mmap e) (cl_object e) (cl_strerror e) fd (qd_dmabuf_size d) (qd_size d) ?st")
    obtain cs2 where c: "qs_calls st2 = qs_calls ?st @ cs2" "\<And>R. ledger cs2 (add_mset (Fd fd) R) =
        Some ((case m of Inl x \<Rightarrow> {#} | Inr i \<Rightarrow> qc_res (the (qi_buffer i))) + R)"
      using map_impl_calls(1) [OF m f(1) assms(2)] by blast
    have l: "ledger (cs @ cs2) {#} = Some (case m of Inl x \<Rightarrow> {#} | Inr i \<Rightarrow> qc_res (the (qi_buffer i)))"
      using c(2) [of "{#}"] f(3) by (simp add: ledger_append_Some)
    have res: "i = (case m of Inl x \<Rightarrow> empty_impl | Inr j \<Rightarrow> j) \<and> st' = st2"
      using assms(1) True r m Some by (cases m) (simp_all add: from_qc_descriptor_def)
    have b: "\<exists>b. qi_buffer j = Some b" if "m = Inr j" for j
      using m that by (auto simp: map_impl_def adopt_qc_def next_uid_def Let_def split: option.splits)
    show ?thesis
    proof (cases m)
      case (Inl x)
      then show ?thesis using res c(1) l f(2) by (simp add: empty_impl_def)
    next
      case (Inr j)
      then obtain b where "qi_buffer j = Some b" using b by blast
      then show ?thesis using res c(1) l f(2) Inr by simp
    qed
  qed
qed

section \<open>Zero copy\<close>

text \<open>A message that is accepted: the descriptor arrives and is mapped.\<close>

definition delivers :: "client_env \<Rightarrow> bool" where
  "delivers e \<longleftrightarrow> 0 \<le> cl_socket e \<and> 0 \<le> cl_connect e \<and> cl_send e = 8 \<and> 0 < cl_recvmsg e \<and> cl_status e = status_ok \<and>
     \<not> cl_ctrunc e \<and> (\<exists>fd. cl_cmsg e = Some fd \<and> 0 \<le> fd) \<and> (\<exists>p. cl_mmap e = Some p \<and> p \<noteq> 0)"

lemma from_qc_descriptor_delivers:
  assumes "delivers e" and "qd_element_type_name d = qc_element_type" and "qd_use_ipc d" and "qd_ipc_socket_path d \<noteq> []"
  shows "\<exists>i st'. from_qc_descriptor e d st = (i, st') \<and> qi_size i = qd_size d \<and> data_of i \<noteq> 0 \<and>
    qs_mapped st' (data_of i) = Some (cl_object e, unat (qd_dmabuf_size d)) \<and> qs_memory st' = qs_memory st"
proof -
  obtain fd p where f: "cl_cmsg e = Some fd" "0 \<le> fd" "cl_mmap e = Some p" "p \<noteq> 0" using assms(1) by (auto simp: delivers_def)
  have "request_fd e = (Some fd, [OpenFd (cl_socket e), OpenFd fd, Close (cl_socket e)])"
    using assms(1) f by (intro request_fd_accepted) (simp_all add: delivers_def status_ok_def)
  then show ?thesis
    using assms(2-4) f by (simp add: from_qc_descriptor_def map_impl_def adopt_qc_def next_uid_def Let_def data_of_def)
qed

text \<open>
  A buffer received from an accepted message can be read as a whole exactly if the number of elements in the message is
  at most the size of the dma-buf in the message and of the dma-buf itself: the two sizes of the message are not compared.
\<close>

theorem received_buffer_readable_iff:
  assumes "delivers e" and "qd_element_type_name d = qc_element_type" and "qd_use_ipc d" and "qd_ipc_socket_path d \<noteq> []"
    and "0 < qd_size d"
  shows "\<exists>i st'. from_qc_descriptor e d st = (i, st') \<and>
    (qc_to_cpu 1 i st' \<noteq> None \<longleftrightarrow> qd_size d \<le> qd_dmabuf_size d \<and> unat (qd_size d) \<le> length (qs_memory st (cl_object e)))"
proof -
  obtain i st' where i: "from_qc_descriptor e d st = (i, st')" "qi_size i = qd_size d" "data_of i \<noteq> 0"
    "qs_mapped st' (data_of i) = Some (cl_object e, unat (qd_dmabuf_size d))" "qs_memory st' = qs_memory st"
    using from_qc_descriptor_delivers [OF assms(1-4)] by blast
  have "read_memory st' (data_of i) (unat (qd_size d)) \<noteq> None \<longleftrightarrow>
      qd_size d \<le> qd_dmabuf_size d \<and> unat (qd_size d) \<le> length (qs_memory st (cl_object e))"
    by (simp add: read_memory_def i(4,5) word_le_nat_alt)
  then have "qc_to_cpu 1 i st' \<noteq> None \<longleftrightarrow>
      qd_size d \<le> qd_dmabuf_size d \<and> unat (qd_size d) \<le> length (qs_memory st (cl_object e))"
    using assms(5) i(2,3) by (auto simp: qc_to_cpu_def split: option.splits)
  then show ?thesis using i(1) by blast
qed

definition qc_published :: "qc_impl \<Rightarrow> qc_buffer \<Rightarrow> nat \<Rightarrow> qc_state \<Rightarrow> broker_world \<Rightarrow> bool" where
  "qc_published i qc obj st w \<longleftrightarrow>
     qi_buffer i = Some qc \<and> qi_size i = qb_size qc \<and> 0 < qi_size i \<and> qb_ptr qc \<noteq> 0 \<and> 0 \<le> qb_fd qc \<and>
     rl_available (qs_loader st) \<and> fb_running (wb_broker w) \<and>
     wb_fds w (qb_fd qc) = Some obj \<and> (\<exists>len. qs_mapped st (qb_ptr qc) = Some (obj, len) \<and> unat (qb_size qc) \<le> len)"

lemma running_path:
  assumes "broker_reachable w" and "fb_running (wb_broker w)"
  shows "fb_socket_path (wb_broker w) \<noteq> []"
proof -
  have start: "fb_running b \<longrightarrow> fb_socket_path b \<noteq> []" if "start_broker e = (b, cs)" for e b cs
    using that by (auto simp: start_broker_def Let_def split: if_splits)
  have "fb_running b' \<longrightarrow> fb_running b \<and> fb_socket_path b' = fb_socket_path b"
    if "register_buffer d u fd sz b = (b', cs)" for d u fd sz b b' cs
    using that by (auto simp: register_buffer_def split_beta Let_def split: if_splits)
  note reg = this
  from assms(1) have "fb_running (wb_broker w) \<longrightarrow> fb_socket_path (wb_broker w) \<noteq> []"
  proof (induction rule: broker_reachable.induct)
    case (start e b cs fds obj)
    then show ?case using \<open>\<And>e cs b. start_broker e = (b, cs) \<Longrightarrow> fb_running b \<longrightarrow> fb_socket_path b \<noteq> []\<close> by simp
  next
    case (step w w')
    from step.hyps(2) show ?case
    proof cases
      case (request xs c ys e status nx b' cs)
      then show ?thesis using handle_request_result [OF request(4)] step.IH by auto
    next
      case (register fd obj d uid sz b' cs)
      then show ?thesis using reg [OF register(4)] step.IH by auto
    qed (use step.IH in \<open>auto simp: accept_connection_def send_fd_def stop_broker_def split: if_splits\<close>)
  qed
  then show ?thesis using assms(2) by simp
qed

lemma zero_copy:
  assumes "broker_reachable w" and pub: "qc_published i qc obj st w"
    and "create_qc_descriptor pid dup_fd (Qc_Impl i) st (wb_broker w) = (r, b', cs)"
    and "0 \<le> dup_fd \<Longrightarrow> wb_fds w dup_fd = None"
    and "broker_step\<^sup>*\<^sup>* (w\<lparr>wb_broker := b', wb_fds := run_fds cs (wb_fds w),
       wb_object := (if qb_uid qc \<in> fst ` set (fb_table (wb_broker w)) then wb_object w
         else (wb_object w)(qb_uid qc := obj))\<rparr>) w'"
    and "wb_threads w' = xs @ Reading c # ys" and "0 \<le> cn_dup ce \<Longrightarrow> wb_fds w' (cn_dup ce) = None"
    and "cn_uid ce = qb_uid qc" and "wb_object w' (qb_uid qc) = obj"
    and "handle_request ce c (wb_broker w') = ((None, Some tmp), b2, cs2)"
    and "delivers e" and "run_fds cs2 (wb_fds w') tmp = Some (cl_object e)"
  shows "\<exists>d i' st''. r = Some d \<and> from_qc_descriptor e d st' = (i', st'') \<and> qi_size i' = qi_size i \<and>
    (\<forall>m. qc_to_cpu 1 i' (st''\<lparr>qs_memory := m\<rparr>) = qc_to_cpu 1 i (st\<lparr>qs_memory := m\<rparr>))"
proof -
  note p = pub [unfolded qc_published_def]
  let ?w1 = "w\<lparr>wb_broker := b', wb_fds := run_fds cs (wb_fds w),
       wb_object := (if qb_uid qc \<in> fst ` set (fb_table (wb_broker w)) then wb_object w
         else (wb_object w)(qb_uid qc := obj))\<rparr>"
  obtain b1 cs1 where reg: "register_buffer dup_fd (qb_uid qc) (qb_fd qc) (qb_size qc) (wb_broker w) = (b1, cs1)"
    by (cases "register_buffer dup_fd (qb_uid qc) (qb_fd qc) (qb_size qc) (wb_broker w)")
  define d where "d = \<lparr>qd_size = qi_size i, qd_element_type_name = qc_element_type, qd_pid = pid,
      qd_vaddr = qb_ptr qc, qd_uid = qb_uid qc, qd_dmabuf_fd = qb_fd qc, qd_dmabuf_size = qb_size qc, qd_use_ipc = True,
      qd_ipc_socket_path = fb_socket_path b'\<rparr>"
  have c: "r = Some d" "b' = b1" "cs = cs1"
    using assms(3) p reg by (auto simp: create_qc_descriptor_def d_def)
  have step: "broker_step w ?w1"
    using broker_step.register [of w "qb_fd qc" obj dup_fd "qb_uid qc" "qb_size qc" b' cs] p assms(4) reg c(2,3) by simp
  have path: "fb_socket_path b' \<noteq> []"
  proof -
    have "fb_running b'" using p reg c(2) by (auto simp: register_buffer_def split_beta Let_def split: if_splits)
    then show ?thesis using running_path [OF broker_reachable.step [OF assms(1) step]] by simp
  qed
  have r1: "broker_reachable w'" by (rule reachable_steps [OF assms(5) broker_reachable.step [OF assms(1) step]])
  have obj: "cl_object e = obj"
  proof -
    have "broker_reachable (w'\<lparr>wb_broker := b2, wb_threads := xs @ [Sending c tmp (wb_object w' (cn_uid ce))] @ ys,
        wb_fds := run_fds cs2 (wb_fds w')\<rparr>)" (is "broker_reachable ?w2")
      using broker_reachable.step [OF r1 broker_step.request [OF assms(6,7,10)]] by simp
    from broker_reachable_ok [OF this]
    have "wb_fds ?w2 tmp = Some (wb_object w' (cn_uid ce))" by (simp add: broker_world_ok_def)
    then show ?thesis using assms(8,9,12) by simp
  qed
  obtain i' st'' where i: "from_qc_descriptor e d st' = (i', st'')" "qi_size i' = qd_size d" "data_of i' \<noteq> 0"
    "qs_mapped st'' (data_of i') = Some (cl_object e, unat (qd_dmabuf_size d))"
    using from_qc_descriptor_delivers [OF assms(11), of d st'] path by (auto simp: d_def)
  have "qc_to_cpu 1 i' (st''\<lparr>qs_memory := m\<rparr>) = qc_to_cpu 1 i (st\<lparr>qs_memory := m\<rparr>)" for m
  proof -
    have "read_memory (st''\<lparr>qs_memory := m\<rparr>) (data_of i') (unat (qi_size i)) =
        read_memory (st\<lparr>qs_memory := m\<rparr>) (qb_ptr qc) (unat (qi_size i))"
      using p i(4) obj by (auto simp: read_memory_def d_def)
    moreover have "qi_size i' = qi_size i" "data_of i = qb_ptr qc" "0 < qi_size i" "qb_ptr qc \<noteq> 0"
      using p i(2) by (auto simp: data_of_def d_def)
    ultimately show ?thesis using i(3) by (simp add: qc_to_cpu_def)
  qed
  then show ?thesis using c(1) i(1,2) by (auto simp: d_def)
qed


section \<open>Samples\<close>

definition sample_client :: client_env where
  "sample_client = \<lparr>cl_socket = 4, cl_connect = 0, cl_send = 8, cl_recvmsg = 1, cl_status = 1, cl_ctrunc = False,
     cl_cmsg = Some 5, cl_object = 2, cl_mmap = Some 8192, cl_strerror = []\<rparr>"

definition sample_qc_descriptor :: qc_descriptor where
  "sample_qc_descriptor = \<lparr>qd_size = 3, qd_element_type_name = qc_element_type, qd_pid = 7, qd_vaddr = 4096, qd_uid = 1,
     qd_dmabuf_fd = 10, qd_dmabuf_size = 2, qd_use_ipc = True, qd_ipc_socket_path = ''/tmp/qc_broker_7.sock''\<rparr>"

lemma sample_client_delivers: "delivers sample_client"
  by (simp add: delivers_def sample_client_def status_ok_def)

theorem qc_receive_balanced_witness:
  "\<exists>i st' cs. from_qc_descriptor (sample_client\<lparr>cl_status := 2\<rparr>) sample_qc_descriptor (sample_qc_state []) = (i, st') \<and>
     qs_calls st' = cs \<and> i = empty_impl \<and> ledger cs {#} = Some {#Fd 5#}"
proof -
  let ?e = "sample_client\<lparr>cl_status := 2\<rparr>"
  obtain i st' where r: "from_qc_descriptor ?e sample_qc_descriptor (sample_qc_state []) = (i, st')"
    by (cases "from_qc_descriptor ?e sample_qc_descriptor (sample_qc_state [])")
  have "cl_mmap ?e \<noteq> Some 0" by (simp add: sample_client_def)
  moreover have "unclaimed ?e = {#Fd 5#}" by (simp add: unclaimed_def sample_client_def)
  moreover have "i = empty_impl"
    using r by (simp add: from_qc_descriptor_def sample_qc_descriptor_def request_fd_def sample_client_def)
  ultimately show ?thesis
    using qc_receive_balanced [OF r] r by (simp add: sample_qc_descriptor_def sample_qc_state_def empty_impl_def)
qed

text \<open>A descriptor of three elements in a dma-buf of two bytes.\<close>

theorem received_buffer_readable_iff_witness:
  "\<exists>i st'. from_qc_descriptor sample_client sample_qc_descriptor (sample_qc_state [1, 2, 3]) = (i, st') \<and>
     qc_to_cpu 1 i st' = None"
  using received_buffer_readable_iff [OF sample_client_delivers, of sample_qc_descriptor "sample_qc_state [1, 2, 3]"]
  by (simp add: sample_qc_descriptor_def)


end
