(* ===== verification/Qc_Tutorial.thy ===== *)
theory Qc_Tutorial
  imports Qc_Backend
begin

text \<open>
  The nodes of the tutorial, \<open>qc_image_publisher.cpp\<close> and \<open>qc_image_subscriber.cpp\<close>: what the callbacks publish and log,
  and how an image gets from one to the other through the broker.
\<close>

section \<open>The publisher\<close>

record qc_publisher =
  qp_count :: u64
  qp_width :: "32 word"
  qp_height :: "32 word"

text \<open>The fields of the \<open>sensor_msgs::msg::Image\<close> that the nodes use; its data are Qualcomm ones or other ones.\<close>

datatype image_data = Qc_Data qc_impl | Cpu_Data string "u8 list"

record image =
  im_height :: "32 word"
  im_width :: "32 word"
  im_step :: "32 word"
  im_data :: image_data

definition image_size :: "qc_publisher \<Rightarrow> u64" where
  "image_size p = scast (qp_width p) * scast (qp_height p) * 3"

text \<open>
  \<open>tick\<close>: the image that is published. \<open>set_element\<close> is the write through \<open>operator[]\<close> of a \<open>rosidl::Buffer\<close> that is not
  on the CPU; writing outside the memory behind the pointer is undefined behaviour, the value \<open>None\<close>.
\<close>

fun write_elements :: "(nat \<Rightarrow> u8 \<Rightarrow> qc_state \<Rightarrow> (exn + unit) \<times> qc_state) \<Rightarrow> nat list \<Rightarrow> u8 \<Rightarrow> qc_state \<Rightarrow> (exn + unit) \<times> qc_state" where
  "write_elements set_element [] b st = (Inr (), st)"
| "write_elements set_element (i # is) b st =
     (case set_element i b st of (Inl x, st1) \<Rightarrow> (Inl x, st1) | (Inr _, st1) \<Rightarrow> write_elements set_element is b st1)"

definition tick ::
  "rpcmem_env \<Rightarrow> (nat \<Rightarrow> u8 \<Rightarrow> qc_state \<Rightarrow> (exn + unit) \<times> qc_state) \<Rightarrow> qc_publisher \<Rightarrow> qc_state \<Rightarrow>
     ((exn + image) \<times> qc_publisher \<times> qc_state) option" where
  "tick e set_element p st =
     (let n = image_size p; b = ucast (qp_count p mod 256)
      in case new_impl e 1 n st of
           (Inl x, st1) \<Rightarrow> Some (Inl x, p, st1)
         | (Inr i, st1) \<Rightarrow>
             (let img = \<lparr>im_height = qp_height p, im_width = qp_width p, im_step = qp_width p * 3, im_data = Qc_Data i\<rparr>;
                  ptr = get_data_ptr (Qc_Impl i)
              in if ptr \<noteq> 0 then
                   map_option (\<lambda>st2. (Inr img, p\<lparr>qp_count := qp_count p + 1\<rparr>, st2))
                     (write_memory ptr (replicate (unat n) b) st1)
                 else
                   Some (case write_elements set_element [0..<unat n] b st1 of
                       (Inl x, st2) \<Rightarrow> (Inl x, p, st2)
                     | (Inr _, st2) \<Rightarrow> (Inr img, p\<lparr>qp_count := qp_count p + 1\<rparr>, st2))))"

section \<open>The subscriber\<close>

record image_log =
  il_count :: u64
  il_bytes :: nat
  il_backend :: string
  il_fd :: int
  il_first :: u8

text \<open>\<open>on_image\<close>: what it logs; for data on the CPU no descriptor is logged, which is \<open>-1\<close> here.\<close>

definition on_image :: "image \<Rightarrow> qc_state \<Rightarrow> u64 \<Rightarrow> (image_log \<times> u64) option" where
  "on_image img st received =
     (case im_data img of
        Qc_Data i \<Rightarrow>
          (let ptr = get_data_ptr (Qc_Impl i)
           in map_option (\<lambda>first. (\<lparr>il_count = received + 1, il_bytes = unat (qi_size i), il_backend = ''qc'',
                   il_fd = get_dmabuf_fd (Qc_Impl i), il_first = first\<rparr>, received + 1))
                (if ptr \<noteq> 0 \<and> qi_size i > 0 then map_option hd (read_memory st ptr 1) else Some 0))
      | Cpu_Data backend bytes \<Rightarrow>
          Some (\<lparr>il_count = received + 1, il_bytes = length bytes, il_backend = backend, il_fd = -1,
             il_first = (if bytes = [] then 0 else bytes ! 0)\<rparr>, received + 1))"

section \<open>What an image holds\<close>

lemma new_impl_data:
  assumes "new_impl e 1 n st = (Inr i, st')"
  shows "qi_size i = n" and "data_of i = 0 \<longleftrightarrow> n = 0"
  using assms
  by (auto simp: new_impl_def allocate_qc_def data_of_def next_uid_def word_gt_0 Let_def split_beta split: if_splits sum.splits)

lemma first_of_read:
  assumes "qc_to_cpu 1 i st = Some (b # bs)" and "0 < qi_size i"
  shows "(if get_data_ptr (Qc_Impl i) \<noteq> 0 \<and> qi_size i > 0 then map_option hd (read_memory st (get_data_ptr (Qc_Impl i)) 1)
    else Some 0) = Some b"
proof (cases "data_of i = 0")
  case True
  then show ?thesis using assms by (cases "unat (qi_size i)") (simp_all add: qc_to_cpu_def get_data_ptr_def)
next
  case False
  then obtain rs where r: "read_memory st (data_of i) (unat (qi_size i)) = Some rs" "rs @ drop (length rs) (replicate (unat (qi_size i)) 0) = b # bs"
    using assms by (auto simp: qc_to_cpu_def split: option.splits)
  have p: "0 < unat (qi_size i)" using assms(2) by (simp add: word_less_nat_alt)
  from r(1) have l: "length rs = unat (qi_size i)" by (auto simp: read_memory_def split: option.splits if_splits)
  with r(2) p have h: "rs \<noteq> []" "hd rs = b" by (cases rs; simp)+
  have "map_option hd (read_memory st (data_of i) 1) = Some (hd rs)"
    using r(1) p l by (auto simp: read_memory_def hd_take take_Suc split: option.splits if_splits)
  then show ?thesis using False assms(2) h by (simp add: get_data_ptr_def)
qed

lemma tick_fills:
  assumes "rl_available (qs_loader st)" and "rp_alloc e (to_int (image_size p)) = (ptr, obj)" and "ptr \<noteq> 0"
    and "0 \<le> rp_to_fd e ptr" and "honours_size e st" and "0 < unat (image_size p)" and "unat (image_size p) < 2147483648"
  defines "i \<equiv> \<lparr>qi_size = image_size p, qi_buffer = Some \<lparr>qb_ptr = ptr, qb_fd = rp_to_fd e ptr, qb_size = image_size p,
      qb_uid = qs_next_uid st, qb_origin = kRpcmem\<rparr>\<rparr>"
  shows "\<exists>st'. tick e g p st = Some (Inr \<lparr>im_height = qp_height p, im_width = qp_width p, im_step = qp_width p * 3,
        im_data = Qc_Data i\<rparr>, p\<lparr>qp_count := qp_count p + 1\<rparr>, st') \<and>
    qs_loader st' = qs_loader st \<and> qs_mapped st' = (qs_mapped st)(ptr \<mapsto> (obj, unat (image_size p))) \<and>
    qs_memory st' = (qs_memory st)(obj := replicate (unat (image_size p)) (ucast (qp_count p mod 256)))"
proof -
  let ?n = "image_size p" and ?b = "ucast (qp_count p mod 256) :: u8"
  have nz: "?n \<noteq> 0" using assms(6) by auto
  obtain st1 where a: "allocate_qc e ?n st = (Inr (the (qi_buffer i)), st1)"
    "qs_mapped st1 = (qs_mapped st)(ptr \<mapsto> (obj, length (qs_memory st obj)))" "qs_memory st1 = qs_memory st"
    using allocate_qc_succeeds [OF assms(1) nz assms(2-4)] by (auto simp: i_def)
  have l1: "qs_loader st1 = qs_loader st" by (rule allocate_qc_calls(2) [OF a(1)])
  have len: "length (qs_memory st obj) = unat ?n"
    using assms(2,3,5) to_int_small [OF assms(7)] by (simp add: honours_size_def)
  have ni: "new_impl e 1 ?n st = (Inr i, st1)" using a(1) assms(6) by (simp add: new_impl_def i_def word_less_nat_alt)
  have "write_memory ptr (replicate (unat ?n) ?b) st1 =
      Some (st1\<lparr>qs_memory := (qs_memory st)(obj := replicate (unat ?n) ?b)\<rparr>)"
    using a(2,3) len by (simp add: write_memory_def)
  then have "tick e g p st = Some (Inr \<lparr>im_height = qp_height p, im_width = qp_width p, im_step = qp_width p * 3,
      im_data = Qc_Data i\<rparr>, p\<lparr>qp_count := qp_count p + 1\<rparr>, st1\<lparr>qs_memory := (qs_memory st)(obj := replicate (unat ?n) ?b)\<rparr>)"
    using ni assms(3) by (simp add: tick_def Let_def get_data_ptr_def data_of_def i_def)
  then show ?thesis
    by (intro exI [of _ "st1\<lparr>qs_memory := (qs_memory st)(obj := replicate (unat ?n) ?b)\<rparr>"] conjI) (use a(2) l1 len in simp_all)
qed

text \<open>
  The fallback of \<open>tick\<close> for a buffer that is not a Qualcomm one never writes an element, whatever writing one would do: without the
  library the allocation throws, and the branch is taken for images without pixels only.
\<close>

theorem qc_fallback_never_writes: "tick e g p st = tick e g' p st"
proof -
  have "write_elements g [0..<unat (image_size p)] b st1 = write_elements g' [0..<unat (image_size p)] b st1"
    if "new_impl e 1 (image_size p) st = (Inr i, st1)" "get_data_ptr (Qc_Impl i) = 0" for i st1 b
    using new_impl_data(2) [OF that(1)] that(2) by (simp add: get_data_ptr_def)
  then show ?thesis by (auto simp: tick_def Let_def split: prod.splits sum.splits)
qed

lemma unavailable_throws:
  assumes "\<not> rl_available (qs_loader st)" and "image_size p \<noteq> 0"
  shows "tick e g p st = Some (Inl (QcError ''qc buffer allocation requested but rpcmem (libcdsprpc.so) is unavailable''), p, st)"
  using assms by (simp add: tick_def new_impl_def allocate_qc_def word_gt_0)

section \<open>From the publisher to the subscriber\<close>

text \<open>
  How an image reaches a subscriber: its buffer is registered with the broker of the publisher's process, the broker takes any
  steps, among them a request for the buffer, which it answers with a descriptor; the subscriber's kernel hands over a descriptor of the same
  dma-buf, and the message is accepted.
\<close>

definition carried :: "qc_impl \<Rightarrow> qc_buffer \<Rightarrow> nat \<Rightarrow> qc_state \<Rightarrow> broker_world \<Rightarrow> client_env \<Rightarrow> qc_descriptor \<Rightarrow> bool" where
  "carried i qc obj st w e d \<longleftrightarrow> broker_reachable w \<and> fb_running (wb_broker w) \<and> wb_fds w (qb_fd qc) = Some obj \<and> delivers e \<and>
     (\<exists>pid dup_fd b' cs w' xs c ys ce tmp b2 cs2.
        create_qc_descriptor pid dup_fd (Qc_Impl i) st (wb_broker w) = (Some d, b', cs) \<and> (0 \<le> dup_fd \<longrightarrow> wb_fds w dup_fd = None) \<and>
        broker_step\<^sup>*\<^sup>* (w\<lparr>wb_broker := b', wb_fds := run_fds cs (wb_fds w),
          wb_object := (if qb_uid qc \<in> fst ` set (fb_table (wb_broker w)) then wb_object w
            else (wb_object w)(qb_uid qc := obj))\<rparr>) w' \<and>
        wb_threads w' = xs @ Reading c # ys \<and> (0 \<le> cn_dup ce \<longrightarrow> wb_fds w' (cn_dup ce) = None) \<and>
        cn_uid ce = qb_uid qc \<and> wb_object w' (qb_uid qc) = obj \<and>
        handle_request ce c (wb_broker w') = ((None, Some tmp), b2, cs2) \<and>
        run_fds cs2 (wb_fds w') tmp = Some (cl_object e))"

lemma carried_shares:
  assumes "carried i qc obj st w e d" and "qi_buffer i = Some qc" and "qi_size i = qb_size qc" and "0 < qi_size i"
    and "qb_ptr qc \<noteq> 0" and "0 \<le> qb_fd qc" and "rl_available (qs_loader st)"
    and "qs_mapped st (qb_ptr qc) = Some (obj, unat (qb_size qc))"
  shows "\<exists>i' st''. from_qc_descriptor e d st' = (i', st'') \<and> qi_size i' = qi_size i \<and>
    (\<forall>m. qc_to_cpu 1 i' (st''\<lparr>qs_memory := m\<rparr>) = qc_to_cpu 1 i (st\<lparr>qs_memory := m\<rparr>))"
proof -
  obtain pid dup_fd b' cs w' xs c ys ce tmp b2 cs2 where t: "broker_reachable w" "fb_running (wb_broker w)" "wb_fds w (qb_fd qc) = Some obj"
    "delivers e" "create_qc_descriptor pid dup_fd (Qc_Impl i) st (wb_broker w) = (Some d, b', cs)" "0 \<le> dup_fd \<longrightarrow> wb_fds w dup_fd = None"
    "broker_step\<^sup>*\<^sup>* (w\<lparr>wb_broker := b', wb_fds := run_fds cs (wb_fds w),
          wb_object := (if qb_uid qc \<in> fst ` set (fb_table (wb_broker w)) then wb_object w
            else (wb_object w)(qb_uid qc := obj))\<rparr>) w'"
    "wb_threads w' = xs @ Reading c # ys" "0 \<le> cn_dup ce \<longrightarrow> wb_fds w' (cn_dup ce) = None"
    "cn_uid ce = qb_uid qc" "wb_object w' (qb_uid qc) = obj"
    "handle_request ce c (wb_broker w') = ((None, Some tmp), b2, cs2)"
    "run_fds cs2 (wb_fds w') tmp = Some (cl_object e)"
    using assms(1) unfolding carried_def by blast
  have pub: "qc_published i qc obj st w"
    using assms(2-8) t(2,3) by (simp add: qc_published_def)
  show ?thesis
    using zero_copy [OF t(1) pub t(5) _ t(7,8) _ t(10-12) t(4) t(13), of st'] t(6,9) by blast
qed


section \<open>Sample\<close>

definition sample_publisher :: qc_publisher where
  "sample_publisher = \<lparr>qp_count = 263, qp_width = 1, qp_height = 1\<rparr>"

abbreviation "sample_sender \<equiv> \<lparr>qb_ptr = 4096, qb_fd = 10, qb_size = 3, qb_uid = 1, qb_origin = kRpcmem\<rparr> :: qc_buffer"

lemma sample_carried:
  assumes "rl_available (qs_loader st)"
  shows "\<exists>w d. carried \<lparr>qi_size = 3, qi_buffer = Some sample_sender\<rparr> sample_sender 1 st w (sample_client\<lparr>cl_object := 1\<rparr>) d"
proof -
  let ?i = "\<lparr>qi_size = 3, qi_buffer = Some sample_sender\<rparr>"
  let ?w = "\<lparr>wb_broker = sample_broker, wb_threads = [], wb_fds = [10 \<mapsto> 1, 3 \<mapsto> 0], wb_object = \<lambda>_. 0\<rparr>"
  let ?b1 = "sample_broker\<lparr>fb_table := [(1, \<lparr>en_dup_fd = 8, en_dmabuf_size = 3\<rparr>)], fb_order := [1]\<rparr>"
  let ?w1 = "?w\<lparr>wb_broker := ?b1, wb_fds := run_fds [Dup 10 8] (wb_fds ?w),
       wb_object := (if qb_uid sample_sender \<in> fst ` set (fb_table (wb_broker ?w)) then wb_object ?w
         else (wb_object ?w)(qb_uid sample_sender := 1))\<rparr>"
  let ?w2 = "?w1\<lparr>wb_broker := ?b1\<lparr>fb_active := 1\<rparr>, wb_threads := [Reading 4], wb_fds := run_fds [OpenFd 4] (wb_fds ?w1)\<rparr>"
  let ?ce = "\<lparr>cn_recv = 8, cn_uid = 1, cn_dup = 6\<rparr>" and ?e = "sample_client\<lparr>cl_object := 1\<rparr>"
  have "start_broker \<lparr>st_pid = 7, st_socket = 3, st_bind = 0, st_listen = 0\<rparr> = (sample_broker, [OpenFd 3])"
    by (simp add: sample_broker_def start_broker_def)
  from broker_reachable.start [OF this, of "[10 \<mapsto> 1]" "\<lambda>_. 0"] have r0: "broker_reachable ?w" by simp
  obtain d where c: "create_qc_descriptor 7 8 (Qc_Impl ?i) st (wb_broker ?w) = (Some d, ?b1, [Dup 10 8])"
    using assms by (simp add: create_qc_descriptor_def register_buffer_def sample_broker_facts capacity_def)
  have "accept_connection 4 (wb_broker ?w1) = (?b1\<lparr>fb_active := 1\<rparr>, [OpenFd 4])"
    by (simp add: accept_connection_def sample_broker_facts)
  from broker_step.accept [of ?w1 4, OF _ _ _ this]
  have s: "broker_step\<^sup>*\<^sup>* ?w1 ?w2" by (intro r_into_rtranclp) (simp add: sample_broker_facts)
  have h: "handle_request ?ce 4 (wb_broker ?w2) = ((None, Some 6), ?b1\<lparr>fb_active := 1\<rparr>, [Dup 8 6])"
    by (simp add: handle_request_def)
  have dl: "delivers ?e" using sample_client_delivers by (simp add: delivers_def)
  have t: "wb_threads ?w2 = [] @ Reading 4 # []" by simp
  have q: "fb_running (wb_broker ?w)" "wb_fds ?w (qb_fd sample_sender) = Some 1" "0 \<le> (8 :: int) \<longrightarrow> wb_fds ?w 8 = None"
    "0 \<le> cn_dup ?ce \<longrightarrow> wb_fds ?w2 (cn_dup ?ce) = None" "cn_uid ?ce = qb_uid sample_sender"
    "wb_object ?w2 (qb_uid sample_sender) = 1" "run_fds [Dup 8 6] (wb_fds ?w2) 6 = Some (cl_object ?e)"
    by (simp_all add: sample_broker_facts)
  have "carried ?i sample_sender 1 st ?w ?e d"
    unfolding carried_def by (intro conjI exI, rule r0, rule q, rule q, rule dl, rule c, rule q, rule s, rule t, rule q, rule q,
        rule q, rule h, rule q)
  then show ?thesis by blast
qed


end
