(* ===== verification/Block_Protocol.thy ===== *)
theory Block_Protocol
  imports Pool_Lifecycle
begin

text \<open>
  The protocol between a publisher's pool and the processes that import its blocks. Its state
  puts together the models of the two sides: the metadata shared by all, the pool, one import
  cache per subscriber process, and, to state what the protocol promises, three ghosts: the
  descriptors sent so far, the imports that are alive, and how many times each block has been
  handed out. The steps are calls of the modelled operations, in any interleaving, with a clock
  that only moves forward. \<open>timely\<close> restricts when a descriptor is imported.
\<close>

section \<open>State and steps\<close>

record descriptor_msg =
  d_block :: nat
  d_uid :: u64
  d_gen :: nat
  d_time :: u64

record world =
  w_meta :: meta_store
  w_pool :: cuda_pool
  w_now :: u64
  w_caches :: "nat \<Rightarrow> import_cache"
  w_sent :: "descriptor_msg set"
  w_live :: "descriptor_msg multiset"
  w_gen :: "nat \<Rightarrow> nat"

abbreviation "w_block w i \<equiv> all_blocks (w_pool w) ! i"

text \<open>
  What a new block may rely on: a newly mapped segment is none of the mapped ones, and the
  32-bit block counter has not come round.
\<close>

definition fresh_env :: "block_env \<Rightarrow> cuda_pool \<Rightarrow> bool" where
  "fresh_env e p \<longleftrightarrow>
     unat (next_block_id p) + 1 < 2 ^ 32 \<and>
     (\<forall>s. be_mmap e = Some s \<longrightarrow> Some s \<notin> vb_ipc_meta ` set (all_blocks p))"

text \<open>Opening a segment by the name of a block gives that block's segment.\<close>

definition attaches :: "import_env \<Rightarrow> vmm_block \<Rightarrow> bool" where
  "attaches e b \<longleftrightarrow> 0 \<le> im_shm_open e \<and> im_mmap e = vb_ipc_meta b"

inductive world_step :: "(world \<Rightarrow> descriptor_msg \<Rightarrow> bool) \<Rightarrow> int \<Rightarrow> world \<Rightarrow> world \<Rightarrow> bool"
  for timely pid where
  ws_tick: "w_now w \<le> t \<Longrightarrow> world_step timely pid w (w\<lparr>w_now := t\<rparr>)"
| ws_allocate:
    "allocate (\<lambda>_. w_now w) e n (w_meta w, w_pool w) = (r, (m', p'), cs) \<Longrightarrow>
     fresh_env e (w_pool w) \<Longrightarrow>
     world_step timely pid w
       (w\<lparr>w_meta := m', w_pool := p',
          w_gen := (case r of Inl x \<Rightarrow> w_gen w | Inr i \<Rightarrow> (w_gen w)(i := Suc (w_gen w i)))\<rparr>)"
| ws_free:
    "i \<in> handed_out (w_pool w) \<Longrightarrow>
     world_step timely pid w (w\<lparr>w_pool := free_block i (w_pool w)\<rparr>)"
| ws_publish:
    "i \<in> handed_out (w_pool w) \<Longrightarrow> vb_ipc_meta (w_block w i) = Some s \<Longrightarrow>
     rnd \<noteq> 0 \<Longrightarrow> rnd \<notin> d_uid ` w_sent w \<Longrightarrow>
     assign_uid rnd (w_now w) i (w_meta w, w_pool w) = (u, (m', p')) \<Longrightarrow>
     world_step timely pid w
       (w\<lparr>w_meta := m', w_pool := p',
          w_sent := insert \<lparr>d_block = i, d_uid = u, d_gen = w_gen w i,
                             d_time = publish_timestamp_us (m' s)\<rparr> (w_sent w)\<rparr>)"
| ws_import:
    "d \<in> w_sent w \<Longrightarrow> timely w d \<Longrightarrow> attaches e (w_block w (d_block d)) \<Longrightarrow>
     path \<noteq> [] \<Longrightarrow> length path \<le> 107 \<Longrightarrow> size (w_live w) + 1 < 2 ^ 31 \<Longrightarrow>
     import_block e path pid (vb_block_id (w_block w (d_block d))) (vb_size (w_block w (d_block d)))
       (d_uid d) (w_caches w k, w_meta w) = (r, (cache', m'), cs) \<Longrightarrow>
     world_step timely pid w
       (w\<lparr>w_meta := m', w_caches := (w_caches w)(k := cache'),
          w_live := (case r of Inl x \<Rightarrow> w_live w | Inr y \<Rightarrow> add_mset d (w_live w))\<rparr>)"
| ws_release:
    "d \<in># w_live w \<Longrightarrow>
     world_step timely pid w
       (w\<lparr>w_meta := release_import (vb_ipc_meta (w_block w (d_block d))) (w_meta w),
          w_live := w_live w - {#d#}\<rparr>)"

inductive_cases world_stepE: "world_step timely pid w w'"

definition initial_world :: "cuda_pool \<Rightarrow> u64 \<Rightarrow> world" where
  "initial_world p t =
     \<lparr>w_meta = (\<lambda>_. init_metadata), w_pool = p, w_now = t, w_caches = (\<lambda>_. Map.empty),
      w_sent = {}, w_live = {#}, w_gen = (\<lambda>_. 0)\<rparr>"

inductive reachable :: "(world \<Rightarrow> descriptor_msg \<Rightarrow> bool) \<Rightarrow> int \<Rightarrow> world \<Rightarrow> bool"
  for timely pid where
  reach_init: "all_blocks p = [] \<Longrightarrow> free_blocks p = [] \<Longrightarrow> t \<noteq> 0 \<Longrightarrow>
     reachable timely pid (initial_world p t)"
| reach_step: "reachable timely pid w \<Longrightarrow> world_step timely pid w w' \<Longrightarrow> reachable timely pid w'"

text \<open>The grace window: an import that comes less than 100 ms after the publication.\<close>

definition within_grace :: "world \<Rightarrow> descriptor_msg \<Rightarrow> bool" where
  "within_grace w d \<longleftrightarrow> unat (w_now w) < unat (d_time d) + unat grace_period_us"

section \<open>Invariant\<close>

text \<open>What other processes know a block by: its id and its metadata segment.\<close>

definition idents :: "cuda_pool \<Rightarrow> (u32 \<times> segment option) list" where
  "idents p = map (\<lambda>b. (vb_block_id b, vb_ipc_meta b)) (all_blocks p)"

definition one_owner :: "(u32 \<times> segment option) list \<Rightarrow> bool" where
  "one_owner xs \<longleftrightarrow>
     (\<forall>i < length xs. \<forall>j < length xs. \<forall>s. snd (xs ! i) = Some s \<and> snd (xs ! j) = Some s \<longrightarrow> i = j)"

definition names_inv :: "world \<Rightarrow> bool" where
  "names_inv w \<longleftrightarrow>
     pool_inv (w_pool w) \<and> w_now w \<noteq> 0 \<and> one_owner (idents (w_pool w)) \<and>
     distinct (map fst (idents (w_pool w))) \<and>
     (\<forall>x \<in> set (idents (w_pool w)). fst x < next_block_id (w_pool w))"

text \<open>Every cached import is the import of a block that exists, with its segment.\<close>

definition caches_inv :: "int \<Rightarrow> world \<Rightarrow> bool" where
  "caches_inv pid w \<longleftrightarrow>
     (\<forall>k b c. w_caches w k (pid, b) = Some c \<longrightarrow>
        (b, ci_ipc_meta c) \<in> set (idents (w_pool w)))"

definition readers :: "world \<Rightarrow> nat \<Rightarrow> nat" where
  "readers w i = size (filter_mset (\<lambda>d. d_block d = i) (w_live w))"

text \<open>The reference count of a block is the number of its live imports.\<close>

definition count_inv :: "world \<Rightarrow> bool" where
  "count_inv w \<longleftrightarrow>
     size (w_live w) < 2 ^ 31 \<and> set_mset (w_live w) \<subseteq> w_sent w \<and>
     (\<forall>i < length (idents (w_pool w)). \<forall>s. snd (idents (w_pool w) ! i) = Some s \<longrightarrow>
        refcount (w_meta w s) = of_nat (readers w i))"

text \<open>
  What is known of a descriptor: it is of the current use of its block, whose metadata carry
  its uid and time, or of an earlier use that ended after its grace window.
\<close>

definition descriptor_ok :: "world \<Rightarrow> descriptor_msg \<Rightarrow> bool" where
  "descriptor_ok w d \<longleftrightarrow>
     d_block d < length (all_blocks (w_pool w)) \<and> d_uid d \<noteq> 0 \<and> d_time d \<noteq> 0 \<and>
     d_gen d \<le> w_gen w (d_block d) \<and>
     (\<exists>s. vb_ipc_meta (w_block w (d_block d)) = Some s \<and>
       (d_gen d = w_gen w (d_block d) \<longrightarrow>
          vb_current_uid (w_block w (d_block d)) = d_uid d \<and>
          publish_timestamp_us (w_meta w s) = d_time d) \<and>
       (d_gen d \<noteq> w_gen w (d_block d) \<longrightarrow>
          unat (d_time d) + unat grace_period_us \<le> unat (w_now w) \<and>
          (uid (w_meta w s) = d_uid d \<longrightarrow> vb_current_uid (w_block w (d_block d)) = 0)))"

definition uid_ok :: "world \<Rightarrow> nat \<Rightarrow> bool" where
  "uid_ok w i \<longleftrightarrow>
     (\<forall>s. vb_ipc_meta (w_block w i) = Some s \<and> vb_current_uid (w_block w i) \<noteq> 0 \<longrightarrow>
        uid (w_meta w s) = vb_current_uid (w_block w i) \<and> publish_timestamp_us (w_meta w s) \<noteq> 0)"

definition sent_inv :: "world \<Rightarrow> bool" where
  "sent_inv w \<longleftrightarrow>
     (\<forall>d \<in> w_sent w. descriptor_ok w d) \<and> (\<forall>i < length (all_blocks (w_pool w)). uid_ok w i)"

definition world_inv :: "int \<Rightarrow> world \<Rightarrow> bool" where
  "world_inv pid w \<longleftrightarrow> names_inv w \<and> caches_inv pid w \<and> count_inv w \<and> sent_inv w"

section \<open>What the operations do to the shared state\<close>

lemma export_block_meta:
  assumes "export_block c e b m = (b', m', cs)" and "vb_ipc_meta b = None"
  shows "(vb_ipc_meta b' = None \<and> m' = m) \<or>
    (\<exists>s. be_mmap e = Some s \<and> vb_ipc_meta b' = Some s \<and> m' = m(s := init_metadata))"
  using assms
  by (auto simp: export_block_def attach_metadata_def Let_def split_beta
      split: if_splits option.splits)

text \<open>The three outcomes of an allocation, as the protocol sees them.\<close>

lemma allocate_outcome:
  assumes "pool_inv p" and "allocate (\<lambda>_. now) e n (m, p) = (r, (m', p'), cs)"
  obtains (failed) x where "r = Inl x" "m' = m" "all_blocks p' = all_blocks p"
      "next_block_id p' = next_block_id p \<or> next_block_id p' = next_block_id p + 1"
  | (created) b where "r = Inr (length (all_blocks p))" "all_blocks p' = all_blocks p @ [b]"
      "vb_block_id b = next_block_id p" "next_block_id p' = next_block_id p + 1" "vb_current_uid b = 0"
      "(vb_ipc_meta b = None \<and> m' = m) \<or>
       (\<exists>s. be_mmap e = Some s \<and> vb_ipc_meta b = Some s \<and> m' = m(s := init_metadata))"
  | (reused) i where "r = Inr i" "i < length (all_blocks p)" "i \<in> free_set p"
      "is_block_ready now m (all_blocks p ! i)" "next_block_id p' = next_block_id p"
      "all_blocks p' = (all_blocks p)[i := (all_blocks p ! i)\<lparr>vb_current_uid := 0\<rparr>]"
      "m' = (case vb_ipc_meta (all_blocks p ! i) of None \<Rightarrow> m
             | Some s \<Rightarrow> m(s := (m s)\<lparr>publish_timestamp_us := 0\<rparr>))"
  using assms(2)
proof (cases rule: allocate_cases)
  case trap
  then show ?thesis by (intro failed) auto
next
  case (fresh a)
  from create_block_cases [OF fresh(2)] show ?thesis
  proof (elim disjE exE conjE)
    fix x
    assume "r = Inl x" "m' = m" "p' = p\<lparr>next_block_id := next_block_id p + 1\<rparr>"
    then show ?thesis by (intro failed) auto
  next
    fix b cs'
    let ?b0 = "(new_block a (next_block_id p))
        \<lparr>vb_handle := snd (be_create e), vb_va := snd (be_reserve e)\<rparr>"
    assume ex: "export_block (ipc_capable p) e ?b0 m = (b, m', cs')"
      and *: "r = Inr (length (all_blocks p))"
        "p' = p\<lparr>next_block_id := next_block_id p + 1, all_blocks := all_blocks p @ [b]\<rparr>"
    have "vb_block_id (fst (b, m', cs')) = next_block_id p" "vb_current_uid (fst (b, m', cs')) = 0"
      unfolding ex [symmetric] by (simp_all add: new_block_def)
    then show ?thesis using * export_block_meta [OF ex] by (intro created) (auto simp: new_block_def)
  qed
next
  case (reused a key vec i)
  note sc = scan_ready_Some [OF reused(3)]
  have i: "i < length vec" using sc by simp
  have s: "sorted_buckets (free_blocks p)" "fb.sized (block_size p) (free_blocks p)"
    and sub: "free_set p \<subseteq> {..<length (all_blocks p)}" using assms(1) by (auto simp: pool_inv_def)
  have mem: "vec ! i \<in> free_set p" using fb.take_sized(3) [OF s reused(2) i] by (simp add: free_set_def)
  with sub have "vec ! i < length (all_blocks p)" by auto
  with mem sc show ?thesis
    using reused(4,6) that(3) [of "vec ! i"] by (simp add: reuse_block_def Let_def)
qed

lemma assign_uid_outcome:
  assumes "assign_uid rnd now i (m, p) = (u, (m', p'))" and "vb_ipc_meta (all_blocks p ! i) = Some s"
  obtains (kept) "vb_current_uid (all_blocks p ! i) \<noteq> 0" "u = vb_current_uid (all_blocks p ! i)"
      "m' = m" "p' = p"
  | (drawn) "vb_current_uid (all_blocks p ! i) = 0" "u = rnd"
      "m' = m(s := (m s)\<lparr>uid := rnd, publish_timestamp_us := now\<rparr>)"
      "p' = p\<lparr>all_blocks := (all_blocks p)[i := (all_blocks p ! i)\<lparr>vb_current_uid := rnd\<rparr>]\<rparr>"
proof (cases "vb_current_uid (all_blocks p ! i) = 0")
  case True
  with assms show ?thesis by (intro drawn) (auto simp: assign_uid_def Let_def)
next
  case False
  with assms show ?thesis by (intro kept) (auto simp: assign_uid_def Let_def)
qed

lemma import_segment:
  assumes "path \<noteq> []" and "length path \<le> 107"
    and "import_block e path pid bid sz u (cache, m) = (r, (cache', m'), cs)"
    and "attaches e b" and "vb_ipc_meta b = Some s"
    and "\<And>c. cache (pid, bid) = Some c \<Longrightarrow> ci_ipc_meta c = Some s"
  shows "(\<exists>x. r = Inl x \<and> cache' = cache \<and> m' = m) \<or>
    (\<exists>y c. r = Inr y \<and> ir_ipc_meta y = Some s \<and> m' = add_ref 1 (Some s) m \<and>
       cache' = cache((pid, bid) \<mapsto> c) \<and> ci_ipc_meta c = Some s \<and> (u = 0 \<or> uid (m s) = u))"
proof (cases "cache (pid, bid)")
  case (Some c)
  with assms(6) have c: "ci_ipc_meta c = Some s" by simp
  show ?thesis
  proof (cases r)
    case (Inl x)
    with assms(3) Some show ?thesis
      by (cases "check_uid_staleness m (ci_ipc_meta c) u") (auto simp: import_block_def Let_def)
  next
    case (Inr y)
    with import_block_hit [where cache = cache, OF Some assms(3) [unfolded Inr]] c show ?thesis
      by (auto simp: check_uid_None)
  qed
next
  case None
  obtain a where a: "make_abstract_unix_addr path = Inr a"
    using assms(1,2) by (simp add: make_abstract_unix_addr_def sun_path_size_def)
  have om: "fst (open_metadata e) = Some s"
    using assms(4,5) by (simp add: open_metadata_def attaches_def)
  have miss: "ci_ipc_meta c = fst (open_metadata e)"
    if "r = Inr \<lparr>ir_va = ci_va c, ir_ipc_meta = ci_ipc_meta c\<rparr>" for c
    using import_block_miss_segment [where cache = cache, OF None assms(3) [unfolded that]] by simp
  have seg: "ci_ipc_meta c = Some s"
    if "r = Inr \<lparr>ir_va = ci_va c, ir_ipc_meta = ci_ipc_meta c\<rparr>" for c
    using miss [OF that] om by simp
  from import_block_outcome [OF a assms(3)] show ?thesis
  proof (elim disjE exE conjE)
    fix c
    assume "r = Inr \<lparr>ir_va = ci_va c, ir_ipc_meta = ci_ipc_meta c\<rparr>"
      "check_uid_staleness m (ci_ipc_meta c) u = None" "cache' = cache((pid, bid) \<mapsto> c)"
      "m' = add_ref 1 (ci_ipc_meta c) m"
    with seg [of c] show ?thesis by (auto simp: check_uid_None)
  qed (use None in simp_all)
qed

section \<open>The invariant is kept\<close>

lemma readers_add: "w_live w' = add_mset d (w_live w) \<Longrightarrow>
    readers w' i = readers w i + (if d_block d = i then 1 else 0)"
  by (simp add: readers_def)

lemma readers_le: "readers w i \<le> size (w_live w)"
  by (simp add: readers_def size_filter_mset_lesseq)

lemma readers_same: "w_live w' = w_live w \<Longrightarrow> readers w' i = readers w i"
  by (simp add: readers_def)

lemma idents_nth [simp]:
  "i < length (all_blocks p) \<Longrightarrow>
     idents p ! i = (vb_block_id (all_blocks p ! i), vb_ipc_meta (all_blocks p ! i))"
  by (simp add: idents_def)

lemma idents_length [simp]: "length (idents p) = length (all_blocks p)"
  by (simp add: idents_def)

lemma idents_uid:
  "all_blocks p' = (all_blocks p)[i := (all_blocks p ! i)\<lparr>vb_current_uid := u\<rparr>] \<Longrightarrow>
     idents p' = idents p"
  by (cases "i < length (all_blocks p)")
     (auto simp: idents_def map_update list_update_beyond intro!: list_update_same_conv [THEN iffD2])

lemma idents_same: "all_blocks p' = all_blocks p \<Longrightarrow> idents p' = idents p"
  by (simp add: idents_def)

lemma one_owner_snoc:
  assumes "one_owner xs" and "\<And>s. snd x = Some s \<Longrightarrow> Some s \<notin> snd ` set xs"
  shows "one_owner (xs @ [x])"
proof -
  have "i = j" if "i < length (xs @ [x])" "j < length (xs @ [x])"
    "snd ((xs @ [x]) ! i) = Some s" "snd ((xs @ [x]) ! j) = Some s" for i j s
  proof -
    have *: "snd (xs ! k) \<noteq> Some s" if "k < length xs" "snd x = Some s" for k
      using assms(2) [OF that(2)] nth_mem [OF that(1)] by (metis imageI)
    show ?thesis
      using that assms(1) * unfolding one_owner_def
      by (cases "i = length xs"; cases "j = length xs") (auto simp: nth_append)
  qed
  then show ?thesis unfolding one_owner_def by blast
qed

text \<open>Steps that leave names and segments alone.\<close>

lemma names_inv_same:
  assumes "names_inv w" and "idents (w_pool w') = idents (w_pool w)" and "pool_inv (w_pool w')"
    and "next_block_id (w_pool w) \<le> next_block_id (w_pool w')" and "w_now w' \<noteq> 0"
  shows "names_inv w'"
  using assms unfolding names_inv_def by (auto intro: less_le_trans)

lemma caches_inv_same:
  "caches_inv pid w \<Longrightarrow> idents (w_pool w') = idents (w_pool w) \<Longrightarrow> w_caches w' = w_caches w \<Longrightarrow>
     caches_inv pid w'"
  by (simp add: caches_inv_def)

lemma count_inv_same:
  assumes "count_inv w" and "idents (w_pool w') = idents (w_pool w)" and "w_live w' = w_live w"
    and "w_sent w \<subseteq> w_sent w'" and "\<And>s. refcount (w_meta w' s) = refcount (w_meta w s)"
  shows "count_inv w'"
  using assms unfolding count_inv_def by (auto simp: readers_same [OF assms(3)])

lemma world_inv_cong:
  assumes "world_inv pid w" and "all_blocks (w_pool w') = all_blocks (w_pool w)"
    and "next_block_id (w_pool w) \<le> next_block_id (w_pool w')" and "pool_inv (w_pool w')"
    and "w_meta w' = w_meta w" "w_now w \<le> w_now w'" "w_caches w' = w_caches w"
    "w_sent w' = w_sent w" "w_live w' = w_live w" "w_gen w' = w_gen w"
  shows "world_inv pid w'"
proof -
  note id = idents_same [OF assms(2)]
  have le: "unat (w_now w) \<le> unat (w_now w')" using assms(6) by (simp add: word_le_nat_alt)
  have "w_now w' \<noteq> 0" using assms(1,6) by (auto simp: world_inv_def names_inv_def)
  moreover have "descriptor_ok w' d" if "descriptor_ok w d" for d
    using that le unfolding descriptor_ok_def assms(2,5,10) by (fastforce intro: order_trans)
  moreover have "uid_ok w' i" if "uid_ok w i" for i
    using that unfolding uid_ok_def assms(2,5) by simp
  ultimately show ?thesis
    using assms names_inv_same [OF _ id] caches_inv_same [OF _ id] count_inv_same [OF _ id]
    unfolding world_inv_def sent_inv_def by simp
qed

lemma segment_owner:
  assumes "names_inv w" and "i < length (all_blocks (w_pool w))" and "j < length (all_blocks (w_pool w))"
    and "vb_ipc_meta (w_block w i) = Some s" and "vb_ipc_meta (w_block w j) = Some s"
  shows "i = j"
  using assms by (fastforce simp: names_inv_def one_owner_def)

lemma zero_readers:
  assumes "count_inv w" and "i < length (all_blocks (w_pool w))" and "vb_ipc_meta (w_block w i) = Some s"
    and "\<not> 0 < sint (refcount (w_meta w s))"
  shows "readers w i = 0"
proof -
  have r: "refcount (w_meta w s) = of_nat (readers w i)" using assms(1-3) by (simp add: count_inv_def)
  have lt: "readers w i < 2 ^ 31"
    using assms(1) readers_le [of w i] by (simp add: count_inv_def)
  have "sint (of_nat (readers w i) :: i32) = int (readers w i)"
    using lt by (simp add: signed_of_nat signed_take_bit_int_eq_self_iff)
  with assms(4) r show ?thesis by simp
qed

lemma allocate_created_inv:
  assumes inv: "world_inv pid w"
    and blocks: "all_blocks p' = all_blocks (w_pool w) @ [b]" and id: "vb_block_id b = next_block_id (w_pool w)"
    and nxt: "next_block_id p' = next_block_id (w_pool w) + 1" "unat (next_block_id (w_pool w)) + 1 < 2 ^ 32"
    and uid0: "vb_current_uid b = 0"
    and meta: "(vb_ipc_meta b = None \<and> m' = w_meta w) \<or>
       (\<exists>s. vb_ipc_meta b = Some s \<and> Some s \<notin> vb_ipc_meta ` set (all_blocks (w_pool w)) \<and>
            m' = (w_meta w)(s := init_metadata))"
    and p: "pool_inv p'" and w': "w' = w\<lparr>w_meta := m', w_pool := p',
        w_gen := (w_gen w)(length (all_blocks (w_pool w)) := g)\<rparr>"
  shows "world_inv pid w'"
proof -
  let ?n = "length (all_blocks (w_pool w))"
  have ids: "idents p' = idents (w_pool w) @ [(vb_block_id b, vb_ipc_meta b)]"
    using blocks by (simp add: idents_def)
  have other: "m' s = w_meta w s" if "vb_ipc_meta (w_block w i) = Some s" "i < ?n" for i s
    using meta that(1) nth_mem [OF that(2)] by (auto simp: image_iff dest: sym)
  have old: "w_block w' i = w_block w i" if "i < ?n" for i
    using that blocks w' by (simp add: nth_append)
  have lt: "next_block_id (w_pool w) < next_block_id p'" using nxt by (simp add: word_less_nat_alt unat_word_ariths)
  have N: "names_inv w" and S: "sent_inv w" and C: "count_inv w" and K: "caches_inv pid w"
    using inv by (simp_all add: world_inv_def)
  have "names_inv w'"
    unfolding names_inv_def
  proof (intro conjI)
    have "one_owner (idents (w_pool w) @ [(vb_block_id b, vb_ipc_meta b)])"
    proof (rule one_owner_snoc)
      show "one_owner (idents (w_pool w))" using N by (simp add: names_inv_def)
      show "Some s \<notin> snd ` set (idents (w_pool w))" if "snd (vb_block_id b, vb_ipc_meta b) = Some s" for s
        using meta that by (auto simp: idents_def image_image)
    qed
    then show "one_owner (idents (w_pool w'))" by (simp add: w' ids)
    show "distinct (map fst (idents (w_pool w')))"
      using N id by (fastforce simp: w' ids names_inv_def)
    show "\<forall>x \<in> set (idents (w_pool w')). fst x < next_block_id (w_pool w')"
      using N id lt by (auto simp: w' ids names_inv_def intro: less_trans)
  qed (use N p w' in \<open>simp_all add: names_inv_def\<close>)
  moreover have "caches_inv pid w'" using K by (auto simp: caches_inv_def w' ids)
  moreover have "count_inv w'"
  proof -
    have "d_block d \<noteq> ?n" if "d \<in># w_live w" for d
      using C S that by (fastforce simp: count_inv_def sent_inv_def descriptor_ok_def)
    then have r0: "readers w ?n = 0" by (simp add: readers_def filter_mset_eq_mempty_iff)
    have "refcount (m' s) = of_nat (readers w i)" if "i < Suc ?n" "snd (idents p' ! i) = Some s" for i s
    proof (cases "i = ?n")
      case True
      then have "vb_ipc_meta b = Some s" using that(2) by (simp add: ids nth_append)
      then show ?thesis using meta r0 True by (auto simp: init_metadata_def)
    next
      case False
      then have i: "i < ?n" using that(1) by simp
      then have "vb_ipc_meta (w_block w i) = Some s" using that(2) by (simp add: ids nth_append)
      with other [OF this i] C i show ?thesis by (simp add: count_inv_def)
    qed
    then show ?thesis using C by (simp add: count_inv_def w' blocks readers_def)
  qed
  moreover have "descriptor_ok w' d" if "descriptor_ok w d" for d
  proof -
    have "d_block d < ?n" using that by (simp add: descriptor_ok_def)
    with that old [OF this] other [OF _ this] show ?thesis
      by (auto simp: descriptor_ok_def w' blocks)
  qed
  moreover have "uid_ok w' i" if "i < Suc ?n" "\<forall>j < ?n. uid_ok w j" for i
  proof (cases "i = ?n")
    case True
    then show ?thesis using uid0 by (simp add: uid_ok_def w' blocks)
  next
    case False
    with that have "i < ?n" by simp
    with that old [OF this] other [OF _ this] show ?thesis by (auto simp: uid_ok_def w')
  qed
  ultimately show ?thesis using S by (simp add: world_inv_def sent_inv_def w' blocks)
qed

lemma allocate_reused_inv:
  assumes inv: "world_inv pid w" and i: "i < length (all_blocks (w_pool w))"
    and ready: "is_block_ready (w_now w) (w_meta w) (w_block w i)"
    and nxt: "next_block_id p' = next_block_id (w_pool w)"
    and blocks: "all_blocks p' = (all_blocks (w_pool w))[i := (w_block w i)\<lparr>vb_current_uid := 0\<rparr>]"
    and meta: "m' = (case vb_ipc_meta (w_block w i) of None \<Rightarrow> w_meta w
             | Some s \<Rightarrow> (w_meta w)(s := (w_meta w s)\<lparr>publish_timestamp_us := 0\<rparr>))"
    and p: "pool_inv p'"
    and w': "w' = w\<lparr>w_meta := m', w_pool := p', w_gen := (w_gen w)(i := Suc (w_gen w i))\<rparr>"
  shows "world_inv pid w'"
proof -
  have N: "names_inv w" and S: "sent_inv w" and C: "count_inv w" and K: "caches_inv pid w"
    using inv by (simp_all add: world_inv_def)
  have ids: "idents (w_pool w') = idents (w_pool w)" using idents_uid [OF blocks] w' by simp
  have same: "refcount (m' s) = refcount (w_meta w s)" "uid (m' s) = uid (w_meta w s)" for s
    using meta by (auto split: option.splits)
  have len: "length (all_blocks p') = length (all_blocks (w_pool w))" using blocks by simp
  have other: "m' s = w_meta w s"
    if "vb_ipc_meta (w_block w j) = Some s" "j < length (all_blocks (w_pool w))" "j \<noteq> i" for j s
    using meta that segment_owner [OF N that(2) i that(1)] by (auto split: option.splits)
  have "names_inv w'" by (rule names_inv_same [OF N ids]) (use N p nxt w' in \<open>simp_all add: names_inv_def\<close>)
  moreover have "caches_inv pid w'" by (rule caches_inv_same [OF K ids]) (simp add: w')
  moreover have "count_inv w'" by (rule count_inv_same [OF C ids]) (simp_all add: w' same)
  moreover have "descriptor_ok w' d" if d: "descriptor_ok w d" for d
  proof (cases "d_block d = i")
    case False
    have l: "d_block d < length (all_blocks (w_pool w))" using d by (simp add: descriptor_ok_def)
    from d False other [OF _ l False] show ?thesis
      by (auto simp: descriptor_ok_def w' blocks)
  next
    case True
    obtain s where s: "vb_ipc_meta (w_block w i) = Some s" and tm: "d_time d \<noteq> 0"
      and g: "d_gen d \<le> w_gen w i"
      using d True by (auto simp: descriptor_ok_def)
    have "unat (d_time d) + unat grace_period_us \<le> unat (w_now w)"
    proof (cases "d_gen d = w_gen w i")
      case True
      with d \<open>d_block d = i\<close> s have "publish_timestamp_us (w_meta w s) = d_time d"
        by (auto simp: descriptor_ok_def)
      with ready s tm have "d_time d \<le> w_now w" "grace_period_us \<le> w_now w - d_time d"
        by (auto simp: is_block_ready_def Let_def not_less split: if_splits)
      then show ?thesis by (simp add: word_le_nat_alt unat_sub)
    next
      case False
      with d \<open>d_block d = i\<close> show ?thesis by (auto simp: descriptor_ok_def)
    qed
    with d True s g i show ?thesis by (auto simp: descriptor_ok_def w' blocks)
  qed
  moreover have "uid_ok w' j" if "uid_ok w j" "j < length (all_blocks (w_pool w))" for j
    using that other [OF _ that(2)] i by (cases "j = i") (auto simp: uid_ok_def w' blocks)
  ultimately show ?thesis using S by (simp add: world_inv_def sent_inv_def w' len)
qed

lemma publish_inv:
  assumes inv: "world_inv pid w" and i: "i < length (all_blocks (w_pool w))"
    and s: "vb_ipc_meta (w_block w i) = Some s" and rnd: "rnd \<noteq> 0" "rnd \<notin> d_uid ` w_sent w"
    and as: "assign_uid rnd (w_now w) i (w_meta w, w_pool w) = (u, (m', p'))"
    and w': "w' = w\<lparr>w_meta := m', w_pool := p',
          w_sent := insert \<lparr>d_block = i, d_uid = u, d_gen = w_gen w i,
                             d_time = publish_timestamp_us (m' s)\<rparr> (w_sent w)\<rparr>"
  shows "world_inv pid w'"
  using as s
proof (cases rule: assign_uid_outcome)
  case kept
  have U: "uid_ok w i" using inv i by (simp add: world_inv_def sent_inv_def)
  let ?d = "\<lparr>d_block = i, d_uid = u, d_gen = w_gen w i, d_time = publish_timestamp_us (m' s)\<rparr>"
  have "descriptor_ok w ?d" using kept s i U by (auto simp: descriptor_ok_def uid_ok_def)
  moreover have w2: "w' = w\<lparr>w_sent := insert ?d (w_sent w)\<rparr>" using w' kept by simp
  moreover have "descriptor_ok w' d = descriptor_ok w d" "uid_ok w' j = uid_ok w j" for d j
    by (simp_all add: descriptor_ok_def uid_ok_def w2)
  ultimately show ?thesis
    using inv by (auto simp: world_inv_def names_inv_def caches_inv_def count_inv_def sent_inv_def readers_def)
next
  case drawn
  let ?d = "\<lparr>d_block = i, d_uid = u, d_gen = w_gen w i, d_time = publish_timestamp_us (m' s)\<rparr>"
  have N: "names_inv w" and S: "sent_inv w" and C: "count_inv w" and K: "caches_inv pid w"
    using inv by (simp_all add: world_inv_def)
  have blocks: "all_blocks p' = (all_blocks (w_pool w))[i := (w_block w i)\<lparr>vb_current_uid := rnd\<rparr>]"
    using drawn by simp
  have ids: "idents (w_pool w') = idents (w_pool w)" using idents_uid [OF blocks] w' by simp
  have other: "m' t = w_meta w t" if "vb_ipc_meta (w_block w j) = Some t"
    "j < length (all_blocks (w_pool w))" "j \<noteq> i" for j t
    using drawn that s segment_owner [OF N that(2) i that(1)] by auto
  have p: "pool_inv p'"
    using N assign_uid_frame [OF as] by (simp add: names_inv_def pool_inv_def free_set_def)
  have "names_inv w'"
    by (rule names_inv_same [OF N ids]) (use N p drawn w' in \<open>simp_all add: names_inv_def\<close>)
  moreover have "caches_inv pid w'" by (rule caches_inv_same [OF K ids]) (simp add: w')
  moreover have "count_inv w'" by (rule count_inv_same [OF C ids]) (auto simp: w' drawn)
  moreover have "descriptor_ok w' d" if d: "d \<in> w_sent w" for d
  proof -
    have ok: "descriptor_ok w d" using S d by (simp add: sent_inv_def)
    then have l: "d_block d < length (all_blocks (w_pool w))" by (simp add: descriptor_ok_def)
    show ?thesis
    proof (cases "d_block d = i")
      case False
      with ok other [OF _ l False] show ?thesis by (auto simp: descriptor_ok_def w' blocks)
    next
      case True
      have "d_uid d \<noteq> rnd" using rnd(2) d by auto
      moreover have "d_gen d \<noteq> w_gen w i" using ok True drawn(1) by (auto simp: descriptor_ok_def)
      ultimately show ?thesis using ok True s l drawn by (auto simp: descriptor_ok_def w' blocks)
    qed
  qed
  moreover have "descriptor_ok w' ?d"
    using i s rnd(1) drawn N by (simp add: descriptor_ok_def w' names_inv_def)
  moreover have "uid_ok w' j" if "uid_ok w j" "j < length (all_blocks (w_pool w))" for j
    using that other [OF _ that(2)] i s drawn N
    by (cases "j = i") (auto simp: uid_ok_def w' names_inv_def)
  ultimately show ?thesis using S drawn by (simp add: world_inv_def sent_inv_def w')
qed

lemma import_inv:
  assumes inv: "world_inv pid w" and d: "d \<in> w_sent w"
    and env: "attaches e (w_block w (d_block d))" "path \<noteq> []" "length path \<le> 107"
    and room: "size (w_live w) + 1 < 2 ^ 31"
    and im: "import_block e path pid (vb_block_id (w_block w (d_block d))) sz
       (d_uid d) (w_caches w k, w_meta w) = (r, (cache', m'), cs)"
    and w': "w' = w\<lparr>w_meta := m', w_caches := (w_caches w)(k := cache'),
          w_live := (case r of Inl x \<Rightarrow> w_live w | Inr y \<Rightarrow> add_mset d (w_live w))\<rparr>"
  shows "world_inv pid w' \<and> (\<forall>y. r = Inr y \<longrightarrow>
    ir_ipc_meta y = vb_ipc_meta (w_block w (d_block d)) \<and>
    (\<forall>s. ir_ipc_meta y = Some s \<longrightarrow> uid (w_meta w s) = d_uid d))"
proof -
  have N: "names_inv w" and S: "sent_inv w" and C: "count_inv w" and K: "caches_inv pid w"
    using inv by (simp_all add: world_inv_def)
  let ?i = "d_block d"
  have ok: "descriptor_ok w d" using S d by (simp add: sent_inv_def)
  then obtain s where i: "?i < length (all_blocks (w_pool w))" and s: "vb_ipc_meta (w_block w ?i) = Some s"
    and u: "d_uid d \<noteq> 0"
    by (auto simp: descriptor_ok_def)
  have hit: "ci_ipc_meta c = Some s" if "w_caches w k (pid, vb_block_id (w_block w ?i)) = Some c" for c
  proof -
    have dist: "distinct (map fst (idents (w_pool w)))" using N by (simp add: names_inv_def)
    have "(vb_block_id (w_block w ?i), ci_ipc_meta c) \<in> set (idents (w_pool w))"
      using K that by (simp add: caches_inv_def)
    moreover have "(vb_block_id (w_block w ?i), Some s) \<in> set (idents (w_pool w))"
      using i s by (force simp: idents_def)
    ultimately show ?thesis using dist by (rule eq_key_imp_eq_value [rotated])
  qed
  have "(\<exists>x. r = Inl x \<and> cache' = w_caches w k \<and> m' = w_meta w) \<or>
    (\<exists>y c. r = Inr y \<and> ir_ipc_meta y = Some s \<and> m' = add_ref 1 (Some s) (w_meta w) \<and>
       cache' = (w_caches w k)((pid, vb_block_id (w_block w ?i)) \<mapsto> c) \<and> ci_ipc_meta c = Some s \<and>
       (d_uid d \<noteq> 0 \<longrightarrow> uid (w_meta w s) = d_uid d))"
    using import_segment [OF env(2,3) im env(1) s hit] by blast
  then show ?thesis
  proof (elim disjE exE conjE)
    fix x
    assume "r = Inl x" "cache' = w_caches w k" "m' = w_meta w"
    then have "w' = w" using w' by simp
    with inv \<open>r = Inl x\<close> show ?thesis by simp
  next
    fix y c
    assume r: "r = Inr y" "ir_ipc_meta y = Some s" and m': "m' = add_ref 1 (Some s) (w_meta w)"
      and c: "cache' = (w_caches w k)((pid, vb_block_id (w_block w ?i)) \<mapsto> c)" "ci_ipc_meta c = Some s"
      and uid: "d_uid d \<noteq> 0 \<longrightarrow> uid (w_meta w s) = d_uid d"
    have live: "w_live w' = add_mset d (w_live w)" using r w' by simp
    have w2: "w_pool w' = w_pool w" "w_now w' = w_now w" "w_sent w' = w_sent w" "w_gen w' = w_gen w"
      "w_meta w' = m'" using w' by simp_all
    have "names_inv w'" using N by (simp add: names_inv_def w2)
    moreover have "caches_inv pid w'"
    proof -
      have "(vb_block_id (w_block w ?i), Some s) \<in> set (idents (w_pool w))"
        using i s by (force simp: idents_def)
      with K c show ?thesis by (auto simp: caches_inv_def w')
    qed
    moreover have "count_inv w'"
    proof -
      have "refcount (m' t) = of_nat (readers w' j)"
        if "j < length (all_blocks (w_pool w))" "vb_ipc_meta (w_block w j) = Some t" for j t
      proof -
        have "t = s \<longleftrightarrow> ?i = j" using segment_owner [OF N that(1) i that(2)] s that by auto
        moreover have "refcount (w_meta w t) = of_nat (readers w j)" using C that by (simp add: count_inv_def)
        ultimately show ?thesis by (auto simp: m' readers_add [OF live])
      qed
      with C d room show ?thesis by (simp add: count_inv_def w2 live)
    qed
    moreover have "sent_inv w'"
      using S by (simp add: sent_inv_def descriptor_ok_def uid_ok_def w2 m')
    ultimately show ?thesis using r s uid u by (simp add: world_inv_def)
  qed
qed

lemma release_inv:
  assumes inv: "world_inv pid w" and d: "d \<in># w_live w"
    and w': "w' = w\<lparr>w_meta := release_import (vb_ipc_meta (w_block w (d_block d))) (w_meta w),
          w_live := w_live w - {#d#}\<rparr>"
  shows "world_inv pid w'"
proof -
  have N: "names_inv w" and S: "sent_inv w" and C: "count_inv w" and K: "caches_inv pid w"
    using inv by (simp_all add: world_inv_def)
  have "d \<in> w_sent w" using C d by (auto simp: count_inv_def)
  then have "descriptor_ok w d" using S by (simp add: sent_inv_def)
  then obtain s where i: "d_block d < length (all_blocks (w_pool w))"
    and s: "vb_ipc_meta (w_block w (d_block d)) = Some s"
    by (auto simp: descriptor_ok_def)
  have m: "w_meta w' = add_ref (-1) (Some s) (w_meta w)" by (simp add: w' release_import_def s)
  have live: "w_live w = add_mset d (w_live w')" using d by (simp add: w')
  have w2: "w_pool w' = w_pool w" "w_now w' = w_now w" "w_sent w' = w_sent w" "w_gen w' = w_gen w"
    "w_caches w' = w_caches w" using w' by simp_all
  have "refcount (w_meta w' t) = of_nat (readers w' j)"
    if "j < length (all_blocks (w_pool w))" "vb_ipc_meta (w_block w j) = Some t" for j t
  proof -
    have "t = s \<longleftrightarrow> d_block d = j" using segment_owner [OF N that(1) i that(2)] s that by auto
    moreover have "refcount (w_meta w t) = of_nat (readers w j)" using C that by (simp add: count_inv_def)
    ultimately show ?thesis by (auto simp: m readers_add [OF live])
  qed
  then have "count_inv w'" using C live by (auto simp: count_inv_def w2)
  moreover have "sent_inv w'" using S by (simp add: sent_inv_def descriptor_ok_def uid_ok_def w2 m)
  ultimately show ?thesis using N K by (simp add: world_inv_def names_inv_def caches_inv_def w2)
qed

lemma initial_world_inv:
  "all_blocks p = [] \<Longrightarrow> free_blocks p = [] \<Longrightarrow> t \<noteq> 0 \<Longrightarrow> world_inv pid (initial_world p t)"
  by (simp add: world_inv_def initial_world_def names_inv_def caches_inv_def count_inv_def
      sent_inv_def idents_def one_owner_def pool_inv_def free_set_def fb.elems_def fb.sized_def)

lemma allocate_inv:
  assumes inv: "world_inv pid w" and env: "fresh_env e (w_pool w)"
    and al: "allocate (\<lambda>_. w_now w) e n (w_meta w, w_pool w) = (r, (m', p'), cs)"
    and w': "w' = w\<lparr>w_meta := m', w_pool := p',
          w_gen := (case r of Inl x \<Rightarrow> w_gen w | Inr i \<Rightarrow> (w_gen w)(i := Suc (w_gen w i)))\<rparr>"
  shows "world_inv pid w'"
proof -
  have p: "pool_inv (w_pool w)" using inv by (simp add: world_inv_def names_inv_def)
  note p' = allocate_step(1) [OF p al]
  have lt: "next_block_id (w_pool w) < next_block_id (w_pool w) + 1"
    using env by (simp add: fresh_env_def word_less_nat_alt unat_word_ariths)
  show ?thesis
    using p al
  proof (cases rule: allocate_outcome)
    case (failed x)
    then show ?thesis using inv p' lt w' by (intro world_inv_cong [OF inv]) auto
  next
    case (created b)
    show ?thesis
      using created env p' w'
      by (intro allocate_created_inv [OF inv created(2,3,4), where m' = m'])
         (auto simp: fresh_env_def)
  next
    case (reused i)
    show ?thesis
      using allocate_reused_inv [OF inv reused(2,4,5,6,7) p'] w' reused(1) by simp
  qed
qed

lemma world_step_inv:
  assumes "world_inv pid w" and "world_step timely pid w w'"
  shows "world_inv pid w'"
  using assms(2,1)
proof (induction rule: world_step.induct)
  case (ws_tick w t)
  show ?case using ws_tick by (intro world_inv_cong [OF ws_tick(2)]) (auto simp: world_inv_def names_inv_def)
next
  case (ws_allocate w e n r m' p' cs)
  then show ?case using allocate_inv by blast
next
  case (ws_free i w)
  then show ?case
    using free_block_step(1)
    by (intro world_inv_cong [OF ws_free(2)]) (auto simp: world_inv_def names_inv_def free_block_def)
next
  case (ws_publish i w s rnd u m' p')
  then have "i < length (all_blocks (w_pool w))" by (simp add: handed_out_def)
  from publish_inv [OF ws_publish(6) this ws_publish(2-5) refl] show ?case .
next
  case (ws_import d w e path k r cache' m' cs)
  from import_inv [OF ws_import(8,1,3-7) refl] show ?case by blast
next
  case (ws_release d w)
  then show ?case using release_inv by blast
qed

lemma reachable_inv: "reachable timely pid w \<Longrightarrow> world_inv pid w"
  by (induction rule: reachable.induct) (auto intro: initial_world_inv world_step_inv)

lemma reachable_live_current:
  assumes "reachable within_grace pid w"
  shows "\<forall>d \<in># w_live w. d_gen d = w_gen w (d_block d)"
  using assms
proof (induction rule: reachable.induct)
  case (reach_init p t)
  then show ?case by (simp add: initial_world_def)
next
  case (reach_step w w')
  from reach_step(2,1,3) show ?case
  proof (induction rule: world_step.induct)
    case (ws_allocate w e n r m' p' cs)
    have inv: "world_inv pid w" using ws_allocate(3) by (rule reachable_inv)
    then have p: "pool_inv (w_pool w)" by (simp add: world_inv_def names_inv_def)
    have C: "count_inv w" and S: "sent_inv w" using inv by (simp_all add: world_inv_def)
    have lt: "d_block d < length (all_blocks (w_pool w))" "\<exists>s. vb_ipc_meta (w_block w (d_block d)) = Some s"
      if "d \<in># w_live w" for d
      using C S that by (fastforce simp: count_inv_def sent_inv_def descriptor_ok_def)+
    show ?case
      using p ws_allocate(1)
    proof (cases rule: allocate_outcome)
      case (failed x)
      then show ?thesis using ws_allocate(4) by simp
    next
      case (created b)
      then show ?thesis using ws_allocate(4) lt(1) by fastforce
    next
      case (reused i)
      have "d_block d \<noteq> i" if d: "d \<in># w_live w" for d
      proof
        assume i: "d_block d = i"
        with lt(2) [OF d] obtain s where s: "vb_ipc_meta (w_block w i) = Some s" by auto
        with reused(4) have "\<not> 0 < sint (refcount (w_meta w s))"
          by (auto simp: is_block_ready_def split: if_splits)
        from zero_readers [OF C reused(2) s this] d i show False
          by (auto simp: readers_def filter_mset_eq_mempty_iff)
      qed
      with reused(1) ws_allocate(4) show ?thesis by simp
    qed
  next
    case (ws_import d w e path k r cache' m' cs)
    have "world_inv pid w" using ws_import(8) by (rule reachable_inv)
    then have "descriptor_ok w d" using ws_import(1) by (simp add: world_inv_def sent_inv_def)
    then have "d_gen d = w_gen w (d_block d)"
      using ws_import(2) by (fastforce simp: descriptor_ok_def within_grace_def)
    then show ?case using ws_import(9) by (cases r) auto
  next
    case (ws_release d w)
    then show ?case by (auto dest: in_diffD)
  qed simp_all
qed

section \<open>A sample run\<close>

text \<open>
  One block is allocated at time 1000 and published with uid 7; in the second world it is then
  returned and, when its grace window is over, handed out again.
\<close>

definition proto_pool :: cuda_pool where
  "proto_pool = empty_pool\<lparr>granularity := 4096, ipc_capable := True, initialized := True\<rparr>"

definition proto_block :: "u64 \<Rightarrow> vmm_block" where
  "proto_block u =
     \<lparr>vb_handle = 9, vb_va = 524288, vb_size = 4096, vb_exported_fd = 5, vb_block_id = 0,
      vb_ipc_meta = Some 1, vb_shm_fd = 6, vb_shm_name = meta_shm_name 7 0, vb_current_uid = u\<rparr>"

definition proto_descriptor :: descriptor_msg where
  "proto_descriptor = \<lparr>d_block = 0, d_uid = 7, d_gen = 1, d_time = 1000\<rparr>"

definition published_world :: world where
  "published_world =
     \<lparr>w_meta = (\<lambda>_. init_metadata)(1 := \<lparr>refcount = 0, uid = 7, publish_timestamp_us = 1000\<rparr>),
      w_pool = proto_pool\<lparr>next_block_id := 1, all_blocks := [proto_block 7]\<rparr>, w_now = 1000,
      w_caches = (\<lambda>_. Map.empty), w_sent = {proto_descriptor}, w_live = {#}, w_gen = (\<lambda>_. 0)(0 := 1)\<rparr>"

definition reused_world :: world where
  "reused_world = published_world
     \<lparr>w_now := 200000,
      w_meta := (\<lambda>_. init_metadata)(1 := \<lparr>refcount = 0, uid = 7, publish_timestamp_us = 0\<rparr>),
      w_pool := proto_pool\<lparr>next_block_id := 1, all_blocks := [proto_block 0]\<rparr>,
      w_gen := (\<lambda>_. 0)(0 := 2)\<rparr>"

definition proto_import_env :: import_env where
  "proto_import_env = (sample_import_env CUDA_SUCCESS)\<lparr>im_mmap := Some 1\<rparr>"

definition second_env :: block_env where
  "second_env = sample_block_env\<lparr>be_mmap := Some 2\<rparr>"

lemmas proto_eval =
  second_env_def
  proto_pool_def proto_block_def proto_descriptor_def proto_import_env_def pool_eval

lemma published_reachable: "reachable timely 7 published_world"
proof -
  let ?w0 = "initial_world proto_pool 1000"
  have r0: "reachable timely 7 ?w0" by (rule reach_init) (simp_all add: proto_eval)
  have "\<exists>cs. allocate (\<lambda>_. w_now ?w0) sample_block_env 4096 (w_meta ?w0, w_pool ?w0) =
      (Inr 0, (w_meta ?w0, proto_pool\<lparr>next_block_id := 1, all_blocks := [proto_block 0]\<rparr>), cs)"
    by (simp add: initial_world_def proto_eval fun_eq_iff)
  then obtain cs where a: "allocate (\<lambda>_. w_now ?w0) sample_block_env 4096 (w_meta ?w0, w_pool ?w0) =
      (Inr 0, (w_meta ?w0, proto_pool\<lparr>next_block_id := 1, all_blocks := [proto_block 0]\<rparr>), cs)" ..
  have f: "fresh_env sample_block_env (w_pool ?w0)"
    by (simp add: fresh_env_def initial_world_def proto_eval)
  let ?w1 = "?w0\<lparr>w_pool := proto_pool\<lparr>next_block_id := 1, all_blocks := [proto_block 0]\<rparr>,
      w_gen := (\<lambda>_. 0)(0 := 1)\<rparr>"
  have r1: "reachable timely 7 ?w1"
    using reach_step [OF r0 ws_allocate [OF a f]] by (simp add: initial_world_def)
  have h: "0 \<in> handed_out (w_pool ?w1)"
    by (simp add: handed_out_def free_set_def fb.elems_def proto_eval)
  have u: "assign_uid 7 (w_now ?w1) 0 (w_meta ?w1, w_pool ?w1) =
      (7, (w_meta published_world, w_pool published_world))"
    by (simp add: assign_uid_def initial_world_def published_world_def proto_eval)
  have s: "vb_ipc_meta (all_blocks (w_pool ?w1) ! 0) = Some 1" by (simp add: proto_block_def)
  from reach_step [OF r1 ws_publish [OF h s _ _ u]] show ?thesis
    by (simp add: initial_world_def published_world_def proto_descriptor_def)
qed

lemma returned_reachable:
  "reachable timely 7 (published_world\<lparr>w_pool := free_block 0 (w_pool published_world), w_now := 200000\<rparr>)"
proof -
  have h: "0 \<in> handed_out (w_pool published_world)"
    by (simp add: handed_out_def free_set_def fb.elems_def published_world_def proto_eval)
  let ?w1 = "published_world\<lparr>w_pool := free_block 0 (w_pool published_world)\<rparr>"
  have r1: "reachable timely 7 ?w1" by (rule reach_step [OF published_reachable ws_free [OF h]])
  have "w_now ?w1 \<le> 200000" by (simp add: published_world_def)
  from reach_step [OF r1 ws_tick [OF this]] show ?thesis by simp
qed

lemma returned_allocate:
  "allocate (\<lambda>_. w_now (published_world\<lparr>w_pool := free_block 0 (w_pool published_world), w_now := 200000\<rparr>))
     second_env 4096
     (w_meta (published_world\<lparr>w_pool := free_block 0 (w_pool published_world), w_now := 200000\<rparr>),
      w_pool (published_world\<lparr>w_pool := free_block 0 (w_pool published_world), w_now := 200000\<rparr>)) =
   (Inr 0, (w_meta reused_world, w_pool reused_world), [])"
  by (simp add: published_world_def reused_world_def free_block_def proto_eval fun_eq_iff)

lemma reused_reachable: "reachable timely 7 reused_world"
proof -
  let ?w = "published_world\<lparr>w_pool := free_block 0 (w_pool published_world), w_now := 200000\<rparr>"
  have f: "fresh_env second_env (w_pool ?w)"
    by (simp add: fresh_env_def published_world_def free_block_def proto_eval)
  from reach_step [OF returned_reachable ws_allocate [OF returned_allocate f]] show ?thesis
    by (simp add: reused_world_def published_world_def numeral_2_eq_2)
qed

lemma proto_import:
  assumes "w_meta w 1 = \<lparr>refcount = 0, uid = 7, publish_timestamp_us = t\<rparr>" and "w_caches w 0 = Map.empty"
    and "all_blocks (w_pool w) = [proto_block u]"
  shows "\<exists>y cache' m' cs.
    import_block proto_import_env ''cuda_vmm_7_0'' 7 (vb_block_id (all_blocks (w_pool w) ! d_block proto_descriptor))
      (vb_size (all_blocks (w_pool w) ! d_block proto_descriptor)) (d_uid proto_descriptor)
      (w_caches w 0, w_meta w) = (Inr y, (cache', m'), cs)"
  using assms
  by (simp add: proto_import_env_def import_eval proto_descriptor_def proto_block_def)

lemma import_step:
  assumes "reachable timely 7 w" and "timely w proto_descriptor" and "w = published_world \<or> w = reused_world"
  shows "\<exists>w'. reachable timely 7 w' \<and> w_live w' = {#proto_descriptor#} \<and> w_gen w' = w_gen w \<and>
    w_pool w' = w_pool w"
proof -
  have w: "proto_descriptor \<in> w_sent w" "attaches proto_import_env (all_blocks (w_pool w) ! d_block proto_descriptor)"
    "w_live w = {#}"
    using assms(3) by (auto simp: published_world_def reused_world_def attaches_def proto_import_env_def
        sample_import_env_def proto_descriptor_def proto_block_def)
  have "\<exists>t u. w_meta w 1 = \<lparr>refcount = 0, uid = 7, publish_timestamp_us = t\<rparr> \<and> w_caches w 0 = Map.empty \<and>
      all_blocks (w_pool w) = [proto_block u]"
    using assms(3) by (auto simp: published_world_def reused_world_def)
  then obtain y cache' m' cs where im:
    "import_block proto_import_env ''cuda_vmm_7_0'' 7 (vb_block_id (all_blocks (w_pool w) ! d_block proto_descriptor))
      (vb_size (all_blocks (w_pool w) ! d_block proto_descriptor)) (d_uid proto_descriptor)
      (w_caches w 0, w_meta w) = (Inr y, (cache', m'), cs)"
    using proto_import by blast
  have st: "''cuda_vmm_7_0'' \<noteq> []" "length ''cuda_vmm_7_0'' \<le> 107" "size (w_live w) + 1 < 2 ^ 31"
    using w(3) by simp_all
  let ?w' = "w\<lparr>w_meta := m', w_caches := (w_caches w)(0 := cache'), w_live := {#proto_descriptor#}\<rparr>"
  have "world_step timely 7 w ?w'"
    using world_step.ws_import [where timely = timely and w = w and d = proto_descriptor and k = 0, OF w(1) assms(2) w(2) st im] w(3) by simp
  from reach_step [OF assms(1) this] show ?thesis by (intro exI [of _ ?w']) simp
qed

lemma imported_reachable:
  "\<exists>w. reachable within_grace 7 w \<and> w_live w = {#proto_descriptor#} \<and> w_gen w = w_gen published_world \<and>
     w_pool w = w_pool published_world"
  by (rule import_step [OF published_reachable])
     (simp_all add: within_grace_def published_world_def proto_descriptor_def grace_period_us_def)

section \<open>Properties of the protocol\<close>










text \<open>
  Publishing a buffer again does not open a new grace window: \<open>assign_uid\<close> keeps uid and
  publication time of the first publication of the use, so that a block returned
  right after a second publication, 100 ms or more after the first, is ready for reuse at once,
  before any subscriber of the second message could take its reference.
\<close>

theorem republish_opens_no_grace_window:
  assumes "i < length (all_blocks p)" and "vb_ipc_meta (all_blocks p ! i) = Some s"
    and "vb_current_uid (all_blocks p ! i) \<noteq> 0" and "refcount (m s) = 0"
    and "publish_timestamp_us (m s) \<le> now" and "grace_period_us \<le> now - publish_timestamp_us (m s)"
    and "assign_uid rnd now i (m, p) = (u, (m', p'))"
  shows "u = vb_current_uid (all_blocks p ! i) \<and>
    is_block_ready now m' (all_blocks (free_block i p') ! i)"
  using assms
  by (auto simp: assign_uid_def Let_def is_block_ready_def free_block_def)

theorem republish_opens_no_grace_window_witness:
  "\<exists>u m' p'. assign_uid 8 200000 0 (w_meta published_world, w_pool published_world) = (u, (m', p')) \<and> u = 7 \<and>
     is_block_ready 200000 m' (all_blocks (free_block 0 p') ! 0)"
proof -
  let ?w = published_world
  obtain u m' p' where a: "assign_uid 8 200000 0 (w_meta ?w, w_pool ?w) = (u, (m', p'))"
    by (cases "assign_uid 8 200000 0 (w_meta ?w, w_pool ?w)") auto
  have *: "0 < length (all_blocks (w_pool ?w))" "vb_ipc_meta (all_blocks (w_pool ?w) ! 0) = Some 1"
    "vb_current_uid (all_blocks (w_pool ?w) ! 0) \<noteq> 0" "refcount (w_meta ?w 1) = 0"
    "publish_timestamp_us (w_meta ?w 1) \<le> 200000"
    "grace_period_us \<le> 200000 - publish_timestamp_us (w_meta ?w 1)"
    by (simp_all add: published_world_def proto_block_def grace_period_us_def)
  from republish_opens_no_grace_window [OF * a] a show ?thesis
    by (auto simp: published_world_def proto_block_def)
qed

end
