(* ===== verification/Scoped_Handles.thy ===== *)
theory Scoped_Handles
  imports Cuda_Buffer_Impl
begin

text \<open>
  What the clients of \<open>cuda_buffer_api.hpp\<close> share, the conversion plugin and the Python bindings: a handle is
  acquired, work is sent through it, and it ends. The locale states what such a scope
  relies on, for an invariant of the process; it is interpreted for write handles and for read handles. Then
  lemmas on what the calls add to the trace, and on the write that is over when its handle ends.
\<close>

locale scoped_handle =
  fixes acquire :: "'a \<Rightarrow> 's \<Rightarrow> (exn + 'h) \<times> 's"
    and work :: "'c \<Rightarrow> 'h \<Rightarrow> 's \<Rightarrow> (exn + unit) \<times> 's"
    and finish :: "'e \<Rightarrow> 'h \<Rightarrow> 's \<Rightarrow> 's"
    and inv :: "'s \<Rightarrow> bool"
    and owns :: "'h \<Rightarrow> 's \<Rightarrow> bool"
  assumes acquire_inv: "inv s \<Longrightarrow> acquire a s = (r, s') \<Longrightarrow> inv s'"
    and acquire_owns: "inv s \<Longrightarrow> acquire a s = (Inr h, s') \<Longrightarrow> owns h s'"
    and work_inv: "inv s \<Longrightarrow> work c h s = (r', s') \<Longrightarrow> inv s'"
    and work_owns: "owns h s \<Longrightarrow> work c h s = (r', s') \<Longrightarrow> owns h s'"
    and finish_inv: "inv s \<Longrightarrow> owns h s \<Longrightarrow> inv (finish e h s)"
begin

text \<open>A scope, with or without work, keeps the invariant.\<close>

lemma scope_inv:
  assumes "inv s" and "acquire a s = (Inr h, s1)"
  shows "inv (finish e h s1)" and "work c h s1 = (r, s2) \<Longrightarrow> inv (finish e h s2)"
proof -
  have 1: "inv s1" "owns h s1" using acquire_inv [OF assms] acquire_owns [OF assms] by simp_all
  then show "inv (finish e h s1)" by (rule finish_inv)
  show "inv (finish e h s2)" if "work c h s1 = (r, s2)"
    using finish_inv [OF work_inv [OF 1(1) that] work_owns [OF 1(2) that]] .
qed

end

definition write_owned :: "write_handle \<Rightarrow> process \<Rightarrow> bool" where
  "write_owned wh p \<longleftrightarrow> (\<forall>b. wh_promoted wh = Some b \<longrightarrow> b < pr_next p)"

definition read_owned :: "read_handle \<Rightarrow> process \<Rightarrow> bool" where
  "read_owned rh p \<longleftrightarrow> (\<forall>b. rh_promoted rh = Some b \<longrightarrow> b < pr_next p)"

lemma to_buffer_same:
  assumes "to_buffer r src n wh s kind p = (res, p')"
  shows "\<exists>st. p' = p\<lparr>pr_cuda := st\<rparr> \<and> same_storage (pr_cuda p) st"
proof -
  obtain x st where m: "memcpy_async r (wh_ptr wh) src n kind s (pr_cuda p) = (x, st)"
    by (cases "memcpy_async r (wh_ptr wh) src n kind s (pr_cuda p)")
  have "p' = p\<lparr>pr_cuda := if n = 0 \<or> src = 0 \<or> wh_ptr wh = 0 then pr_cuda p else st\<rparr>"
    using assms m by (auto simp: to_buffer_def)
  moreover have "same_storage (pr_cuda p) (if n = 0 \<or> src = 0 \<or> wh_ptr wh = 0 then pr_cuda p else st)"
    using same_storage_memcpy [OF m] by simp
  ultimately show ?thesis by blast
qed

interpretation write_scope: scoped_handle
  "\<lambda>(ea, ge, es, impl, s). from_output_buffer ea ge es impl s"
  "\<lambda>(r, src, n, s, kind) wh. to_buffer r src n wh s kind"
  "\<lambda>e wh. on_cuda (destroy_write_handle e True wh)" process_inv write_owned
proof
  show "process_inv s'" if "process_inv s" "(case a of (ea, ge, es, impl, x) \<Rightarrow> from_output_buffer ea ge es impl x) s = (r, s')"
    for a s r s'
    using that from_output_buffer_inv by (auto split: prod.splits)
  show "write_owned h s'" if "process_inv s" "(case a of (ea, ge, es, impl, x) \<Rightarrow> from_output_buffer ea ge es impl x) s = (Inr h, s')"
    for a s h s'
    using that from_output_buffer_inv [of _ _ _ _ _ s "Inr h" s'] by (auto simp: write_owned_def split: prod.splits)
  show "process_inv s'" if "process_inv s" "(case c of (r, src, n, x, kind) \<Rightarrow> \<lambda>wh. to_buffer r src n wh x kind) h s = (r', s')"
    for c h s r' s'
    using that to_buffer_same keeps_same by (fastforce split: prod.splits)
  show "write_owned h s'" if "write_owned h s" "(case c of (r, src, n, x, kind) \<Rightarrow> \<lambda>wh. to_buffer r src n wh x kind) h s = (r', s')"
    for c h s r' s'
    using that to_buffer_same by (fastforce simp: write_owned_def split: prod.splits)
qed (simp add: end_handles_inv write_owned_def)

text \<open>What is done through a read handle is work of the caller on the handle's stream.\<close>

interpretation read_scope: scoped_handle
  "\<lambda>(ea, ce, es, impl, s). from_input_buffer ea ce es impl s"
  "\<lambda>k rh p. (Inr (), on_cuda (gpu [StreamWork (rh_stream rh) k]) p)"
  "\<lambda>e rh. on_cuda (destroy_read_handle e True rh)" process_inv read_owned
proof
  show "process_inv s'" if "process_inv s" "(case a of (ea, ce, es, impl, x) \<Rightarrow> from_input_buffer ea ce es impl x) s = (r, s')"
    for a s r s'
    using that from_input_buffer_inv by (auto split: prod.splits)
  show "read_owned h s'" if "process_inv s" "(case a of (ea, ce, es, impl, x) \<Rightarrow> from_input_buffer ea ce es impl x) s = (Inr h, s')"
    for a s h s'
    using that from_input_buffer_inv [of _ _ _ _ _ s "Inr h" s'] by (auto simp: read_owned_def split: prod.splits)
qed (auto simp: end_handles_inv read_owned_def keeps_on_cuda same_storage_calls)

section \<open>What the calls leave of the trace\<close>

definition extends :: "cuda_state \<Rightarrow> cuda_state \<Rightarrow> bool" where
  "extends st st' \<longleftrightarrow> (\<exists>cs. cs_trace st' = cs_trace st @ cs)"

lemma extends_refl [simp]: "extends st st"
  by (simp add: extends_def)

lemma extends_trans: "extends a b \<Longrightarrow> extends b c \<Longrightarrow> extends a c"
  by (auto simp: extends_def)

lemma extends_gpu [simp]: "extends st (gpu cs st)"
  by (simp add: extends_def gpu_def)

lemma extends_reap: "extends st (reap_completed_read_events e b st)"
  by (simp add: extends_def reap_completed_read_events_def Let_def)

lemma extends_finalize: "extends st (finalize_write_handle e b st)"
  by (auto simp: extends_def finalize_write_handle_def finalize_write_handle_locked_def Let_def split: option.splits)

lemma extends_get_read: "get_read_handle e b s st = (r, st') \<Longrightarrow> extends st st'"
proof -
  assume g: "get_read_handle e b s st = (r, st')"
  have "extends x y" if "make_read_handle e b s x = (r, y)" for x y
    using that by (auto simp: make_read_handle_def Let_def split: if_splits)
  then show ?thesis using g unfolding get_read_handle_alt by (meson extends_reap extends_finalize extends_trans)
qed

lemma extends_write_release: "extends st (write_release e wh st)"
  by (auto simp: extends_def write_release_def Let_def split: option.splits)

lemma gpu_step_done: "gv_done v \<subseteq> gv_done (gpu_step c v)"
  by (cases c) auto

lemma gv_done_mono: "extends st st' \<Longrightarrow> gv_done (view st) \<subseteq> gv_done (view st')"
proof -
  have "gv_done v \<subseteq> gv_done (fold gpu_step cs v)" for cs v
  proof (induction cs arbitrary: v)
    case (Cons c cs)
    then show ?case using gpu_step_done [of v c] by (simp add: order_trans)
  qed simp
  then have "gv_done (view st) \<subseteq> gv_done (gpu_run (cs_trace st @ cs))" for cs by (simp add: gpu_run_append)
  then show "extends st st' \<Longrightarrow> gv_done (view st) \<subseteq> gv_done (view st')" unfolding extends_def by metis
qed

lemma extends_nth: "extends st st' \<Longrightarrow> i < length (cs_trace st) \<Longrightarrow> cs_trace st' ! i = cs_trace st ! i"
  by (auto simp: extends_def nth_append)

section \<open>Write handles\<close>

lemma get_write_alt:
  "get_write e b s p = (r, p') \<longleftrightarrow> (\<exists>st. get_write_handle e b s (pr_cuda p) = (r, st) \<and> p' = p\<lparr>pr_cuda := st\<rparr>)"
  by (auto simp: get_write_def split_beta prod_eq_iff)

text \<open>When the write handle of a copy ends, the write is over.\<close>

lemma write_scope_finalized:
  fixes e' :: gpu_env and st2 :: cuda_state
  assumes "get_write_handle e b s st0 = (Inr wh, st1)" and "cs_buffer st2 b = cs_buffer st1 b"
    and "cs_handle_state st2 = cs_handle_state st1"
  defines "st3 \<equiv> destroy_write_handle e' True wh st2"
  shows "write_phase (cb_handle_state (cs_buffer st3 b)) (cs_handle_state st3) = Finalized"
    and "cs_buffer st3 = cs_buffer st2" and "extends st2 st3"
proof -
  note g = get_write_handle_cases(2) [OF assms(1) refl]
  obtain a where a: "wh_state wh = Some a" "wh_promoted wh = None" "cb_handle_state (cs_buffer st1 b) = Some a"
    "hs_state (cs_handle_state st1 a) = InUse"
    using g by auto
  have d: "st3 = write_release e' wh st2" by (simp add: st3_def destroy_write_handle_def drop_promoted_def a(2))
  show "write_phase (cb_handle_state (cs_buffer st3 b)) (cs_handle_state st3) = Finalized"
    using a assms(2,3) unfolding d by (simp add: write_release_def Let_def)
  show "cs_buffer st3 = cs_buffer st2" unfolding d by (simp add: write_release_def Let_def split: option.splits)
  show "extends st2 st3" unfolding d by (rule extends_write_release)
qed

lemma finalized_refuses:
  assumes "write_phase (cb_handle_state (cs_buffer st b)) (cs_handle_state st) = Finalized"
  shows "fst (get_write_handle e b s st) = Inl (CudaError ''CudaBuffer: write already finalized; cannot acquire write handle'')"
proof -
  let ?st1 = "reap_completed_read_events e b st"
  have "(case cb_handle_state (cs_buffer ?st1 b) of None \<Rightarrow> Unset | Some h \<Rightarrow> hs_state (cs_handle_state ?st1 h)) = Finalized"
    using assms by (cases "cb_handle_state (cs_buffer st b)") simp_all
  then show ?thesis by (simp add: get_write_handle_def Let_def)
qed

end
