(* ===== verification/Tensor_View.thy ===== *)
theory Tensor_View
  imports Externals
begin

text \<open>
  The tensor arithmetic of \<open>torch_conversions.cpp\<close>: element counts, strides, the check that a
  view stays inside the storage of its message, and the correspondence between DLPack type
  triples and Torch scalar types. A \<open>size_t\<close> and a \<open>int64_t\<close> are 64-bit words, the second read
  with \<open>sint\<close>, and every overflow guard of the code is kept as it is written. The DLPack type codes
  and the element sizes come from headers outside the repository: they are arguments.
\<close>

section \<open>Messages and scalar types\<close>

datatype scalar_type =
    kByte | kChar | kShort | kInt | kLong | kHalf | kBFloat16 | kFloat | kDouble | kBool
  | other_scalar nat

text \<open>The codes of \<open>dlpack.h\<close> that the code compares with; they are pairwise different.\<close>

record dlpack_codes =
  kDLInt :: u8
  kDLUInt :: u8
  kDLFloat :: u8
  kDLBfloat :: u8
  kDLBool :: u8

definition dlpack_ok :: "dlpack_codes \<Rightarrow> bool" where
  "dlpack_ok k \<longleftrightarrow> distinct [kDLInt k, kDLUInt k, kDLFloat k, kDLBfloat k, kDLBool k]"

record storage =
  st_backend :: string
  st_bytes :: "u8 list"

record tensor_msg =
  tm_dtype_code :: u8
  tm_dtype_bits :: u8
  tm_dtype_lanes :: u16
  tm_shape :: "i64 list"
  tm_strides :: "i64 list"
  tm_byte_offset :: u64
  tm_data :: storage

text \<open>\<open>msg.data.size()\<close>; a vector never has \<open>2^64\<close> bytes or more.\<close>

definition data_size :: "tensor_msg \<Rightarrow> u64" where
  "data_size msg = of_nat (length (st_bytes (tm_data msg)))"

record dtype_description =
  dd_code :: u8
  dd_bits :: u8
  dd_lanes :: u16

definition describe_dtype :: "dlpack_codes \<Rightarrow> scalar_type \<Rightarrow> exn + dtype_description" where
  "describe_dtype k t =
     (case t of
        kByte \<Rightarrow> Inr \<lparr>dd_code = kDLUInt k, dd_bits = 8, dd_lanes = 1\<rparr>
      | kChar \<Rightarrow> Inr \<lparr>dd_code = kDLInt k, dd_bits = 8, dd_lanes = 1\<rparr>
      | kShort \<Rightarrow> Inr \<lparr>dd_code = kDLInt k, dd_bits = 16, dd_lanes = 1\<rparr>
      | kInt \<Rightarrow> Inr \<lparr>dd_code = kDLInt k, dd_bits = 32, dd_lanes = 1\<rparr>
      | kLong \<Rightarrow> Inr \<lparr>dd_code = kDLInt k, dd_bits = 64, dd_lanes = 1\<rparr>
      | kHalf \<Rightarrow> Inr \<lparr>dd_code = kDLFloat k, dd_bits = 16, dd_lanes = 1\<rparr>
      | kBFloat16 \<Rightarrow> Inr \<lparr>dd_code = kDLBfloat k, dd_bits = 16, dd_lanes = 1\<rparr>
      | kFloat \<Rightarrow> Inr \<lparr>dd_code = kDLFloat k, dd_bits = 32, dd_lanes = 1\<rparr>
      | kDouble \<Rightarrow> Inr \<lparr>dd_code = kDLFloat k, dd_bits = 64, dd_lanes = 1\<rparr>
      | kBool \<Rightarrow> Inr \<lparr>dd_code = kDLBool k, dd_bits = 8, dd_lanes = 1\<rparr>
      | other_scalar _ \<Rightarrow> Inl (RuntimeError ''torch_conversions: unsupported scalar type''))"

definition scalar_type_of :: "dlpack_codes \<Rightarrow> tensor_msg \<Rightarrow> exn + scalar_type" where
  "scalar_type_of k msg =
     (let c = tm_dtype_code msg; b = tm_dtype_bits msg
      in if tm_dtype_lanes msg \<noteq> 1 then
           Inl (RuntimeError ''torch_conversions: vector-lane dtypes are unsupported'')
         else if c = kDLUInt k \<and> b = 8 then Inr kByte
         else if c = kDLInt k \<and> b = 8 then Inr kChar
         else if c = kDLInt k \<and> b = 16 then Inr kShort
         else if c = kDLInt k \<and> b = 32 then Inr kInt
         else if c = kDLInt k \<and> b = 64 then Inr kLong
         else if c = kDLFloat k \<and> b = 16 then Inr kHalf
         else if c = kDLFloat k \<and> b = 32 then Inr kFloat
         else if c = kDLFloat k \<and> b = 64 then Inr kDouble
         else if c = kDLBfloat k \<and> b = 16 then Inr kBFloat16
         else if c = kDLBool k \<and> b = 8 then Inr kBool
         else Inl (RuntimeError ''torch_conversions: unsupported message dtype''))"

section \<open>Sizes and strides\<close>

definition negative_dimension :: exn where
  "negative_dimension = RuntimeError ''torch_conversions: negative shape dimension''"

fun count_loop :: "i64 list \<Rightarrow> u64 \<Rightarrow> exn + u64" where
  "count_loop [] n = Inr n"
| "count_loop (d # ds) n =
     (if sint d < 0 then Inl negative_dimension
      else if d \<noteq> 0 \<and> n > - 1 div d
      then Inl (OverflowError ''torch_conversions: tensor size overflow'')
      else count_loop ds (n * d))"

definition element_count :: "i64 list \<Rightarrow> exn + u64" where
  "element_count shape = count_loop shape 1"

text \<open>The loop of \<open>contiguous_strides\<close> runs from the last dimension to the first.\<close>

fun stride_loop :: "i64 list \<Rightarrow> i64 \<Rightarrow> i64 list \<Rightarrow> exn + i64 list" where
  "stride_loop [] stride acc = Inr acc"
| "stride_loop (d # ds) stride acc =
     (if sint d < 0 then Inl negative_dimension
      else if d \<noteq> 0 \<and> sint stride > (2 ^ 63 - 1) div sint d
      then Inl (OverflowError ''torch_conversions: tensor stride overflow'')
      else stride_loop ds (stride * d) (stride # acc))"

definition contiguous_strides :: "i64 list \<Rightarrow> exn + i64 list" where
  "contiguous_strides shape = stride_loop (rev shape) 1 []"

definition byte_count :: "(scalar_type \<Rightarrow> u64) \<Rightarrow> i64 list \<Rightarrow> scalar_type \<Rightarrow> exn + u64" where
  "byte_count element_size shape dtype =
     (case element_count shape of
        Inl x \<Rightarrow> Inl x
      | Inr n \<Rightarrow>
          (let item_size = element_size dtype
           in if n \<noteq> 0 \<and> item_size > - 1 div n
              then Inl (OverflowError ''torch_conversions: tensor size overflow'')
              else Inr (n * item_size)))"

definition normalized_strides :: "tensor_msg \<Rightarrow> exn + i64 list" where
  "normalized_strides msg =
     (if tm_strides msg = [] then contiguous_strides (tm_shape msg)
      else if length (tm_strides msg) \<noteq> length (tm_shape msg)
      then Inl (RuntimeError ''torch_conversions: strides must match shape rank'')
      else Inr (tm_strides msg))"

section \<open>Checking a view\<close>

definition span_overflow :: exn where
  "span_overflow = OverflowError ''torch_conversions: tensor span overflow''"

fun span_loop :: "(i64 \<times> i64) list \<Rightarrow> u64 \<Rightarrow> exn + u64" where
  "span_loop [] span = Inr span"
| "span_loop ((d, s) # rest) span =
     (if sint d < 0 \<or> sint s < 0
      then Inl (RuntimeError ''torch_conversions: negative shape or stride'')
      else if d = 0 then Inr 0
      else
        (let extent = d - 1; stride = s
         in if stride \<noteq> 0 \<and> extent > - 1 div stride then Inl span_overflow
            else
              (let contribution = extent * stride
               in if span > - 1 - contribution then Inl span_overflow
                  else span_loop rest (span + contribution))))"

definition validate_view ::
  "dlpack_codes \<Rightarrow> (scalar_type \<Rightarrow> u64) \<Rightarrow> tensor_msg \<Rightarrow> exn + unit" where
  "validate_view k element_size msg =
     (case normalized_strides msg of
        Inl x \<Rightarrow> Inl x
      | Inr strides \<Rightarrow>
          (case span_loop (zip (tm_shape msg) strides) 1 of
             Inl x \<Rightarrow> Inl x
           | Inr span \<Rightarrow>
               (case scalar_type_of k msg of
                  Inl x \<Rightarrow> Inl x
                | Inr t \<Rightarrow>
                    (let item_size = element_size t
                     in if span \<noteq> 0 \<and> item_size > - 1 div span then Inl span_overflow
                        else
                          (let bytes = span * item_size
                           in if tm_byte_offset msg > - 1 - bytes then Inl span_overflow
                              else if tm_byte_offset msg + bytes > data_size msg
                              then Inl (RuntimeError
                                ''torch_conversions: tensor view exceeds message storage'')
                              else Inr ())))))"

section \<open>Reading the words\<close>

lemma sint_bound64: "sint (d :: i64) < 2 ^ 63"
  using sint_lt [of d] by simp

lemma unat_sint:
  fixes d :: i64
  assumes "0 \<le> sint d"
  shows "unat d = nat (sint d)"
proof -
  have "uint d = take_bit 64 (sint d)" using uint_sint [of d] by simp
  also have "\<dots> = sint d" using assms sint_bound64 [of d] by (simp add: take_bit_int_eq_self_iff)
  finally show ?thesis by (metis nat_uint_eq)
qed

lemma sint_nonneg_iff: "0 \<le> sint (d :: i64) \<longleftrightarrow> unat d < 2 ^ 63"
proof
  assume "0 \<le> sint d"
  then show "unat d < 2 ^ 63" using unat_sint [of d] sint_bound64 [of d] by (simp add: nat_less_iff)
next
  assume "unat d < 2 ^ 63"
  then have "int (unat d) < int (2 ^ 63)" by (simp only: of_nat_less_iff)
  then have "uint d < 2 ^ 63" by simp
  moreover have "- (2 ^ 63) \<le> uint d" by (rule order_trans [of _ 0]) simp_all
  ultimately have "sint d = uint d" by (simp add: sint_uint signed_take_bit_int_eq_self_iff)
  then show "0 \<le> sint d" by simp
qed

lemma sint_pos_iff: "0 < sint (d :: i64) \<longleftrightarrow> 0 < unat d \<and> unat d < 2 ^ 63"
proof (cases "0 \<le> sint d")
  case True
  then have "unat d < 2 ^ 63" by (simp only: sint_nonneg_iff)
  moreover have "0 < sint d \<longleftrightarrow> 0 < unat d" unfolding unat_sint [OF True] by simp
  ultimately show ?thesis by blast
next
  case False
  then have "\<not> unat d < 2 ^ 63" by (simp only: sint_nonneg_iff not_False_eq_True)
  with False show ?thesis by auto
qed

lemma int_le_div_iff:
  fixes x y d :: int
  assumes "0 < d"
  shows "x \<le> y div d \<longleftrightarrow> x * d \<le> y"
proof
  assume "x \<le> y div d"
  then have "x * d \<le> (y div d) * d" using assms by (simp add: mult_right_mono)
  also have "\<dots> \<le> y" using assms by (simp add: minus_mod_eq_div_mult [symmetric])
  finally show "x * d \<le> y" .
next
  assume "x * d \<le> y"
  then have "x * d div d \<le> y div d" using assms by (rule zdiv_mono1)
  then show "x \<le> y div d" using assms by simp
qed

lemma stride_guard:
  fixes stride d :: i64
  assumes "0 \<le> sint stride" and "0 \<le> sint d" and "d \<noteq> 0"
  shows "sint stride > (2 ^ 63 - 1) div sint d \<longleftrightarrow> 2 ^ 63 \<le> sint stride * sint d"
proof -
  have "0 < sint d" using assms by (simp add: sint_nonneg_iff sint_pos_iff unat_gt_0)
  then have "sint stride \<le> (2 ^ 63 - 1) div sint d \<longleftrightarrow> sint stride * sint d \<le> 2 ^ 63 - 1"
    by (rule int_le_div_iff)
  then show ?thesis by linarith
qed

section \<open>Element counts\<close>

abbreviation "dims shape \<equiv> map unat (shape :: i64 list)"

lemma count_loop_Inr:
  "count_loop ds n = Inr c \<Longrightarrow>
     unat c = unat n * prod_list (dims ds) \<and> (\<forall>d \<in> set ds. 0 \<le> sint d)"
proof (induction ds arbitrary: n)
  case Nil
  then show ?case by simp
next
  case (Cons d ds)
  then have d: "0 \<le> sint d" and fit: "d = 0 \<or> \<not> n > - 1 div d" and rest: "count_loop ds (n * d) = Inr c"
    by (auto split: if_splits)
  have "unat n * unat d < 2 ^ 64"
    using fit mul_guard [of d n] by (cases "d = 0") (auto simp: not_le)
  then have "unat (n * d) = unat n * unat d" by (rule unat_mul_fits)
  with Cons.IH [OF rest] d show ?case by (simp add: ac_simps)
qed

lemma count_loop_total:
  assumes "\<forall>d \<in> set ds. 0 < sint d" and "unat n * prod_list (dims ds) < 2 ^ 64"
  shows "\<exists>c. count_loop ds n = Inr c"
  using assms
proof (induction ds arbitrary: n)
  case Nil
  then show ?case by simp
next
  case (Cons d ds)
  have d: "0 < sint d" and ds: "\<forall>d \<in> set ds. 0 < sint d" using Cons.prems(1) by auto
  then have dn: "d \<noteq> 0" by auto
  have "0 < unat e" if "e \<in> set ds" for e using ds that by (simp add: sint_pos_iff)
  then have "prod_list (dims ds) > 0" by (induction ds) auto
  then have "unat n * unat d \<le> unat n * prod_list (dims (d # ds))" by simp
  then have lt: "unat n * unat d < 2 ^ 64" using Cons.prems(2) by linarith
  then have "\<not> n > - 1 div d" using mul_guard [OF dn, of n] by simp
  moreover have "\<exists>c. count_loop ds (n * d) = Inr c"
    using Cons.prems(2) lt by (intro Cons.IH [OF ds]) (simp add: unat_mul_fits ac_simps)
  ultimately show ?case using d by simp
qed

section \<open>Contiguous strides\<close>

text \<open>The product of the dimensions after the \<open>i\<close>-th.\<close>

definition suffix_product :: "i64 list \<Rightarrow> nat \<Rightarrow> nat" where
  "suffix_product shape i = prod_list (dims (drop (Suc i) shape))"

lemma stride_loop_Inr:
  "stride_loop ds stride acc = Inr r \<Longrightarrow> 0 \<le> sint stride \<Longrightarrow>
     \<exists>ss. r = ss @ acc \<and> length ss = length ds \<and> (\<forall>d \<in> set ds. 0 \<le> sint d) \<and>
       (\<forall>i < length ds. unat (ss ! i) = unat stride * prod_list (dims (drop (Suc i) (rev ds))) \<and>
          0 \<le> sint (ss ! i)) \<and>
       unat stride * prod_list (dims ds) < 2 ^ 63"
proof (induction ds arbitrary: stride acc)
  case Nil
  then show ?case by (simp add: sint_nonneg_iff)
next
  case (Cons d ds)
  then have d: "0 \<le> sint d" and fit: "d = 0 \<or> \<not> sint stride > (2 ^ 63 - 1) div sint d"
    and rest: "stride_loop ds (stride * d) (stride # acc) = Inr r"
    by (auto split: if_splits)
  have "unat stride * unat d < 2 ^ 63"
  proof (cases "d = 0")
    case False
    then have "sint stride * sint d < 2 ^ 63" using fit stride_guard [OF Cons.prems(2) d] by auto
    then show ?thesis
      unfolding unat_sint [OF d] unat_sint [OF Cons.prems(2)]
      using d Cons.prems(2) by (simp add: nat_mult_distrib [symmetric] nat_less_iff)
  qed simp
  note lt = this
  have u: "unat (stride * d) = unat stride * unat d" using lt by (intro unat_mul_fits) simp
  have nn: "0 \<le> sint (stride * d)"
    using lt u by (simp add: sint_nonneg_iff)
  from Cons.IH [OF rest nn] obtain ss where ss: "r = ss @ stride # acc" "length ss = length ds"
    "\<forall>d \<in> set ds. 0 \<le> sint d"
    "\<forall>i < length ds. unat (ss ! i) = unat stride * unat d * prod_list (dims (drop (Suc i) (rev ds))) \<and> 0 \<le> sint (ss ! i)"
    "unat stride * unat d * prod_list (dims ds) < 2 ^ 63"
    by (auto simp: u)
  show ?case
  proof (intro exI [of _ "ss @ [stride]"] conjI)
    show "\<forall>i < length (d # ds). unat ((ss @ [stride]) ! i) =
          unat stride * prod_list (dims (drop (Suc i) (rev (d # ds)))) \<and> 0 \<le> sint ((ss @ [stride]) ! i)"
      using ss(2,4) Cons.prems(2) by (auto simp: nth_append less_Suc_eq)
  qed (use ss d in \<open>auto simp: ac_simps\<close>)
qed

lemma stride_loop_total:
  assumes "\<forall>d \<in> set ds. 0 < sint d" and "unat stride * prod_list (dims ds) < 2 ^ 63"
    and "0 \<le> sint stride"
  shows "\<exists>r. stride_loop ds stride acc = Inr r"
  using assms
proof (induction ds arbitrary: stride acc)
  case Nil
  then show ?case by simp
next
  case (Cons d ds)
  have d: "0 < sint d" and ds: "\<forall>d \<in> set ds. 0 < sint d" using Cons.prems(1) by auto
  then have dn: "d \<noteq> 0" and d0: "0 \<le> sint d" by auto
  have "0 < unat e" if "e \<in> set ds" for e using ds that by (simp add: sint_pos_iff)
  then have "prod_list (dims ds) > 0" by (induction ds) auto
  then have "unat stride * unat d \<le> unat stride * prod_list (dims (d # ds))" by simp
  then have lt: "unat stride * unat d < 2 ^ 63" using Cons.prems(2) by linarith
  then have u: "unat (stride * d) = unat stride * unat d" by (intro unat_mul_fits) simp
  have "sint stride * sint d < 2 ^ 63"
    using lt d0 Cons.prems(3) unfolding unat_sint [OF d0] unat_sint [OF Cons.prems(3)]
    by (simp add: nat_mult_distrib [symmetric] nat_less_iff)
  then have "\<not> sint stride > (2 ^ 63 - 1) div sint d"
    using stride_guard [OF Cons.prems(3) d0 dn] by simp
  moreover have "\<exists>r. stride_loop ds (stride * d) (stride # acc) = Inr r"
    using Cons.prems(2) lt u by (intro Cons.IH [OF ds]) (simp_all add: ac_simps sint_nonneg_iff)
  ultimately show ?case using d by simp
qed

lemma prod_list_rev_nat: "prod_list (rev xs) = prod_list (xs :: nat list)"
  by (induction xs) (simp_all add: ac_simps)

lemma contiguous_strides_Inr:
  assumes "contiguous_strides shape = Inr ss"
  shows "length ss = length shape" and "\<forall>d \<in> set shape. 0 \<le> sint d"
    and "i < length shape \<Longrightarrow> unat (ss ! i) = suffix_product shape i"
    and "s \<in> set ss \<Longrightarrow> 0 \<le> sint s"
    and "prod_list (dims shape) < 2 ^ 63"
proof -
  from stride_loop_Inr [OF assms [unfolded contiguous_strides_def]] obtain rs where
    "ss = rs @ []" "length rs = length shape" "\<forall>d \<in> set shape. 0 \<le> sint d"
    "\<forall>i < length shape. unat (rs ! i) = prod_list (dims (drop (Suc i) shape)) \<and> 0 \<le> sint (rs ! i)"
    "prod_list (rev (dims shape)) < 2 ^ 63"
    by (auto simp: rev_map)
  then show "length ss = length shape" "\<forall>d \<in> set shape. 0 \<le> sint d"
    "i < length shape \<Longrightarrow> unat (ss ! i) = suffix_product shape i"
    "s \<in> set ss \<Longrightarrow> 0 \<le> sint s" "prod_list (dims shape) < 2 ^ 63"
    by (auto simp: suffix_product_def in_set_conv_nth prod_list_rev_nat)
qed

lemma contiguous_strides_total:
  assumes "\<forall>d \<in> set shape. 0 < sint d" and "prod_list (dims shape) < 2 ^ 63"
  shows "\<exists>ss. contiguous_strides shape = Inr ss"
  using assms unfolding contiguous_strides_def
  by (intro stride_loop_total) (simp_all add: rev_map [symmetric] prod_list_rev_nat)

section \<open>The span of a view\<close>

text \<open>The number of items from the first to the last element of a view without empty dimension.\<close>

definition view_reach :: "(i64 \<times> i64) list \<Rightarrow> nat" where
  "view_reach ps = (\<Sum>p \<leftarrow> ps. (unat (fst p) - 1) * unat (snd p))"

lemma view_reach_simps [simp]:
  "view_reach [] = 0"
  "view_reach (p # ps) = (unat (fst p) - 1) * unat (snd p) + view_reach ps"
  by (simp_all add: view_reach_def)

lemma span_loop_Inr:
  "span_loop ps n = Inr c \<Longrightarrow>
     (c = 0 \<and> (\<exists>p \<in> set ps. fst p = 0)) \<or>
     ((\<forall>p \<in> set ps. 0 < sint (fst p) \<and> 0 \<le> sint (snd p)) \<and> unat c = unat n + view_reach ps)"
proof (induction ps n rule: span_loop.induct)
  case (1 n)
  then show ?case by simp
next
  case (2 d s rest n)
  show ?case
  proof (cases "d = 0")
    case True
    with 2 show ?thesis by (auto split: if_splits)
  next
    case False
    define e where "e = d - 1"
    have nn: "0 \<le> sint d" "0 \<le> sint s" and g1: "s = 0 \<or> \<not> e > - 1 div s"
      and g2: "\<not> n > - 1 - e * s" and rest: "span_loop rest (n + e * s) = Inr c"
      using "2.prems" False by (auto simp: Let_def e_def split: if_splits)
    have pos: "0 < sint d"
      using nn(1) False by (simp add: sint_nonneg_iff sint_pos_iff unat_gt_0)
    have e: "unat e = unat d - 1" using False unfolding e_def by (rule unat_minus_one)
    have "unat e * unat s < 2 ^ 64" using g1 mul_guard [of s e] by (cases "s = 0") auto
    then have u: "unat (e * s) = unat e * unat s" by (rule unat_mul_fits)
    have "unat n + unat (e * s) < 2 ^ 64" using g2 add_guard [of "e * s" n] by simp
    then have "unat (n + e * s) = unat n + (unat d - 1) * unat s" using u e by (simp add: unat_add_fits)
    moreover have "\<not> (sint d < 0 \<or> sint s < 0)" "\<not> (s \<noteq> 0 \<and> d - 1 > - 1 div s)"
      "\<not> n > - 1 - (d - 1) * s" using nn g1 g2 by (auto simp: e_def)
    ultimately show ?thesis
      using "2.IH" [OF _ False refl refl _ refl] rest nn(2) pos by (auto simp: e_def)
  qed
qed

lemma span_loop_total:
  assumes "\<forall>p \<in> set ps. 0 < sint (fst p) \<and> 0 \<le> sint (snd p)" and "unat n + view_reach ps < 2 ^ 64"
  shows "\<exists>c. span_loop ps n = Inr c"
  using assms
proof (induction ps n rule: span_loop.induct)
  case (1 n)
  then show ?case by simp
next
  case (2 d s rest n)
  define e where "e = d - 1"
  have d: "0 < sint d" "0 \<le> sint s" and dn: "d \<noteq> 0" using "2.prems"(1) by auto
  have e: "unat e = unat d - 1" using dn unfolding e_def by (rule unat_minus_one)
  have sum: "unat n + unat e * unat s + view_reach rest < 2 ^ 64" using "2.prems"(2) e by simp
  then have u: "unat (e * s) = unat e * unat s" by (intro unat_mul_fits) linarith
  have g1: "\<not> (s \<noteq> 0 \<and> e > - 1 div s)" using sum mul_guard [of s e] by auto
  have g2: "\<not> n > - 1 - e * s" using sum u add_guard [of "e * s" n] by simp
  have "unat (n + e * s) = unat n + unat e * unat s" using sum u by (simp add: unat_add_fits)
  then have "\<exists>c. span_loop rest (n + e * s) = Inr c"
    using "2.IH" [OF _ dn refl refl _ refl] d g1 g2 sum "2.prems"(1) by (auto simp: e_def)
  then show ?case using d dn g1 g2 by (auto simp: e_def Let_def)
qed

section \<open>What a validated view may touch\<close>

text \<open>
  The position, in items, of the element with a given index, and the indices of a shape.
\<close>

definition element_offset :: "nat list \<Rightarrow> i64 list \<Rightarrow> nat" where
  "element_offset idx ss = (\<Sum>p \<leftarrow> zip idx ss. fst p * unat (snd p))"

definition valid_index :: "nat list \<Rightarrow> i64 list \<Rightarrow> bool" where
  "valid_index idx shape \<longleftrightarrow> list_all2 (\<lambda>i d. i < unat d) idx shape"

lemma element_offset_le:
  "list_all2 (\<lambda>i d. i < unat d) idx shape \<Longrightarrow> length ss = length shape \<Longrightarrow>
     element_offset idx ss \<le> view_reach (zip shape ss)"
proof (induction arbitrary: ss rule: list_all2_induct)
  case Nil
  then show ?case by (simp add: element_offset_def)
next
  case (Cons i idx d shape)
  from Cons.prems obtain s rest where ss: "ss = s # rest" and len: "length rest = length shape"
    by (cases ss) auto
  have "i * unat s \<le> (unat d - 1) * unat s" using Cons.hyps(1) by (intro mult_le_mono1) linarith
  from add_mono [OF this Cons.IH [OF len]] show ?case
    by (simp only: element_offset_def ss zip_Cons_Cons list.map sum_list.Cons fst_conv snd_conv
        view_reach_simps)
qed

lemma normalized_strides_length:
  "normalized_strides msg = Inr ss \<Longrightarrow> length ss = length (tm_shape msg)"
  by (auto simp: normalized_strides_def contiguous_strides_Inr(1) split: if_splits)

lemma bytes_guards:
  fixes span item offs total :: u64
  shows "\<not> (span \<noteq> 0 \<and> item > - 1 div span) \<and> \<not> offs > - 1 - span * item \<and> \<not> offs + span * item > total
    \<longleftrightarrow> unat offs + unat span * unat item \<le> unat total"
proof (cases "unat span * unat item < 2 ^ 64")
  case True
  then have u: "unat (span * item) = unat span * unat item" by (rule unat_mul_fits)
  have g: "\<not> (span \<noteq> 0 \<and> item > - 1 div span)"
    using True mul_guard [of span item] by (auto simp: mult.commute)
  show ?thesis
  proof (cases "unat offs + unat (span * item) < 2 ^ 64")
    case True
    then show ?thesis using g u add_guard [of "span * item" offs]
      by (simp add: word_less_nat_alt unat_add_fits not_less)
  next
    case False
    then show ?thesis using g u add_guard [of "span * item" offs] unat_bound64 [of total] by auto
  qed
next
  case False
  then have "span \<noteq> 0" by auto
  with False have "item > - 1 div span" using mul_guard [of span item] by (simp add: mult.commute)
  with \<open>span \<noteq> 0\<close> False show ?thesis using unat_bound64 [of total] by auto
qed

lemma validate_view_cases:
  assumes "normalized_strides msg = Inr ss" and "scalar_type_of k msg = Inr t"
  shows "validate_view k es msg = Inr () \<longleftrightarrow>
    (\<exists>span. span_loop (zip (tm_shape msg) ss) 1 = Inr span \<and>
       unat (tm_byte_offset msg) + unat span * unat (es t) \<le> unat (data_size msg))"
proof (cases "span_loop (zip (tm_shape msg) ss) 1")
  case (Inl x)
  then show ?thesis using assms by (simp add: validate_view_def)
next
  case (Inr span)
  then have "validate_view k es msg = Inr () \<longleftrightarrow>
      \<not> (span \<noteq> 0 \<and> es t > - 1 div span) \<and> \<not> tm_byte_offset msg > - 1 - span * es t \<and>
      \<not> tm_byte_offset msg + span * es t > data_size msg"
    using assms by (simp only: validate_view_def Let_def sum.case) simp
  then show ?thesis unfolding bytes_guards using Inr by simp
qed

lemma data_size_length:
  "length (st_bytes (tm_data msg)) < 2 ^ 64 \<Longrightarrow> unat (data_size msg) = length (st_bytes (tm_data msg))"
  by (simp add: data_size_def unat_of_nat)

text \<open>An element of a view that was accepted ends within the storage.\<close>

lemma view_in_bounds:
  assumes "validate_view k es msg = Inr ()" and "length (st_bytes (tm_data msg)) < 2 ^ 64"
    and "normalized_strides msg = Inr ss" and "scalar_type_of k msg = Inr t"
    and "valid_index idx (tm_shape msg)" and "b < unat (es t)"
  shows "unat (tm_byte_offset msg) + element_offset idx ss * unat (es t) + b
    < length (st_bytes (tm_data msg))"
proof -
  let ?ps = "zip (tm_shape msg) ss"
  note len = normalized_strides_length [OF assms(3)]
  obtain span where span: "span_loop ?ps 1 = Inr span"
    and fits: "unat (tm_byte_offset msg) + unat span * unat (es t) \<le> unat (data_size msg)"
    using assms(1) validate_view_cases [OF assms(3,4)] by auto
  have "unat d \<noteq> 0" if "d \<in> set (tm_shape msg)" for d
    using assms(5) that by (auto simp: valid_index_def list_all2_conv_all_nth in_set_conv_nth)
  then have "\<not> (\<exists>p \<in> set ?ps. fst p = 0)" by (fastforce dest: set_zip_leftD)
  then have "unat span = 1 + view_reach ?ps" using span_loop_Inr [OF span] by simp
  moreover have "element_offset idx ss \<le> view_reach ?ps"
    using assms(5) len by (intro element_offset_le) (simp_all add: valid_index_def)
  ultimately have "element_offset idx ss + 1 \<le> unat span" by simp
  then have "(element_offset idx ss + 1) * unat (es t) \<le> unat span * unat (es t)"
    by (rule mult_le_mono1)
  then show ?thesis using fits assms(6) data_size_length [OF assms(2)] by (simp add: algebra_simps)
qed

text \<open>
  C20. Memory safety of views: when \<open>validate_view\<close> accepts a message, every byte of every
  element that the view can address lies inside the storage of the message, for any
  rank, strides and offset, with no wrap-around anywhere in the check.
\<close>

theorem validated_view_in_bounds:
  assumes "validate_view k es msg = Inr ()" and "length (st_bytes (tm_data msg)) < 2 ^ 64"
    and "normalized_strides msg = Inr ss" and "scalar_type_of k msg = Inr t"
    and "valid_index idx (tm_shape msg)" and "b < unat (es t)"
  shows "unat (tm_byte_offset msg) + element_offset idx ss * unat (es t) + b
    < length (st_bytes (tm_data msg))"
  using assms by (rule view_in_bounds)

text \<open>DLPack's codes and a few sample element sizes.\<close>

definition sample_codes :: dlpack_codes where
  "sample_codes = \<lparr>kDLInt = 0, kDLUInt = 1, kDLFloat = 2, kDLBfloat = 4, kDLBool = 6\<rparr>"

definition sample_sizes :: "scalar_type \<Rightarrow> u64" where
  "sample_sizes t = (case t of kFloat \<Rightarrow> 4 | kInt \<Rightarrow> 4 | kDouble \<Rightarrow> 8 | kLong \<Rightarrow> 8 | kShort \<Rightarrow> 2
     | kHalf \<Rightarrow> 2 | kBFloat16 \<Rightarrow> 2 | _ \<Rightarrow> 1)"

text \<open>A 2 by 2 float view of a wider row, two items apart, behind a header of 8 bytes.\<close>

definition sample_msg :: tensor_msg where
  "sample_msg =
     \<lparr>tm_dtype_code = 2, tm_dtype_bits = 32, tm_dtype_lanes = 1, tm_shape = [2, 2],
      tm_strides = [3, 1], tm_byte_offset = 8,
      tm_data = \<lparr>st_backend = ''cpu'', st_bytes = replicate 28 0\<rparr>\<rparr>"

lemma sample_msg_facts:
  "normalized_strides sample_msg = Inr [3, 1]" "scalar_type_of sample_codes sample_msg = Inr kFloat"
  by (simp_all add: sample_msg_def normalized_strides_def scalar_type_of_def sample_codes_def Let_def)

lemma sample_msg_valid: "validate_view sample_codes sample_sizes sample_msg = Inr ()"
proof -
  have "span_loop (zip (tm_shape sample_msg) [3, 1]) 1 = Inr 5"
    by (simp add: sample_msg_def Let_def)
  then show ?thesis
    using validate_view_cases [OF sample_msg_facts, of sample_sizes]
    by (simp add: data_size_def sample_msg_def sample_sizes_def)
qed

theorem validated_view_in_bounds_witness:
  "8 + element_offset [1, 1] [3, 1] * 4 + 3 < length (st_bytes (tm_data sample_msg))"
proof -
  have "length (st_bytes (tm_data sample_msg)) < 2 ^ 64" by (simp add: sample_msg_def)
  moreover have "valid_index [1, 1] (tm_shape sample_msg)" by (simp add: valid_index_def sample_msg_def)
  moreover have "3 < unat (sample_sizes kFloat)" by (simp add: sample_sizes_def)
  ultimately show ?thesis
    using validated_view_in_bounds [OF sample_msg_valid _ sample_msg_facts, of "[1, 1]" 3]
    by (simp add: sample_msg_def sample_sizes_def)
qed

text \<open>
  C21. The check is exact: for a shape without empty or negative dimension, a view with a
  known type is accepted if and only if no stride is negative and offset and span, computed without
  wrap-around, stay within the storage.
\<close>

theorem validate_view_exact:
  assumes "normalized_strides msg = Inr ss" and "scalar_type_of k msg = Inr t"
    and "\<forall>d \<in> set (tm_shape msg). 0 < sint d" and "length (st_bytes (tm_data msg)) < 2 ^ 64"
    and "es t \<noteq> 0"
  shows "validate_view k es msg = Inr () \<longleftrightarrow>
    (\<forall>s \<in> set ss. 0 \<le> sint s) \<and>
    unat (tm_byte_offset msg) + (1 + view_reach (zip (tm_shape msg) ss)) * unat (es t)
      \<le> length (st_bytes (tm_data msg))"
proof -
  let ?ps = "zip (tm_shape msg) ss"
  note len = normalized_strides_length [OF assms(1)]
  note cases = validate_view_cases [OF assms(1,2), of es, unfolded data_size_length [OF assms(4)]]
  have strides: "(\<forall>p \<in> set ?ps. 0 < sint (fst p) \<and> 0 \<le> sint (snd p)) \<longleftrightarrow> (\<forall>s \<in> set ss. 0 \<le> sint s)"
  proof -
    have "set ss = snd ` set ?ps" using len by (metis list.set_map map_snd_zip)
    moreover have "\<forall>p \<in> set ?ps. 0 < sint (fst p)" using assms(3) by (auto dest: set_zip_leftD)
    ultimately show ?thesis by auto
  qed
  have no_zero: "\<not> (\<exists>p \<in> set ?ps. fst p = 0)"
    using assms(3) by (fastforce dest: set_zip_leftD)
  show ?thesis
  proof
    assume "validate_view k es msg = Inr ()"
    then obtain span where span: "span_loop ?ps 1 = Inr span"
      and fits: "unat (tm_byte_offset msg) + unat span * unat (es t) \<le> length (st_bytes (tm_data msg))"
      using cases by blast
    from span_loop_Inr [OF span] no_zero
    have "\<forall>p \<in> set ?ps. 0 < sint (fst p) \<and> 0 \<le> sint (snd p)" and "unat span = 1 + view_reach ?ps"
      by auto
    with fits show "(\<forall>s \<in> set ss. 0 \<le> sint s) \<and>
        unat (tm_byte_offset msg) + (1 + view_reach ?ps) * unat (es t) \<le> length (st_bytes (tm_data msg))"
      using strides by auto
  next
    assume r: "(\<forall>s \<in> set ss. 0 \<le> sint s) \<and>
        unat (tm_byte_offset msg) + (1 + view_reach ?ps) * unat (es t) \<le> length (st_bytes (tm_data msg))"
    then have pos: "\<forall>p \<in> set ?ps. 0 < sint (fst p) \<and> 0 \<le> sint (snd p)" using strides by blast
    have "0 < unat (es t)" using assms(5) by (simp add: unat_gt_0)
    then have "(1 + view_reach ?ps) * 1 \<le> (1 + view_reach ?ps) * unat (es t)"
      by (intro mult_le_mono2) simp
    also have "\<dots> \<le> length (st_bytes (tm_data msg))" using conjunct2 [OF r] by (rule add_leD2)
    finally have "unat (1 :: u64) + view_reach ?ps < 2 ^ 64" using assms(4) by simp
    from span_loop_total [OF pos this] obtain span where span: "span_loop ?ps 1 = Inr span" ..
    from span_loop_Inr [OF span] no_zero have "unat span = 1 + view_reach ?ps" by auto
    with span r show "validate_view k es msg = Inr ()" using cases by auto
  qed
qed

theorem validate_view_exact_witness:
  "validate_view sample_codes sample_sizes sample_msg = Inr () \<longleftrightarrow>
    8 + (1 + view_reach [(2, 3), (2, 1)]) * 4 \<le> (28 :: nat)"
proof -
  have "\<forall>d \<in> set (tm_shape sample_msg). 0 < sint d" "length (st_bytes (tm_data sample_msg)) < 2 ^ 64"
    "sample_sizes kFloat \<noteq> 0"
    by (simp_all add: sample_msg_def sample_sizes_def)
  from validate_view_exact [where es = sample_sizes, OF sample_msg_facts this] show ?thesis
    by (simp add: sample_msg_def sample_sizes_def)
qed

text \<open>
  Row-major strides: for a shape without empty or negative dimension,
  \<open>contiguous_strides\<close> returns \<open>ss\<close> exactly when the number of elements is below
  \<open>2^63\<close> and \<open>ss\<close> holds, for each dimension, the product of the later dimensions.
\<close>

theorem contiguous_strides_row_major:
  assumes "\<forall>d \<in> set shape. 0 < sint d"
  shows "contiguous_strides shape = Inr ss \<longleftrightarrow>
    prod_list (dims shape) < 2 ^ 63 \<and> map unat ss = map (suffix_product shape) [0..<length shape]"
proof
  assume c: "contiguous_strides shape = Inr ss"
  note r = contiguous_strides_Inr [OF c]
  have "map unat ss = map (suffix_product shape) [0..<length shape]"
    by (rule nth_equalityI) (simp_all add: r(1,3))
  with r(5) show "prod_list (dims shape) < 2 ^ 63 \<and>
      map unat ss = map (suffix_product shape) [0..<length shape]" by simp
next
  assume a: "prod_list (dims shape) < 2 ^ 63 \<and>
      map unat ss = map (suffix_product shape) [0..<length shape]"
  then obtain ts where c: "contiguous_strides shape = Inr ts"
    using contiguous_strides_total [OF assms] by auto
  have "map unat ts = map (suffix_product shape) [0..<length shape]"
    by (rule nth_equalityI) (simp_all add: contiguous_strides_Inr(1,3) [OF c])
  with a have "map unat ts = map unat ss" by simp
  then have "ts = ss" by (rule map_injective) (simp add: inj_def word_unat_eq_iff)
  with c show "contiguous_strides shape = Inr ss" by simp
qed

theorem contiguous_strides_row_major_witness:
  "contiguous_strides [2, 3, 4] = Inr [12, 4, 1]"
proof -
  have "\<forall>d \<in> set [2, 3, 4 :: i64]. 0 < sint d" by simp
  from contiguous_strides_row_major [OF this, of "[12, 4, 1]"] show ?thesis
    by (simp add: suffix_product_def upt_rec)
qed

text \<open>A contiguous view reaches its last element exactly.\<close>

lemma view_reach_contiguous:
  assumes "\<forall>d \<in> set shape. 0 < unat d" and "map unat ss = map (suffix_product shape) [0..<length shape]"
  shows "1 + view_reach (zip shape ss) = prod_list (dims shape)"
  using assms
proof (induction shape arbitrary: ss)
  case Nil
  then show ?case by simp
next
  case (Cons d shape)
  then obtain s rest where ss: "ss = s # rest" by (cases ss) auto
  have s: "unat s = prod_list (dims shape)"
    using Cons.prems(2) by (simp add: ss suffix_product_def upt_rec)
  have "map unat rest = map (suffix_product shape) [0..<length shape]"
    using Cons.prems(2) by (simp add: ss map_upt_Suc suffix_product_def del: upt_Suc)
  then have IH: "1 + view_reach (zip shape rest) = prod_list (dims shape)"
    using Cons.prems(1) by (intro Cons.IH) simp_all
  obtain n where n: "unat d = Suc n" using Cons.prems(1) by (cases "unat d") auto
  show ?case using IH by (simp add: ss s n)
qed

lemma byte_count_iff:
  assumes "\<forall>d \<in> set shape. 0 < sint d" and "es t \<noteq> 0"
  shows "byte_count es shape t = Inr n \<longleftrightarrow>
    prod_list (dims shape) * unat (es t) < 2 ^ 64 \<and> unat n = prod_list (dims shape) * unat (es t)"
proof -
  have ones: "unat (1 :: u64) * prod_list (dims shape) = prod_list (dims shape)" by simp
  have "0 < unat e" if "e \<in> set shape" for e using assms(1) that by (simp add: sint_pos_iff)
  then have p0: "0 < prod_list (dims shape)" by (induction shape) auto
  have e0: "0 < unat (es t)" using assms(2) by (simp add: unat_gt_0)
  show ?thesis
  proof (cases "element_count shape")
    case (Inl x)
    then have "\<not> prod_list (dims shape) < 2 ^ 64"
      using count_loop_total [OF assms(1), of 1] by (auto simp: element_count_def)
    then have "\<not> prod_list (dims shape) * unat (es t) < 2 ^ 64"
      using e0 by (metis less_le_trans mult_le_mono2 nat_mult_1_right not_less Suc_leI One_nat_def)
    with Inl show ?thesis by (simp add: byte_count_def)
  next
    case (Inr c)
    then have c: "unat c = prod_list (dims shape)"
      using count_loop_Inr [of shape 1 c] by (simp add: element_count_def)
    then have "c \<noteq> 0" using p0 by auto
    then have g: "es t > - 1 div c \<longleftrightarrow> 2 ^ 64 \<le> unat (es t) * unat c" by (rule mul_guard)
    have "unat (c * es t) = unat c * unat (es t)" if "unat c * unat (es t) < 2 ^ 64"
      using that by (rule unat_mul_fits)
    with Inr \<open>c \<noteq> 0\<close> g c show ?thesis
      by (auto simp: byte_count_def Let_def mult.commute word_unat_eq_iff)
  qed
qed

lemma byte_count_total:
  assumes "\<forall>d \<in> set shape. 0 < sint d" and "es t \<noteq> 0"
    and "n = prod_list (dims shape) * unat (es t)" and "n < 2 ^ 64"
  shows "\<exists>c. byte_count es shape t = Inr c \<and> unat c = n"
proof -
  have "unat (of_nat n :: u64) = n" using assms(4) by (simp add: unat_of_nat)
  then show ?thesis
    using byte_count_iff [where es = es and t = t, OF assms(1,2), of "of_nat n"] assms(3,4) by auto
qed

text \<open>
  Byte counts do not wrap: a byte count that is returned is the product of the dimensions
  and of the element size, and for a shape without empty or negative dimension one is returned
  whenever that product fits 64 bits.
\<close>

theorem byte_count_exact:
  assumes "\<forall>d \<in> set shape. 0 < sint d" and "es t \<noteq> 0"
  shows "byte_count es shape t = Inr n \<longleftrightarrow>
    prod_list (dims shape) * unat (es t) < 2 ^ 64 \<and> unat n = prod_list (dims shape) * unat (es t)"
  using assms by (rule byte_count_iff)

theorem byte_count_exact_witness: "\<exists>n. byte_count sample_sizes [2, 3] kFloat = Inr n \<and> unat n = 24"
proof -
  have "\<forall>d \<in> set [2, 3 :: i64]. 0 < sint d" "sample_sizes kFloat \<noteq> 0" by (simp_all add: sample_sizes_def)
  from byte_count_exact [where es = sample_sizes, OF this, of 24] show ?thesis by (auto simp: sample_sizes_def)
qed

lemma described_scalar_type:
  assumes "dlpack_ok k"
    and "describe_dtype k t =
      Inr \<lparr>dd_code = tm_dtype_code msg, dd_bits = tm_dtype_bits msg, dd_lanes = tm_dtype_lanes msg\<rparr>"
  shows "scalar_type_of k msg = Inr t"
  using assms
  by (cases t) (auto simp: describe_dtype_def scalar_type_of_def dlpack_ok_def Let_def)

lemma contiguous_view_valid:
  assumes ss: "contiguous_strides (tm_shape msg) = Inr ss" and ns: "normalized_strides msg = Inr ss"
    and t: "scalar_type_of k msg = Inr t" and pos: "\<forall>d \<in> set (tm_shape msg). 0 < sint d"
    and off: "tm_byte_offset msg = 0"
    and len: "length (st_bytes (tm_data msg)) = prod_list (dims (tm_shape msg)) * unat (es t)"
      "length (st_bytes (tm_data msg)) < 2 ^ 64"
  shows "validate_view k es msg = Inr ()"
proof -
  let ?ps = "zip (tm_shape msg) ss"
  note r = contiguous_strides_Inr [OF ss]
  have "map unat ss = map (suffix_product (tm_shape msg)) [0..<length (tm_shape msg)]"
    by (rule nth_equalityI) (simp_all add: r(1,3))
  moreover have "\<forall>d \<in> set (tm_shape msg). 0 < unat d" using pos by (auto simp: sint_pos_iff)
  ultimately have reach: "1 + view_reach ?ps = prod_list (dims (tm_shape msg))"
    by (intro view_reach_contiguous)
  have ps: "\<forall>p \<in> set ?ps. 0 < sint (fst p) \<and> 0 \<le> sint (snd p)"
    using pos r(4) by (auto dest: set_zip_leftD set_zip_rightD)
  have "unat (1 :: u64) + view_reach ?ps < 2 ^ 64" using reach r(5) by simp
  from span_loop_total [OF ps this] obtain span where span: "span_loop ?ps 1 = Inr span" ..
  have "\<not> (\<exists>p \<in> set ?ps. fst p = 0)" using ps by force
  then have "unat span = prod_list (dims (tm_shape msg))" using span_loop_Inr [OF span] reach by simp
  then show ?thesis
    using validate_view_cases [OF ns t, of es] span off len by (auto simp: data_size_length)
qed

text \<open>
  The two dtype translations are inverse to each other: the description of a supported
  scalar type is read back as that type, and a message whose dtype is accepted
  carries exactly the description of the type it is read as.
\<close>

theorem dtype_roundtrip:
  assumes "dlpack_ok k"
  shows "describe_dtype k t =
      Inr \<lparr>dd_code = tm_dtype_code msg, dd_bits = tm_dtype_bits msg, dd_lanes = tm_dtype_lanes msg\<rparr> \<longleftrightarrow>
    scalar_type_of k msg = Inr t"
  using assms
  by (cases t) (auto simp: describe_dtype_def scalar_type_of_def dlpack_ok_def Let_def)

theorem dtype_roundtrip_witness:
  "describe_dtype sample_codes kFloat = Inr \<lparr>dd_code = 2, dd_bits = 32, dd_lanes = 1\<rparr>"
proof -
  have "dlpack_ok sample_codes" by (simp add: dlpack_ok_def sample_codes_def)
  from dtype_roundtrip [OF this, of kFloat sample_msg] sample_msg_facts(2) show ?thesis
    by (simp add: sample_msg_def)
qed

end
