(* ===== verification/Tensor_Conversions.thy ===== *)
theory Tensor_Conversions
  imports Tensor_View "HOL-Library.List_Lexorder" "HOL-Library.Char_ord"
begin

text \<open>
  The conversions between tensors and messages: the plugin interface of
  \<open>conversion_plugin.hpp\<close>, the registry and the conversion functions of
  \<open>torch_conversions.cpp\<close>, and the CPU plugin of \<open>cpu_conversion_plugin.cpp\<close>. A Torch tensor is what
  the code asks of it: whether it is defined, its sizes, scalar type, device and the bytes of its
  contiguous form. A view made by \<open>at::from_blob\<close> is described by the arguments it is given.
\<close>

section \<open>Tensors, views and plugins\<close>

record device =
  dv_type :: int
  dv_index :: int

definition kCPU :: int where "kCPU = 0"

record at_tensor =
  at_defined :: bool
  at_sizes :: "i64 list"
  at_scalar_type :: scalar_type
  at_device :: device
  at_bytes :: "u8 list"

record blob_view =
  bv_backend :: string
  bv_offset :: u64
  bv_shape :: "i64 list"
  bv_strides :: "i64 list"
  bv_type :: scalar_type
  bv_cloned :: bool

text \<open>A \<open>c10::Stream\<close> is named by its device and its number there.\<close>

record conversion_plugin =
  pl_backend :: string
  pl_device_type :: int
  pl_available :: bool
  pl_priority :: int
  pl_select_stream :: "device \<Rightarrow> (device \<times> nat) option"
  pl_allocate :: "tensor_msg \<Rightarrow> u64 \<Rightarrow> device \<Rightarrow> exn + tensor_msg"
  pl_from_input :: "tensor_msg \<Rightarrow> bool \<Rightarrow> exn + blob_view"
  pl_from_output :: "tensor_msg \<Rightarrow> exn + blob_view"
  pl_copy_to :: "tensor_msg \<Rightarrow> at_tensor \<Rightarrow> exn + tensor_msg"

text \<open>What the conversion functions rely on in a plugin that stores and copies bytes.\<close>

locale storage_plugin =
  fixes alloc :: "tensor_msg \<Rightarrow> u64 \<Rightarrow> device \<Rightarrow> exn + tensor_msg"
    and copy :: "tensor_msg \<Rightarrow> at_tensor \<Rightarrow> exn + tensor_msg"
    and name :: string
  assumes alloc_storage: "alloc msg n dev = Inr msg' \<Longrightarrow>
      st_backend (tm_data msg) = name \<Longrightarrow>
      msg' = msg\<lparr>tm_data := tm_data msg'\<rparr> \<and> st_backend (tm_data msg') = name \<and>
      length (st_bytes (tm_data msg')) = unat n"
    and copy_bytes: "copy msg t = Inr msg' \<Longrightarrow>
      length (at_bytes t) \<le> length (st_bytes (tm_data msg)) \<Longrightarrow>
      msg' = msg\<lparr>tm_data := tm_data msg'\<rparr> \<and> st_backend (tm_data msg') = st_backend (tm_data msg) \<and>
      st_bytes (tm_data msg') = at_bytes t @ drop (length (at_bytes t)) (st_bytes (tm_data msg))"
begin

text \<open>A copy leaves exactly the tensor's bytes at the start of the storage.\<close>

lemma copy_prefix:
  assumes "copy msg t = Inr msg'" and "length (at_bytes t) \<le> length (st_bytes (tm_data msg))"
  shows "take (length (at_bytes t)) (st_bytes (tm_data msg')) = at_bytes t"
    and "length (st_bytes (tm_data msg')) = length (st_bytes (tm_data msg))"
  using copy_bytes [OF assms] assms(2) by simp_all

text \<open>Allocating and then copying a tensor that fills the storage stores its bytes.\<close>

lemma alloc_copy:
  assumes "alloc msg n dev = Inr msg1" and "st_backend (tm_data msg) = name"
    and "copy msg1 t = Inr msg2" and "length (at_bytes t) = unat n"
  shows "st_bytes (tm_data msg2) = at_bytes t" and "st_backend (tm_data msg2) = name"
    and "msg2 = msg\<lparr>tm_data := tm_data msg2\<rparr>"
proof -
  note a = alloc_storage [OF assms(1,2)]
  have le: "length (at_bytes t) \<le> length (st_bytes (tm_data msg1))" using a assms(4) by simp
  note c = copy_bytes [OF assms(3) le]
  show "st_bytes (tm_data msg2) = at_bytes t" using a c assms(4) by simp
  show "st_backend (tm_data msg2) = name" using a c by simp
  show "msg2 = msg\<lparr>tm_data := tm_data msg2\<rparr>"
    using conjunct1 [OF a] conjunct1 [OF c] by (metis tensor_msg.surjective tensor_msg.update_convs(7))
qed

end

section \<open>The CPU plugin\<close>

definition quoted :: "string \<Rightarrow> string" where
  "quoted s = CHR 0x27 # s @ [CHR 0x27]"

definition require_cpu_storage :: "tensor_msg \<Rightarrow> exn + unit" where
  "require_cpu_storage msg =
     (if st_backend (tm_data msg) \<noteq> ''cpu''
      then Inl (RuntimeError (''CPU plugin cannot handle buffer backend '' @
             quoted (st_backend (tm_data msg))))
      else Inr ())"

definition resize_bytes :: "nat \<Rightarrow> u8 list \<Rightarrow> u8 list" where
  "resize_bytes n bs = take n bs @ replicate (n - length bs) 0"

definition cpu_allocate :: "tensor_msg \<Rightarrow> u64 \<Rightarrow> device \<Rightarrow> exn + tensor_msg" where
  "cpu_allocate msg n dev =
     (if dv_type dev \<noteq> kCPU then Inl (RuntimeError ''CPU plugin received a non-CPU device'')
      else Inr (msg\<lparr>tm_data := (tm_data msg)
             \<lparr>st_bytes := resize_bytes (unat n) (st_bytes (tm_data msg))\<rparr>\<rparr>))"

text \<open>\<open>make_tensor\<close>: the view that \<open>at::from_blob\<close> is asked for.\<close>

definition cpu_make_tensor :: "dlpack_codes \<Rightarrow> tensor_msg \<Rightarrow> bool \<Rightarrow> exn + blob_view" where
  "cpu_make_tensor k msg cloned =
     (case normalized_strides msg of
        Inl x \<Rightarrow> Inl x
      | Inr strides \<Rightarrow>
          (case scalar_type_of k msg of
             Inl x \<Rightarrow> Inl x
           | Inr t \<Rightarrow> Inr \<lparr>bv_backend = ''cpu'', bv_offset = tm_byte_offset msg, bv_shape = tm_shape msg,
                           bv_strides = strides, bv_type = t, bv_cloned = cloned\<rparr>))"

definition cpu_from_input :: "dlpack_codes \<Rightarrow> tensor_msg \<Rightarrow> bool \<Rightarrow> exn + blob_view" where
  "cpu_from_input k msg cloned =
     (case require_cpu_storage msg of Inl x \<Rightarrow> Inl x | Inr _ \<Rightarrow> cpu_make_tensor k msg cloned)"

definition cpu_from_output :: "dlpack_codes \<Rightarrow> tensor_msg \<Rightarrow> exn + blob_view" where
  "cpu_from_output k msg =
     (case require_cpu_storage msg of Inl x \<Rightarrow> Inl x | Inr _ \<Rightarrow> cpu_make_tensor k msg False)"

text \<open>\<open>memcpy\<close> of the contiguous bytes to the start of the storage.\<close>

definition cpu_copy_to :: "tensor_msg \<Rightarrow> at_tensor \<Rightarrow> exn + tensor_msg" where
  "cpu_copy_to msg source =
     (case require_cpu_storage msg of
        Inl x \<Rightarrow> Inl x
      | Inr _ \<Rightarrow>
          if dv_type (at_device source) \<noteq> kCPU
          then Inl (RuntimeError ''CPU plugin cannot read a non-CPU tensor'')
          else Inr (msg\<lparr>tm_data := (tm_data msg)
                 \<lparr>st_bytes := at_bytes source @ drop (length (at_bytes source)) (st_bytes (tm_data msg))\<rparr>\<rparr>))"

definition cpu_plugin :: "dlpack_codes \<Rightarrow> conversion_plugin" where
  "cpu_plugin k =
     \<lparr>pl_backend = ''cpu'', pl_device_type = kCPU, pl_available = True, pl_priority = 0,
      pl_select_stream = (\<lambda>_. None),
      pl_allocate = cpu_allocate, pl_from_input = cpu_from_input k,
      pl_from_output = cpu_from_output k, pl_copy_to = cpu_copy_to\<rparr>"

lemma resize_bytes_length [simp]: "length (resize_bytes n bs) = n"
  by (simp add: resize_bytes_def)

interpretation cpu: storage_plugin cpu_allocate cpu_copy_to "''cpu''"
  by unfold_locales
     (auto simp: cpu_allocate_def cpu_copy_to_def require_cpu_storage_def split: if_splits)

section \<open>The registry\<close>

text \<open>\<open>std::map::emplace\<close> on an association list sorted by key: an existing key is kept.\<close>

fun emplace :: "'k::linorder \<Rightarrow> 'v \<Rightarrow> ('k \<times> 'v) list \<Rightarrow> ('k \<times> 'v) list \<times> bool" where
  "emplace k v [] = ([(k, v)], True)"
| "emplace k v ((j, w) # m) =
     (if k < j then ((k, v) # (j, w) # m, True)
      else if k = j then ((j, w) # m, False)
      else (let (m', inserted) = emplace k v m in ((j, w) # m', inserted)))"

record registry =
  rg_backends :: "(string \<times> conversion_plugin) list"
  rg_devices :: "(int \<times> conversion_plugin) list"

text \<open>
  One turn of the constructor's loop: a plugin that cannot be loaded or pinned (\<open>Inl\<close>) is
  skipped.
\<close>

definition register_plugin :: "exn + conversion_plugin \<Rightarrow> registry \<Rightarrow> registry" where
  "register_plugin loaded r =
     (case loaded of
        Inl _ \<Rightarrow> r
      | Inr p \<Rightarrow>
          if \<not> pl_available p then r
          else
            (let (b, inserted) = emplace (pl_backend p) p (rg_backends r)
             in if inserted
                then r\<lparr>rg_backends := b,
                       rg_devices := fst (emplace (pl_device_type p) p (rg_devices r))\<rparr>
                else r))"

definition make_registry :: "(exn + conversion_plugin) list \<Rightarrow> registry" where
  "make_registry declared = fold register_plugin declared \<lparr>rg_backends = [], rg_devices = []\<rparr>"

definition backend_names :: "registry \<Rightarrow> string list" where
  "backend_names r = map fst (rg_backends r)"

definition has_backend :: "string \<Rightarrow> registry \<Rightarrow> bool" where
  "has_backend b r \<longleftrightarrow> map_of (rg_backends r) b \<noteq> None"

fun describe_loop :: "string list \<Rightarrow> string \<Rightarrow> string" where
  "describe_loop [] acc = (if acc = [] then ''[none installed]'' else acc)"
| "describe_loop (n # ns) acc = describe_loop ns (acc @ (if acc = [] then n else '', '' @ n))"

definition describe_backends :: "registry \<Rightarrow> string" where
  "describe_backends r = describe_loop (backend_names r) []"

definition for_backend :: "string \<Rightarrow> registry \<Rightarrow> exn + conversion_plugin" where
  "for_backend b r =
     (case map_of (rg_backends r) b of
        None \<Rightarrow> Inl (RuntimeError (''torch_conversions: no plugin provides backend '' @ quoted b @
                  ''; available backends are '' @ describe_backends r))
      | Some p \<Rightarrow> Inr p)"

definition for_device :: "int \<Rightarrow> registry \<Rightarrow> exn + conversion_plugin" where
  "for_device t r =
     (case map_of (rg_devices r) t of
        None \<Rightarrow> Inl (RuntimeError (''torch_conversions: no plugin serves Torch device type '' @
                  to_string t @ ''; available backends are '' @ describe_backends r))
      | Some p \<Rightarrow> Inr p)"

fun select_default :: "(string \<times> conversion_plugin) list \<Rightarrow> string \<Rightarrow> int \<Rightarrow> string" where
  "select_default [] selected priority = selected"
| "select_default ((n, p) # m) selected priority =
     (if selected = [] \<or> pl_priority p > priority then select_default m n (pl_priority p)
      else select_default m selected priority)"

definition default_name :: "registry \<Rightarrow> exn + string" where
  "default_name r =
     (let selected = select_default (rg_backends r) [] (- (2 ^ 31))
      in if selected = []
         then Inl (RuntimeError ''torch_conversions: no conversion plugin is installed'')
         else Inr selected)"

definition backend_for_device :: "int \<Rightarrow> registry \<Rightarrow> exn + string" where
  "backend_for_device t r = (case for_device t r of Inl x \<Rightarrow> Inl x | Inr p \<Rightarrow> Inr (pl_backend p))"

section \<open>Conversions\<close>

definition empty_msg :: tensor_msg where
  "empty_msg = \<lparr>tm_dtype_code = 0, tm_dtype_bits = 0, tm_dtype_lanes = 0, tm_shape = [],
     tm_strides = [], tm_byte_offset = 0, tm_data = \<lparr>st_backend = ''cpu'', st_bytes = []\<rparr>\<rparr>"

definition pick_plugin :: "registry \<Rightarrow> device option \<Rightarrow> exn + conversion_plugin \<times> device" where
  "pick_plugin r dev =
     (case dev of
        Some d \<Rightarrow> (case for_device (dv_type d) r of Inl x \<Rightarrow> Inl x | Inr p \<Rightarrow> Inr (p, d))
      | None \<Rightarrow>
          (case default_name r of
             Inl x \<Rightarrow> Inl x
           | Inr n \<Rightarrow>
               (case for_backend n r of
                  Inl x \<Rightarrow> Inl x
                | Inr p \<Rightarrow> Inr (p, \<lparr>dv_type = pl_device_type p, dv_index = -1\<rparr>))))"

text \<open>The constructor of \<open>StreamGuard\<close>: the stream that the guard of \<open>c10\<close> is reset to, if any.\<close>

definition guard_stream :: "registry \<Rightarrow> device option \<Rightarrow> exn + (device \<times> nat) option" where
  "guard_stream r dev =
     (case pick_plugin r dev of
        Inl x \<Rightarrow> Inl x
      | Inr (plugin, selected_device) \<Rightarrow> Inr (pl_select_stream plugin selected_device))"

definition allocate_tensor_msg ::
  "dlpack_codes \<Rightarrow> (scalar_type \<Rightarrow> u64) \<Rightarrow> registry \<Rightarrow> i64 list \<Rightarrow> scalar_type \<Rightarrow> device option \<Rightarrow>
     exn + tensor_msg" where
  "allocate_tensor_msg k es r shape dtype dev =
     (case pick_plugin r dev of
        Inl x \<Rightarrow> Inl x
      | Inr (plugin, selected_device) \<Rightarrow>
          (case contiguous_strides shape of
             Inl x \<Rightarrow> Inl x
           | Inr strides \<Rightarrow>
               (case describe_dtype k dtype of
                  Inl x \<Rightarrow> Inl x
                | Inr d \<Rightarrow>
                    (let msg = empty_msg\<lparr>tm_shape := shape, tm_strides := strides,
                       tm_dtype_code := dd_code d, tm_dtype_bits := dd_bits d,
                       tm_dtype_lanes := dd_lanes d, tm_byte_offset := 0\<rparr>
                     in case byte_count es shape dtype of
                          Inl x \<Rightarrow> Inl x
                        | Inr n \<Rightarrow> pl_allocate plugin msg n selected_device))))"

text \<open>The result \<open>None\<close> is the undefined tensor of an empty message.\<close>

definition from_input_tensor_msg ::
  "dlpack_codes \<Rightarrow> (scalar_type \<Rightarrow> u64) \<Rightarrow> registry \<Rightarrow> tensor_msg \<Rightarrow> bool \<Rightarrow> exn + blob_view option" where
  "from_input_tensor_msg k es r msg cloned =
     (if st_bytes (tm_data msg) = [] then Inr None
      else case validate_view k es msg of
          Inl x \<Rightarrow> Inl x
        | Inr _ \<Rightarrow>
            (case for_backend (st_backend (tm_data msg)) r of
               Inl x \<Rightarrow> Inl x
             | Inr p \<Rightarrow> map_sum id Some (pl_from_input p msg cloned)))"

definition from_output_tensor_msg ::
  "dlpack_codes \<Rightarrow> (scalar_type \<Rightarrow> u64) \<Rightarrow> registry \<Rightarrow> tensor_msg \<Rightarrow> exn + blob_view option" where
  "from_output_tensor_msg k es r msg =
     (if st_bytes (tm_data msg) = [] then Inr None
      else case validate_view k es msg of
          Inl x \<Rightarrow> Inl x
        | Inr _ \<Rightarrow>
            (case for_backend (st_backend (tm_data msg)) r of
               Inl x \<Rightarrow> Inl x
             | Inr p \<Rightarrow> map_sum id Some (pl_from_output p msg)))"

text \<open>\<open>set_metadata\<close>: the message as it is when the call returns or throws.\<close>

definition set_metadata :: "dlpack_codes \<Rightarrow> tensor_msg \<Rightarrow> at_tensor \<Rightarrow> (exn + unit) \<times> tensor_msg" where
  "set_metadata k msg tensor =
     (case describe_dtype k (at_scalar_type tensor) of
        Inl x \<Rightarrow> (Inl x, msg)
      | Inr d \<Rightarrow>
          (let msg1 = msg\<lparr>tm_shape := at_sizes tensor\<rparr>
           in case contiguous_strides (tm_shape msg1) of
                Inl x \<Rightarrow> (Inl x, msg1)
              | Inr strides \<Rightarrow>
                  (Inr (), msg1\<lparr>tm_strides := strides, tm_dtype_code := dd_code d,
                      tm_dtype_bits := dd_bits d, tm_dtype_lanes := dd_lanes d, tm_byte_offset := 0\<rparr>)))"

definition numel_zero :: "at_tensor \<Rightarrow> bool" where
  "numel_zero t \<longleftrightarrow> 0 \<in> set (at_sizes t)"

definition to_tensor_msg ::
  "dlpack_codes \<Rightarrow> registry \<Rightarrow> tensor_msg \<Rightarrow> at_tensor \<Rightarrow> (exn + unit) \<times> tensor_msg" where
  "to_tensor_msg k r msg tensor =
     (if \<not> at_defined tensor \<or> numel_zero tensor then (Inr (), msg)
      else if length (at_bytes tensor) > length (st_bytes (tm_data msg))
      then (Inl (RuntimeError ''torch_conversions: tensor exceeds message storage''), msg)
      else case (if dv_type (at_device tensor) = kCPU then for_backend (st_backend (tm_data msg)) r
                 else for_device (dv_type (at_device tensor)) r) of
          Inl x \<Rightarrow> (Inl x, msg)
        | Inr plugin \<Rightarrow>
            (case pl_copy_to plugin msg tensor of
               Inl x \<Rightarrow> (Inl x, msg)
             | Inr msg1 \<Rightarrow> set_metadata k msg1 tensor))"

definition tensor_to_new_msg ::
  "dlpack_codes \<Rightarrow> (scalar_type \<Rightarrow> u64) \<Rightarrow> registry \<Rightarrow> at_tensor \<Rightarrow> exn + tensor_msg" where
  "tensor_to_new_msg k es r tensor =
     (if \<not> at_defined tensor \<or> numel_zero tensor then Inr empty_msg
      else case allocate_tensor_msg k es r (at_sizes tensor) (at_scalar_type tensor) (Some (at_device tensor)) of
          Inl x \<Rightarrow> Inl x
        | Inr msg \<Rightarrow>
            (case to_tensor_msg k r msg tensor of
               (Inl x, _) \<Rightarrow> Inl x
             | (Inr _, msg') \<Rightarrow> Inr msg'))"

section \<open>Lemmas on the registry\<close>

lemma emplace_map_of:
  "sorted_wrt (<) (map fst m) \<Longrightarrow>
     map_of (fst (emplace k v m)) j = (if j = k \<and> map_of m k = None then Some v else map_of m j) \<and>
     snd (emplace k v m) = (map_of m k = None)"
proof (induction k v m rule: emplace.induct)
  case (1 k v)
  then show ?case by simp
next
  case (2 k v i w m)
  have notin: "map_of m k = None" if "k < i"
    using "2.prems" that by (force simp: map_of_eq_None_iff)
  show ?case
  proof (cases "k < i")
    case True
    with notin show ?thesis by auto
  next
    case False
    with 2 show ?thesis by (cases "k = i") (auto simp: Let_def split_beta)
  qed
qed

lemma emplace_keys: "fst ` set (fst (emplace k v m)) = insert k (fst ` set m)"
  by (induction k v m rule: emplace.induct) (auto simp: Let_def split_beta)

lemma emplace_sorted: "sorted_wrt (<) (map fst m) \<Longrightarrow> sorted_wrt (<) (map fst (fst (emplace k v m)))"
proof (induction k v m rule: emplace.induct)
  case (1 k v)
  then show ?case by simp
next
  case (2 k v i w m)
  have "i < j" if "k \<noteq> i" "\<not> k < i" "j \<in> fst ` set (fst (emplace k v m))" for j
    using that "2.prems" by (auto simp: emplace_keys)
  with 2 show ?case by (auto simp: Let_def split_beta)
qed

definition registry_inv :: "registry \<Rightarrow> bool" where
  "registry_inv r \<longleftrightarrow>
     sorted_wrt (<) (map fst (rg_backends r)) \<and>
     (\<forall>(n, p) \<in> set (rg_backends r). pl_backend p = n \<and> pl_available p)"

definition provides :: "string \<Rightarrow> exn + conversion_plugin \<Rightarrow> bool" where
  "provides b x = (case x of Inl _ \<Rightarrow> False | Inr p \<Rightarrow> pl_available p \<and> pl_backend p = b)"

lemma emplace_set: "set (fst (emplace k v m)) \<subseteq> insert (k, v) (set m)"
  by (induction k v m rule: emplace.induct) (auto simp: Let_def split_beta)

lemma register_plugin_step:
  assumes "registry_inv r"
  shows "registry_inv (register_plugin x r)"
    and "map_of (rg_backends (register_plugin x r)) b =
      (case map_of (rg_backends r) b of
         Some p \<Rightarrow> Some p
       | None \<Rightarrow> (case x of Inl _ \<Rightarrow> None | Inr p \<Rightarrow> if provides b x then Some p else None))"
proof -
  have s: "sorted_wrt (<) (map fst (rg_backends r))" using assms by (simp add: registry_inv_def)
  show "registry_inv (register_plugin x r)"
  proof (cases x)
    case (Inl e)
    with assms show ?thesis by (simp add: register_plugin_def)
  next
    case (Inr p)
    show ?thesis
      using assms emplace_sorted [OF s, of "pl_backend p" p] emplace_set [of "pl_backend p" p "rg_backends r"]
      by (fastforce simp: register_plugin_def Inr registry_inv_def split_beta Let_def)
  qed
  show "map_of (rg_backends (register_plugin x r)) b =
      (case map_of (rg_backends r) b of
         Some p \<Rightarrow> Some p
       | None \<Rightarrow> (case x of Inl _ \<Rightarrow> None | Inr p \<Rightarrow> if provides b x then Some p else None))"
  proof (cases x)
    case (Inl e)
    then show ?thesis by (simp add: register_plugin_def split: option.split)
  next
    case (Inr p)
    note e = emplace_map_of [OF s, of "pl_backend p" p]
    show ?thesis
      using e [of b] by (auto simp: register_plugin_def Inr provides_def split_beta Let_def split: option.split)
  qed
qed

lemma fold_register:
  "registry_inv r \<Longrightarrow> map_of (rg_backends (fold register_plugin ds r)) b =
     (case map_of (rg_backends r) b of
        Some p \<Rightarrow> Some p
      | None \<Rightarrow> (case find (provides b) ds of Some (Inr p) \<Rightarrow> Some p | _ \<Rightarrow> None))
   \<and> registry_inv (fold register_plugin ds r)"
proof (induction ds arbitrary: r)
  case Nil
  then show ?case by (auto split: option.split)
next
  case (Cons d ds)
  note s = register_plugin_step [OF Cons.prems, of d]
  from Cons.IH [OF s(1)] s(2) [of b] show ?case
    by (cases d) (auto simp: provides_def split: option.splits)
qed

lemma select_default_best:
  assumes "select_default m sel prio = n" and "\<forall>(j, p) \<in> set m. j \<noteq> [] \<and> - (2 ^ 31) \<le> pl_priority p"
    and "sel \<noteq> [] \<or> prio = - (2 ^ 31)"
  shows "(n = sel \<and> (sel = [] \<longrightarrow> m = []) \<and> (sel \<noteq> [] \<longrightarrow> (\<forall>(j, p) \<in> set m. pl_priority p \<le> prio))) \<or>
    (\<exists>i < length m. n = fst (m ! i) \<and> (sel \<noteq> [] \<longrightarrow> prio < pl_priority (snd (m ! i))) \<and>
       (\<forall>j < i. pl_priority (snd (m ! j)) < pl_priority (snd (m ! i))) \<and>
       (\<forall>j < length m. pl_priority (snd (m ! j)) \<le> pl_priority (snd (m ! i))))"
  using assms
proof (induction m sel prio rule: select_default.induct)
  case (1 sel prio)
  then show ?case by simp
next
  case (2 j p m sel prio)
  show ?case
  proof (cases "sel = [] \<or> pl_priority p > prio")
    case True
    have "j \<noteq> []" using "2.prems"(2) by simp
    with "2.IH"(1) [OF True] "2.prems"(1,2) True
    consider "n = j" "\<forall>(l, q) \<in> set m. pl_priority q \<le> pl_priority p"
      | i where "i < length m" "n = fst (m ! i)" "pl_priority p < pl_priority (snd (m ! i))"
        "\<forall>l < i. pl_priority (snd (m ! l)) < pl_priority (snd (m ! i))"
        "\<forall>l < length m. pl_priority (snd (m ! l)) \<le> pl_priority (snd (m ! i))" by auto
    then show ?thesis
    proof cases
      case 1
      have "pl_priority (snd (m ! l)) \<le> pl_priority p" if "l < length m" for l
        using 1(2) nth_mem [OF that] by (cases "m ! l") auto
      then have "\<forall>l < length ((j, p) # m). pl_priority (snd (((j, p) # m) ! l)) \<le> pl_priority p"
        by (auto simp: nth_Cons')
      with 1(1) True show ?thesis by (intro disjI2 exI [of _ 0]) auto
    next
      case 2
      then show ?thesis using True
        by (intro disjI2 exI [of _ "Suc i"]) (auto simp: nth_Cons' less_Suc_eq_0_disj)
    qed
  next
    case False
    with "2.IH"(2) "2.prems" consider "n = sel" "\<forall>(l, q) \<in> set m. pl_priority q \<le> prio"
      | i where "i < length m" "n = fst (m ! i)" "prio < pl_priority (snd (m ! i))"
        "\<forall>l < i. pl_priority (snd (m ! l)) < pl_priority (snd (m ! i))"
        "\<forall>l < length m. pl_priority (snd (m ! l)) \<le> pl_priority (snd (m ! i))" by auto
    then show ?thesis
    proof cases
      case 1
      with False show ?thesis by auto
    next
      case 2
      then show ?thesis using False
        by (intro disjI2 exI [of _ "Suc i"]) (auto simp: nth_Cons' less_Suc_eq_0_disj)
    qed
  qed
qed

section \<open>Properties of the conversions\<close>

text \<open>
  The registry serves each backend with the first plugin, in the order in which the classes
  are declared, that loads, is available and names that backend; plugins that fail to
  load or are not available change nothing, and a later plugin never replaces an earlier one.
\<close>

theorem registry_first_plugin_wins:
  "map_of (rg_backends (make_registry declared)) b =
     (case find (provides b) declared of Some (Inr p) \<Rightarrow> Some p | _ \<Rightarrow> None)"
proof -
  have "registry_inv \<lparr>rg_backends = [], rg_devices = []\<rparr>" by (simp add: registry_inv_def)
  from fold_register [OF this, of declared b] show ?thesis by (simp add: make_registry_def)
qed

text \<open>
  The default backend is one of the registered backends, no other has a higher priority,
  and among equal priorities it is the first by name; there is none exactly when no plugin is
  registered. (Priorities are \<open>int\<close> values; plugins have nonempty names.)
\<close>

theorem default_backend_is_best:
  assumes "\<forall>(n, p) \<in> set (rg_backends r). n \<noteq> [] \<and> - (2 ^ 31) \<le> pl_priority p"
    and "rg_backends r \<noteq> []"
  shows "\<exists>i < length (rg_backends r). default_name r = Inr (fst (rg_backends r ! i)) \<and>
    (\<forall>j < length (rg_backends r).
       pl_priority (snd (rg_backends r ! j)) \<le> pl_priority (snd (rg_backends r ! i)) \<and>
       (j < i \<longrightarrow> pl_priority (snd (rg_backends r ! j)) < pl_priority (snd (rg_backends r ! i))))"
proof -
  from select_default_best [OF refl assms(1), of "[]" "- (2 ^ 31)"] assms(2) obtain i where
    i: "i < length (rg_backends r)" "select_default (rg_backends r) [] (- (2 ^ 31)) = fst (rg_backends r ! i)"
    "\<forall>j < i. pl_priority (snd (rg_backends r ! j)) < pl_priority (snd (rg_backends r ! i))"
    "\<forall>j < length (rg_backends r). pl_priority (snd (rg_backends r ! j)) \<le> pl_priority (snd (rg_backends r ! i))"
    by auto
  have "fst (rg_backends r ! i) \<noteq> []"
    using assms(1) nth_mem [OF i(1)] by (cases "rg_backends r ! i") auto
  with i show ?thesis by (intro exI [of _ i]) (simp add: default_name_def Let_def)
qed

definition sample_plugin :: "string \<Rightarrow> int \<Rightarrow> conversion_plugin" where
  "sample_plugin n prio = (cpu_plugin sample_codes)\<lparr>pl_backend := n, pl_priority := prio\<rparr>"

theorem default_backend_is_best_witness:
  "default_name \<lparr>rg_backends = [(''cpu'', sample_plugin ''cpu'' 0), (''cuda'', sample_plugin ''cuda'' 100)],
     rg_devices = []\<rparr> = Inr ''cuda''"
  (is "default_name ?r = _")
proof -
  have "\<forall>(n, p) \<in> set (rg_backends ?r). n \<noteq> [] \<and> - (2 ^ 31) \<le> pl_priority p" "rg_backends ?r \<noteq> []"
    by (simp_all add: sample_plugin_def cpu_plugin_def)
  from default_backend_is_best [OF this] show ?thesis
    by (auto simp: sample_plugin_def cpu_plugin_def less_Suc_eq numeral_2_eq_2)
qed

text \<open>A tensor on the CPU whose bytes are those of its elements.\<close>

definition cpu_tensor_ok :: "(scalar_type \<Rightarrow> u64) \<Rightarrow> at_tensor \<Rightarrow> bool" where
  "cpu_tensor_ok es t \<longleftrightarrow>
     at_defined t \<and> dv_type (at_device t) = kCPU \<and> (\<forall>d \<in> set (at_sizes t). 0 < sint d) \<and>
     es (at_scalar_type t) \<noteq> 0 \<and>
     length (at_bytes t) = prod_list (dims (at_sizes t)) * unat (es (at_scalar_type t)) \<and>
     length (at_bytes t) < 2 ^ 63"

lemma prod_list_pos: "(\<And>x. x \<in> set xs \<Longrightarrow> 0 < x) \<Longrightarrow> 0 < prod_list (xs :: nat list)"
  by (induction xs) auto

lemma cpu_message:
  assumes ok: "cpu_tensor_ok es t" and "describe_dtype k (at_scalar_type t) = Inr d"
    and r: "for_device kCPU r = Inr (cpu_plugin k)" "for_backend ''cpu'' r = Inr (cpu_plugin k)"
  obtains ss msg where "contiguous_strides (at_sizes t) = Inr ss" "tensor_to_new_msg k es r t = Inr msg"
    "tm_data msg = \<lparr>st_backend = ''cpu'', st_bytes = at_bytes t\<rparr>" "tm_shape msg = at_sizes t"
    "tm_strides msg = ss" "tm_byte_offset msg = 0" "tm_dtype_code msg = dd_code d"
    "tm_dtype_bits msg = dd_bits d" "tm_dtype_lanes msg = dd_lanes d"
proof -
  let ?n = "prod_list (dims (at_sizes t))"
  have pos: "\<forall>d \<in> set (at_sizes t). 0 < sint d" and dev: "dv_type (at_device t) = kCPU"
    and len: "length (at_bytes t) = ?n * unat (es (at_scalar_type t))" "length (at_bytes t) < 2 ^ 63"
    and es: "es (at_scalar_type t) \<noteq> 0"
    using ok by (simp_all add: cpu_tensor_ok_def)
  have e0: "0 < unat (es (at_scalar_type t))" using es by (simp add: unat_gt_0)
  then have "?n * 1 \<le> ?n * unat (es (at_scalar_type t))" by (intro mult_le_mono2) simp
  then have "?n < 2 ^ 63" using len by linarith
  with contiguous_strides_total [OF pos] obtain ss where ss: "contiguous_strides (at_sizes t) = Inr ss" by blast
  have bc: "\<exists>n. byte_count es (at_sizes t) (at_scalar_type t) = Inr n \<and> unat n = length (at_bytes t)"
    by (rule byte_count_total [where es = es, OF pos es]) (use len in simp_all)
  then obtain n where n: "byte_count es (at_sizes t) (at_scalar_type t) = Inr n" "unat n = length (at_bytes t)"
    by blast
  have nz: "\<not> numel_zero t" using pos by (auto simp: numel_zero_def)
  let ?m = "empty_msg\<lparr>tm_shape := at_sizes t, tm_strides := ss, tm_dtype_code := dd_code d,
      tm_dtype_bits := dd_bits d, tm_dtype_lanes := dd_lanes d, tm_byte_offset := 0\<rparr>"
  let ?m1 = "?m\<lparr>tm_data := \<lparr>st_backend = ''cpu'', st_bytes = replicate (unat n) 0\<rparr>\<rparr>"
  have a: "allocate_tensor_msg k es r (at_sizes t) (at_scalar_type t) (Some (at_device t)) = Inr ?m1"
    using assms(2) r dev ss n
    by (simp add: allocate_tensor_msg_def pick_plugin_def cpu_plugin_def cpu_allocate_def empty_msg_def
        resize_bytes_def Let_def)
  have c: "cpu_copy_to ?m1 t = Inr (?m\<lparr>tm_data := \<lparr>st_backend = ''cpu'', st_bytes = at_bytes t\<rparr>\<rparr>)"
    using dev n(2) by (simp add: cpu_copy_to_def require_cpu_storage_def)
  have t: "to_tensor_msg k r ?m1 t = (Inr (), ?m\<lparr>tm_data := \<lparr>st_backend = ''cpu'', st_bytes = at_bytes t\<rparr>\<rparr>)"
    using ok nz dev r n(2) c assms(2) ss
    by (simp add: to_tensor_msg_def cpu_tensor_ok_def cpu_plugin_def set_metadata_def Let_def)
  show ?thesis
    using ok nz a t ss by (intro that [OF ss, of "?m\<lparr>tm_data := \<lparr>st_backend = ''cpu'', st_bytes = at_bytes t\<rparr>\<rparr>"])
      (simp_all add: tensor_to_new_msg_def cpu_tensor_ok_def)
qed

text \<open>
  C31. Round trip of a tensor through a message on the CPU: a defined, nonempty CPU tensor of
  a supported type is always converted; the message holds exactly its bytes; and reading the message
  gives a view from the start of these bytes with the tensor's shape, its scalar type and row-major strides.
\<close>

theorem cpu_tensor_roundtrip:
  assumes "cpu_tensor_ok es t" and "dlpack_ok k" and "describe_dtype k (at_scalar_type t) = Inr d"
    and "for_device kCPU r = Inr (cpu_plugin k)" and "for_backend ''cpu'' r = Inr (cpu_plugin k)"
  shows "\<exists>msg ss. tensor_to_new_msg k es r t = Inr msg \<and> st_bytes (tm_data msg) = at_bytes t \<and>
    contiguous_strides (at_sizes t) = Inr ss \<and>
    from_input_tensor_msg k es r msg cl =
      Inr (Some \<lparr>bv_backend = ''cpu'', bv_offset = 0, bv_shape = at_sizes t, bv_strides = ss,
                 bv_type = at_scalar_type t, bv_cloned = cl\<rparr>)"
proof -
  from cpu_message [OF assms(1,3-5)] obtain ss msg where
    m: "contiguous_strides (at_sizes t) = Inr ss" "tensor_to_new_msg k es r t = Inr msg"
    "tm_data msg = \<lparr>st_backend = ''cpu'', st_bytes = at_bytes t\<rparr>" "tm_shape msg = at_sizes t"
    "tm_strides msg = ss" "tm_byte_offset msg = 0" "tm_dtype_code msg = dd_code d"
    "tm_dtype_bits msg = dd_bits d" "tm_dtype_lanes msg = dd_lanes d" .
  have pos: "\<forall>d \<in> set (at_sizes t). 0 < sint d" and es: "es (at_scalar_type t) \<noteq> 0"
    and len: "length (at_bytes t) = prod_list (dims (at_sizes t)) * unat (es (at_scalar_type t))"
      "length (at_bytes t) < 2 ^ 63" using assms(1) by (simp_all add: cpu_tensor_ok_def)
  have ns: "normalized_strides msg = Inr ss"
    using m(1,4,5) contiguous_strides_Inr(1) [OF m(1)] by (simp add: normalized_strides_def)
  have d: "d = \<lparr>dd_code = tm_dtype_code msg, dd_bits = tm_dtype_bits msg, dd_lanes = tm_dtype_lanes msg\<rparr>"
    using m by simp
  have st: "scalar_type_of k msg = Inr (at_scalar_type t)"
    by (rule described_scalar_type [OF assms(2)]) (use assms(3) d in simp)
  have "0 < prod_list (dims (at_sizes t))" using pos by (intro prod_list_pos) (auto simp: sint_pos_iff)
  moreover have "0 < unat (es (at_scalar_type t))" using es by (simp add: unat_gt_0)
  ultimately have "0 < length (at_bytes t)" unfolding len(1) by simp
  then have ne: "at_bytes t \<noteq> []" by simp
  have "validate_view k es msg = Inr ()"
    using contiguous_view_valid [of msg ss k "at_scalar_type t" es] m ns st pos len by simp
  then show ?thesis
    using m ns st ne assms(5)
    by (simp add: from_input_tensor_msg_def cpu_plugin_def cpu_from_input_def require_cpu_storage_def
        cpu_make_tensor_def)
qed

definition sample_tensor :: at_tensor where
  "sample_tensor = \<lparr>at_defined = True, at_sizes = [2, 3], at_scalar_type = kShort,
     at_device = \<lparr>dv_type = kCPU, dv_index = 0\<rparr>, at_bytes = [1, 2, 3, 4, 5, 6, 7, 8, 9, 10, 11, 12]\<rparr>"

definition cpu_registry :: registry where
  "cpu_registry = make_registry [Inl (RuntimeError ''no CUDA''), Inr (cpu_plugin sample_codes)]"

theorem cpu_tensor_roundtrip_witness:
  "\<exists>msg. tensor_to_new_msg sample_codes sample_sizes cpu_registry sample_tensor = Inr msg \<and>
     st_bytes (tm_data msg) = [1, 2, 3, 4, 5, 6, 7, 8, 9, 10, 11, 12]"
proof -
  have ok: "cpu_tensor_ok sample_sizes sample_tensor" and d: "dlpack_ok sample_codes"
    by (simp_all add: cpu_tensor_ok_def sample_tensor_def sample_sizes_def dlpack_ok_def sample_codes_def)
  have t: "describe_dtype sample_codes (at_scalar_type sample_tensor) =
      Inr \<lparr>dd_code = 0, dd_bits = 16, dd_lanes = 1\<rparr>"
    by (simp add: sample_tensor_def describe_dtype_def sample_codes_def)
  have r: "for_device kCPU cpu_registry = Inr (cpu_plugin sample_codes)"
    "for_backend ''cpu'' cpu_registry = Inr (cpu_plugin sample_codes)"
    by (simp_all add: cpu_registry_def make_registry_def register_plugin_def cpu_plugin_def
        for_device_def for_backend_def)
  from cpu_tensor_roundtrip [where es = sample_sizes, OF ok d t r, of True] show ?thesis
    by (auto simp: sample_tensor_def)
qed

text \<open>
  The order in which a tensor is written into an existing message: the bytes are copied
  before the dtype is looked at, so that for a tensor of an unsupported scalar type the call throws
  but the storage is already overwritten while shape, strides and dtype still describe
  the old content.
\<close>

theorem unsupported_dtype_overwrites_data:
  assumes "at_defined t" and "\<not> numel_zero t" and "dv_type (at_device t) = kCPU"
    and "at_scalar_type t = other_scalar c" and "st_backend (tm_data msg) = ''cpu''"
    and "length (at_bytes t) \<le> length (st_bytes (tm_data msg))"
    and "for_backend ''cpu'' r = Inr (cpu_plugin k)"
  shows "\<exists>x msg'. to_tensor_msg k r msg t = (Inl x, msg') \<and>
    take (length (at_bytes t)) (st_bytes (tm_data msg')) = at_bytes t \<and>
    tm_shape msg' = tm_shape msg \<and> tm_strides msg' = tm_strides msg \<and>
    tm_dtype_code msg' = tm_dtype_code msg \<and> tm_dtype_bits msg' = tm_dtype_bits msg"
proof -
  obtain msg1 where c: "cpu_copy_to msg t = Inr msg1"
    using assms(3,5) by (simp add: cpu_copy_to_def require_cpu_storage_def)
  have m: "msg1 = msg\<lparr>tm_data := tm_data msg1\<rparr>" using cpu.copy_bytes [OF c assms(6)] by blast
  have "to_tensor_msg k r msg t = (Inl (RuntimeError ''torch_conversions: unsupported scalar type''), msg1)"
    using assms c by (simp add: to_tensor_msg_def cpu_plugin_def set_metadata_def describe_dtype_def)
  moreover have "tm_shape msg1 = tm_shape msg" "tm_strides msg1 = tm_strides msg"
    "tm_dtype_code msg1 = tm_dtype_code msg" "tm_dtype_bits msg1 = tm_dtype_bits msg"
    by (subst m, simp)+
  ultimately show ?thesis using cpu.copy_prefix(1) [OF c assms(6)] by blast
qed

theorem unsupported_dtype_overwrites_data_witness:
  "\<exists>x msg'. to_tensor_msg sample_codes cpu_registry sample_msg (sample_tensor\<lparr>at_scalar_type := other_scalar 9\<rparr>)
       = (Inl x, msg') \<and> take 12 (st_bytes (tm_data msg')) = [1, 2, 3, 4, 5, 6, 7, 8, 9, 10, 11, 12] \<and>
     tm_shape msg' = [2, 2]"
proof -
  let ?t = "sample_tensor\<lparr>at_scalar_type := other_scalar 9\<rparr>"
  have "at_defined ?t" "\<not> numel_zero ?t" "dv_type (at_device ?t) = kCPU" "at_scalar_type ?t = other_scalar 9"
    "st_backend (tm_data sample_msg) = ''cpu''"
    "length (at_bytes ?t) \<le> length (st_bytes (tm_data sample_msg))"
    "for_backend ''cpu'' cpu_registry = Inr (cpu_plugin sample_codes)"
    by (simp_all add: sample_tensor_def numel_zero_def sample_msg_def cpu_registry_def make_registry_def
        register_plugin_def cpu_plugin_def for_backend_def)
  from unsupported_dtype_overwrites_data [OF this] obtain x msg' where
    *: "to_tensor_msg sample_codes cpu_registry sample_msg ?t = (Inl x, msg')"
      "take (length (at_bytes ?t)) (st_bytes (tm_data msg')) = at_bytes ?t" "tm_shape msg' = tm_shape sample_msg"
    by blast
  have "length (at_bytes ?t) = 12" "at_bytes ?t = [1, 2, 3, 4, 5, 6, 7, 8, 9, 10, 11, 12]"
    by (simp_all add: sample_tensor_def)
  with *(2) have "take 12 (st_bytes (tm_data msg')) = [1, 2, 3, 4, 5, 6, 7, 8, 9, 10, 11, 12]" by metis
  with *(1,3) show ?thesis by (auto simp: sample_msg_def)
qed

end
