(* ===== verification/Cuda_Conversion.thy ===== *)
theory Cuda_Conversion
  imports Scoped_Handles Tensor_Conversions
begin

text \<open>
  \<open>CudaConversionPlugin\<close> of \<open>cuda_conversion_plugin.cpp\<close>, the plugin that allocates tensor messages
  in CUDA buffers, makes tensors over their storage and copies tensors into them. A view keeps the handle it
  was made with, its lease, until the tensor ends.
\<close>

section \<open>Messages, sources and views\<close>

definition kCUDA :: int where "kCUDA = 1"

text \<open>
  The data of a message: a \<open>CudaBufferImpl\<close>, storage of the CPU backend at a host address, or any
  other implementation, with the name of its backend, which is not the one of the CPU. The metadata are those of a
  \<open>tensor_msg\<close>, whose own storage stands for nothing here.
\<close>

datatype msg_data = Cuda_Data nat | Host_Data u64 | Other_Data string

fun backend_type :: "msg_data \<Rightarrow> string" where
  "backend_type (Cuda_Data b) = ''cuda''"
| "backend_type (Host_Data host) = ''cpu''"
| "backend_type (Other_Data name) = name"

record cuda_msg =
  cm_meta :: tensor_msg
  cm_data :: msg_data

text \<open>
  A tensor that is copied: its device, the address and size of its contiguous form, and the kernel that
  \<open>contiguous()\<close> starts to make that form, if it is a CUDA tensor that is not contiguous.
\<close>

record source_tensor =
  so_device :: device
  so_ptr :: u64
  so_nbytes :: u64
  so_gather :: "nat option"

datatype lease = No_Lease | Read_Lease read_handle | Write_Lease write_handle

record cuda_view =
  cv_ptr :: u64
  cv_shape :: "i64 list"
  cv_strides :: "i64 list"
  cv_type :: scalar_type
  cv_device :: int
  cv_lease :: lease

text \<open>A tensor is such a view, or the copy that \<open>clone()\<close> makes of one, which has storage of its own.\<close>

datatype cuda_tensor = View cuda_view | Clone cuda_view

text \<open>
  The answers of the CUDA runtime and of \<open>c10\<close> during one call: the current stream of a device as a raw stream
  (0 for the default stream), the handle \<open>cudaStreamLegacy\<close>, the device that is current under a guard, and
  the kernel that copies a view.
\<close>

record conv_env =
  ce_current :: "int \<Rightarrow> nat"
  ce_legacy :: nat
  ce_guard :: "device \<Rightarrow> int"
  ce_alloc :: alloc_env
  ce_gpu :: gpu_env
  ce_end :: gpu_env
  ce_memcpy :: cudaError_t
  ce_sync :: cudaError_t
  ce_error :: "cudaError_t \<Rightarrow> string"
  ce_clone :: nat

section \<open>Operations\<close>

definition cuda_available :: "cudaError_t \<times> int \<Rightarrow> bool" where
  "cuda_available e \<longleftrightarrow> fst e = cudaSuccess \<and> snd e > 0"

definition cuda_priority :: int where "cuda_priority = 100"

definition cuda_implementation :: "cuda_msg \<Rightarrow> exn + nat" where
  "cuda_implementation msg =
     (if backend_type (cm_data msg) \<noteq> ''cuda'' then
        Inl (RuntimeError (''CUDA plugin cannot handle buffer backend '' @ quoted (backend_type (cm_data msg))))
      else case cm_data msg of
          Cuda_Data b \<Rightarrow> Inr b
        | _ \<Rightarrow> Inl (RuntimeError ''Invalid CUDA buffer implementation''))"

definition device_of :: "nat \<Rightarrow> process \<Rightarrow> int" where
  "device_of b p = cb_device_id (cs_buffer (pr_cuda p) b)"

text \<open>\<open>stream\<close> and \<open>buffer_stream\<close>: the default stream is never passed on as a null handle.\<close>

definition raw_stream :: "conv_env \<Rightarrow> nat \<Rightarrow> int \<Rightarrow> nat" where
  "raw_stream e value device = (if value \<noteq> 0 then value else ce_current e device)"

definition buffer_stream :: "conv_env \<Rightarrow> nat \<Rightarrow> nat" where
  "buffer_stream e s = (if s \<noteq> 0 then s else ce_legacy e)"

definition check_cuda :: "conv_env \<Rightarrow> cudaError_t \<Rightarrow> exn + unit" where
  "check_cuda e r =
     (if r \<noteq> cudaSuccess then Inl (RuntimeError (''CUDA conversion plugin: '' @ ce_error e r)) else Inr ())"

definition make_cuda_tensor :: "dlpack_codes \<Rightarrow> u64 \<Rightarrow> cuda_msg \<Rightarrow> int \<Rightarrow> lease \<Rightarrow> exn + cuda_view" where
  "make_cuda_tensor k data msg device lease =
     (case normalized_strides (cm_meta msg) of
        Inl x \<Rightarrow> Inl x
      | Inr strides \<Rightarrow>
          (case scalar_type_of k (cm_meta msg) of
             Inl x \<Rightarrow> Inl x
           | Inr t \<Rightarrow> Inr \<lparr>cv_ptr = data + tm_byte_offset (cm_meta msg), cv_shape = tm_shape (cm_meta msg),
               cv_strides = strides, cv_type = t, cv_device = device, cv_lease = lease\<rparr>))"

fun end_lease :: "gpu_env \<Rightarrow> lease \<Rightarrow> process \<Rightarrow> process" where
  "end_lease e No_Lease p = p"
| "end_lease e (Read_Lease rh) p = on_cuda (destroy_read_handle e True rh) p"
| "end_lease e (Write_Lease wh) p = on_cuda (destroy_write_handle e True wh) p"

text \<open>\<open>allocate\<close>: the new data replace those of the message before the device is compared.\<close>

fun destroy_data :: "msg_data \<Rightarrow> process \<Rightarrow> process" where
  "destroy_data (Cuda_Data b) p = on_cuda (destroy_buffer b) p"
| "destroy_data _ p = p"

definition cuda_allocate ::
  "conv_env \<Rightarrow> u64 \<Rightarrow> device \<Rightarrow> cuda_msg \<Rightarrow> process \<Rightarrow> (exn + unit) \<times> cuda_msg \<times> process" where
  "cuda_allocate e n device msg p =
     (if dv_type device \<noteq> kCUDA then (Inl (RuntimeError ''CUDA plugin received a non-CUDA device''), msg, p)
      else case allocate_buffer (ce_alloc e) 1 n p of
          (Inl x, p1) \<Rightarrow> (Inl x, msg, p1)
        | (Inr b, p1) \<Rightarrow>
            (let msg1 = msg\<lparr>cm_data := Cuda_Data b\<rparr>; p2 = destroy_data (cm_data msg) p1
             in if n > 0 \<and> device_of b p2 \<noteq> ce_guard e device
                then (Inl (RuntimeError ''CUDA buffer pool cannot allocate on the requested device''), msg1, p2)
                else (Inr (), msg1, p2)))"

text \<open>A cloned view is copied on the stream, and the view and its lease end.\<close>

definition cuda_from_input ::
  "dlpack_codes \<Rightarrow> conv_env \<Rightarrow> cuda_msg \<Rightarrow> bool \<Rightarrow> nat \<Rightarrow> process \<Rightarrow> (exn + cuda_tensor) \<times> process" where
  "cuda_from_input k e msg cloned execution_stream p =
     (case cuda_implementation msg of
        Inl x \<Rightarrow> (Inl x, p)
      | Inr b \<Rightarrow>
          (let s = buffer_stream e (raw_stream e execution_stream (device_of b p))
           in case get_read (ce_gpu e) b s p of
                (Inl x, p1) \<Rightarrow> (Inl x, p1)
              | (Inr rh, p1) \<Rightarrow>
                  (case make_cuda_tensor k (rh_ptr rh) msg (device_of b p) (Read_Lease rh) of
                     Inl x \<Rightarrow> (Inl x, end_lease (ce_end e) (Read_Lease rh) p1)
                   | Inr v \<Rightarrow>
                       if cloned then
                         (Inr (Clone (v\<lparr>cv_lease := No_Lease\<rparr>)),
                          end_lease (ce_end e) (Read_Lease rh) (on_cuda (gpu [StreamWork s (Kernel (ce_clone e))]) p1))
                       else (Inr (View v), p1))))"

definition cuda_from_output ::
  "dlpack_codes \<Rightarrow> conv_env \<Rightarrow> cuda_msg \<Rightarrow> nat \<Rightarrow> process \<Rightarrow> (exn + cuda_view) \<times> process" where
  "cuda_from_output k e msg execution_stream p =
     (case cuda_implementation msg of
        Inl x \<Rightarrow> (Inl x, p)
      | Inr b \<Rightarrow>
          (let s = buffer_stream e (raw_stream e execution_stream (device_of b p))
           in case get_write (ce_gpu e) b s (set_stream b s p) of
                (Inl x, p1) \<Rightarrow> (Inl x, p1)
              | (Inr wh, p1) \<Rightarrow>
                  (case make_cuda_tensor k (wh_ptr wh) msg (device_of b p) (Write_Lease wh) of
                     Inl x \<Rightarrow> (Inl x, end_lease (ce_end e) (Write_Lease wh) p1)
                   | Inr v \<Rightarrow> (Inr v, p1))))"

definition contiguous :: "nat \<Rightarrow> source_tensor \<Rightarrow> process \<Rightarrow> process" where
  "contiguous s source p =
     (case so_gather source of None \<Rightarrow> p | Some g \<Rightarrow> on_cuda (gpu [StreamWork s (Kernel g)]) p)"

definition synchronize :: "conv_env \<Rightarrow> nat \<Rightarrow> process \<Rightarrow> (exn + unit) \<times> process" where
  "synchronize e s p =
     (case check_cuda e (ce_sync e) of
        Inl x \<Rightarrow> (Inl x, p)
      | Inr _ \<Rightarrow> (Inr (), on_cuda (gpu [StreamSynchronize s]) p))"

definition copy_to_host :: "conv_env \<Rightarrow> u64 \<Rightarrow> source_tensor \<Rightarrow> nat \<Rightarrow> process \<Rightarrow> (exn + unit) \<times> process" where
  "copy_to_host e host source execution_stream p =
     (if dv_type (so_device source) \<noteq> kCUDA
      then (Inl (RuntimeError ''CUDA plugin expected a CUDA source for a CPU destination''), p)
      else
        (let s = buffer_stream e (raw_stream e execution_stream (dv_index (so_device source)));
             p1 = contiguous s source p
         in case check_cuda e (ce_memcpy e) of
              Inl x \<Rightarrow> (Inl x, p1)
            | Inr _ \<Rightarrow>
                synchronize e s
                  (on_cuda (gpu [StreamWork s (Copy host (so_ptr source) (so_nbytes source) DeviceToHost)]) p1)))"

definition copy_to_device :: "conv_env \<Rightarrow> nat \<Rightarrow> source_tensor \<Rightarrow> nat \<Rightarrow> process \<Rightarrow> (exn + unit) \<times> process" where
  "copy_to_device e b source execution_stream p =
     (if dv_type (so_device source) \<noteq> kCPU \<and> dv_index (so_device source) \<noteq> device_of b p
      then (Inl (InvalidArgument ''CUDA copies require matching source and destination devices''), p)
      else
        (let s = buffer_stream e (raw_stream e execution_stream (device_of b p));
             p1 = contiguous s source p
         in case from_output_buffer (ce_alloc e) (ce_gpu e) 1 (Cuda_Impl b) s p1 of
              (Inl x, p2) \<Rightarrow> (Inl x, p2)
            | (Inr wh, p2) \<Rightarrow>
                (let kind = (if dv_type (so_device source) = kCPU then HostToDevice else DeviceToDevice);
                     (r, p3) = to_buffer (ce_memcpy e) (so_ptr source) (so_nbytes source) wh s kind p2;
                     (r', p4) = (case r of Inl x \<Rightarrow> (Inl x, p3) | Inr _ \<Rightarrow> synchronize e s p3)
                 in (r', end_lease (ce_end e) (Write_Lease wh) p4))))"

definition cuda_copy_to ::
  "conv_env \<Rightarrow> cuda_msg \<Rightarrow> source_tensor \<Rightarrow> nat \<Rightarrow> process \<Rightarrow> (exn + unit) \<times> process" where
  "cuda_copy_to e msg source execution_stream p =
     (case cm_data msg of
        Host_Data host \<Rightarrow> copy_to_host e host source execution_stream p
      | _ \<Rightarrow>
          (case cuda_implementation msg of
             Inl x \<Rightarrow> (Inl x, p)
           | Inr b \<Rightarrow> copy_to_device e b source execution_stream p))"

section \<open>Copies\<close>

lemma synchronize_result:
  "synchronize e s p = (if ce_sync e = cudaSuccess then (Inr (), on_cuda (gpu [StreamSynchronize s]) p)
     else (Inl (RuntimeError (''CUDA conversion plugin: '' @ ce_error e (ce_sync e))), p))"
  by (simp add: synchronize_def check_cuda_def)

lemma contiguous_fields [simp]:
  "pr_impl (contiguous s source p) = pr_impl p" "pr_next (contiguous s source p) = pr_next p"
  "cs_buffer (pr_cuda (contiguous s source p)) = cs_buffer (pr_cuda p)"
  "cs_handle_state (pr_cuda (contiguous s source p)) = cs_handle_state (pr_cuda p)"
  "cs_queue (pr_cuda (contiguous s source p)) = cs_queue (pr_cuda p)"
  "extends (pr_cuda p) (pr_cuda (contiguous s source p))"
  by (auto simp: contiguous_def split: option.splits)

text \<open>A copy to a CUDA message, once the devices match.\<close>

lemma copy_to_device_cases:
  assumes "copy_to_device e b source v p = (r, p')"
    and "dv_type (so_device source) = kCPU \<or> dv_index (so_device source) = device_of b p"
  defines "s \<equiv> buffer_stream e (raw_stream e v (device_of b p))"
    and "kind \<equiv> (if dv_type (so_device source) = kCPU then HostToDevice else DeviceToDevice)"
  obtains (empty) "r = Inl (CudaError ''from_output_buffer called on empty buffer'')" "bi_size (pr_impl p b) = 0"
      "p' = contiguous s source p"
    | (refused) x where "bi_size (pr_impl p b) \<noteq> 0" "r = Inl x"
      "get_write (ce_gpu e) b s (set_stream b s (contiguous s source p)) = (Inl x, p')"
    | (granted) wh p2 p3 r3 where "bi_size (pr_impl p b) \<noteq> 0"
      "get_write (ce_gpu e) b s (set_stream b s (contiguous s source p)) = (Inr wh, p2)"
      "to_buffer (ce_memcpy e) (so_ptr source) (so_nbytes source) wh s kind p2 = (r3, p3)"
      "r = (case r3 of Inl x \<Rightarrow> Inl x | Inr _ \<Rightarrow> fst (synchronize e s p3))"
      "p' = on_cuda (destroy_write_handle (ce_end e) True wh) (case r3 of Inl x \<Rightarrow> p3 | Inr _ \<Rightarrow> snd (synchronize e s p3))"
proof -
  let ?p1 = "contiguous s source p"
  obtain r2 p2 where f: "from_output_buffer (ce_alloc e) (ce_gpu e) 1 (Cuda_Impl b) s ?p1 = (r2, p2)"
    by (cases "from_output_buffer (ce_alloc e) (ce_gpu e) 1 (Cuda_Impl b) s ?p1")
  have f': "(r2, p2) = (if bi_size (pr_impl p b) = 0
      then (Inl (CudaError ''from_output_buffer called on empty buffer''), ?p1)
      else get_write (ce_gpu e) b s (set_stream b s ?p1))"
    using f by (cases "bi_size (pr_impl p b) = 0") (simp_all add: from_output_buffer_def)
  have d: "\<not> (dv_type (so_device source) \<noteq> kCPU \<and> dv_index (so_device source) \<noteq> device_of b p)"
    using assms(2) by blast
  note c = assms(1) [unfolded copy_to_device_def if_not_P [OF d] Let_def, folded s_def kind_def, unfolded f prod.case]
  show thesis
  proof (cases r2)
    case (Inl x)
    then have "r = Inl x" "p' = p2" using c by simp_all
    then show ?thesis using empty refused [of x] f' Inl by (cases "bi_size (pr_impl p b) = 0") auto
  next
    case (Inr wh)
    then have g: "bi_size (pr_impl p b) \<noteq> 0" "get_write (ce_gpu e) b s (set_stream b s ?p1) = (Inr wh, p2)"
      using f' by (auto split: if_splits)
    obtain r3 p3 where t: "to_buffer (ce_memcpy e) (so_ptr source) (so_nbytes source) wh s kind p2 = (r3, p3)"
      by (cases "to_buffer (ce_memcpy e) (so_ptr source) (so_nbytes source) wh s kind p2")
    show ?thesis
      using granted [OF g t] c by (cases r3) (simp_all add: Inr t split_beta)
  qed
qed

lemma copy_to_device_done:
  assumes "copy_to_device e b source v p = (Inr (), p')"
    and "so_nbytes source \<noteq> 0" and "so_ptr source \<noteq> 0" and "cb_ptr (cs_buffer (pr_cuda p) b) \<noteq> 0"
  defines "s \<equiv> buffer_stream e (raw_stream e v (device_of b p))"
    and "kind \<equiv> (if dv_type (so_device source) = kCPU then HostToDevice else DeviceToDevice)"
  shows "\<exists>i. cs_trace (pr_cuda p') ! i = StreamWork s (Copy (cb_ptr (cs_buffer (pr_cuda p) b)) (so_ptr source) (so_nbytes source) kind) \<and>
      i < length (cs_trace (pr_cuda p')) \<and> i \<in> gv_done (view (pr_cuda p')) \<and>
      gv_before (view (pr_cuda (contiguous s source p))) s \<subseteq> gv_done (view (pr_cuda p'))"
    and "cb_ptr (cs_buffer (pr_cuda p') b) = cb_ptr (cs_buffer (pr_cuda p) b)"
    and "write_phase (cb_handle_state (cs_buffer (pr_cuda p') b)) (cs_handle_state (pr_cuda p')) = Finalized"
proof -
  have "dv_type (so_device source) = kCPU \<or> dv_index (so_device source) = device_of b p"
    by (rule ccontr) (use assms(1) in \<open>simp add: copy_to_device_def\<close>)
  from assms(1) this
  have "(\<exists>i. cs_trace (pr_cuda p') ! i = StreamWork s (Copy (cb_ptr (cs_buffer (pr_cuda p) b)) (so_ptr source) (so_nbytes source) kind) \<and>
      i < length (cs_trace (pr_cuda p')) \<and> i \<in> gv_done (view (pr_cuda p')) \<and>
      gv_before (view (pr_cuda (contiguous s source p))) s \<subseteq> gv_done (view (pr_cuda p'))) \<and>
      cb_ptr (cs_buffer (pr_cuda p') b) = cb_ptr (cs_buffer (pr_cuda p) b) \<and>
      write_phase (cb_handle_state (cs_buffer (pr_cuda p') b)) (cs_handle_state (pr_cuda p')) = Finalized"
  proof (cases rule: copy_to_device_cases)
    case (granted wh p2 p3 r3)
    note g = granted [folded s_def kind_def]
    let ?q = "set_stream b s (contiguous s source p)"
    obtain st where w: "get_write_handle (ce_gpu e) b s (pr_cuda ?q) = (Inr wh, st)" "p2 = ?q\<lparr>pr_cuda := st\<rparr>"
      using g(2) get_write_alt by blast
    have q: "pr_cuda ?q = pr_cuda (contiguous s source p)" by (simp add: set_stream_def)
    note wc = get_write_handle_cases(2) [OF w(1) refl]
    have ptr: "wh_ptr wh = cb_ptr (cs_buffer (pr_cuda p) b)" "cb_ptr (cs_buffer st b) = cb_ptr (cs_buffer (pr_cuda p) b)"
      using wc by (auto simp: q reap_completed_read_events_def Let_def)
    have x: "r3 = Inr ()" using g(4) by (cases r3) simp_all
    have ok: "ce_sync e = cudaSuccess" using g(4) x by (simp add: synchronize_result split: if_splits)
    let ?c = "StreamWork s (Copy (wh_ptr wh) (so_ptr source) (so_nbytes source) kind)"
    have t: "p3 = p2\<lparr>pr_cuda := gpu [?c] st\<rparr>"
      using g(3) x assms(2-4) ptr w(2) by (simp add: to_buffer_def memcpy_async_def split: if_splits)
    let ?st4 = "gpu [?c, StreamSynchronize s] st"
    have p': "pr_cuda p' = destroy_write_handle (ce_end e) True wh ?st4"
      using g(5) x ok t by (simp add: synchronize_result gpu_def)
    note f = write_scope_finalized [OF w(1), of ?st4 "ce_end e", folded p']
    have e4: "extends ?st4 (pr_cuda p')" using f(3) by simp
    let ?i = "length (cs_trace st)"
    have tr: "cs_trace ?st4 = cs_trace st @ [?c, StreamSynchronize s]" by simp
    have "cs_trace (pr_cuda p') ! ?i = ?c" using extends_nth [OF e4, of ?i] tr by simp
    moreover have "?i < length (cs_trace (pr_cuda p'))" using e4 tr by (auto simp: extends_def)
    moreover have "insert ?i (gv_before (view st) s) \<subseteq> gv_done (view ?st4)"
      unfolding tr gpu_run_append by auto
    moreover have "gv_before (view (pr_cuda (contiguous s source p))) s = gv_before (view st) s"
    proof -
      have "cs_trace st = cs_trace (reap_completed_read_events (ce_gpu e) b (pr_cuda ?q))" using wc by auto
      then show ?thesis using reap_view(1) [of "ce_gpu e" b "pr_cuda ?q"] q by simp
    qed
    ultimately have "cs_trace (pr_cuda p') ! ?i = StreamWork s (Copy (cb_ptr (cs_buffer (pr_cuda p) b)) (so_ptr source) (so_nbytes source) kind) \<and>
        ?i < length (cs_trace (pr_cuda p')) \<and> ?i \<in> gv_done (view (pr_cuda p')) \<and>
        gv_before (view (pr_cuda (contiguous s source p))) s \<subseteq> gv_done (view (pr_cuda p'))"
      using gv_done_mono [OF e4] unfolding ptr(1) by blast
    moreover have "cb_ptr (cs_buffer (pr_cuda p') b) = cb_ptr (cs_buffer (pr_cuda p) b)"
      using f(2) ptr(2) by simp
    moreover have "write_phase (cb_handle_state (cs_buffer (pr_cuda p') b)) (cs_handle_state (pr_cuda p')) = Finalized"
      by (rule f(1)) simp_all
    ultimately show ?thesis by blast
  next
    case empty
    then show ?thesis by simp
  next
    case (refused x)
    then show ?thesis by simp
  qed
  note r = this
  show "\<exists>i. cs_trace (pr_cuda p') ! i = StreamWork s (Copy (cb_ptr (cs_buffer (pr_cuda p) b)) (so_ptr source) (so_nbytes source) kind) \<and>
      i < length (cs_trace (pr_cuda p')) \<and> i \<in> gv_done (view (pr_cuda p')) \<and>
      gv_before (view (pr_cuda (contiguous s source p))) s \<subseteq> gv_done (view (pr_cuda p'))"
    by (rule conjunct1 [OF r])
  show "cb_ptr (cs_buffer (pr_cuda p') b) = cb_ptr (cs_buffer (pr_cuda p) b)"
    by (rule conjunct1 [OF conjunct2 [OF r]])
  show "write_phase (cb_handle_state (cs_buffer (pr_cuda p') b)) (cs_handle_state (pr_cuda p')) = Finalized"
    by (rule conjunct2 [OF conjunct2 [OF r]])
qed

section \<open>A copy and the views after it\<close>

lemma cuda_from_input_view:
  assumes "cuda_from_input k e msg False v p = (Inr t, p')" and "cm_data msg = Cuda_Data b"
  defines "s \<equiv> buffer_stream e (raw_stream e v (device_of b p))"
  shows "\<exists>w. t = View w \<and> cv_ptr w = cb_ptr (cs_buffer (pr_cuda p) b) + tm_byte_offset (cm_meta msg) \<and>
      cv_lease w = Read_Lease \<lparr>rh_ptr = cb_ptr (cs_buffer (pr_cuda p) b), rh_events = Some b, rh_stream = s, rh_promoted = None\<rparr> \<and>
      (\<exists>st. p' = p\<lparr>pr_cuda := st\<rparr> \<and> get_read_handle (ce_gpu e) b s (pr_cuda p) =
         (Inr \<lparr>rh_ptr = cb_ptr (cs_buffer (pr_cuda p) b), rh_events = Some b, rh_stream = s, rh_promoted = None\<rparr>, st))"
proof -
  obtain r st where g: "get_read_handle (ce_gpu e) b s (pr_cuda p) = (r, st)"
    by (cases "get_read_handle (ce_gpu e) b s (pr_cuda p)")
  have i: "cuda_implementation msg = Inr b" using assms(2) by (simp add: cuda_implementation_def)
  have gr: "get_read (ce_gpu e) b s p = (r, p\<lparr>pr_cuda := st\<rparr>)" using g by (simp add: get_read_def)
  note c = assms(1) [unfolded cuda_from_input_def i sum.case Let_def, folded s_def, unfolded gr prod.case]
  show ?thesis
  proof (cases r)
    case (Inl x)
    with c show ?thesis by simp
  next
    case (Inr rh)
    have rh: "rh = \<lparr>rh_ptr = cb_ptr (cs_buffer (pr_cuda p) b), rh_events = Some b, rh_stream = s, rh_promoted = None\<rparr>"
      using get_read_handle_buffer(4) [OF g Inr] .
    obtain w where w: "make_cuda_tensor k (rh_ptr rh) msg (device_of b p) (Read_Lease rh) = Inr w" "t = View w" "p' = p\<lparr>pr_cuda := st\<rparr>"
      using c Inr by (cases "make_cuda_tensor k (rh_ptr rh) msg (device_of b p) (Read_Lease rh)") simp_all
    have "cv_ptr w = rh_ptr rh + tm_byte_offset (cm_meta msg) \<and> cv_lease w = Read_Lease rh"
      using w(1) by (auto simp: make_cuda_tensor_def split: sum.splits)
    then show ?thesis using w(2,3) g rh Inr by auto
  qed
qed

text \<open>
  C26. A copied tensor is there: when \<open>copy_to\<close> has returned without an error, the copy into the message's
  storage and everything that was on its stream before are done, and a view made of the message afterwards, on any stream,
  starts at the address copied to plus the message's offset.
\<close>

theorem cuda_copy_then_view:
  assumes "cm_data msg = Cuda_Data b" and "cuda_copy_to e msg source v p = (Inr (), p')"
    and "so_nbytes source \<noteq> 0" and "so_ptr source \<noteq> 0" and "cb_ptr (cs_buffer (pr_cuda p) b) \<noteq> 0"
    and "cm_data msg' = Cuda_Data b" and "cuda_from_input k e' msg' False v' p' = (Inr t, p'')"
  defines "s \<equiv> buffer_stream e (raw_stream e v (device_of b p))"
  shows "\<exists>w i ptr. t = View w \<and> cv_ptr w = ptr + tm_byte_offset (cm_meta msg') \<and>
    cs_trace (pr_cuda p'') ! i = StreamWork s (Copy ptr (so_ptr source) (so_nbytes source)
      (if dv_type (so_device source) = kCPU then HostToDevice else DeviceToDevice)) \<and>
    i \<in> gv_done (view (pr_cuda p')) \<and>
    gv_before (view (pr_cuda (contiguous s source p))) s \<subseteq> gv_done (view (pr_cuda p'))"
proof -
  have c: "copy_to_device e b source v p = (Inr (), p')"
    using assms(1,2) by (simp add: cuda_copy_to_def cuda_implementation_def)
  obtain i where i: "cs_trace (pr_cuda p') ! i = StreamWork s (Copy (cb_ptr (cs_buffer (pr_cuda p) b)) (so_ptr source) (so_nbytes source)
      (if dv_type (so_device source) = kCPU then HostToDevice else DeviceToDevice))"
    "i < length (cs_trace (pr_cuda p'))" "i \<in> gv_done (view (pr_cuda p'))"
    "gv_before (view (pr_cuda (contiguous s source p))) s \<subseteq> gv_done (view (pr_cuda p'))"
    using copy_to_device_done(1) [OF c assms(3-5)] unfolding s_def by blast
  obtain w st r where w: "t = View w" "cv_ptr w = cb_ptr (cs_buffer (pr_cuda p') b) + tm_byte_offset (cm_meta msg')"
    "p'' = p'\<lparr>pr_cuda := st\<rparr>" "get_read_handle (ce_gpu e') b (buffer_stream e' (raw_stream e' v' (device_of b p'))) (pr_cuda p') = (r, st)"
    using cuda_from_input_view [OF assms(7,6)] by blast
  have "extends (pr_cuda p') (pr_cuda p'')" using extends_get_read [OF w(4)] w(3) by simp
  from extends_nth [OF this i(2)] i(1) have tr: "cs_trace (pr_cuda p'') ! i = StreamWork s (Copy (cb_ptr (cs_buffer (pr_cuda p) b))
      (so_ptr source) (so_nbytes source) (if dv_type (so_device source) = kCPU then HostToDevice else DeviceToDevice))"
    by simp
  have "cv_ptr w = cb_ptr (cs_buffer (pr_cuda p) b) + tm_byte_offset (cm_meta msg')"
    using w(2) copy_to_device_done(2) [OF c assms(3-5)] by simp
  with w(1) tr i(3,4) show ?thesis by blast
qed

section \<open>One write only\<close>

lemma copy_refused:
  assumes "write_phase (cb_handle_state (cs_buffer (pr_cuda p) b)) (cs_handle_state (pr_cuda p)) = Finalized"
    and "bi_size (pr_impl p b) \<noteq> 0" and "dv_type (so_device source) = kCPU"
  shows "fst (copy_to_device e b source v p) =
    Inl (CudaError ''CudaBuffer: write already finalized; cannot acquire write handle'')"
proof -
  obtain r p' where c: "copy_to_device e b source v p = (r, p')" by (cases "copy_to_device e b source v p")
  let ?s = "buffer_stream e (raw_stream e v (device_of b p))"
  let ?q = "set_stream b ?s (contiguous ?s source p)"
  have "write_phase (cb_handle_state (cs_buffer (pr_cuda ?q) b)) (cs_handle_state (pr_cuda ?q)) = Finalized"
    using assms(1) by (simp add: set_stream_def)
  from finalized_refuses [OF this, of "ce_gpu e" ?s]
  have w: "fst (get_write (ce_gpu e) b ?s ?q) = Inl (CudaError ''CudaBuffer: write already finalized; cannot acquire write handle'')"
    by (simp add: get_write_def split_beta)
  from c have "dv_type (so_device source) = kCPU \<or> dv_index (so_device source) = device_of b p" using assms(3) by simp
  with c show ?thesis
  proof (cases rule: copy_to_device_cases)
    case (refused x)
    then show ?thesis using w c by simp
  next
    case (granted wh p2 p3 r3)
    then show ?thesis using w by simp
  qed (use assms(2) in simp)
qed

text \<open>
  A failed copy uses up the message: when the \<open>cudaMemcpyAsync\<close> of a copy to a CUDA message fails, the write handle that was
  taken for it ends as finalized, and every later copy of a CPU tensor to the message is refused as a second write.
\<close>

theorem failed_copy_not_retriable:
  assumes "cm_data msg = Cuda_Data b" and "cuda_copy_to e msg source v p = (Inl (CudaRuntimeError ''cudaMemcpyAsync'' c), p')"
    and "cm_data msg' = Cuda_Data b" and "dv_type (so_device source') = kCPU"
  shows "fst (cuda_copy_to e' msg' source' v' p') =
    Inl (CudaError ''CudaBuffer: write already finalized; cannot acquire write handle'')"
proof -
  have c: "copy_to_device e b source v p = (Inl (CudaRuntimeError ''cudaMemcpyAsync'' c), p')"
    using assms(1,2) by (simp add: cuda_copy_to_def cuda_implementation_def)
  have d: "dv_type (so_device source) = kCPU \<or> dv_index (so_device source) = device_of b p"
    by (rule ccontr) (use c in \<open>simp add: copy_to_device_def\<close>)
  let ?s = "buffer_stream e (raw_stream e v (device_of b p))"
  from c d have "write_phase (cb_handle_state (cs_buffer (pr_cuda p') b)) (cs_handle_state (pr_cuda p')) = Finalized \<and>
      bi_size (pr_impl p' b) \<noteq> 0"
  proof (cases rule: copy_to_device_cases)
    case (refused x)
    then have "fst (get_write_handle (ce_gpu e) b ?s (pr_cuda (set_stream b ?s (contiguous ?s source p)))) =
        Inl (CudaRuntimeError ''cudaMemcpyAsync'' c)"
      by (auto simp: get_write_alt)
    then show ?thesis by (auto simp: get_write_handle_def Let_def split: if_splits prod.splits)
  next
    case (granted wh p2 p3 r3)
    let ?q = "set_stream b ?s (contiguous ?s source p)"
    obtain st where w: "get_write_handle (ce_gpu e) b ?s (pr_cuda ?q) = (Inr wh, st)" "p2 = ?q\<lparr>pr_cuda := st\<rparr>"
      using granted(2) get_write_alt by blast
    have r3: "r3 = Inl (CudaRuntimeError ''cudaMemcpyAsync'' c)"
      using granted(4) by (cases r3) (simp_all add: synchronize_result split: if_splits)
    then have "p3 = p2" using granted(3) by (auto simp: to_buffer_def memcpy_async_def split: if_splits)
    then have p': "pr_cuda p' = destroy_write_handle (ce_end e) True wh st" "pr_impl p' = pr_impl ?q"
      using granted(5) r3 w(2) by simp_all
    have "bi_size (pr_impl p' b) = bi_size (pr_impl p b)" unfolding p'(2) by (simp add: set_stream_def upd_impl_def)
    moreover have "write_phase (cb_handle_state (cs_buffer (pr_cuda p') b)) (cs_handle_state (pr_cuda p')) = Finalized"
      unfolding p'(1) by (rule write_scope_finalized(1) [OF w(1) refl refl])
    ultimately show ?thesis using granted(1) by simp
  qed simp
  from copy_refused [OF conjunct1 [OF this] conjunct2 [OF this] assms(4)] assms(3) show ?thesis
    by (simp add: cuda_copy_to_def cuda_implementation_def)
qed

section \<open>Reads through a view are tracked\<close>

text \<open>
  C28. Work on a view is tracked, on the default stream too: the lease of a view is on a stream other than the null one, what the
  buffer's write event captured precedes whatever that stream gets from then on, and when the lease ends an event is
  added to the buffer's read events that captures the work done through the view.
\<close>

theorem view_work_tracked:
  assumes "cm_data msg = Cuda_Data b" and "ce_legacy e \<noteq> 0" and "cuda_from_input k e msg False v p = (Inr t, p1)"
    and "cb_write_event (cs_buffer (pr_cuda p) b) \<noteq> 0"
    and "\<forall>s. ge_stream e' s = cudaSuccess" and "ge_create e' = (cudaSuccess, ev)" and "ge_record e' = cudaSuccess"
  shows "\<exists>w rh. t = View w \<and> cv_lease w = Read_Lease rh \<and> rh_stream rh \<noteq> 0 \<and>
    gv_event (view (pr_cuda p1)) (cb_write_event (cs_buffer (pr_cuda p) b)) \<subseteq> gv_before (view (pr_cuda p1)) (rh_stream rh) \<and>
    (\<forall>n. let p2 = on_cuda (gpu [StreamWork (rh_stream rh) (Kernel n)]) p1; p3 = end_lease e' (cv_lease w) p2
         in ev \<in> set (cb_read_events (cs_buffer (pr_cuda p3) b)) \<and>
            length (cs_trace (pr_cuda p1)) \<in> gv_event (view (pr_cuda p3)) ev)"
proof -
  let ?s = "buffer_stream e (raw_stream e v (device_of b p))"
  let ?rh = "\<lparr>rh_ptr = cb_ptr (cs_buffer (pr_cuda p) b), rh_events = Some b, rh_stream = ?s, rh_promoted = None\<rparr>"
  have s: "?s \<noteq> 0" using assms(2) by (simp add: buffer_stream_def)
  obtain w st where w: "t = View w" "cv_lease w = Read_Lease ?rh" "p1 = p\<lparr>pr_cuda := st\<rparr>"
    "get_read_handle (ce_gpu e) b ?s (pr_cuda p) = (Inr ?rh, st)"
    using cuda_from_input_view [OF assms(3,1)] by blast
  let ?we = "cb_write_event (cs_buffer (pr_cuda p) b)"
  let ?x = "finalize_write_handle (ce_gpu e) b (reap_completed_read_events (ce_gpu e) b (pr_cuda p))"
  have "cb_write_event (cs_buffer ?x b) = ?we" by (simp add: finalize_fields reap_completed_read_events_def Let_def)
  then have "st = gpu [StreamWaitEvent ?s ?we] ?x"
    using w(4) s assms(4) by (simp add: get_read_handle_alt make_read_handle_def Let_def split: if_splits)
  then have waits: "gv_event (view st) ?we \<subseteq> gv_before (view st) ?s" by (simp add: gpu_run_append)
  have "let p2 = on_cuda (gpu [StreamWork ?s (Kernel n)]) p1; p3 = end_lease e' (Read_Lease ?rh) p2
      in ev \<in> set (cb_read_events (cs_buffer (pr_cuda p3) b)) \<and>
         length (cs_trace (pr_cuda p1)) \<in> gv_event (view (pr_cuda p3)) ev" for n
    using s assms(5-7) w(3)
    by (simp add: Let_def destroy_read_handle_def drop_promoted_def read_release_def cuda_is_stream_usable_def gpu_run_append)
  then show ?thesis using w(1-3) s waits by (intro exI [of _ w] exI [of _ ?rh]) simp
qed

section \<open>Messages that were checked\<close>

lemma validated_tensor:
  assumes "validate_view k es (cm_meta msg) = Inr ()"
  shows "\<exists>w. make_cuda_tensor k data msg device l = Inr w"
  using assms by (auto simp: validate_view_def make_cuda_tensor_def Let_def split: sum.splits)

text \<open>
  After the check of \<open>validate_view\<close>, \<open>from_input\<close> and \<open>from_output\<close> fail on a CUDA message only where the buffer refuses the
  handle, with its error and state: no handle is taken and lost to a message that cannot be viewed.
\<close>

theorem validated_message_view:
  fixes e :: conv_env and v b :: nat and p :: process
  assumes "validate_view k es (cm_meta msg) = Inr ()" and "cm_data msg = Cuda_Data b"
  defines "s \<equiv> buffer_stream e (raw_stream e v (device_of b p))"
  shows "(\<forall>x p'. cuda_from_output k e msg v p = (Inl x, p') \<longrightarrow> get_write (ce_gpu e) b s (set_stream b s p) = (Inl x, p')) \<and>
    (\<forall>x p'. cuda_from_input k e msg cloned v p = (Inl x, p') \<longrightarrow> get_read (ce_gpu e) b s p = (Inl x, p'))"
proof -
  have i: "cuda_implementation msg = Inr b" using assms(2) by (simp add: cuda_implementation_def)
  have o: "get_write (ce_gpu e) b s (set_stream b s p) = (Inl x, p')" if "cuda_from_output k e msg v p = (Inl x, p')" for x p'
  proof -
    obtain r p1 where g: "get_write (ce_gpu e) b s (set_stream b s p) = (r, p1)"
      by (cases "get_write (ce_gpu e) b s (set_stream b s p)")
    note c = that [unfolded cuda_from_output_def i sum.case Let_def, folded s_def, unfolded g prod.case]
    show ?thesis
    proof (cases r)
      case (Inr wh)
      obtain w where "make_cuda_tensor k (wh_ptr wh) msg (device_of b p) (Write_Lease wh) = Inr w"
        using validated_tensor [OF assms(1)] by blast
      with c Inr show ?thesis by simp
    qed (use c g in simp)
  qed
  have "get_read (ce_gpu e) b s p = (Inl x, p')" if "cuda_from_input k e msg cloned v p = (Inl x, p')" for x p'
  proof -
    obtain r p1 where g: "get_read (ce_gpu e) b s p = (r, p1)"
      by (cases "get_read (ce_gpu e) b s p")
    note c = that [unfolded cuda_from_input_def i sum.case Let_def, folded s_def, unfolded g prod.case]
    show ?thesis
    proof (cases r)
      case (Inr rh)
      obtain w where "make_cuda_tensor k (rh_ptr rh) msg (device_of b p) (Read_Lease rh) = Inr w"
        using validated_tensor [OF assms(1)] by blast
      with c Inr show ?thesis by (simp split: if_splits)
    qed (use c g in simp)
  qed
  with o show ?thesis by blast
qed

section \<open>Allocation\<close>

lemma assign_buffer_self: "cs_buffer (assign_buffer b new st) b = new"
  by (simp add: assign_buffer_def)

lemma allocate_buffer_result:
  assumes "allocate_buffer e 1 n p = (Inr b, p')"
  shows "bi_size (pr_impl p' b) = n" and "cb_size (cs_buffer (pr_cuda p') b) = n" and "b = pr_next p"
proof -
  obtain p1 where f: "fresh_impl n p = (b, p1)" "b = pr_next p"
    using assms by (auto simp: allocate_buffer_def fresh_impl_def Let_def split: if_splits prod.splits sum.splits)
  have i: "bi_size (pr_impl p1 b) = n" "cs_buffer (pr_cuda p1) b = empty_buffer"
    using f by (auto simp: fresh_impl_def upd_impl_def on_cuda_def)
  have "bi_size (pr_impl p' b) = n \<and> cb_size (cs_buffer (pr_cuda p') b) = n"
  proof (cases "n > 0")
    case True
    then have a: "allocate_buffer_internal e 1 b n p1 = (Inr (), p')"
      using assms f by (cases "allocate_buffer_internal e 1 b n p1"; cases "fst (allocate_buffer_internal e 1 b n p1)")
        (auto simp: allocate_buffer_def)
    from a show ?thesis
    proof (cases rule: allocate_buffer_internal_cases)
      case (made j m pool pool0 m0 cs)
      then show ?thesis
        using i by (simp add: Let_def assign_buffer_self make_buffer_def set_write_event_def empty_buffer_def)
    qed simp
  next
    case False
    then have "p' = p1" "n = 0" using assms f by (auto simp: allocate_buffer_def word_gt_0)
    then show ?thesis using i by (simp add: empty_buffer_def)
  qed
  then show "bi_size (pr_impl p' b) = n" and "cb_size (cs_buffer (pr_cuda p') b) = n" and "b = pr_next p"
    using f(2) by simp_all
qed

text \<open>
  \<open>allocate\<close> with a CUDA device, when the buffer can be allocated: the message gets a buffer of the size asked for and its old
  buffer is destroyed, both when it succeeds and when it throws because the pool is on another device than the one asked for,
  which it does exactly then.
\<close>

theorem cuda_allocate_outcome:
  assumes "dv_type dev = kCUDA" and "allocate_buffer (ce_alloc e) 1 n p = (Inr b, p1)"
    and "cm_data msg = Cuda_Data c" and "c < pr_next p"
  shows "\<exists>r p'. cuda_allocate e n dev msg p = (r, msg\<lparr>cm_data := Cuda_Data b\<rparr>, p') \<and>
    (r = Inr () \<longleftrightarrow> n = 0 \<or> device_of b p1 = ce_guard e dev) \<and>
    cs_buffer (pr_cuda p') c = empty_buffer \<and> bi_size (pr_impl p' b) = n \<and> cb_size (cs_buffer (pr_cuda p') b) = n"
proof -
  note a = allocate_buffer_result [OF assms(2)]
  have ne: "b \<noteq> c" using a(3) assms(4) by simp
  let ?p = "destroy_data (Cuda_Data c) p1"
  have d: "device_of b ?p = device_of b p1" "cs_buffer (pr_cuda ?p) c = empty_buffer"
    "bi_size (pr_impl ?p b) = n" "cb_size (cs_buffer (pr_cuda ?p) b) = n"
    using a(1,2) ne by (simp_all add: device_of_def destroy_buffer_def)
  have "cuda_allocate e n dev msg p =
      (if n > 0 \<and> device_of b p1 \<noteq> ce_guard e dev
       then Inl (RuntimeError ''CUDA buffer pool cannot allocate on the requested device'') else Inr (),
       msg\<lparr>cm_data := Cuda_Data b\<rparr>, ?p)"
    using assms(1-3) d(1) by (simp add: cuda_allocate_def Let_def del: destroy_data.simps)
  then show ?thesis using d(2-4) by (auto simp: word_gt_0)
qed

section \<open>Messages of a process\<close>

text \<open>
  A process with messages and the leases of its tensors. Messages come with data of other backends, get CUDA data by
  \<open>allocate\<close>, are read, written and copied to on any streams, and end, which leaves their slot empty. The
  data of a message end or are replaced only when no lease is on them, as the interface demands.
\<close>

record conv_world =
  cw_process :: process
  cw_msgs :: "cuda_msg list"
  cw_leases :: "lease list"

fun lease_buffer :: "lease \<Rightarrow> nat option" where
  "lease_buffer No_Lease = None"
| "lease_buffer (Read_Lease rh) = rh_events rh"
| "lease_buffer (Write_Lease wh) = wh_event wh"

definition unleased :: "nat \<Rightarrow> conv_world \<Rightarrow> bool" where
  "unleased i w \<longleftrightarrow> (\<forall>b. cm_data (cw_msgs w ! i) = Cuda_Data b \<longrightarrow> (\<forall>l \<in> set (cw_leases w). lease_buffer l \<noteq> Some b))"

inductive conv_step :: "conv_world \<Rightarrow> conv_world \<Rightarrow> bool" where
  message: "\<forall>b. cm_data msg \<noteq> Cuda_Data b \<Longrightarrow> conv_step w (w\<lparr>cw_msgs := cw_msgs w @ [msg]\<rparr>)"
| alloc: "i < length (cw_msgs w) \<Longrightarrow> unleased i w \<Longrightarrow>
    cuda_allocate e n dev (cw_msgs w ! i) (cw_process w) = (r, msg', p') \<Longrightarrow>
    conv_step w (w\<lparr>cw_msgs := (cw_msgs w)[i := msg'], cw_process := p'\<rparr>)"
| view_input: "i < length (cw_msgs w) \<Longrightarrow> cuda_from_input k e (cw_msgs w ! i) cloned v (cw_process w) = (t, p') \<Longrightarrow>
    conv_step w (w\<lparr>cw_process := p',
      cw_leases := (case t of Inr (View x) \<Rightarrow> [cv_lease x] | _ \<Rightarrow> []) @ cw_leases w\<rparr>)"
| view_output: "i < length (cw_msgs w) \<Longrightarrow> cuda_from_output k e (cw_msgs w ! i) v (cw_process w) = (u, p') \<Longrightarrow>
    conv_step w (w\<lparr>cw_process := p', cw_leases := (case u of Inr x \<Rightarrow> [cv_lease x] | _ \<Rightarrow> []) @ cw_leases w\<rparr>)"
| copy: "i < length (cw_msgs w) \<Longrightarrow> cuda_copy_to e (cw_msgs w ! i) source v (cw_process w) = (r, p') \<Longrightarrow>
    conv_step w (w\<lparr>cw_process := p'\<rparr>)"
| finish: "l \<in> set (cw_leases w) \<Longrightarrow>
    conv_step w (w\<lparr>cw_process := end_lease ge l (cw_process w), cw_leases := remove1 l (cw_leases w)\<rparr>)"
| drop: "i < length (cw_msgs w) \<Longrightarrow> unleased i w \<Longrightarrow>
    conv_step w (w\<lparr>cw_process := destroy_data (cm_data (cw_msgs w ! i)) (cw_process w),
      cw_msgs := (cw_msgs w)[i := (cw_msgs w ! i)\<lparr>cm_data := Other_Data []\<rparr>]\<rparr>)"
| turn: "conv_step w (w\<lparr>cw_process := on_cuda (recycle ge) (cw_process w)\<rparr>)"

inductive conv_reachable :: "conv_world \<Rightarrow> bool" where
  start: "process_start p \<Longrightarrow> conv_reachable \<lparr>cw_process = p, cw_msgs = [], cw_leases = []\<rparr>"
| step: "conv_reachable w \<Longrightarrow> conv_step w w' \<Longrightarrow> conv_reachable w'"

fun lease_ok :: "lease \<Rightarrow> bool" where
  "lease_ok No_Lease = True"
| "lease_ok (Read_Lease rh) = (rh_promoted rh = None)"
| "lease_ok (Write_Lease wh) = (wh_promoted wh = None)"

fun cuda_data :: "msg_data \<Rightarrow> nat option" where
  "cuda_data (Cuda_Data b) = Some b"
| "cuda_data _ = None"

definition data_at :: "cuda_msg list \<Rightarrow> nat \<Rightarrow> nat option" where
  "data_at msgs i = (if i < length msgs then cuda_data (cm_data (msgs ! i)) else None)"

definition data_inv :: "(nat \<Rightarrow> nat option) \<Rightarrow> nat \<Rightarrow> bool" where
  "data_inv m n \<longleftrightarrow> (\<forall>i b. m i = Some b \<longrightarrow> b < n \<and> (\<forall>j. m j = Some b \<longrightarrow> j = i))"

definition conv_inv :: "conv_world \<Rightarrow> bool" where
  "conv_inv w \<longleftrightarrow> process_inv (cw_process w) \<and> data_inv (data_at (cw_msgs w)) (pr_next (cw_process w)) \<and>
     (\<forall>l \<in> set (cw_leases w). lease_ok l)"

lemma cuda_data_Some [simp]: "cuda_data d = Some b \<longleftrightarrow> d = Cuda_Data b"
  by (cases d) simp_all

lemma data_at_simps:
  "data_at (msgs @ [msg]) = (data_at msgs)(length msgs := cuda_data (cm_data msg))"
  "i < length msgs \<Longrightarrow> data_at (msgs[i := msg]) = (data_at msgs)(i := cuda_data (cm_data msg))"
  by (auto simp: data_at_def fun_eq_iff nth_append less_Suc_eq)

lemma data_inv_mono: "data_inv m n \<Longrightarrow> n \<le> k \<Longrightarrow> data_inv m k"
  unfolding data_inv_def by (meson order_less_le_trans)

lemma data_inv_clear: "data_inv m n \<Longrightarrow> data_inv (m(i := None)) n"
  by (auto simp: data_inv_def)

lemma data_inv_new: "data_inv m n \<Longrightarrow> data_inv (m(i \<mapsto> n)) (n + 1)"
  unfolding data_inv_def by (auto simp: less_Suc_eq)

lemma end_lease_inv:
  "process_inv p \<Longrightarrow> lease_ok l \<Longrightarrow> process_inv (end_lease e l p) \<and> pr_next (end_lease e l p) = pr_next p"
  by (cases l) (simp_all add: end_handles_inv)

lemma contiguous_inv: "process_inv p \<Longrightarrow> process_inv (contiguous s source p)"
  by (auto simp: contiguous_def keeps_on_cuda same_storage_calls split: option.splits)

lemma destroy_data_inv:
  "process_inv p \<Longrightarrow> \<forall>b. d = Cuda_Data b \<longrightarrow> b < pr_next p \<Longrightarrow>
     process_inv (destroy_data d p) \<and> pr_next (destroy_data d p) = pr_next p"
  by (cases d) (simp_all add: keeps_destroy)

lemma work_inv: "process_inv p \<Longrightarrow> process_inv (on_cuda (gpu cs) p)"
  by (simp add: keeps_on_cuda same_storage_calls)

lemma synchronize_inv: "process_inv p \<Longrightarrow> process_inv (snd (synchronize e s p)) \<and> pr_next (snd (synchronize e s p)) = pr_next p"
  by (simp add: synchronize_result work_inv)

lemma get_lease_ok:
  "get_read e b s p = (Inr rh, p') \<Longrightarrow> lease_ok (Read_Lease rh)"
  "get_write e b s p = (Inr wh, p') \<Longrightarrow> lease_ok (Write_Lease wh)"
  using get_read_fields(2) get_write_fields(2) by auto

lemma from_input_inv:
  assumes "cuda_from_input k e msg cloned v p = (t, p')" and "process_inv p"
  shows "process_inv p' \<and> pr_next p' = pr_next p \<and> (\<forall>x. t = Inr (View x) \<longrightarrow> lease_ok (cv_lease x))"
proof (cases "cuda_implementation msg")
  case (Inl x)
  then show ?thesis using assms by (auto simp: cuda_from_input_def)
next
  case (Inr b)
  let ?s = "buffer_stream e (raw_stream e v (device_of b p))"
  obtain r p1 where g: "get_read (ce_gpu e) b ?s p = (r, p1)" by (cases "get_read (ce_gpu e) b ?s p")
  have i: "process_inv p1" "pr_next p1 = pr_next p" using get_inv(2) [OF g assms(2)] by simp_all
  show ?thesis
  proof (cases r)
    case (Inl x)
    then show ?thesis using assms(1) Inr g i by (auto simp: cuda_from_input_def)
  next
    case rh: (Inr rh)
    have ok: "lease_ok (Read_Lease rh)" using get_lease_ok(1) g rh by blast
    note e1 = end_lease_inv [OF i(1) ok, of "ce_end e"] and e2 = end_lease_inv [OF work_inv [OF i(1)] ok, of "ce_end e"]
    show ?thesis
    proof (cases "make_cuda_tensor k (rh_ptr rh) msg (device_of b p) (Read_Lease rh)")
      case (Inl x)
      then show ?thesis using assms(1) Inr g rh i e1 by (auto simp: cuda_from_input_def Let_def simp del: end_lease.simps)
    next
      case m: (Inr w)
      then have "cv_lease w = Read_Lease rh" by (auto simp: make_cuda_tensor_def split: sum.splits)
      then show ?thesis
        using assms(1) Inr g rh m i e2 ok
        by (cases cloned) (auto simp: cuda_from_input_def Let_def simp del: end_lease.simps)
    qed
  qed
qed

lemma from_output_inv:
  assumes "cuda_from_output k e msg v p = (t, p')" and "process_inv p"
  shows "process_inv p' \<and> pr_next p' = pr_next p \<and> (\<forall>x. t = Inr x \<longrightarrow> lease_ok (cv_lease x))"
proof (cases "cuda_implementation msg")
  case (Inl x)
  then show ?thesis using assms by (auto simp: cuda_from_output_def)
next
  case (Inr b)
  let ?s = "buffer_stream e (raw_stream e v (device_of b p))"
  obtain r p1 where g: "get_write (ce_gpu e) b ?s (set_stream b ?s p) = (r, p1)"
    by (cases "get_write (ce_gpu e) b ?s (set_stream b ?s p)")
  have "process_inv (set_stream b ?s p)" using assms(2) by (simp add: keeps_upd_impl)
  then have i: "process_inv p1" "pr_next p1 = pr_next p" using get_inv(1) [OF g] by (simp_all add: set_stream_def)
  show ?thesis
  proof (cases r)
    case (Inl x)
    then show ?thesis using assms(1) Inr g i by (auto simp: cuda_from_output_def)
  next
    case wh: (Inr wh)
    have ok: "lease_ok (Write_Lease wh)" using get_lease_ok(2) g wh by blast
    note e1 = end_lease_inv [OF i(1) ok, of "ce_end e"]
    show ?thesis
    proof (cases "make_cuda_tensor k (wh_ptr wh) msg (device_of b p) (Write_Lease wh)")
      case (Inl x)
      then show ?thesis using assms(1) Inr g wh i e1 by (auto simp: cuda_from_output_def Let_def simp del: end_lease.simps)
    next
      case m: (Inr w)
      then have "cv_lease w = Write_Lease wh" by (auto simp: make_cuda_tensor_def split: sum.splits)
      then show ?thesis using assms(1) Inr g wh m i ok by (auto simp: cuda_from_output_def Let_def)
    qed
  qed
qed

text \<open>A copy is a scope of a write handle.\<close>

lemma copy_to_device_inv:
  assumes "copy_to_device e b source v p = (r, p')" and "process_inv p"
  shows "process_inv p' \<and> pr_next p' = pr_next p"
proof (cases "dv_type (so_device source) = kCPU \<or> dv_index (so_device source) = device_of b p")
  case False
  then have "p' = p" using assms(1) by (simp add: copy_to_device_def)
  then show ?thesis using assms(2) by simp
next
  case True
  let ?s = "buffer_stream e (raw_stream e v (device_of b p))"
  let ?kind = "if dv_type (so_device source) = kCPU then HostToDevice else DeviceToDevice"
  have c: "process_inv (contiguous ?s source p)" by (rule contiguous_inv [OF assms(2)])
  then have q: "process_inv (set_stream b ?s (contiguous ?s source p))" by (simp add: keeps_upd_impl)
  from assms(1) True show ?thesis
  proof (cases rule: copy_to_device_cases)
    case empty
    then show ?thesis using c by simp
  next
    case (refused x)
    then show ?thesis using get_inv(1) [OF refused(3) q] by (simp add: set_stream_def)
  next
    case (granted wh p2 p3 r3)
    have acq: "from_output_buffer (ce_alloc e) (ce_gpu e) 1 (Cuda_Impl b) ?s (contiguous ?s source p) = (Inr wh, p2)"
      using granted(1,2) by (simp add: from_output_buffer_def)
    have n2: "pr_next p2 = pr_next p" using get_inv(1) [OF granted(2) q] by (simp add: set_stream_def)
    have n3: "pr_next p3 = pr_next p" using to_buffer_same [OF granted(3)] n2 by auto
    have f: "process_inv (on_cuda (destroy_write_handle (ce_end e) True wh) p3)"
      using write_scope.scope_inv(2) [of _ "(ce_alloc e, ce_gpu e, 1, Cuda_Impl b, ?s)" wh p2
          "(ce_memcpy e, so_ptr source, so_nbytes source, ?s, ?kind)" r3 p3 "ce_end e"] c acq granted(3)
      by simp
    have i3: "process_inv p3" "write_owned wh p3"
      using write_scope.work_inv [of p2 "(ce_memcpy e, so_ptr source, so_nbytes source, ?s, ?kind)" wh r3 p3]
        write_scope.acquire_inv [of _ "(ce_alloc e, ce_gpu e, 1, Cuda_Impl b, ?s)" "Inr wh" p2]
        get_write_fields(2) [OF granted(2) refl] c acq granted(3)
      by (auto simp: write_owned_def)
    note y = synchronize_inv [OF i3(1), of e ?s]
    have "process_inv (on_cuda (destroy_write_handle (ce_end e) True wh) (snd (synchronize e ?s p3)))"
      by (rule write_scope.finish_inv) (use y i3(2) n3 in \<open>simp_all add: write_owned_def\<close>)
    then show ?thesis using granted(5) f n3 y by (cases r3) simp_all
  qed
qed

lemma cuda_copy_to_inv:
  assumes "cuda_copy_to e msg source v p = (r, p')" and "process_inv p"
  shows "process_inv p' \<and> pr_next p' = pr_next p"
proof (cases "cm_data msg")
  case (Cuda_Data b)
  then show ?thesis
    using copy_to_device_inv [OF _ assms(2)] assms(1) by (simp add: cuda_copy_to_def cuda_implementation_def)
next
  case (Host_Data host)
  let ?s = "buffer_stream e (raw_stream e v (dv_index (so_device source)))"
  let ?p = "on_cuda (gpu [StreamWork ?s (Copy host (so_ptr source) (so_nbytes source) DeviceToHost)]) (contiguous ?s source p)"
  have c: "process_inv (contiguous ?s source p)" by (rule contiguous_inv [OF assms(2)])
  have "p' = p \<or> p' = contiguous ?s source p \<or> p' = snd (synchronize e ?s ?p)"
    using assms(1) Host_Data
    by (cases "dv_type (so_device source) = kCUDA"; cases "ce_memcpy e = cudaSuccess")
      (simp_all add: cuda_copy_to_def copy_to_host_def check_cuda_def Let_def prod_eq_iff)
  then show ?thesis using assms(2) c synchronize_inv [OF work_inv [OF c]] by auto
next
  case (Other_Data n)
  then have "p' = p" using assms(1) by (auto simp: cuda_copy_to_def cuda_implementation_def split: if_splits)
  then show ?thesis using assms(2) by simp
qed

lemma cuda_allocate_inv:
  assumes "cuda_allocate e n dev msg p = (r, msg', p')" and "process_inv p"
    and "\<forall>b. cm_data msg = Cuda_Data b \<longrightarrow> b < pr_next p"
  shows "process_inv p' \<and> (msg' = msg \<and> pr_next p \<le> pr_next p' \<or>
    cm_data msg' = Cuda_Data (pr_next p) \<and> pr_next p' = pr_next p + 1)"
proof (cases "dv_type dev = kCUDA")
  case False
  then show ?thesis using assms by (simp add: cuda_allocate_def)
next
  case True
  obtain r1 p1 where a: "allocate_buffer (ce_alloc e) 1 n p = (r1, p1)" by (cases "allocate_buffer (ce_alloc e) 1 n p")
  note ai = allocate_buffer_inv [OF a assms(2)]
  show ?thesis
  proof (cases r1)
    case (Inl x)
    then show ?thesis using assms(1) True a ai(1,2) by (auto simp: cuda_allocate_def)
  next
    case (Inr b)
    have "\<forall>c. cm_data msg = Cuda_Data c \<longrightarrow> c < pr_next p1" using assms(3) ai(2) by (simp add: less_Suc_eq)
    note d = destroy_data_inv [OF ai(1) this]
    have "msg' = msg\<lparr>cm_data := Cuda_Data b\<rparr> \<and> p' = destroy_data (cm_data msg) p1"
      using assms(1) True a Inr
      by (cases "n > 0 \<and> device_of b (destroy_data (cm_data msg) p1) \<noteq> ce_guard e dev")
        (simp_all add: cuda_allocate_def Let_def del: destroy_data.simps)
    then show ?thesis using d ai(2,3) Inr by simp
  qed
qed

lemma conv_step_inv:
  assumes "conv_step w w'" and "conv_inv w"
  shows "conv_inv w'"
proof -
  have i: "process_inv (cw_process w)" "data_inv (data_at (cw_msgs w)) (pr_next (cw_process w))"
    "\<forall>l \<in> set (cw_leases w). lease_ok l"
    using assms(2) by (simp_all add: conv_inv_def)
  have b: "\<forall>b. cm_data (cw_msgs w ! k) = Cuda_Data b \<longrightarrow> b < pr_next (cw_process w)" if "k < length (cw_msgs w)" for k
  proof (intro allI impI)
    fix b assume "cm_data (cw_msgs w ! k) = Cuda_Data b"
    then have "data_at (cw_msgs w) k = Some b" using that by (simp add: data_at_def)
    then show "b < pr_next (cw_process w)" using i(2) unfolding data_inv_def by blast
  qed
  from assms(1) show ?thesis
  proof cases
    case (message msg)
    have "cuda_data (cm_data msg) = None" using message(2) by (cases "cm_data msg") simp_all
    then show ?thesis using i data_inv_clear [OF i(2)] message(1) by (simp add: conv_inv_def data_at_simps)
  next
    case (alloc k e n dev r msg' p')
    note a = cuda_allocate_inv [OF alloc(4) i(1) b [OF alloc(2)]]
    have "data_inv (data_at ((cw_msgs w)[k := msg'])) (pr_next p')"
    proof (cases "msg' = cw_msgs w ! k \<and> pr_next (cw_process w) \<le> pr_next p'")
      case True
      then show ?thesis using data_inv_mono [OF i(2), of "pr_next p'"] by simp
    next
      case False
      then have "cm_data msg' = Cuda_Data (pr_next (cw_process w))" "pr_next p' = pr_next (cw_process w) + 1"
        using a by blast+
      then show ?thesis using data_inv_new [OF i(2), of k] alloc(2) by (simp add: data_at_simps)
    qed
    then show ?thesis using a i(3) alloc(1) by (simp add: conv_inv_def)
  next
    case (view_input k kk e cloned v t p')
    note a = from_input_inv [OF view_input(3) i(1)]
    then show ?thesis using i view_input(1) by (auto simp: conv_inv_def split: sum.splits cuda_tensor.splits)
  next
    case (view_output k kk e v u p')
    note a = from_output_inv [OF view_output(3) i(1)]
    then show ?thesis using i view_output(1) by (auto simp: conv_inv_def split: sum.splits)
  next
    case (copy k e source v r p')
    then show ?thesis using i cuda_copy_to_inv [OF copy(3) i(1)] by (simp add: conv_inv_def)
  next
    case (finish l ge)
    then show ?thesis using i end_lease_inv [OF i(1), of l ge] by (auto simp: conv_inv_def dest: notin_set_remove1)
  next
    case (drop k)
    note d = destroy_data_inv [OF i(1) b [OF drop(2)]]
    then show ?thesis using i data_inv_clear [OF i(2)] drop by (simp add: conv_inv_def data_at_simps)
  next
    case (turn ge)
    then show ?thesis using i keeps_recycle [OF i(1)] by (simp add: conv_inv_def)
  qed
qed

lemma conv_reachable_inv: "conv_reachable w \<Longrightarrow> conv_inv w"
proof (induction rule: conv_reachable.induct)
  case (start p)
  then have "process_inv p" by (rule process_reachable_inv [OF process_reachable.intros(1)])
  then show ?case by (simp add: conv_inv_def data_inv_def data_at_def)
qed (rule conv_step_inv)

text \<open>
  C11. Messages do not share storage: in whatever order a process allocates, views, writes, copies to and drops messages with CUDA
  data and ends the leases of their tensors, a pool block behind a message is handed out, is behind no other message,
  and is not waiting in the recycler.
\<close>

theorem cuda_messages_exclusive:
  assumes "conv_reachable w" and "i < length (cw_msgs w)" and "cm_data (cw_msgs w ! i) = Cuda_Data b"
    and "cb_ptr (cs_buffer (pr_cuda (cw_process w)) b) \<noteq> 0"
    and "cb_deleter (cs_buffer (pr_cuda (cw_process w)) b) = Pool_Free x"
  shows "x \<in> handed_out (cs_pool (pr_cuda (cw_process w))) \<and>
    (\<forall>j < length (cw_msgs w). \<forall>c. j \<noteq> i \<longrightarrow> cm_data (cw_msgs w ! j) = Cuda_Data c \<longrightarrow> c \<noteq> b \<and>
       (cb_ptr (cs_buffer (pr_cuda (cw_process w)) c) \<noteq> 0 \<longrightarrow>
        cb_deleter (cs_buffer (pr_cuda (cw_process w)) c) \<noteq> Pool_Free x)) \<and>
    (\<forall>q \<in> set (cs_queue (pr_cuda (cw_process w))). pw_ptr q \<noteq> 0 \<longrightarrow> pw_deleter q \<noteq> Pool_Free x)"
proof -
  note inv = conv_reachable_inv [OF assms(1), unfolded conv_inv_def]
  have d: "data_at (cw_msgs w) i = Some b" using assms(2,3) by (simp add: data_at_def)
  then have b: "b < pr_next (cw_process w)" using inv by (auto simp: data_inv_def)
  note e = storage_disjoint [OF conjunct1 [OF inv] b assms(4,5)]
  have "c \<noteq> b \<and> (cb_ptr (cs_buffer (pr_cuda (cw_process w)) c) \<noteq> 0 \<longrightarrow>
      cb_deleter (cs_buffer (pr_cuda (cw_process w)) c) \<noteq> Pool_Free x)"
    if "j < length (cw_msgs w)" "j \<noteq> i" "cm_data (cw_msgs w ! j) = Cuda_Data c" for j c
  proof -
    have c: "data_at (cw_msgs w) j = Some c" using that by (simp add: data_at_def)
    then have "c < pr_next (cw_process w)" using inv by (auto simp: data_inv_def)
    moreover have "c \<noteq> b" using inv c d that(2) by (auto simp: data_inv_def)
    ultimately show ?thesis using e by blast
  qed
  then show ?thesis using e by blast
qed

section \<open>Samples\<close>

definition sample_conv_env :: "cudaError_t \<Rightarrow> conv_env" where
  "sample_conv_env r = \<lparr>ce_current = (\<lambda>_. 0), ce_legacy = 2, ce_guard = dv_index, ce_alloc = sample_alloc_env,
     ce_gpu = sample_env, ce_end = sample_env, ce_memcpy = r, ce_sync = cudaSuccess, ce_error = (\<lambda>_. ''error''),
     ce_clone = 0\<rparr>"

definition sample_cuda_msg :: cuda_msg where
  "sample_cuda_msg = \<lparr>cm_meta = sample_msg, cm_data = Cuda_Data 0\<rparr>"

definition sample_source :: source_tensor where
  "sample_source = \<lparr>so_device = \<lparr>dv_type = kCPU, dv_index = 0\<rparr>, so_ptr = 512, so_nbytes = 28, so_gather = None\<rparr>"

lemma sample_conv_facts:
  "cs_buffer (pr_cuda sized_process) 0 = sample_cuda_buffer" "bi_size (pr_impl sized_process 0) = 64"
  "cb_handle_state sample_cuda_buffer = None" "cb_read_events sample_cuda_buffer = []"
  "cs_trace (pr_cuda sized_process) = []" "cs_queue (pr_cuda sized_process) = []"
  by (simp_all add: sized_process_def sample_process_def sample_cuda_state_def sample_fields)
    (simp_all add: sample_defs)

lemma sample_stream: "buffer_stream (sample_conv_env r) (raw_stream (sample_conv_env r) 0 d) = 2"
  by (simp add: buffer_stream_def raw_stream_def sample_conv_env_def)

text \<open>The copy of 28 bytes to the default stream of the sample process.\<close>

lemma sample_copy:
  "\<exists>p'. cuda_copy_to (sample_conv_env r) sample_cuda_msg sample_source 0 sized_process =
      (if r = cudaSuccess then Inr () else Inl (CudaRuntimeError ''cudaMemcpyAsync'' r), p') \<and>
    cs_buffer (pr_cuda p') 0 = sample_cuda_buffer\<lparr>cb_handle_state := Some 0\<rparr>"
proof -
  obtain st where g: "get_write_handle sample_env 0 2 (pr_cuda sized_process) =
      (Inr \<lparr>wh_ptr = cb_ptr sample_cuda_buffer, wh_event = Some 0, wh_stream = 2,
            wh_state = Some (cs_next (pr_cuda sized_process)), wh_promoted = None\<rparr>, st)"
    "cs_buffer st 0 = sample_cuda_buffer\<lparr>cb_handle_state := Some 0\<rparr>"
    using get_write_handle_unused [of "pr_cuda sized_process" 0 sample_env 2] sample_conv_facts
    by (auto simp: sized_process_def)
  have p: "cb_ptr sample_cuda_buffer \<noteq> 0" by (simp add: sample_fields)
  have e: "ce_gpu (sample_conv_env x) = sample_env" "ce_memcpy (sample_conv_env x) = x" "ce_alloc (sample_conv_env x) = sample_alloc_env"
    "ce_sync (sample_conv_env x) = cudaSuccess" for x by (simp_all add: sample_conv_env_def)
  have s: "dv_type (so_device sample_source) = kCPU" "so_gather sample_source = None" "so_nbytes sample_source = 28"
    "so_ptr sample_source = 512" by (simp_all add: sample_source_def)
  have c: "contiguous 2 sample_source sized_process = sized_process" by (simp add: contiguous_def s)
  have w: "from_output_buffer sample_alloc_env sample_env 1 (Cuda_Impl 0) 2 sized_process =
      (Inr \<lparr>wh_ptr = cb_ptr sample_cuda_buffer, wh_event = Some 0, wh_stream = 2,
            wh_state = Some (cs_next (pr_cuda sized_process)), wh_promoted = None\<rparr>,
       (set_stream 0 2 sized_process)\<lparr>pr_cuda := st\<rparr>)"
    using g by (simp add: from_output_buffer_def sample_conv_facts get_write_def set_stream_def)
  have "cuda_copy_to (sample_conv_env r) sample_cuda_msg sample_source 0 sized_process =
      copy_to_device (sample_conv_env r) 0 sample_source 0 sized_process"
    by (simp add: cuda_copy_to_def cuda_implementation_def sample_cuda_msg_def)
  moreover have "\<exists>p'. copy_to_device (sample_conv_env r) 0 sample_source 0 sized_process =
      (if r = cudaSuccess then Inr () else Inl (CudaRuntimeError ''cudaMemcpyAsync'' r), p') \<and>
    cs_buffer (pr_cuda p') 0 = sample_cuda_buffer\<lparr>cb_handle_state := Some 0\<rparr>"
    using g(2) p
    by (cases "r = cudaSuccess")
      (simp_all add: copy_to_device_def s sample_stream e c w to_buffer_def memcpy_async_def synchronize_result Let_def
        destroy_write_handle_def drop_promoted_def write_release_def)
  ultimately show ?thesis by simp
qed

lemma sample_from_input:
  assumes "get_read_handle sample_env 0 2 (pr_cuda p) = (Inr rh, st)"
  shows "\<exists>t p'. cuda_from_input sample_codes (sample_conv_env cudaSuccess) sample_cuda_msg False 0 p = (Inr t, p')"
proof -
  have e: "ce_gpu (sample_conv_env cudaSuccess) = sample_env" by (simp add: sample_conv_env_def)
  obtain w where w: "make_cuda_tensor sample_codes (rh_ptr rh) sample_cuda_msg (device_of 0 p) (Read_Lease rh) = Inr w"
    using validated_tensor [of sample_codes sample_sizes sample_cuda_msg] sample_msg_valid
    unfolding sample_cuda_msg_def cuda_msg.select_convs by blast
  have i: "cuda_implementation sample_cuda_msg = Inr 0" by (simp add: cuda_implementation_def sample_cuda_msg_def)
  show ?thesis using assms by (simp add: cuda_from_input_def i sample_stream e get_read_def w)
qed

theorem cuda_copy_then_view_witness:
  "\<exists>p' t p'' w i. cuda_copy_to (sample_conv_env cudaSuccess) sample_cuda_msg sample_source 0 sized_process = (Inr (), p') \<and>
     cuda_from_input sample_codes (sample_conv_env cudaSuccess) sample_cuda_msg False 0 p' = (Inr t, p'') \<and>
     t = View w \<and> (\<exists>ptr. cv_ptr w = ptr + 8 \<and> cs_trace (pr_cuda p'') ! i = StreamWork 2 (Copy ptr 512 28 HostToDevice)) \<and>
     i \<in> gv_done (view (pr_cuda p'))"
proof -
  let ?e = "sample_conv_env cudaSuccess"
  obtain p' where c: "cuda_copy_to ?e sample_cuda_msg sample_source 0 sized_process = (Inr (), p')"
    using sample_copy [of cudaSuccess] by auto
  obtain r st where g: "get_read_handle sample_env 0 2 (pr_cuda p') = (r, st)"
    by (cases "get_read_handle sample_env 0 2 (pr_cuda p')")
  obtain rh where rh: "r = Inr rh" using get_read_handle_buffer(5) [OF g] by (auto simp: sample_env_def)
  have "\<exists>t p''. cuda_from_input sample_codes ?e sample_cuda_msg False 0 p' = (Inr t, p'')"
    using sample_from_input [OF g [unfolded rh]] by blast
  then obtain t p'' where v: "cuda_from_input sample_codes ?e sample_cuda_msg False 0 p' = (Inr t, p'')" by blast
  have h: "cm_data sample_cuda_msg = Cuda_Data 0" "so_nbytes sample_source \<noteq> 0" "so_ptr sample_source \<noteq> 0"
    "cb_ptr (cs_buffer (pr_cuda sized_process) 0) \<noteq> 0"
    by (simp_all add: sample_cuda_msg_def sample_source_def sample_conv_facts sample_fields)
  have m: "tm_byte_offset (cm_meta sample_cuda_msg) = 8" "so_ptr sample_source = 512" "so_nbytes sample_source = 28"
    "dv_type (so_device sample_source) = kCPU"
    by (simp_all add: sample_cuda_msg_def sample_msg_def sample_source_def)
  from cuda_copy_then_view [OF h(1) c h(2-4) h(1) v, unfolded m sample_stream] c v show ?thesis by auto
qed

theorem failed_copy_not_retriable_witness:
  "\<exists>p'. cuda_copy_to (sample_conv_env cudaErrorInvalidValue) sample_cuda_msg sample_source 0 sized_process =
      (Inl (CudaRuntimeError ''cudaMemcpyAsync'' cudaErrorInvalidValue), p') \<and>
    fst (cuda_copy_to (sample_conv_env cudaSuccess) sample_cuda_msg sample_source 0 p') =
      Inl (CudaError ''CudaBuffer: write already finalized; cannot acquire write handle'')"
proof -
  obtain p' where c: "cuda_copy_to (sample_conv_env cudaErrorInvalidValue) sample_cuda_msg sample_source 0 sized_process =
      (Inl (CudaRuntimeError ''cudaMemcpyAsync'' cudaErrorInvalidValue), p')"
    using sample_copy [of cudaErrorInvalidValue] by auto
  have h: "cm_data sample_cuda_msg = Cuda_Data 0" "dv_type (so_device sample_source) = kCPU"
    by (simp_all add: sample_cuda_msg_def sample_source_def)
  from failed_copy_not_retriable [OF h(1) c h] c show ?thesis by blast
qed

lemma sample_view:
  "\<exists>t p1. cuda_from_input sample_codes (sample_conv_env cudaSuccess) sample_cuda_msg False 0 sized_process = (Inr t, p1)"
proof -
  obtain r st where g: "get_read_handle sample_env 0 2 (pr_cuda sized_process) = (r, st)"
    by (cases "get_read_handle sample_env 0 2 (pr_cuda sized_process)")
  obtain rh where rh: "r = Inr rh" using get_read_handle_buffer(5) [OF g] by (auto simp: sample_env_def)
  then show ?thesis
    using sample_from_input [OF g [unfolded rh]] by blast
qed

theorem view_work_tracked_witness:
  "\<exists>t p1 w. cuda_from_input sample_codes (sample_conv_env cudaSuccess) sample_cuda_msg False 0 sized_process = (Inr t, p1) \<and>
     t = View w \<and> (\<exists>rh. cv_lease w = Read_Lease rh \<and>
       9 \<in> set (cb_read_events (cs_buffer (pr_cuda (end_lease sample_env (cv_lease w)
         (on_cuda (gpu [StreamWork (rh_stream rh) (Kernel 3)]) p1))) 0)))"
proof -
  obtain t p1 where c: "cuda_from_input sample_codes (sample_conv_env cudaSuccess) sample_cuda_msg False 0 sized_process = (Inr t, p1)"
    using sample_view by blast
  have h: "cm_data sample_cuda_msg = Cuda_Data 0" "ce_legacy (sample_conv_env cudaSuccess) \<noteq> 0"
    "cb_write_event (cs_buffer (pr_cuda sized_process) 0) \<noteq> 0" "\<forall>s. ge_stream sample_env s = cudaSuccess"
    "ge_create sample_env = (cudaSuccess, 9)" "ge_record sample_env = cudaSuccess"
    by (simp_all add: sample_cuda_msg_def sample_conv_env_def sample_conv_facts sample_fields) (simp_all add: sample_env_def)
  from view_work_tracked [OF h(1,2) c h(3-6)] c show ?thesis by (auto simp: Let_def)
qed

text \<open>The write handle of the sample process was given out, so that a second one is refused.\<close>

theorem validated_message_view_witness:
  "\<exists>p x p'. cuda_copy_to (sample_conv_env cudaSuccess) sample_cuda_msg sample_source 0 sized_process = (Inr (), p) \<and>
     cuda_from_output sample_codes (sample_conv_env cudaSuccess) sample_cuda_msg 0 p = (Inl x, p') \<and>
     get_write sample_env 0 2 (set_stream 0 2 p) = (Inl x, p')"
proof -
  let ?e = "sample_conv_env cudaSuccess"
  obtain p where c: "cuda_copy_to ?e sample_cuda_msg sample_source 0 sized_process = (Inr (), p)"
    using sample_copy [of cudaSuccess] by auto
  have h: "cm_data sample_cuda_msg = Cuda_Data 0" "so_nbytes sample_source \<noteq> 0" "so_ptr sample_source \<noteq> 0"
    "cb_ptr (cs_buffer (pr_cuda sized_process) 0) \<noteq> 0"
    by (simp_all add: sample_cuda_msg_def sample_source_def sample_conv_facts sample_fields)
  have d: "copy_to_device ?e 0 sample_source 0 sized_process = (Inr (), p)"
    using c h(1) by (simp add: cuda_copy_to_def cuda_implementation_def)
  have "write_phase (cb_handle_state (cs_buffer (pr_cuda (set_stream 0 2 p)) 0)) (cs_handle_state (pr_cuda (set_stream 0 2 p))) = Finalized"
    using copy_to_device_done(3) [OF d h(2-4)] by (simp add: set_stream_def)
  from finalized_refuses [OF this, of sample_env 2]
  obtain x p' where r: "get_write sample_env 0 2 (set_stream 0 2 p) = (Inl x, p')" by (auto simp: get_write_def split_beta)
  then have o: "cuda_from_output sample_codes ?e sample_cuda_msg 0 p = (Inl x, p')"
    by (simp add: cuda_from_output_def cuda_implementation_def sample_cuda_msg_def sample_stream)
      (simp add: sample_conv_env_def)
  have v: "validate_view sample_codes sample_sizes (cm_meta sample_cuda_msg) = Inr ()"
    using sample_msg_valid by (simp add: sample_cuda_msg_def)
  from conjunct1 [OF validated_message_view [OF v h(1), of ?e 0 p]] o c show ?thesis
    unfolding sample_stream by (auto simp: sample_conv_env_def)
qed

text \<open>The pool of the sample is on device 0.\<close>

theorem cuda_allocate_outcome_witness:
  "\<exists>msg' p'. cuda_allocate (sample_conv_env cudaSuccess) 0 \<lparr>dv_type = kCUDA, dv_index = 1\<rparr> sample_cuda_msg sized_process =
      (Inr (), msg', p') \<and> cs_buffer (pr_cuda p') 0 = empty_buffer"
proof -
  let ?e = "sample_conv_env cudaSuccess"
  obtain b p1 where a: "allocate_buffer (ce_alloc ?e) 1 0 sized_process = (Inr b, p1)"
    by (simp add: allocate_buffer_def fresh_impl_def)
  have h: "dv_type \<lparr>dv_type = kCUDA, dv_index = 1\<rparr> = kCUDA" "cm_data sample_cuda_msg = Cuda_Data 0" "0 < pr_next sized_process"
    by (simp_all add: sample_cuda_msg_def sized_process_facts)
  from cuda_allocate_outcome [OF h(1) a h(2,3)] show ?thesis by auto
qed

theorem cuda_messages_exclusive_witness:
  "\<exists>w. conv_reachable w \<and> length (cw_msgs w) = 1 \<and> cm_data (cw_msgs w ! 0) = Cuda_Data 0 \<and>
     0 \<in> handed_out (cs_pool (pr_cuda (cw_process w)))"
proof -
  let ?e = "sample_conv_env cudaSuccess"
  let ?m = "\<lparr>cm_meta = sample_msg, cm_data = Host_Data 0\<rparr>" and ?dev = "\<lparr>dv_type = kCUDA, dv_index = device_id sample_pool\<rparr>"
  obtain p where a: "allocate_buffer sample_alloc_env 1 4000 sample_process = (Inr 0, p)"
    "cs_buffer (pr_cuda p) 0 = new_storage sample_alloc_env 4000 sample_pool 0"
    using sample_allocation by blast
  have d: "device_of 0 p = device_id sample_pool"
    by (simp add: device_of_def a(2) new_storage_def make_buffer_def set_write_event_def Let_def)
  let ?w0 = "\<lparr>cw_process = sample_process, cw_msgs = [], cw_leases = []\<rparr>"
  have "conv_step ?w0 (?w0\<lparr>cw_msgs := cw_msgs ?w0 @ [?m]\<rparr>)" by (rule conv_step.message) simp
  then have r1: "conv_reachable \<lparr>cw_process = sample_process, cw_msgs = [?m], cw_leases = []\<rparr>" (is "conv_reachable ?w1")
    using conv_reachable.step [OF conv_reachable.start [OF sample_process_start]] by simp
  have "cuda_allocate ?e 4000 ?dev ?m sample_process = (Inr (), ?m\<lparr>cm_data := Cuda_Data 0\<rparr>, p)"
    using a(1) d by (simp add: cuda_allocate_def sample_conv_env_def)
  then have "conv_step ?w1 (?w1\<lparr>cw_msgs := (cw_msgs ?w1)[0 := ?m\<lparr>cm_data := Cuda_Data 0\<rparr>], cw_process := p\<rparr>)"
    by (intro conv_step.alloc) (simp_all add: unleased_def)
  then have r2: "conv_reachable \<lparr>cw_process = p, cw_msgs = [?m\<lparr>cm_data := Cuda_Data 0\<rparr>], cw_leases = []\<rparr>" (is "conv_reachable ?w2")
    using conv_reachable.step [OF r1] by simp
  have f: "cb_ptr (cs_buffer (pr_cuda p) 0) \<noteq> 0" "cb_deleter (cs_buffer (pr_cuda p) 0) = Pool_Free 0"
    by (simp_all add: a(2) new_storage_def make_buffer_def set_write_event_def Let_def sample_pool_def)
  from cuda_messages_exclusive [OF r2, of 0 0 0] f r2 show ?thesis by (intro exI [of _ ?w2]) simp
qed

end
