(* ===== verification/Cuda_Python.thy ===== *)
theory Cuda_Python
  imports Scoped_Handles
begin

text \<open>
  The Python bindings of \<open>cuda_buffer_py.cpp\<close>: wrappers that keep a handle together with a reference to the
  Python object of its buffer, and the functions that make them. Python objects of buffers are counted by
  references; the last one ends the buffer.
\<close>

section \<open>State\<close>

text \<open>
  The Python object of a \<open>rosidl::Buffer\<close>: over a CUDA implementation, or over another one of \<open>n\<close> bytes at a
  host address. \<open>py_refs\<close> counts the references, \<open>py_ended\<close> are the CUDA buffers that ended with their object.
\<close>

datatype py_buffer = Py_Cuda nat | Py_Host u64 u64

record py_state =
  py_process :: process
  py_refs :: "py_buffer \<Rightarrow> nat"
  py_ended :: "nat set"

record read_wrapper =
  rw_owner :: "py_buffer option"
  rw_handle :: "read_handle option"
  rw_promoted :: bool
  rw_device :: int

record write_wrapper =
  ww_owner :: "py_buffer option"
  ww_handle :: "write_handle option"
  ww_size :: u64
  ww_stream :: nat
  ww_promoted :: bool
  ww_device :: int

text \<open>The answers of the CUDA runtime during one call of a binding.\<close>

record py_env =
  pv_alloc :: alloc_env
  pv_copy :: copy_env
  pv_internal :: "cudaError_t \<times> nat"
  pv_memcpy :: cudaError_t
  pv_sync :: cudaError_t
  pv_attributes :: "cudaError_t \<times> int"

definition on_py :: "(process \<Rightarrow> process) \<Rightarrow> py_state \<Rightarrow> py_state" where
  "on_py f st = st\<lparr>py_process := f (py_process st)\<rparr>"

definition take_ref :: "py_buffer \<Rightarrow> py_state \<Rightarrow> py_state" where
  "take_ref obj st = st\<lparr>py_refs := (py_refs st)(obj := py_refs st obj + 1)\<rparr>"

definition drop_ref :: "py_buffer option \<Rightarrow> py_state \<Rightarrow> py_state" where
  "drop_ref owner st =
     (case owner of
        None \<Rightarrow> st
      | Some obj \<Rightarrow>
          (let st1 = st\<lparr>py_refs := (py_refs st)(obj := py_refs st obj - 1)\<rparr>
           in case obj of
                Py_Host n host \<Rightarrow> st1
              | Py_Cuda b \<Rightarrow>
                  if py_refs st1 obj = 0
                  then (on_py (on_cuda (destroy_buffer b)) st1)\<lparr>py_ended := insert b (py_ended st1)\<rparr> else st1))"

section \<open>Wrappers\<close>

definition end_read :: "py_env \<Rightarrow> read_handle \<Rightarrow> py_state \<Rightarrow> py_state" where
  "end_read e rh st = on_py (on_cuda (destroy_read_handle (cp_end_read (pv_copy e)) True rh)) st"

definition end_write :: "py_env \<Rightarrow> write_handle \<Rightarrow> py_state \<Rightarrow> py_state" where
  "end_write e wh st = on_py (on_cuda (destroy_write_handle (cp_end_write (pv_copy e)) True wh)) st"

text \<open>The constructors; when the device cannot be found, the members end in reverse order.\<close>

definition attributes_error :: "py_env \<Rightarrow> exn" where
  "attributes_error e =
     CudaRuntimeError ''cudaPointerGetAttributes(&attributes, handle_->get_ptr())'' (fst (pv_attributes e))"

definition new_read_wrapper ::
  "py_env \<Rightarrow> read_handle \<Rightarrow> py_buffer \<Rightarrow> bool \<Rightarrow> py_state \<Rightarrow> (exn + read_wrapper) \<times> py_state" where
  "new_read_wrapper e rh owner promoted st =
     (if fst (pv_attributes e) \<noteq> cudaSuccess
      then (Inl (attributes_error e), drop_ref (Some owner) (end_read e rh st))
      else (Inr \<lparr>rw_owner = Some owner, rw_handle = Some rh, rw_promoted = promoted,
             rw_device = snd (pv_attributes e)\<rparr>, st))"

definition new_write_wrapper ::
  "py_env \<Rightarrow> write_handle \<Rightarrow> py_buffer \<Rightarrow> u64 \<Rightarrow> nat \<Rightarrow> bool \<Rightarrow> py_state \<Rightarrow> (exn + write_wrapper) \<times> py_state" where
  "new_write_wrapper e wh owner n s promoted st =
     (if fst (pv_attributes e) \<noteq> cudaSuccess
      then (Inl (attributes_error e), drop_ref (Some owner) (end_write e wh st))
      else (Inr \<lparr>ww_owner = Some owner, ww_handle = Some wh, ww_size = n, ww_stream = s, ww_promoted = promoted,
             ww_device = snd (pv_attributes e)\<rparr>, st))"

definition read_get_ptr :: "read_wrapper \<Rightarrow> exn + u64" where
  "read_get_ptr w =
     (case rw_handle w of None \<Rightarrow> Inl (RuntimeError ''CudaReadHandle is closed'') | Some rh \<Rightarrow> Inr (rh_ptr rh))"

definition write_get_ptr :: "write_wrapper \<Rightarrow> exn + u64" where
  "write_get_ptr w =
     (case ww_handle w of None \<Rightarrow> Inl (RuntimeError ''CudaWriteHandle is closed'') | Some wh \<Rightarrow> Inr (wh_ptr wh))"

definition read_is_closed :: "read_wrapper \<Rightarrow> bool" where "read_is_closed w \<longleftrightarrow> rw_handle w = None"
definition write_is_closed :: "write_wrapper \<Rightarrow> bool" where "write_is_closed w \<longleftrightarrow> ww_handle w = None"

definition read_promoted_buffer :: "read_wrapper \<Rightarrow> exn + py_buffer option" where
  "read_promoted_buffer w =
     (case read_get_ptr w of Inl x \<Rightarrow> Inl x | Inr _ \<Rightarrow> Inr (if rw_promoted w then rw_owner w else None))"

definition write_promoted_buffer :: "write_wrapper \<Rightarrow> exn + py_buffer option" where
  "write_promoted_buffer w =
     (case write_get_ptr w of Inl x \<Rightarrow> Inl x | Inr _ \<Rightarrow> Inr (if ww_promoted w then ww_owner w else None))"

text \<open>\<open>close\<close>, which is also what the destructor comes to: the handle ends first.\<close>

definition close_read :: "py_env \<Rightarrow> read_wrapper \<Rightarrow> py_state \<Rightarrow> read_wrapper \<times> py_state" where
  "close_read e w st =
     (w\<lparr>rw_handle := None, rw_owner := None\<rparr>,
      drop_ref (rw_owner w) (case rw_handle w of None \<Rightarrow> st | Some rh \<Rightarrow> end_read e rh st))"

definition close_write :: "py_env \<Rightarrow> write_wrapper \<Rightarrow> py_state \<Rightarrow> write_wrapper \<times> py_state" where
  "close_write e w st =
     (w\<lparr>ww_handle := None, ww_owner := None\<rparr>,
      drop_ref (ww_owner w) (case ww_handle w of None \<Rightarrow> st | Some wh \<Rightarrow> end_write e wh st))"

text \<open>A source of \<open>_to_buffer\<close>: bytes, an integer that fits a pointer, or anything else; the byte count is a signed number.\<close>

datatype py_source = Py_Bytes u64 nat | Py_Int u64 | Py_Other

definition py_synchronize :: "py_env \<Rightarrow> nat \<Rightarrow> string \<Rightarrow> py_state \<Rightarrow> (exn + unit) \<times> py_state" where
  "py_synchronize e s call st =
     (if pv_sync e = cudaSuccess then (Inr (), on_py (on_cuda (gpu [StreamSynchronize s])) st)
      else (Inl (CudaRuntimeError call (pv_sync e)), st))"

definition py_to_buffer ::
  "py_env \<Rightarrow> u64 \<Rightarrow> u64 \<Rightarrow> write_handle \<Rightarrow> nat \<Rightarrow> memcpy_kind \<Rightarrow> py_state \<Rightarrow> (exn + unit) \<times> py_state" where
  "py_to_buffer e src n wh s kind st =
     (let (r, p) = to_buffer (pv_memcpy e) src n wh s kind (py_process st) in (r, st\<lparr>py_process := p\<rparr>))"

definition copy_from ::
  "py_env \<Rightarrow> py_source \<Rightarrow> i64 \<Rightarrow> nat option \<Rightarrow> write_wrapper \<Rightarrow> py_state \<Rightarrow> (exn + unit) \<times> py_state" where
  "copy_from e source bytes stream w st =
     (case ww_handle w of
        None \<Rightarrow> (Inl (RuntimeError ''CudaWriteHandle is closed''), st)
      | Some wh \<Rightarrow>
          if sint bytes < 0 then (Inl (PyValueError ''byte_count must be nonnegative''), st)
          else if bytes > ww_size w then (Inl (PyValueError ''byte_count exceeds destination size''), st)
          else if (case stream of None \<Rightarrow> False | Some s \<Rightarrow> s \<noteq> ww_stream w)
          then (Inl (PyValueError ''stream must match the write handle's stream''), st)
          else case source of
              Py_Bytes address len \<Rightarrow>
                if unat bytes > len then (Inl (PyValueError ''byte_count exceeds host source size''), st)
                else (case py_to_buffer e address bytes wh (ww_stream w) HostToDevice st of
                        (Inl x, st1) \<Rightarrow> (Inl x, st1)
                      | (Inr _, st1) \<Rightarrow>
                          if bytes > 0 then py_synchronize e (ww_stream w) ''cudaStreamSynchronize(stream_)'' st1
                          else (Inr (), st1))
            | Py_Int ptr \<Rightarrow>
                if ptr = 0 \<and> bytes > 0 then (Inl (PyValueError ''device source pointer must be nonzero''), st)
                else py_to_buffer e ptr bytes wh (ww_stream w) DeviceToDevice st
            | Py_Other \<Rightarrow> (Inl (PyTypeError ''source must be bytes or an integer device pointer''), st))"

section \<open>Making wrappers\<close>

definition stream_from_python :: "py_env \<Rightarrow> nat option \<Rightarrow> py_state \<Rightarrow> nat \<times> py_state" where
  "stream_from_python e stream st =
     (case stream of
        Some s \<Rightarrow> (s, st)
      | None \<Rightarrow> (let (s, p) = get_internal_stream (pv_internal e) (py_process st) in (s, st\<lparr>py_process := p\<rparr>)))"

text \<open>\<open>_allocate_buffer\<close>: the new object has the one reference that is returned.\<close>

definition allocate_python_buffer :: "py_env \<Rightarrow> u64 \<Rightarrow> py_state \<Rightarrow> (exn + nat) \<times> py_state" where
  "allocate_python_buffer e n st =
     (let (r, p) = allocate_buffer (pv_alloc e) 1 n (py_process st); st1 = st\<lparr>py_process := p\<rparr>
      in case r of Inl x \<Rightarrow> (Inl x, st1) | Inr b \<Rightarrow> (Inr b, take_ref (Py_Cuda b) st1))"

definition py_get_write :: "py_env \<Rightarrow> nat \<Rightarrow> nat \<Rightarrow> py_state \<Rightarrow> (exn + write_handle) \<times> py_state" where
  "py_get_write e b s st =
     (let (r, p) = from_output_buffer (pv_alloc e) (cp_write (pv_copy e)) 1 (Cuda_Impl b) s (py_process st)
      in (r, st\<lparr>py_process := p\<rparr>))"

definition py_get_read :: "py_env \<Rightarrow> nat \<Rightarrow> nat \<Rightarrow> py_state \<Rightarrow> (exn + read_handle) \<times> py_state" where
  "py_get_read e b s st =
     (let (r, p) = from_input_buffer (pv_alloc e) (pv_copy e) 1 (Cuda_Impl b) s (py_process st)
      in (r, st\<lparr>py_process := p\<rparr>))"

definition promote_output :: "py_env \<Rightarrow> u64 \<Rightarrow> nat \<Rightarrow> py_state \<Rightarrow> (exn + write_wrapper) \<times> py_state" where
  "promote_output e n s st =
     (case allocate_python_buffer e n st of
        (Inl x, st1) \<Rightarrow> (Inl x, st1)
      | (Inr b, st1) \<Rightarrow>
          (case py_get_write e b s st1 of
             (Inl x, st2) \<Rightarrow> (Inl x, drop_ref (Some (Py_Cuda b)) st2)
           | (Inr wh, st2) \<Rightarrow> new_write_wrapper e wh (Py_Cuda b) n s True st2))"

definition promote_input :: "py_env \<Rightarrow> u64 \<Rightarrow> u64 \<Rightarrow> nat \<Rightarrow> py_state \<Rightarrow> (exn + read_wrapper) \<times> py_state" where
  "promote_input e data n s st =
     (if n = 0 then (Inl (CudaError ''from_input_buffer called on empty buffer''), st)
      else case allocate_python_buffer e n st of
        (Inl x, st1) \<Rightarrow> (Inl x, st1)
      | (Inr b, st1) \<Rightarrow>
          (case py_get_write e b s st1 of
             (Inl x, st2) \<Rightarrow> (Inl x, drop_ref (Some (Py_Cuda b)) st2)
           | (Inr wh, st2) \<Rightarrow>
               (let (r, st3) = py_to_buffer e data n wh s HostToDevice st2; st4 = end_write e wh st3
                in case r of
                     Inl x \<Rightarrow> (Inl x, drop_ref (Some (Py_Cuda b)) st4)
                   | Inr _ \<Rightarrow>
                       (case py_get_read e b s st4 of
                          (Inl x, st5) \<Rightarrow> (Inl x, drop_ref (Some (Py_Cuda b)) st5)
                        | (Inr rh, st5) \<Rightarrow>
                            (case py_synchronize e s ''cudaStreamSynchronize(stream)'' st5 of
                               (Inl x, st6) \<Rightarrow> (Inl x, drop_ref (Some (Py_Cuda b)) (end_read e rh st6))
                             | (Inr _, st6) \<Rightarrow> new_read_wrapper e rh (Py_Cuda b) True st6)))))"

text \<open>\<open>_from_output_buffer\<close> and \<open>_from_input_buffer\<close>, whose wrapper takes a reference to the caller's object.\<close>

definition py_from_output :: "py_env \<Rightarrow> py_buffer \<Rightarrow> nat option \<Rightarrow> py_state \<Rightarrow> (exn + write_wrapper) \<times> py_state" where
  "py_from_output e buffer stream st =
     (let (s, st0) = stream_from_python e stream st
      in case buffer of
           Py_Host n host \<Rightarrow> promote_output e n s st0
         | Py_Cuda b \<Rightarrow>
             (case py_get_write e b s st0 of
                (Inl x, st1) \<Rightarrow> (Inl x, st1)
              | (Inr wh, st1) \<Rightarrow>
                  new_write_wrapper e wh buffer (bi_size (pr_impl (py_process st1) b)) s False (take_ref buffer st1)))"

definition py_from_input :: "py_env \<Rightarrow> py_buffer \<Rightarrow> nat option \<Rightarrow> py_state \<Rightarrow> (exn + read_wrapper) \<times> py_state" where
  "py_from_input e buffer stream st =
     (let (s, st0) = stream_from_python e stream st
      in case buffer of
           Py_Host n host \<Rightarrow> promote_input e host n s st0
         | Py_Cuda b \<Rightarrow>
             (case py_get_read e b s st0 of
                (Inl x, st1) \<Rightarrow> (Inl x, st1)
              | (Inr rh, st1) \<Rightarrow> new_read_wrapper e rh buffer False (take_ref buffer st1)))"

text \<open>\<open>_from_output_cpu_data\<close> and \<open>_from_input_cpu_data\<close>, on bytes of the given length at an address.\<close>

definition py_from_output_cpu :: "py_env \<Rightarrow> u64 \<Rightarrow> nat option \<Rightarrow> py_state \<Rightarrow> (exn + write_wrapper) \<times> py_state" where
  "py_from_output_cpu e n stream st = (let (s, st0) = stream_from_python e stream st in promote_output e n s st0)"

definition py_from_input_cpu :: "py_env \<Rightarrow> u64 \<Rightarrow> u64 \<Rightarrow> nat option \<Rightarrow> py_state \<Rightarrow> (exn + read_wrapper) \<times> py_state" where
  "py_from_input_cpu e data n stream st = (let (s, st0) = stream_from_python e stream st in promote_input e data n s st0)"

section \<open>References\<close>

text \<open>
  The state with the references \<open>H\<close> to CUDA buffers that are held somewhere: the counts are right, a buffer that is
  referred to has not ended, its storage is the one that \<open>P\<close> gives, an address and a size, and is as large as the
  implementation says, and a buffer that is not referred to holds nothing.
\<close>

definition storage_of :: "nat \<Rightarrow> process \<Rightarrow> u64 \<times> u64" where
  "storage_of b p = (cb_ptr (cs_buffer (pr_cuda p) b), cb_size (cs_buffer (pr_cuda p) b))"

definition layout_of :: "nat \<Rightarrow> process \<Rightarrow> u64 \<times> u64 \<times> u64" where
  "layout_of b p = (bi_size (pr_impl p b), storage_of b p)"

definition py_inv :: "(nat \<Rightarrow> u64 \<times> u64) \<Rightarrow> nat multiset \<Rightarrow> py_state \<Rightarrow> bool" where
  "py_inv P H st \<longleftrightarrow>
     process_inv (py_process st) \<and> (\<forall>b. py_refs st (Py_Cuda b) = count H b) \<and>
     (\<forall>b. b \<in># H \<longrightarrow> b < pr_next (py_process st) \<and> b \<notin> py_ended st \<and>
        layout_of b (py_process st) = (snd (P b), P b)) \<and>
     (\<forall>b \<in> py_ended st. b < pr_next (py_process st)) \<and>
     (\<forall>b. b \<notin># H \<longrightarrow> cs_buffer (pr_cuda (py_process st)) b = empty_buffer)"

lemma pr_cuda_on_cuda: "pr_cuda (on_cuda f p) = f (pr_cuda p)"
  by (simp add: on_cuda_def)

lemma py_inv_sized:
  assumes "py_inv P H st" and "b \<in># H"
  shows "cb_ptr (cs_buffer (pr_cuda (py_process st)) b) = fst (P b)"
    and "cb_size (cs_buffer (pr_cuda (py_process st)) b) = snd (P b)"
    and "bi_size (pr_impl (py_process st) b) = snd (P b)"
proof -
  have "layout_of b (py_process st) = (snd (P b), P b)" using assms by (simp add: py_inv_def)
  then show "cb_ptr (cs_buffer (pr_cuda (py_process st)) b) = fst (P b)"
    and "cb_size (cs_buffer (pr_cuda (py_process st)) b) = snd (P b)"
    and "bi_size (pr_impl (py_process st) b) = snd (P b)"
    by (cases "P b"; simp add: layout_of_def storage_of_def)+
qed

lemma py_inv_touch:
  assumes "py_inv P H st" and "process_inv p" and "pr_next p = pr_next (py_process st)"
    and "\<And>a. a \<notin># H \<Longrightarrow> cs_buffer (pr_cuda p) a = cs_buffer (pr_cuda (py_process st)) a"
    and "\<And>a. a \<in># H \<Longrightarrow> layout_of a p = layout_of a (py_process st)"
  shows "py_inv P H (st\<lparr>py_process := p\<rparr>)"
  using assms by (simp add: py_inv_def)

lemma py_inv_take: "py_inv P H st \<Longrightarrow> b \<in># H \<Longrightarrow> py_inv P (add_mset b H) (take_ref (Py_Cuda b) st)"
  by (auto simp: py_inv_def take_ref_def)

lemma drop_ref_fields:
  "py_refs (drop_ref (Some (Py_Cuda b)) st) = (py_refs st)(Py_Cuda b := py_refs st (Py_Cuda b) - 1)"
  "py_process (drop_ref (Some (Py_Cuda b)) st) =
     (if py_refs st (Py_Cuda b) \<le> 1 then on_cuda (destroy_buffer b) (py_process st) else py_process st)"
  "py_ended (drop_ref (Some (Py_Cuda b)) st) = (if py_refs st (Py_Cuda b) \<le> 1 then insert b (py_ended st) else py_ended st)"
  by (simp_all add: drop_ref_def on_py_def Let_def)

lemma py_inv_drop:
  assumes "py_inv P (add_mset b H) st"
  shows "py_inv P H (drop_ref (Some (Py_Cuda b)) st)"
proof -
  note i = assms [unfolded py_inv_def]
  have b: "b < pr_next (py_process st)" "b \<notin> py_ended st" using i by simp_all
  have r: "py_refs st (Py_Cuda c) = count (add_mset b H) c" for c using i by blast
  have k: "py_refs st (Py_Cuda b) \<le> 1 \<longleftrightarrow> b \<notin># H" by (simp add: r not_in_iff)
  show ?thesis
  proof (cases "b \<in># H")
    case True
    then show ?thesis
      unfolding py_inv_def drop_ref_fields k using i by (simp add: r) (metis insert_iff set_mset_add_mset_insert)
  next
    case False
    have "process_inv (on_cuda (destroy_buffer b) (py_process st))" using i b(1) by (simp add: keeps_destroy)
    moreover have "cs_buffer (destroy_buffer b (pr_cuda (py_process st))) a = empty_buffer" if "a \<notin># H" for a
      using i that by (cases "a = b") (simp_all add: destroy_buffer_def)
    moreover have "layout_of a (on_cuda (destroy_buffer b) (py_process st)) = layout_of a (py_process st)" if "a \<in># H" for a
      using False that by (cases "a = b") (simp_all add: destroy_buffer_def layout_of_def storage_of_def on_cuda_def)
    ultimately show ?thesis
      unfolding py_inv_def drop_ref_fields k using i b False by (auto simp: r)
  qed
qed

text \<open>An allocation only makes the buffer at the next address, which has the size that was asked for.\<close>

lemma allocate_buffer_storage:
  assumes "allocate_buffer e 1 n p = (r, p')"
  shows "a \<noteq> pr_next p \<Longrightarrow> cs_buffer (pr_cuda p') a = cs_buffer (pr_cuda p) a \<and> pr_impl p' a = pr_impl p a"
    and "r = Inl x \<Longrightarrow> cs_buffer (pr_cuda p') (pr_next p) = empty_buffer"
    and "r = Inr b \<Longrightarrow> b = pr_next p \<and> bi_size (pr_impl p' b) = n \<and> cb_size (cs_buffer (pr_cuda p') b) = n"
proof -
  let ?b = "pr_next p"
  obtain p1 where f: "fresh_impl n p = (?b, p1)" by (simp add: fresh_impl_def)
  have p1: "cs_buffer (pr_cuda p1) = (cs_buffer (pr_cuda p))(?b := empty_buffer)"
    "pr_impl p1 = (pr_impl p)(?b := \<lparr>bi_size = n, bi_stream = 0\<rparr>)"
    using f by (auto simp: fresh_impl_def upd_impl_def on_cuda_def)
  obtain r2 p2 where g: "allocate_buffer_internal e 1 ?b n p1 = (r2, p2)" by (cases "allocate_buffer_internal e 1 ?b n p1")
  note ai = allocate_internal_fields(2,4,5) [OF g]
  have p: "p' = (if n > 0 then p2 else p1)" using assms f g by (cases r2) (auto simp: allocate_buffer_def split: if_splits)
  show "cs_buffer (pr_cuda p') a = cs_buffer (pr_cuda p) a \<and> pr_impl p' a = pr_impl p a" if "a \<noteq> ?b"
    using ai(1) ai(2) [OF that] p p1 that by simp
  show "cs_buffer (pr_cuda p') ?b = empty_buffer" if "r = Inl x"
  proof -
    have "r2 = Inl x" "p' = p2" using assms f g that by (cases r2; auto simp: allocate_buffer_def split: if_splits)+
    then show ?thesis using ai(3) p1 by simp
  qed
  show "b = ?b \<and> bi_size (pr_impl p' b) = n \<and> cb_size (cs_buffer (pr_cuda p') b) = n" if "r = Inr b"
  proof (cases "n > 0")
    case False
    then have "b = ?b" "n = 0" using assms f that by (auto simp: allocate_buffer_def word_gt_0)
    then show ?thesis using p p1 by (simp add: empty_buffer_def)
  next
    case True
    then have b: "b = ?b" "r2 = Inr ()" using assms f g that by (cases r2; auto simp: allocate_buffer_def)+
    from g have "cb_size (cs_buffer (pr_cuda p2) ?b) = n"
      by (cases rule: allocate_buffer_internal_cases)
        (use b(2) in \<open>auto simp: Let_def assign_buffer_def set_write_event_def make_buffer_def\<close>)
    then show ?thesis using b(1) p True ai(1) p1(2) by simp
  qed
qed

lemma allocate_python_buffer_inv:
  assumes "allocate_python_buffer e n st = (r, st')" and "py_inv P H st"
  shows "case r of Inl x \<Rightarrow> py_inv P H st' | Inr b \<Rightarrow> b \<notin># H \<and>
    (\<exists>x. py_inv (P(b := (x, n))) (add_mset b H) st')"
proof -
  let ?p = "py_process st"
  obtain r1 p where a: "allocate_buffer (pv_alloc e) 1 n ?p = (r1, p)" by (cases "allocate_buffer (pv_alloc e) 1 n ?p")
  have i: "process_inv ?p" using assms(2) by (simp add: py_inv_def)
  note ai = allocate_buffer_inv(1,2) [OF a i]
  note al = allocate_buffer_storage [OF a]
  have n: "pr_next ?p \<notin># H" "pr_next ?p \<notin> py_ended st" using assms(2) by (auto simp: py_inv_def)
  have keep: "layout_of a p = (snd (P a), P a)" if "a \<in># H" for a
    using al(1) [of a] n(1) assms(2) that by (cases "a = pr_next ?p") (simp_all add: py_inv_def layout_of_def storage_of_def)
  show ?thesis
  proof (cases r1)
    case (Inl x)
    then have "r = Inl x" "st' = st\<lparr>py_process := p\<rparr>" using assms(1) a by (simp_all add: allocate_python_buffer_def)
    moreover have "cs_buffer (pr_cuda p) a = empty_buffer" if "a \<notin># H" for a
      using al(1) [of a] al(2) [OF Inl] assms(2) that by (cases "a = pr_next ?p") (simp_all add: py_inv_def)
    ultimately show ?thesis using assms(2) ai keep by (fastforce simp: py_inv_def)
  next
    case (Inr b)
    have b: "b = pr_next ?p" "bi_size (pr_impl p b) = n" "cb_size (cs_buffer (pr_cuda p) b) = n"
      using al(3) [OF Inr] by blast+
    have r: "r = Inr b" "st' = take_ref (Py_Cuda b) (st\<lparr>py_process := p\<rparr>)"
      using assms(1) a Inr by (simp_all add: allocate_python_buffer_def)
    have old: "cs_buffer (pr_cuda p) a = empty_buffer" if "a \<notin># H" "a \<noteq> b" for a
      using al(1) [of a] assms(2) that b(1) by (simp add: py_inv_def)
    have new: "layout_of b p = (n, cb_ptr (cs_buffer (pr_cuda p) b), n)" using b by (simp add: layout_of_def storage_of_def)
    have "py_inv (P(b := (cb_ptr (cs_buffer (pr_cuda p) b), n))) (add_mset b H) st'"
      using assms(2) ai n old keep new b(1) unfolding r(2)
      by (auto simp: py_inv_def take_ref_def less_Suc_eq not_in_iff)
    then show ?thesis using r(1) n b(1) by auto
  qed
qed

section \<open>Handles of the bindings\<close>

text \<open>A wrapper that is open has a handle on the buffer of its owner.\<close>

definition read_on :: "(nat \<Rightarrow> u64 \<times> u64) \<Rightarrow> nat \<Rightarrow> read_handle \<Rightarrow> bool" where
  "read_on P b rh \<longleftrightarrow> rh_events rh = Some b \<and> rh_promoted rh = None \<and> rh_ptr rh = fst (P b)"

definition write_on :: "(nat \<Rightarrow> u64 \<times> u64) \<Rightarrow> nat \<Rightarrow> write_handle \<Rightarrow> bool" where
  "write_on P b wh \<longleftrightarrow> wh_event wh = Some b \<and> wh_promoted wh = None \<and> wh_ptr wh = fst (P b)"

lemma get_read_buffer:
  assumes "get_read_handle e b s st = (r, st')"
  shows "a \<noteq> b \<Longrightarrow> cs_buffer st' a = cs_buffer st a" and "cb_ptr (cs_buffer st' a) = cb_ptr (cs_buffer st a)"
    and "cb_size (cs_buffer st' a) = cb_size (cs_buffer st a)"
    and "r = Inr rh \<Longrightarrow> cb_ptr (cs_buffer st b) = fst (P b) \<Longrightarrow> read_on P b rh"
  using get_read_handle_buffer(1,4) [OF assms] by (auto simp: read_on_def)

lemma get_write_buffer:
  assumes "get_write_handle e b s st = (r, st')"
  shows "a \<noteq> b \<Longrightarrow> cs_buffer st' a = cs_buffer st a" and "cb_ptr (cs_buffer st' a) = cb_ptr (cs_buffer st a)"
    and "cb_size (cs_buffer st' a) = cb_size (cs_buffer st a)"
    and "r = Inr wh \<Longrightarrow> cb_ptr (cs_buffer st b) = fst (P b) \<Longrightarrow> write_on P b wh"
proof -
  have o: "cs_buffer (reap_completed_read_events e b st) a = cs_buffer st a" if "a \<noteq> b" for a
    using that by (simp add: reap_completed_read_events_def Let_def)
  have c: "cb_ptr (cs_buffer (reap_completed_read_events e b st) a) = cb_ptr (cs_buffer st a)"
    "cb_size (cs_buffer (reap_completed_read_events e b st) a) = cb_size (cs_buffer st a)" for a
    by (cases "a = b") (simp_all add: reap_completed_read_events_def Let_def)
  have "(a \<noteq> b \<longrightarrow> cs_buffer st' a = cs_buffer st a) \<and> cb_ptr (cs_buffer st' a) = cb_ptr (cs_buffer st a) \<and>
      cb_size (cs_buffer st' a) = cb_size (cs_buffer st a)"
  proof (cases r)
    case (Inl x)
    then show ?thesis using get_write_handle_cases(1) [OF assms Inl] o c by simp
  next
    case (Inr h)
    then show ?thesis using get_write_handle_cases(2) [OF assms Inr] o [of a] c [where a = a] by auto
  qed
  then show "a \<noteq> b \<Longrightarrow> cs_buffer st' a = cs_buffer st a" and "cb_ptr (cs_buffer st' a) = cb_ptr (cs_buffer st a)"
    and "cb_size (cs_buffer st' a) = cb_size (cs_buffer st a)" by simp_all
  show "write_on P b wh" if "r = Inr wh" "cb_ptr (cs_buffer st b) = fst (P b)"
    using get_write_handle_cases(2) [OF assms that(1)] that(2) by (auto simp: write_on_def)
qed

lemma py_get_write_inv:
  assumes "py_get_write e b s st = (r, st')" and "py_inv P H st" and "b \<in># H"
  shows "py_inv P H st'" and "r = Inr wh \<Longrightarrow> write_on P b wh"
proof -
  let ?p = "py_process st"
  obtain r1 p where f: "from_output_buffer (pv_alloc e) (cp_write (pv_copy e)) 1 (Cuda_Impl b) s ?p = (r1, p)"
    by (cases "from_output_buffer (pv_alloc e) (cp_write (pv_copy e)) 1 (Cuda_Impl b) s ?p")
  have r: "r = r1" "st' = st\<lparr>py_process := p\<rparr>" using assms(1) f by (simp_all add: py_get_write_def)
  have i: "process_inv ?p" using assms(2) by (simp add: py_inv_def)
  have c: "cb_ptr (cs_buffer (pr_cuda ?p) b) = fst (P b)" using py_inv_sized(1) [OF assms(2,3)] .
  have p: "process_inv p" using from_output_buffer_inv [OF f i] by simp
  have "pr_next p = pr_next ?p \<and> (\<forall>a. a \<noteq> b \<longrightarrow> cs_buffer (pr_cuda p) a = cs_buffer (pr_cuda ?p) a) \<and>
      (\<forall>a. layout_of a p = layout_of a ?p) \<and> (\<forall>wh. r1 = Inr wh \<longrightarrow> write_on P b wh)"
  proof (cases "bi_size (pr_impl ?p b) = 0")
    case True
    then show ?thesis using f by (auto simp: from_output_buffer_def)
  next
    case False
    then have "get_write (cp_write (pv_copy e)) b s (set_stream b s ?p) = (r1, p)" using f by (simp add: from_output_buffer_def)
    then obtain st1 where g: "get_write_handle (cp_write (pv_copy e)) b s (pr_cuda ?p) = (r1, st1)"
      "p = (set_stream b s ?p)\<lparr>pr_cuda := st1\<rparr>"
      by (auto simp: get_write_alt set_stream_def)
    then show ?thesis using get_write_buffer [OF g(1)] c by (simp add: set_stream_def layout_of_def storage_of_def upd_impl_def)
  qed
  note k = this
  show "py_inv P H st'"
    unfolding r(2) by (rule py_inv_touch [OF assms(2) p]) (use k assms(3) in auto)
  show "r = Inr wh \<Longrightarrow> write_on P b wh" using k r(1) by simp
qed

lemma py_get_read_inv:
  assumes "py_get_read e b s st = (r, st')" and "py_inv P H st" and "b \<in># H"
  shows "py_inv P H st'" and "r = Inr rh \<Longrightarrow> read_on P b rh"
proof -
  let ?p = "py_process st"
  obtain r1 p where f: "from_input_buffer (pv_alloc e) (pv_copy e) 1 (Cuda_Impl b) s ?p = (r1, p)"
    by (cases "from_input_buffer (pv_alloc e) (pv_copy e) 1 (Cuda_Impl b) s ?p")
  have r: "r = r1" "st' = st\<lparr>py_process := p\<rparr>" using assms(1) f by (simp_all add: py_get_read_def)
  have i: "process_inv ?p" using assms(2) by (simp add: py_inv_def)
  have c: "cb_ptr (cs_buffer (pr_cuda ?p) b) = fst (P b)" using py_inv_sized(1) [OF assms(2,3)] .
  have p: "process_inv p" using from_input_buffer_inv [OF f i] by simp
  have "pr_next p = pr_next ?p \<and> (\<forall>a. a \<noteq> b \<longrightarrow> cs_buffer (pr_cuda p) a = cs_buffer (pr_cuda ?p) a) \<and>
      (\<forall>a. layout_of a p = layout_of a ?p) \<and> (\<forall>rh. r1 = Inr rh \<longrightarrow> read_on P b rh)"
  proof (cases "bi_size (pr_impl ?p b) = 0")
    case True
    then show ?thesis using f by (auto simp: from_input_buffer_def)
  next
    case False
    then have "get_read (cp_read (pv_copy e)) b s ?p = (r1, p)" using f by (simp add: from_input_buffer_def)
    then obtain st1 where g: "get_read_handle (cp_read (pv_copy e)) b s (pr_cuda ?p) = (r1, st1)" "p = ?p\<lparr>pr_cuda := st1\<rparr>"
      unfolding get_read_def by (cases "get_read_handle (cp_read (pv_copy e)) b s (pr_cuda ?p)") auto
    then show ?thesis using get_read_buffer [OF g(1)] c by (simp add: layout_of_def storage_of_def)
  qed
  note k = this
  show "py_inv P H st'"
    unfolding r(2) by (rule py_inv_touch [OF assms(2) p]) (use k assms(3) in auto)
  show "r = Inr rh \<Longrightarrow> read_on P b rh" using k r(1) by simp
qed

lemma on_py_inv:
  assumes "py_inv P H st" and "process_inv (on_cuda f (py_process st))"
    and "\<And>a. a \<notin># H \<Longrightarrow> cs_buffer (f (pr_cuda (py_process st))) a = cs_buffer (pr_cuda (py_process st)) a"
    and "\<And>a. a \<in># H \<Longrightarrow> storage_of a (on_cuda f (py_process st)) = storage_of a (py_process st)"
  shows "py_inv P H (on_py (on_cuda f) st)"
  unfolding on_py_def by (rule py_inv_touch [OF assms(1,2)]) (simp_all add: assms(3,4) layout_of_def)

lemma gpu_py_inv: "py_inv P H st \<Longrightarrow> py_inv P H (on_py (on_cuda (gpu cs)) st)"
  by (rule on_py_inv) (simp_all add: keeps_on_cuda same_storage_calls py_inv_def storage_of_def pr_cuda_on_cuda)

lemma end_read_inv:
  assumes "py_inv P H st" and "read_on P b rh" and "b \<in># H"
  shows "py_inv P H (end_read e rh st)"
proof -
  have d: "destroy_read_handle g True rh x = read_release g rh x" for g x
    using assms(2) by (simp add: destroy_read_handle_def drop_promoted_def read_on_def)
  have "cs_buffer (read_release g rh x) a = cs_buffer x a" if "a \<notin># H" for g x a
  proof -
    have "a \<noteq> b" using that assms(3) by blast
    then show ?thesis using assms(2) by (auto simp: read_release_def read_on_def split: prod.splits)
  qed
  moreover have "cb_ptr (cs_buffer (read_release g rh x) a) = cb_ptr (cs_buffer x a) \<and>
      cb_size (cs_buffer (read_release g rh x) a) = cb_size (cs_buffer x a)" for g x a
    by (auto simp: read_release_def split: prod.splits option.splits)
  ultimately show ?thesis
    unfolding end_read_def using assms(1,3)
    by (intro on_py_inv) (auto simp: d keeps_on_cuda same_storage_calls py_inv_def storage_of_def pr_cuda_on_cuda)
qed

lemma end_write_inv:
  assumes "py_inv P H st" and "write_on P b wh"
  shows "py_inv P H (end_write e wh st)"
proof -
  have d: "destroy_write_handle g True wh x = write_release g wh x" for g x
    using assms(2) by (simp add: destroy_write_handle_def drop_promoted_def write_on_def)
  have "cs_buffer (write_release g wh x) a = cs_buffer x a" for g x a
    by (simp add: write_release_def Let_def split: option.splits)
  then show ?thesis
    unfolding end_write_def using assms(1)
    by (intro on_py_inv) (auto simp: d keeps_on_cuda same_storage_calls py_inv_def storage_of_def pr_cuda_on_cuda)
qed

lemma py_to_buffer_inv:
  assumes "py_to_buffer e src n wh s kind st = (r, st')" and "py_inv P H st"
  shows "py_inv P H st'"
proof -
  obtain x p where t: "to_buffer (pv_memcpy e) src n wh s kind (py_process st) = (x, p)"
    by (cases "to_buffer (pv_memcpy e) src n wh s kind (py_process st)")
  obtain c where c: "p = (py_process st)\<lparr>pr_cuda := c\<rparr>" "same_storage (pr_cuda (py_process st)) c"
    using to_buffer_same [OF t] by blast
  have i: "process_inv (py_process st)" using assms(2) by (simp add: py_inv_def)
  have "cs_buffer (pr_cuda p) = cs_buffer (pr_cuda (py_process st))"
    using t by (auto simp: to_buffer_def memcpy_async_def Let_def split: if_splits)
  then have "py_inv P H (st\<lparr>py_process := p\<rparr>)"
    using py_inv_touch [OF assms(2)] keeps_same [OF i c(2)] unfolding c(1) by (simp add: layout_of_def storage_of_def)
  then show ?thesis using assms(1) t by (simp add: py_to_buffer_def)
qed

lemma py_synchronize_inv:
  assumes "py_synchronize e s c st = (r, st')" and "py_inv P H st"
  shows "py_inv P H st'"
  using assms gpu_py_inv by (auto simp: py_synchronize_def split: if_splits)

lemma stream_from_python_inv:
  assumes "stream_from_python e stream st = (s, st')" and "py_inv P H st"
  shows "py_inv P H st'"
  using assms
  by (auto simp: stream_from_python_def get_internal_stream_def Let_def py_inv_def process_inv_def layout_of_def storage_of_def
      split: option.splits)

definition wraps_read :: "(nat \<Rightarrow> u64 \<times> u64) \<Rightarrow> read_wrapper \<Rightarrow> bool" where
  "wraps_read P w \<longleftrightarrow> (case rw_handle w of None \<Rightarrow> rw_owner w = None | Some rh \<Rightarrow> \<exists>b. rw_owner w = Some (Py_Cuda b) \<and> read_on P b rh)"

definition wraps_write :: "(nat \<Rightarrow> u64 \<times> u64) \<Rightarrow> write_wrapper \<Rightarrow> bool" where
  "wraps_write P w \<longleftrightarrow> (case ww_handle w of None \<Rightarrow> ww_owner w = None | Some wh \<Rightarrow> \<exists>b. ww_owner w = Some (Py_Cuda b) \<and> write_on P b wh \<and>
     ww_size w = snd (P b))"

fun owner_ref :: "py_buffer option \<Rightarrow> nat multiset" where
  "owner_ref (Some (Py_Cuda b)) = {#b#}"
| "owner_ref _ = {#}"

lemma new_read_wrapper_inv:
  assumes "new_read_wrapper e rh (Py_Cuda b) promoted st = (r, st')" and "py_inv P (add_mset b H) st" and "read_on P b rh"
  shows "case r of Inl x \<Rightarrow> py_inv P H st' | Inr w \<Rightarrow> wraps_read P w \<and> py_inv P (owner_ref (rw_owner w) + H) st'"
  using assms py_inv_drop [OF end_read_inv [OF assms(2,3)], of e]
  by (auto simp: new_read_wrapper_def wraps_read_def split: if_splits)

lemma new_write_wrapper_inv:
  assumes "new_write_wrapper e wh (Py_Cuda b) n s promoted st = (r, st')" and "py_inv P (add_mset b H) st" and "write_on P b wh"
    and "n = snd (P b)"
  shows "case r of Inl x \<Rightarrow> py_inv P H st' | Inr w \<Rightarrow> wraps_write P w \<and> py_inv P (owner_ref (ww_owner w) + H) st'"
  using assms py_inv_drop [OF end_write_inv [OF assms(2,3)], of e]
  by (auto simp: new_write_wrapper_def wraps_write_def split: if_splits)

lemma promote_output_inv:
  assumes "promote_output e n s st = (r, st')" and "py_inv P H st"
  shows "case r of Inl x \<Rightarrow> py_inv P H st' | Inr w \<Rightarrow>
    (\<exists>P'. (\<forall>a \<in># H. P' a = P a) \<and> wraps_write P' w \<and> py_inv P' (owner_ref (ww_owner w) + H) st')"
proof -
  obtain r1 st1 where a: "allocate_python_buffer e n st = (r1, st1)" by (cases "allocate_python_buffer e n st")
  note ai = allocate_python_buffer_inv [OF a assms(2)]
  show ?thesis
  proof (cases r1)
    case (Inl x)
    then show ?thesis using assms(1) a ai by (auto simp: promote_output_def)
  next
    case (Inr b)
    then obtain x where n: "b \<notin># H" and i1: "py_inv (P(b := (x, n))) (add_mset b H) st1" using ai by auto
    define P' where "P' = P(b := (x, n))"
    have s: "n = snd (P' b)" by (simp add: P'_def)
    have P: "\<forall>a \<in># H. P' a = P a" "py_inv P H s \<longleftrightarrow> py_inv P' H s" for s
      using n by (auto simp: P'_def py_inv_def)
    note i1 = i1 [folded P'_def]
    obtain r2 st2 where g: "py_get_write e b s st1 = (r2, st2)" by (cases "py_get_write e b s st1")
    note gi = py_get_write_inv [OF g i1]
    show ?thesis
    proof (cases r2)
      case (Inl x)
      then show ?thesis using assms(1) a Inr g py_inv_drop [OF gi(1)] by (auto simp: promote_output_def P(2))
    next
      case wh: (Inr wh)
      have "new_write_wrapper e wh (Py_Cuda b) n s True st2 = (r, st')"
        using assms(1) a Inr g wh by (simp add: promote_output_def)
      from new_write_wrapper_inv [OF this gi(1) gi(2) [OF _ wh]] P s show ?thesis by (cases r) auto
    qed
  qed
qed

lemma promote_input_inv:
  assumes "promote_input e data n s st = (r, st')" and "py_inv P H st"
  shows "case r of Inl x \<Rightarrow> py_inv P H st' | Inr w \<Rightarrow>
    (\<exists>P'. (\<forall>a \<in># H. P' a = P a) \<and> wraps_read P' w \<and> py_inv P' (owner_ref (rw_owner w) + H) st')"
proof (cases "n = 0")
  case True
  then show ?thesis using assms by (auto simp: promote_input_def)
next
  case False
  note c0 = assms(1) [unfolded promote_input_def if_not_P [OF False]]
  obtain r1 st1 where a: "allocate_python_buffer e n st = (r1, st1)" by (cases "allocate_python_buffer e n st")
  note ai = allocate_python_buffer_inv [OF a assms(2)]
  show ?thesis
  proof (cases r1)
    case (Inl x)
    then show ?thesis using c0 a ai by auto
  next
    case (Inr b)
    then obtain x where n: "b \<notin># H" and i1: "py_inv (P(b := (x, n))) (add_mset b H) st1" using ai by auto
    define P' where "P' = P(b := (x, n))"
    have s: "n = snd (P' b)" by (simp add: P'_def)
    have P: "\<forall>a \<in># H. P' a = P a" "py_inv P H s \<longleftrightarrow> py_inv P' H s" for s
      using n by (auto simp: P'_def py_inv_def)
    note i1 = i1 [folded P'_def]
    obtain r2 st2 where g: "py_get_write e b s st1 = (r2, st2)" by (cases "py_get_write e b s st1")
    note gi = py_get_write_inv [OF g i1]
    note c1 = c0 [unfolded a prod.case Inr sum.case g]
    show ?thesis
    proof (cases r2)
      case (Inl x)
      then show ?thesis using c1 py_inv_drop [OF gi(1)] by (auto simp: P(2))
    next
      case wh: (Inr wh)
      obtain r3 st3 where t: "py_to_buffer e data n wh s HostToDevice st2 = (r3, st3)"
        by (cases "py_to_buffer e data n wh s HostToDevice st2")
      have i2: "py_inv P' (add_mset b H) st2" "write_on P' b wh" using gi wh by simp_all
      have i4: "py_inv P' (add_mset b H) (end_write e wh st3)"
        by (rule end_write_inv [OF py_to_buffer_inv [OF t i2(1)] i2(2)])
      note c2 = c1 [unfolded wh sum.case Let_def t prod.case]
      show ?thesis
      proof (cases r3)
        case (Inl x)
        then show ?thesis using c2 py_inv_drop [OF i4] by (auto simp: P(2))
      next
        case ok: (Inr u)
        obtain r5 st5 where g5: "py_get_read e b s (end_write e wh st3) = (r5, st5)"
          by (cases "py_get_read e b s (end_write e wh st3)")
        note ri = py_get_read_inv [OF g5 i4]
        note c3 = c2 [unfolded ok sum.case g5 prod.case]
        show ?thesis
        proof (cases r5)
          case (Inl x)
          then show ?thesis using c3 py_inv_drop [OF ri(1)] by (auto simp: P(2))
        next
          case rh: (Inr rh)
          obtain r6 st6 where y: "py_synchronize e s ''cudaStreamSynchronize(stream)'' st5 = (r6, st6)"
            by (cases "py_synchronize e s ''cudaStreamSynchronize(stream)'' st5")
          have i6: "py_inv P' (add_mset b H) st6" "read_on P' b rh"
            using py_synchronize_inv [OF y] ri rh by simp_all
          note c4 = c3 [unfolded rh sum.case y prod.case]
          show ?thesis
          proof (cases r6)
            case (Inl x)
            then show ?thesis using c4 py_inv_drop [OF end_read_inv [OF i6]] by (auto simp: P(2))
          next
            case (Inr v)
            then have "new_read_wrapper e rh (Py_Cuda b) True st6 = (r, st')" using c4 by simp
            from new_read_wrapper_inv [OF this i6] P show ?thesis by (cases r) auto
          qed
        qed
      qed
    qed
  qed
qed

lemma py_from_output_inv:
  assumes "py_from_output e buffer stream st = (r, st')" and "py_inv P H st" and "\<forall>b. buffer = Py_Cuda b \<longrightarrow> b \<in># H"
  shows "case r of Inl x \<Rightarrow> py_inv P H st' | Inr w \<Rightarrow>
    (\<exists>P'. (\<forall>a \<in># H. P' a = P a) \<and> wraps_write P' w \<and> py_inv P' (owner_ref (ww_owner w) + H) st')"
proof -
  obtain s st0 where s: "stream_from_python e stream st = (s, st0)" by (cases "stream_from_python e stream st")
  note i0 = stream_from_python_inv [OF s assms(2)]
  note c0 = assms(1) [unfolded py_from_output_def s Let_def prod.case]
  show ?thesis
  proof (cases buffer)
    case (Py_Host n host)
    then show ?thesis using promote_output_inv [OF _ i0] c0 by simp
  next
    case (Py_Cuda b)
    then have b: "b \<in># H" using assms(3) by blast
    obtain r1 st1 where g: "py_get_write e b s st0 = (r1, st1)" by (cases "py_get_write e b s st0")
    note gi = py_get_write_inv [OF g i0 b]
    show ?thesis
    proof (cases r1)
      case (Inl x)
      then show ?thesis using c0 Py_Cuda g gi(1) by auto
    next
      case (Inr wh)
      with c0 Py_Cuda g have "new_write_wrapper e wh (Py_Cuda b) (bi_size (pr_impl (py_process st1) b)) s False
          (take_ref (Py_Cuda b) st1) = (r, st')" by simp
      from new_write_wrapper_inv [OF this py_inv_take [OF gi(1) b] gi(2) [OF Inr] py_inv_sized(3) [OF gi(1) b]]
      show ?thesis by (cases r) auto
    qed
  qed
qed

lemma py_from_input_inv:
  assumes "py_from_input e buffer stream st = (r, st')" and "py_inv P H st" and "\<forall>b. buffer = Py_Cuda b \<longrightarrow> b \<in># H"
  shows "case r of Inl x \<Rightarrow> py_inv P H st' | Inr w \<Rightarrow>
    (\<exists>P'. (\<forall>a \<in># H. P' a = P a) \<and> wraps_read P' w \<and> py_inv P' (owner_ref (rw_owner w) + H) st')"
proof -
  obtain s st0 where s: "stream_from_python e stream st = (s, st0)" by (cases "stream_from_python e stream st")
  note i0 = stream_from_python_inv [OF s assms(2)]
  note c0 = assms(1) [unfolded py_from_input_def s Let_def prod.case]
  show ?thesis
  proof (cases buffer)
    case (Py_Host n host)
    then show ?thesis using promote_input_inv [OF _ i0] c0 by simp
  next
    case (Py_Cuda b)
    then have b: "b \<in># H" using assms(3) by blast
    obtain r1 st1 where g: "py_get_read e b s st0 = (r1, st1)" by (cases "py_get_read e b s st0")
    note gi = py_get_read_inv [OF g i0 b]
    show ?thesis
    proof (cases r1)
      case (Inl x)
      then show ?thesis using c0 Py_Cuda g gi(1) by auto
    next
      case (Inr rh)
      with c0 Py_Cuda g have "new_read_wrapper e rh (Py_Cuda b) False (take_ref (Py_Cuda b) st1) = (r, st')" by simp
      from new_read_wrapper_inv [OF this py_inv_take [OF gi(1) b] gi(2) [OF Inr]]
      show ?thesis by (cases r) auto
    qed
  qed
qed

lemma copy_from_inv:
  assumes "copy_from e source n stream w st = (r, st')" and "py_inv P H st"
  shows "py_inv P H st'"
proof -
  have 1: "py_inv P H (snd (py_to_buffer e src k wh s kind st))" for src k wh s kind
    by (rule py_to_buffer_inv [OF _ assms(2)]) (rule prod.collapse [symmetric])
  have 2: "py_inv P H (snd (py_synchronize e s c x))" if "py_inv P H x" for s c x
    by (rule py_synchronize_inv [OF _ that]) (rule prod.collapse [symmetric])
  have "py_inv P H (snd (copy_from e source n stream w st))"
    using assms(2) 1 2
    by (auto simp: copy_from_def split_beta split: option.splits py_source.splits sum.splits)
  then show ?thesis using assms(1) by simp
qed

lemma close_read_inv:
  assumes "close_read e w st = (w', st')" and "wraps_read P w" and "py_inv P (owner_ref (rw_owner w) + H) st"
  shows "wraps_read P w' \<and> rw_owner w' = None \<and> py_inv P H st'"
proof (cases "rw_handle w")
  case None
  then show ?thesis using assms by (auto simp: close_read_def wraps_read_def drop_ref_def)
next
  case (Some rh)
  with assms(2) obtain b where b: "rw_owner w = Some (Py_Cuda b)" "read_on P b rh" by (auto simp: wraps_read_def)
  then have i: "py_inv P (add_mset b H) st" using assms(3) by simp
  from py_inv_drop [OF end_read_inv [OF i b(2)], of e] show ?thesis
    using assms(1) Some b(1) by (auto simp: close_read_def wraps_read_def)
qed

lemma close_write_inv:
  assumes "close_write e w st = (w', st')" and "wraps_write P w" and "py_inv P (owner_ref (ww_owner w) + H) st"
  shows "wraps_write P w' \<and> ww_owner w' = None \<and> py_inv P H st'"
proof (cases "ww_handle w")
  case None
  then show ?thesis using assms by (auto simp: close_write_def wraps_write_def drop_ref_def)
next
  case (Some wh)
  with assms(2) obtain b where b: "ww_owner w = Some (Py_Cuda b)" "write_on P b wh" by (auto simp: wraps_write_def)
  then have i: "py_inv P (add_mset b H) st" using assms(3) by simp
  from py_inv_drop [OF end_write_inv [OF i b(2)], of e] show ?thesis
    using assms(1) Some b(1) by (auto simp: close_write_def wraps_write_def)
qed

end
