(* ===== verification/Python_Programs.thy ===== *)
theory Python_Programs
  imports Cuda_Python
begin

text \<open>
  Python programs over the bindings of \<open>cuda_buffer_py.cpp\<close>: a step relation in which a program allocates buffers, makes,
  uses and closes wrappers and copies and forgets references, with the invariant of its reachable states; then
  the copies of \<open>_to_buffer\<close> and of a promotion.
\<close>

section \<open>Programs in Python\<close>

text \<open>
  A Python program over the bindings: references of its own to buffers with CUDA storage, and the wrappers it has made, closed or
  open. It calls the bindings in any order with any answers of the runtime, copies and forgets
  references, and the recycler takes its turns.
\<close>

record py_world =
  yw_state :: py_state
  yw_users :: "nat list"
  yw_reads :: "read_wrapper list"
  yw_writes :: "write_wrapper list"

fun results :: "exn + 'a \<Rightarrow> 'a list" where
  "results (Inl x) = []"
| "results (Inr a) = [a]"

definition may_use :: "py_world \<Rightarrow> py_buffer \<Rightarrow> bool" where
  "may_use w buffer \<longleftrightarrow> (\<forall>b. buffer = Py_Cuda b \<longrightarrow> b \<in> set (yw_users w))"

inductive py_step :: "py_world \<Rightarrow> py_world \<Rightarrow> bool" where
  allocated: "allocate_python_buffer e n (yw_state w) = (r, st) \<Longrightarrow>
    py_step w (w\<lparr>yw_state := st, yw_users := results r @ yw_users w\<rparr>)"
| shared: "b \<in> set (yw_users w) \<Longrightarrow>
    py_step w (w\<lparr>yw_state := take_ref (Py_Cuda b) (yw_state w), yw_users := b # yw_users w\<rparr>)"
| forgotten: "b \<in> set (yw_users w) \<Longrightarrow>
    py_step w (w\<lparr>yw_state := drop_ref (Some (Py_Cuda b)) (yw_state w), yw_users := remove1 b (yw_users w)\<rparr>)"
| to_write: "may_use w buffer \<Longrightarrow> py_from_output e buffer stream (yw_state w) = (rw, st) \<Longrightarrow>
    py_step w (w\<lparr>yw_state := st, yw_writes := results rw @ yw_writes w\<rparr>)"
| to_read: "may_use w buffer \<Longrightarrow> py_from_input e buffer stream (yw_state w) = (rr, st) \<Longrightarrow>
    py_step w (w\<lparr>yw_state := st, yw_reads := results rr @ yw_reads w\<rparr>)"
| to_write_cpu: "py_from_output_cpu e n stream (yw_state w) = (rw, st) \<Longrightarrow>
    py_step w (w\<lparr>yw_state := st, yw_writes := results rw @ yw_writes w\<rparr>)"
| to_read_cpu: "py_from_input_cpu e data n stream (yw_state w) = (rr, st) \<Longrightarrow>
    py_step w (w\<lparr>yw_state := st, yw_reads := results rr @ yw_reads w\<rparr>)"
| copied: "i < length (yw_writes w) \<Longrightarrow> copy_from e source k stream (yw_writes w ! i) (yw_state w) = (ru, st) \<Longrightarrow>
    py_step w (w\<lparr>yw_state := st\<rparr>)"
| promoted_read: "i < length (yw_reads w) \<Longrightarrow> read_promoted_buffer (yw_reads w ! i) = Inr (Some (Py_Cuda b)) \<Longrightarrow>
    py_step w (w\<lparr>yw_state := take_ref (Py_Cuda b) (yw_state w), yw_users := b # yw_users w\<rparr>)"
| promoted_write: "i < length (yw_writes w) \<Longrightarrow> write_promoted_buffer (yw_writes w ! i) = Inr (Some (Py_Cuda b)) \<Longrightarrow>
    py_step w (w\<lparr>yw_state := take_ref (Py_Cuda b) (yw_state w), yw_users := b # yw_users w\<rparr>)"
| closed_read: "i < length (yw_reads w) \<Longrightarrow> close_read e (yw_reads w ! i) (yw_state w) = (x, st) \<Longrightarrow>
    py_step w (w\<lparr>yw_state := st, yw_reads := (yw_reads w)[i := x]\<rparr>)"
| closed_write: "i < length (yw_writes w) \<Longrightarrow> close_write e (yw_writes w ! i) (yw_state w) = (y, st) \<Longrightarrow>
    py_step w (w\<lparr>yw_state := st, yw_writes := (yw_writes w)[i := y]\<rparr>)"
| worked: "py_step w (w\<lparr>yw_state := on_py (on_cuda (gpu [StreamWork s job])) (yw_state w)\<rparr>)"
| recycled: "py_step w (w\<lparr>yw_state := on_py (on_cuda (recycle ge)) (yw_state w)\<rparr>)"

definition py_start :: "process \<Rightarrow> py_world" where
  "py_start p = \<lparr>yw_state = \<lparr>py_process = p, py_refs = (\<lambda>_. 0), py_ended = {}\<rparr>, yw_users = [], yw_reads = [], yw_writes = []\<rparr>"

inductive py_reachable :: "py_world \<Rightarrow> bool" where
  begins: "process_start p \<Longrightarrow> py_reachable (py_start p)"
| steps: "py_reachable w \<Longrightarrow> py_step w w' \<Longrightarrow> py_reachable w'"

definition refs_of :: "('w \<Rightarrow> py_buffer option) \<Rightarrow> 'w list \<Rightarrow> nat multiset" where
  "refs_of owner ws = sum_list (map (\<lambda>w. owner_ref (owner w)) ws)"

text \<open>All the references there are.\<close>

definition references :: "py_world \<Rightarrow> nat multiset" where
  "references w = mset (yw_users w) + refs_of rw_owner (yw_reads w) + refs_of ww_owner (yw_writes w)"

definition world_inv :: "(nat \<Rightarrow> u64 \<times> u64) \<Rightarrow> py_world \<Rightarrow> bool" where
  "world_inv P w \<longleftrightarrow> py_inv P (references w) (yw_state w) \<and>
     (\<forall>x \<in> set (yw_reads w). wraps_read P x) \<and> (\<forall>y \<in> set (yw_writes w). wraps_write P y)"

lemma refs_simps [simp]: "refs_of f [] = {#}" "refs_of f (x # xs) = owner_ref (f x) + refs_of f xs"
  by (simp_all add: refs_of_def)

lemma refs_update:
  "i < length xs \<Longrightarrow> \<exists>R. refs_of f xs = owner_ref (f (xs ! i)) + R \<and> (\<forall>x. refs_of f (xs[i := x]) = owner_ref (f x) + R)"
proof (induction xs arbitrary: i)
  case (Cons a xs)
  show ?case
  proof (cases i)
    case (Suc k)
    with Cons obtain R where "refs_of f xs = owner_ref (f (xs ! k)) + R" "\<forall>x. refs_of f (xs[k := x]) = owner_ref (f x) + R"
      by fastforce
    then show ?thesis using Suc by (intro exI [of _ "owner_ref (f a) + R"]) (simp add: ac_simps)
  qed auto
qed simp

lemma owner_ref_in: "x \<in> set xs \<Longrightarrow> owner_ref (f x) \<subseteq># refs_of f xs"
  unfolding refs_of_def by (rule sum_list_member [where f = "\<lambda>w. owner_ref (f w)"])

text \<open>A wrapper that is kept still fits when other addresses change.\<close>

lemma wraps_cong:
  "wraps_read P x \<Longrightarrow> \<forall>a \<in># owner_ref (rw_owner x). P' a = P a \<Longrightarrow> wraps_read P' x"
  "wraps_write P y \<Longrightarrow> \<forall>a \<in># owner_ref (ww_owner y). P' a = P a \<Longrightarrow> wraps_write P' y"
  by (auto simp: wraps_read_def wraps_write_def read_on_def write_on_def split: option.splits)

lemma world_wraps_cong:
  assumes "world_inv P w" and "\<forall>a \<in># references w. P' a = P a"
  shows "(\<forall>x \<in> set (yw_reads w). wraps_read P' x) \<and> (\<forall>y \<in> set (yw_writes w). wraps_write P' y)"
proof -
  have "P' a = P a" if "x \<in> set (yw_reads w)" "a \<in># owner_ref (rw_owner x)" for a x
    using assms(2) mset_subset_eqD [OF owner_ref_in [OF that(1), of rw_owner] that(2)] by (simp add: references_def)
  moreover have "P' a = P a" if "y \<in> set (yw_writes w)" "a \<in># owner_ref (ww_owner y)" for a y
    using assms(2) mset_subset_eqD [OF owner_ref_in [OF that(1), of ww_owner] that(2)] by (simp add: references_def)
  ultimately show ?thesis using assms(1) wraps_cong unfolding world_inv_def by blast
qed

lemma world_new_read:
  assumes "world_inv P w"
    and "case r of Inl x \<Rightarrow> py_inv P (references w) st | Inr x \<Rightarrow>
      (\<exists>P'. (\<forall>a \<in># references w. P' a = P a) \<and> wraps_read P' x \<and> py_inv P' (owner_ref (rw_owner x) + references w) st)"
  shows "\<exists>P'. world_inv P' (w\<lparr>yw_state := st, yw_reads := results r @ yw_reads w\<rparr>)"
proof (cases r)
  case (Inl x)
  then show ?thesis using assms by (auto simp: world_inv_def references_def)
next
  case (Inr x)
  then obtain P' where p: "\<forall>a \<in># references w. P' a = P a" "wraps_read P' x"
      "py_inv P' (owner_ref (rw_owner x) + references w) st"
    using assms(2) by auto
  have "references (w\<lparr>yw_state := st, yw_reads := x # yw_reads w\<rparr>) = owner_ref (rw_owner x) + references w"
    by (simp add: references_def)
  then show ?thesis
    using p world_wraps_cong [OF assms(1) p(1)] unfolding world_inv_def Inr by (intro exI [of _ P']) auto
qed

lemma world_new_write:
  assumes "world_inv P w"
    and "case r of Inl x \<Rightarrow> py_inv P (references w) st | Inr y \<Rightarrow>
      (\<exists>P'. (\<forall>a \<in># references w. P' a = P a) \<and> wraps_write P' y \<and> py_inv P' (owner_ref (ww_owner y) + references w) st)"
  shows "\<exists>P'. world_inv P' (w\<lparr>yw_state := st, yw_writes := results r @ yw_writes w\<rparr>)"
proof (cases r)
  case (Inl x)
  then show ?thesis using assms by (auto simp: world_inv_def references_def)
next
  case (Inr y)
  then obtain P' where p: "\<forall>a \<in># references w. P' a = P a" "wraps_write P' y"
      "py_inv P' (owner_ref (ww_owner y) + references w) st"
    using assms(2) by auto
  have "references (w\<lparr>yw_state := st, yw_writes := y # yw_writes w\<rparr>) = owner_ref (ww_owner y) + references w"
    by (simp add: references_def)
  then show ?thesis
    using p world_wraps_cong [OF assms(1) p(1)] unfolding world_inv_def Inr by (intro exI [of _ P']) auto
qed

lemma world_shared:
  assumes "world_inv P w" and "b \<in># references w"
  shows "world_inv P (w\<lparr>yw_state := take_ref (Py_Cuda b) (yw_state w), yw_users := b # yw_users w\<rparr>)"
proof -
  have "references (w\<lparr>yw_state := take_ref (Py_Cuda b) (yw_state w), yw_users := b # yw_users w\<rparr>) = add_mset b (references w)"
    by (simp add: references_def)
  then show ?thesis using assms py_inv_take by (simp add: world_inv_def)
qed

lemma world_state: "world_inv P w \<Longrightarrow> py_inv P (references w) st \<Longrightarrow> world_inv P (w\<lparr>yw_state := st\<rparr>)"
  by (simp add: world_inv_def references_def)

lemma may_use_refs: "may_use w buffer \<Longrightarrow> \<forall>b. buffer = Py_Cuda b \<longrightarrow> b \<in># references w"
  by (auto simp: may_use_def references_def)

lemma promoted_ref:
  "i < length (yw_reads w) \<Longrightarrow> read_promoted_buffer (yw_reads w ! i) = Inr (Some (Py_Cuda b)) \<Longrightarrow> b \<in># references w"
  "i < length (yw_writes w) \<Longrightarrow> write_promoted_buffer (yw_writes w ! i) = Inr (Some (Py_Cuda b)) \<Longrightarrow> b \<in># references w"
proof -
  show "b \<in># references w" if "i < length (yw_reads w)" "read_promoted_buffer (yw_reads w ! i) = Inr (Some (Py_Cuda b))"
  proof -
    have "rw_owner (yw_reads w ! i) = Some (Py_Cuda b)"
      using that(2) by (auto simp: read_promoted_buffer_def split: sum.splits if_splits)
    then show ?thesis
      using mset_subset_eqD [OF owner_ref_in [OF nth_mem [OF that(1)], of rw_owner]] by (simp add: references_def)
  qed
  show "b \<in># references w" if "i < length (yw_writes w)" "write_promoted_buffer (yw_writes w ! i) = Inr (Some (Py_Cuda b))"
  proof -
    have "ww_owner (yw_writes w ! i) = Some (Py_Cuda b)"
      using that(2) by (auto simp: write_promoted_buffer_def split: sum.splits if_splits)
    then show ?thesis
      using mset_subset_eqD [OF owner_ref_in [OF nth_mem [OF that(1)], of ww_owner]] by (simp add: references_def)
  qed
qed

lemma set_update_all: "\<forall>x \<in> set xs. Q x \<Longrightarrow> Q a \<Longrightarrow> \<forall>x \<in> set (xs[i := a]). Q x"
  using set_update_subset_insert [of xs i a] by auto

lemma world_closed_read:
  assumes "world_inv P w" and "i < length (yw_reads w)" and "close_read e (yw_reads w ! i) (yw_state w) = (x, st)"
  shows "world_inv P (w\<lparr>yw_state := st, yw_reads := (yw_reads w)[i := x]\<rparr>)"
proof -
  obtain R where R: "refs_of rw_owner (yw_reads w) = owner_ref (rw_owner (yw_reads w ! i)) + R"
    "refs_of rw_owner ((yw_reads w)[i := x]) = owner_ref (rw_owner x) + R"
    using refs_update [OF assms(2), of rw_owner] by blast
  let ?H = "mset (yw_users w) + R + refs_of ww_owner (yw_writes w)"
  have "py_inv P (owner_ref (rw_owner (yw_reads w ! i)) + ?H) (yw_state w)"
    using assms(1) R(1) by (simp add: world_inv_def references_def ac_simps)
  moreover have "wraps_read P (yw_reads w ! i)" using assms(1,2) by (simp add: world_inv_def)
  ultimately have c: "wraps_read P x \<and> rw_owner x = None \<and> py_inv P ?H st" using close_read_inv [OF assms(3)] by blast
  then have "references (w\<lparr>yw_state := st, yw_reads := (yw_reads w)[i := x]\<rparr>) = ?H"
    using R(2) by (simp add: references_def ac_simps)
  moreover have "\<forall>v \<in> set ((yw_reads w)[i := x]). wraps_read P v"
    by (rule set_update_all) (use assms(1) c in \<open>auto simp: world_inv_def\<close>)
  ultimately show ?thesis using assms(1) c unfolding world_inv_def by simp
qed

lemma world_closed_write:
  assumes "world_inv P w" and "i < length (yw_writes w)" and "close_write e (yw_writes w ! i) (yw_state w) = (y, st)"
  shows "world_inv P (w\<lparr>yw_state := st, yw_writes := (yw_writes w)[i := y]\<rparr>)"
proof -
  obtain R where R: "refs_of ww_owner (yw_writes w) = owner_ref (ww_owner (yw_writes w ! i)) + R"
    "refs_of ww_owner ((yw_writes w)[i := y]) = owner_ref (ww_owner y) + R"
    using refs_update [OF assms(2), of ww_owner] by blast
  let ?H = "mset (yw_users w) + refs_of rw_owner (yw_reads w) + R"
  have "py_inv P (owner_ref (ww_owner (yw_writes w ! i)) + ?H) (yw_state w)"
    using assms(1) R(1) by (simp add: world_inv_def references_def ac_simps)
  moreover have "wraps_write P (yw_writes w ! i)" using assms(1,2) by (simp add: world_inv_def)
  ultimately have c: "wraps_write P y \<and> ww_owner y = None \<and> py_inv P ?H st" using close_write_inv [OF assms(3)] by blast
  then have "references (w\<lparr>yw_state := st, yw_writes := (yw_writes w)[i := y]\<rparr>) = ?H"
    using R(2) by (simp add: references_def ac_simps)
  moreover have "\<forall>v \<in> set ((yw_writes w)[i := y]). wraps_write P v"
    by (rule set_update_all) (use assms(1) c in \<open>auto simp: world_inv_def\<close>)
  ultimately show ?thesis using assms(1) c unfolding world_inv_def by simp
qed

lemma py_step_inv:
  assumes "py_step w w'" and "world_inv P w"
  shows "\<exists>P'. world_inv P' w'"
proof -
  have i: "py_inv P (references w) (yw_state w)" using assms(2) by (simp add: world_inv_def)
  show ?thesis using assms(1)
  proof cases
    case (allocated e n r st)
    note a = allocate_python_buffer_inv [OF allocated(2) i]
    show ?thesis
    proof (cases r)
      case (Inl x)
      then show ?thesis using a assms(2) allocated(1) by (auto simp: world_inv_def references_def)
    next
      case (Inr b)
      with a obtain x where n: "b \<notin># references w" and p: "py_inv (P(b := x)) (add_mset b (references w)) st" by auto
      define P' where "P' = P(b := x)"
      have "\<forall>a \<in># references w. P' a = P a" using n by (auto simp: P'_def)
      from world_wraps_cong [OF assms(2) this] p [folded P'_def] show ?thesis
        unfolding allocated(1) Inr world_inv_def by (intro exI [of _ P']) (simp add: references_def)
    qed
  next
    case (shared b)
    then show ?thesis using world_shared [OF assms(2)] by (auto simp: references_def)
  next
    case (forgotten b)
    let ?H = "mset (remove1 b (yw_users w)) + refs_of rw_owner (yw_reads w) + refs_of ww_owner (yw_writes w)"
    have "add_mset b ?H = references w" using forgotten(2) by (simp add: references_def)
    then have "py_inv P ?H (drop_ref (Some (Py_Cuda b)) (yw_state w))" using py_inv_drop [of P b ?H] i by simp
    then show ?thesis using assms(2) unfolding forgotten(1) world_inv_def by (intro exI [of _ P]) (simp add: references_def)
  next
    case (to_write buffer e stream rw st)
    show ?thesis unfolding to_write(1)
      by (rule world_new_write [OF assms(2) py_from_output_inv [OF to_write(3) i may_use_refs [OF to_write(2)]]])
  next
    case (to_read buffer e stream rr st)
    show ?thesis unfolding to_read(1)
      by (rule world_new_read [OF assms(2) py_from_input_inv [OF to_read(3) i may_use_refs [OF to_read(2)]]])
  next
    case (to_write_cpu e n stream rw st)
    obtain s st0 where s: "stream_from_python e stream (yw_state w) = (s, st0)" by (cases "stream_from_python e stream (yw_state w)")
    have "promote_output e n s st0 = (rw, st)" using to_write_cpu(2) s by (simp add: py_from_output_cpu_def)
    from promote_output_inv [OF this stream_from_python_inv [OF s i]] show ?thesis
      unfolding to_write_cpu(1) by (rule world_new_write [OF assms(2)])
  next
    case (to_read_cpu e data n stream rr st)
    obtain s st0 where s: "stream_from_python e stream (yw_state w) = (s, st0)" by (cases "stream_from_python e stream (yw_state w)")
    have "promote_input e data n s st0 = (rr, st)" using to_read_cpu(2) s by (simp add: py_from_input_cpu_def)
    from promote_input_inv [OF this stream_from_python_inv [OF s i]] show ?thesis
      unfolding to_read_cpu(1) by (rule world_new_read [OF assms(2)])
  next
    case (copied k e source n stream ru st)
    show ?thesis unfolding copied(1) using world_state [OF assms(2) copy_from_inv [OF copied(3) i]] by blast
  next
    case (promoted_read k b)
    show ?thesis unfolding promoted_read(1) using world_shared [OF assms(2) promoted_ref(1) [OF promoted_read(2,3)]] by blast
  next
    case (promoted_write k b)
    show ?thesis unfolding promoted_write(1) using world_shared [OF assms(2) promoted_ref(2) [OF promoted_write(2,3)]] by blast
  next
    case (closed_read k e x st)
    show ?thesis unfolding closed_read(1) using world_closed_read [OF assms(2) closed_read(2,3)] by blast
  next
    case (closed_write k e y st)
    show ?thesis unfolding closed_write(1) using world_closed_write [OF assms(2) closed_write(2,3)] by blast
  next
    case (worked s job)
    show ?thesis unfolding worked using world_state [OF assms(2) gpu_py_inv [OF i]] by blast
  next
    case (recycled ge)
    have "py_inv P (references w) (on_py (on_cuda (recycle ge)) (yw_state w))"
      by (rule on_py_inv [OF i]) (use i in \<open>simp_all add: keeps_recycle py_inv_def storage_of_def pr_cuda_on_cuda\<close>)
    then show ?thesis unfolding recycled using world_state [OF assms(2)] by blast
  qed
qed

lemma py_reachable_inv: "py_reachable w \<Longrightarrow> \<exists>P. world_inv P w"
proof (induction rule: py_reachable.induct)
  case (begins p)
  then have "process_inv p" by (rule process_reachable_inv [OF process_reachable.intros(1)])
  then show ?case using begins by (simp add: world_inv_def py_start_def py_inv_def references_def process_start_def)
next
  case (steps w w')
  then show ?case using py_step_inv by blast
qed

section \<open>What holds of every program\<close>

lemma wraps_read_facts:
  assumes "wraps_read P x" and "py_inv P H st" and "owner_ref (rw_owner x) \<subseteq># H"
  shows "read_is_closed x \<longleftrightarrow> rw_owner x = None"
    and "rw_handle x = Some rh \<Longrightarrow> \<exists>b. rw_owner x = Some (Py_Cuda b) \<and> b \<notin> py_ended st \<and> b \<in># H \<and> b < pr_next (py_process st) \<and>
      rh_events rh = Some b \<and> rh_ptr rh = cb_ptr (cs_buffer (pr_cuda (py_process st)) b)"
proof -
  show "read_is_closed x \<longleftrightarrow> rw_owner x = None" using assms(1) by (auto simp: wraps_read_def read_is_closed_def split: option.splits)
  assume "rw_handle x = Some rh"
  then obtain b where b: "rw_owner x = Some (Py_Cuda b)" "rh_events rh = Some b" "rh_ptr rh = fst (P b)" "b \<in># H"
    using assms(1,3) by (auto simp: wraps_read_def read_on_def)
  then show "\<exists>b. rw_owner x = Some (Py_Cuda b) \<and> b \<notin> py_ended st \<and> b \<in># H \<and> b < pr_next (py_process st) \<and>
      rh_events rh = Some b \<and> rh_ptr rh = cb_ptr (cs_buffer (pr_cuda (py_process st)) b)"
    using assms(2) py_inv_sized(1) [OF assms(2) b(4)] by (simp add: py_inv_def)
qed

lemma wraps_write_facts:
  assumes "wraps_write P y" and "py_inv P H st" and "owner_ref (ww_owner y) \<subseteq># H"
  shows "write_is_closed y \<longleftrightarrow> ww_owner y = None"
    and "ww_handle y = Some wh \<Longrightarrow> \<exists>b. ww_owner y = Some (Py_Cuda b) \<and> b \<notin> py_ended st \<and> b \<in># H \<and> b < pr_next (py_process st) \<and>
      wh_event wh = Some b \<and> wh_ptr wh = cb_ptr (cs_buffer (pr_cuda (py_process st)) b) \<and>
      ww_size y = cb_size (cs_buffer (pr_cuda (py_process st)) b)"
proof -
  show "write_is_closed y \<longleftrightarrow> ww_owner y = None" using assms(1) by (auto simp: wraps_write_def write_is_closed_def split: option.splits)
  assume "ww_handle y = Some wh"
  then obtain b where b: "ww_owner y = Some (Py_Cuda b)" "wh_event wh = Some b" "wh_ptr wh = fst (P b)" "b \<in># H"
    "ww_size y = snd (P b)"
    using assms(1,3) by (auto simp: wraps_write_def write_on_def)
  then show "\<exists>b. ww_owner y = Some (Py_Cuda b) \<and> b \<notin> py_ended st \<and> b \<in># H \<and> b < pr_next (py_process st) \<and>
      wh_event wh = Some b \<and> wh_ptr wh = cb_ptr (cs_buffer (pr_cuda (py_process st)) b) \<and>
      ww_size y = cb_size (cs_buffer (pr_cuda (py_process st)) b)"
    using assms(2) py_inv_sized(1,2) [OF assms(2) b(4)] by (simp add: py_inv_def)
qed

lemma py_reachable_facts:
  assumes "py_reachable w"
  shows "\<exists>P. py_inv P (references w) (yw_state w) \<and>
    (\<forall>x \<in> set (yw_reads w). wraps_read P x \<and> owner_ref (rw_owner x) \<subseteq># references w) \<and>
    (\<forall>y \<in> set (yw_writes w). wraps_write P y \<and> owner_ref (ww_owner y) \<subseteq># references w)"
proof -
  obtain P where i: "world_inv P w" using py_reachable_inv [OF assms] by blast
  have "owner_ref (rw_owner x) \<subseteq># references w" if "x \<in> set (yw_reads w)" for x
    using owner_ref_in [OF that, of rw_owner] unfolding references_def
    by (metis mset_subset_eq_add_left mset_subset_eq_add_right subset_mset.order_trans)
  moreover have "owner_ref (ww_owner y) \<subseteq># references w" if "y \<in> set (yw_writes w)" for y
    using owner_ref_in [OF that, of ww_owner] unfolding references_def
    by (metis mset_subset_eq_add_right subset_mset.order_trans)
  ultimately show ?thesis using i unfolding world_inv_def by blast
qed

text \<open>
  C9. References in Python: in whatever order a program allocates, wraps, copies, closes and forgets, the counts are right, a wrapper has an owner just when it is open, the buffer of an open wrapper has not ended, and a buffer nobody refers to holds nothing.
\<close>

theorem python_references:
  assumes "py_reachable w"
  defines "st \<equiv> yw_state w"
  shows "(\<forall>b. py_refs st (Py_Cuda b) = count (references w) b) \<and>
    (\<forall>b. b \<notin># references w \<longrightarrow> cs_buffer (pr_cuda (py_process st)) b = empty_buffer) \<and>
    (\<forall>x \<in> set (yw_reads w). (read_is_closed x \<longleftrightarrow> rw_owner x = None) \<and>
       (\<forall>rh. rw_handle x = Some rh \<longrightarrow> (\<exists>b. rw_owner x = Some (Py_Cuda b) \<and> rh_events rh = Some b \<and> b \<notin> py_ended st))) \<and>
    (\<forall>y \<in> set (yw_writes w). (write_is_closed y \<longleftrightarrow> ww_owner y = None) \<and>
       (\<forall>wh. ww_handle y = Some wh \<longrightarrow> (\<exists>b. ww_owner y = Some (Py_Cuda b) \<and> wh_event wh = Some b \<and> b \<notin> py_ended st)))"
proof -
  obtain P where i: "py_inv P (references w) st"
    "\<forall>x \<in> set (yw_reads w). wraps_read P x \<and> owner_ref (rw_owner x) \<subseteq># references w"
    "\<forall>y \<in> set (yw_writes w). wraps_write P y \<and> owner_ref (ww_owner y) \<subseteq># references w"
    using py_reachable_facts [OF assms(1)] unfolding st_def by blast
  have "(\<forall>b. py_refs st (Py_Cuda b) = count (references w) b) \<and>
      (\<forall>b. b \<notin># references w \<longrightarrow> cs_buffer (pr_cuda (py_process st)) b = empty_buffer)"
    using i(1) by (simp add: py_inv_def)
  then show ?thesis using wraps_read_facts [OF _ i(1)] wraps_write_facts [OF _ i(1)] i(2,3) by blast
qed

text \<open>
  C27. The device pointer of an open wrapper is good: it is the storage of the buffer that the wrapper keeps; when that is a block of the pool, the block is handed out, is not waiting in the recycler and is behind no other buffer.
\<close>

theorem python_pointer_held:
  assumes "py_reachable w" and "ptr \<noteq> 0"
    and "(\<exists>x \<in> set (yw_reads w). rw_owner x = owner \<and> read_get_ptr x = Inr ptr) \<or>
         (\<exists>y \<in> set (yw_writes w). ww_owner y = owner \<and> write_get_ptr y = Inr ptr)"
  defines "p \<equiv> py_process (yw_state w)"
  shows "\<exists>b. owner = Some (Py_Cuda b) \<and> ptr = cb_ptr (cs_buffer (pr_cuda p) b) \<and>
    (\<forall>i. cb_deleter (cs_buffer (pr_cuda p) b) = Pool_Free i \<longrightarrow>
       i \<in> handed_out (cs_pool (pr_cuda p)) \<and>
       (\<forall>q \<in> set (cs_queue (pr_cuda p)). pw_ptr q \<noteq> 0 \<longrightarrow> pw_deleter q \<noteq> Pool_Free i) \<and>
       (\<forall>c < pr_next p. c \<noteq> b \<longrightarrow> cb_ptr (cs_buffer (pr_cuda p) c) \<noteq> 0 \<longrightarrow>
          cb_deleter (cs_buffer (pr_cuda p) c) \<noteq> Pool_Free i))"
proof -
  obtain P where i: "py_inv P (references w) (yw_state w)"
    "\<forall>x \<in> set (yw_reads w). wraps_read P x \<and> owner_ref (rw_owner x) \<subseteq># references w"
    "\<forall>y \<in> set (yw_writes w). wraps_write P y \<and> owner_ref (ww_owner y) \<subseteq># references w"
    using py_reachable_facts [OF assms(1)] by blast
  have r: "read_get_ptr x = Inr ptr \<longleftrightarrow> (\<exists>rh. rw_handle x = Some rh \<and> ptr = rh_ptr rh)"
    and v: "write_get_ptr y = Inr ptr \<longleftrightarrow> (\<exists>wh. ww_handle y = Some wh \<and> ptr = wh_ptr wh)" for x y
    by (auto simp: read_get_ptr_def write_get_ptr_def split: option.splits)
  obtain b where b: "owner = Some (Py_Cuda b)" "b < pr_next p" "ptr = cb_ptr (cs_buffer (pr_cuda p) b)"
    using assms(3) wraps_read_facts(2) [OF _ i(1)] wraps_write_facts(2) [OF _ i(1)] i(2,3) unfolding p_def r v by metis
  have "process_inv p" using i(1) by (simp add: py_inv_def p_def)
  from storage_disjoint [OF this b(2)] b(1,3) assms(2) show ?thesis by blast
qed

section \<open>Copies of the bindings\<close>

lemma gpu_step_before: "gv_before v s \<subseteq> gv_before (gpu_step c v) s"
  by (cases c) auto

lemma gv_before_mono: "extends st st' \<Longrightarrow> gv_before (view st) s \<subseteq> gv_before (view st') s"
proof -
  have "gv_before v s \<subseteq> gv_before (fold gpu_step cs v) s" for cs v
  proof (induction cs arbitrary: v)
    case (Cons c cs)
    then show ?case using gpu_step_before [of v s c] by (simp add: order_trans)
  qed simp
  then have "gv_before (view st) s \<subseteq> gv_before (gpu_run (cs_trace st @ cs)) s" for cs by (simp add: gpu_run_append)
  then show "extends st st' \<Longrightarrow> gv_before (view st) s \<subseteq> gv_before (view st') s" unfolding extends_def by metis
qed

abbreviation cuda_of :: "py_state \<Rightarrow> cuda_state" where "cuda_of st \<equiv> pr_cuda (py_process st)"

lemma py_get_write_ok:
  assumes "py_get_write e b s st = (Inr wh, st')"
  shows "wh_ptr wh = cb_ptr (cs_buffer (cuda_of st') b)" and "wh_event wh = Some b" and "wh_promoted wh = None"
proof -
  let ?p = "py_process st"
  obtain p where f: "from_output_buffer (pv_alloc e) (cp_write (pv_copy e)) 1 (Cuda_Impl b) s ?p = (Inr wh, p)"
      "st' = st\<lparr>py_process := p\<rparr>"
    using assms by (auto simp: py_get_write_def split: prod.splits)
  then have "get_write (cp_write (pv_copy e)) b s (set_stream b s ?p) = (Inr wh, p)"
    by (auto simp: from_output_buffer_def split: if_splits)
  then obtain c where g: "get_write_handle (cp_write (pv_copy e)) b s (pr_cuda ?p) = (Inr wh, c)" "pr_cuda p = c"
    by (auto simp: get_write_alt set_stream_def)
  have "write_on (\<lambda>_. storage_of b ?p) b wh" using get_write_buffer(4) [OF g(1)] by (simp add: storage_of_def)
  then show "wh_ptr wh = cb_ptr (cs_buffer (cuda_of st') b)" and "wh_event wh = Some b" and "wh_promoted wh = None"
    using get_write_buffer(2) [OF g(1), of b] g(2) f(2) by (simp_all add: write_on_def storage_of_def)
qed

lemma py_get_read_ok:
  assumes "py_get_read e b s st = (Inr rh, st')"
  shows "rh_ptr rh = cb_ptr (cs_buffer (cuda_of st) b)" and "extends (cuda_of st) (cuda_of st')"
proof -
  let ?p = "py_process st"
  obtain p where f: "from_input_buffer (pv_alloc e) (pv_copy e) 1 (Cuda_Impl b) s ?p = (Inr rh, p)"
      "st' = st\<lparr>py_process := p\<rparr>"
    using assms by (auto simp: py_get_read_def split: prod.splits)
  then have g: "get_read (cp_read (pv_copy e)) b s ?p = (Inr rh, p)"
    by (auto simp: from_input_buffer_def split: if_splits)
  obtain c where g: "get_read_handle (cp_read (pv_copy e)) b s (pr_cuda ?p) = (Inr rh, c)" "pr_cuda p = c"
    using g unfolding get_read_def by (cases "get_read_handle (cp_read (pv_copy e)) b s (pr_cuda ?p)") auto
  show "rh_ptr rh = cb_ptr (cs_buffer (cuda_of st) b)" using get_read_handle_buffer(4) [OF g(1) refl] by simp
  show "extends (cuda_of st) (cuda_of st')" using extends_get_read [OF g(1)] g(2) f(2) by simp
qed

lemma py_to_buffer_ok:
  assumes "py_to_buffer e src n wh s kind st = (r, st')"
  shows "cs_buffer (cuda_of st') = cs_buffer (cuda_of st)"
    and "cs_trace (cuda_of st') = cs_trace (cuda_of st) @
      (if n \<noteq> 0 \<and> src \<noteq> 0 \<and> wh_ptr wh \<noteq> 0 \<and> pv_memcpy e = cudaSuccess then [StreamWork s (Copy (wh_ptr wh) src n kind)] else [])"
    and "r = Inr () \<longleftrightarrow> n = 0 \<or> src = 0 \<or> wh_ptr wh = 0 \<or> pv_memcpy e = cudaSuccess"
    and "py_refs st' = py_refs st" and "py_ended st' = py_ended st"
  using assms by (auto simp: py_to_buffer_def to_buffer_def memcpy_async_def gpu_def Let_def split: if_splits)

lemma end_write_ok:
  assumes "wh_promoted wh = None"
  shows "cs_buffer (cuda_of (end_write e wh st)) = cs_buffer (cuda_of st)"
    and "extends (cuda_of st) (cuda_of (end_write e wh st))"
proof -
  have d: "destroy_write_handle g True wh x = write_release g wh x" for g x
    using assms by (simp add: destroy_write_handle_def drop_promoted_def)
  show "cs_buffer (cuda_of (end_write e wh st)) = cs_buffer (cuda_of st)"
    by (simp add: end_write_def on_py_def on_cuda_def d) (simp add: write_release_def Let_def split: option.splits)
  show "extends (cuda_of st) (cuda_of (end_write e wh st))"
    by (simp add: end_write_def on_py_def on_cuda_def d extends_write_release)
qed

text \<open>The steps of a promotion that succeeds.\<close>

lemma promote_input_cases:
  assumes "promote_input e data n s st = (Inr w, st')"
  obtains b st1 wh st2 st3 rh st5 where "n \<noteq> 0" "allocate_python_buffer e n st = (Inr b, st1)" "py_get_write e b s st1 = (Inr wh, st2)"
    "py_to_buffer e data n wh s HostToDevice st2 = (Inr (), st3)" "py_get_read e b s (end_write e wh st3) = (Inr rh, st5)"
    "py_synchronize e s ''cudaStreamSynchronize(stream)'' st5 = (Inr (), st')"
    "w = \<lparr>rw_owner = Some (Py_Cuda b), rw_handle = Some rh, rw_promoted = True, rw_device = snd (pv_attributes e)\<rparr>"
proof -
  have n: "n \<noteq> 0" using assms by (auto simp: promote_input_def)
  note c = assms [unfolded promote_input_def if_not_P [OF n] Let_def]
  obtain r1 st1 where a: "allocate_python_buffer e n st = (r1, st1)" by (cases "allocate_python_buffer e n st")
  obtain b where b: "r1 = Inr b" using c a by (cases r1) simp_all
  obtain r2 st2 where g: "py_get_write e b s st1 = (r2, st2)" by (cases "py_get_write e b s st1")
  obtain wh where wh: "r2 = Inr wh" using c a b g by (cases r2) simp_all
  obtain r3 st3 where t: "py_to_buffer e data n wh s HostToDevice st2 = (r3, st3)"
    by (cases "py_to_buffer e data n wh s HostToDevice st2")
  have r3: "r3 = Inr ()" using c a b g wh t by (cases r3) simp_all
  obtain r5 st5 where g5: "py_get_read e b s (end_write e wh st3) = (r5, st5)"
    by (cases "py_get_read e b s (end_write e wh st3)")
  obtain rh where rh: "r5 = Inr rh" using c a b g wh t r3 g5 by (cases r5) simp_all
  obtain r6 st6 where y: "py_synchronize e s ''cudaStreamSynchronize(stream)'' st5 = (r6, st6)"
    by (cases "py_synchronize e s ''cudaStreamSynchronize(stream)'' st5")
  have r6: "r6 = Inr ()" using c a b g wh t r3 g5 rh y by (cases r6) simp_all
  have "new_read_wrapper e rh (Py_Cuda b) True st6 = (Inr w, st')" using c a b g wh t r3 g5 rh y r6 by simp
  then have "w = \<lparr>rw_owner = Some (Py_Cuda b), rw_handle = Some rh, rw_promoted = True, rw_device = snd (pv_attributes e)\<rparr>" "st6 = st'"
    by (auto simp: new_read_wrapper_def split: if_splits)
  with that [OF n] a b g wh t r3 g5 rh y r6 show ?thesis by blast
qed

text \<open>
  C29. A host buffer that is wrapped for reading is copied: when the call has returned, the copy of all its bytes to the address that the wrapper shows is done, so that the host storage may end, and the new buffer can be had from the wrapper.
\<close>

theorem promoted_input_complete:
  assumes "py_from_input e (Py_Host n data) stream st = (Inr w, st')" and "data \<noteq> 0"
    and "read_get_ptr w = Inr ptr" and "ptr \<noteq> 0"
  shows "\<exists>b i. read_promoted_buffer w = Inr (Some (Py_Cuda b)) \<and> i < length (cs_trace (cuda_of st')) \<and>
    cs_trace (cuda_of st') ! i = StreamWork (fst (stream_from_python e stream st)) (Copy ptr data n HostToDevice) \<and>
    i \<in> gv_done (view (cuda_of st'))"
proof -
  obtain s st0 where s: "stream_from_python e stream st = (s, st0)" by (cases "stream_from_python e stream st")
  then have "promote_input e data n s st0 = (Inr w, st')" using assms(1) by (simp add: py_from_input_def)
  then obtain b st1 wh st2 st3 rh st5 where c: "n \<noteq> 0" "allocate_python_buffer e n st0 = (Inr b, st1)"
    "py_get_write e b s st1 = (Inr wh, st2)"
    "py_to_buffer e data n wh s HostToDevice st2 = (Inr (), st3)" "py_get_read e b s (end_write e wh st3) = (Inr rh, st5)"
    "py_synchronize e s ''cudaStreamSynchronize(stream)'' st5 = (Inr (), st')"
    "w = \<lparr>rw_owner = Some (Py_Cuda b), rw_handle = Some rh, rw_promoted = True, rw_device = snd (pv_attributes e)\<rparr>"
    by (rule promote_input_cases)
  note gw = py_get_write_ok [OF c(3)]
  note tb = py_to_buffer_ok [OF c(4)]
  note ew = end_write_ok [OF gw(3), where e = e and st = st3]
  note gr = py_get_read_ok [OF c(5)]
  have rp: "ptr = rh_ptr rh" using assms(3) c(7) by (simp add: read_get_ptr_def)
  have p: "ptr = wh_ptr wh" using rp gr(1) ew(1) tb(1) gw(1) by simp
  let ?c = "StreamWork s (Copy ptr data n HostToDevice)" and ?i = "length (cs_trace (cuda_of st2))"
  have t3: "cs_trace (cuda_of st3) = cs_trace (cuda_of st2) @ [?c]"
    using tb(2,3) c(1) assms(2,4) p by auto
  have x5: "extends (cuda_of st3) (cuda_of st5)" using extends_trans [OF ew(2) gr(2)] .
  have st': "cuda_of st' = gpu [StreamSynchronize s] (cuda_of st5)"
    using c(6) by (auto simp: py_synchronize_def on_py_def on_cuda_def split: if_splits)
  have "?i \<in> gv_before (view (cuda_of st3)) s" unfolding t3 gpu_run_append by simp
  then have "?i \<in> gv_before (view (cuda_of st5)) s" using gv_before_mono [OF x5] by blast
  then have d: "?i \<in> gv_done (view (cuda_of st'))" unfolding st' by (simp add: gpu_run_append)
  have x: "extends (cuda_of st3) (cuda_of st')" unfolding st' using x5 extends_gpu extends_trans by blast
  have "cs_trace (cuda_of st') ! ?i = ?c" using extends_nth [OF x, of ?i] t3 by simp
  moreover have "?i < length (cs_trace (cuda_of st'))" using x t3 by (auto simp: extends_def)
  moreover have "read_promoted_buffer w = Inr (Some (Py_Cuda b))" using c(7) by (simp add: read_promoted_buffer_def read_get_ptr_def)
  ultimately show ?thesis using d s by auto
qed

text \<open>A call of \<open>_to_buffer\<close> that passes the checks comes to one copy, waited for when the source is bytes.\<close>

lemma copy_from_checks:
  assumes "copy_from e source k stream w st = (r, st')" and "st' \<noteq> st \<or> r = Inr ()"
  shows "\<exists>wh src. ww_handle w = Some wh \<and> 0 \<le> sint k \<and> k \<le> ww_size w \<and>
    ((\<exists>len. source = Py_Bytes src len \<and> unat k \<le> len \<and>
        (\<exists>r1 st1. py_to_buffer e src k wh (ww_stream w) HostToDevice st = (r1, st1) \<and>
          (r, st') = (if r1 = Inr () \<and> k > 0 then py_synchronize e (ww_stream w) ''cudaStreamSynchronize(stream_)'' st1 else (r1, st1)))) \<or>
     (source = Py_Int src \<and> (src \<noteq> 0 \<or> k = 0) \<and> py_to_buffer e src k wh (ww_stream w) DeviceToDevice st = (r, st')))"
proof -
  obtain wh where wh: "ww_handle w = Some wh" using assms by (cases "ww_handle w") (auto simp: copy_from_def)
  note c1 = assms(1) [unfolded copy_from_def wh option.case(2)]
  have g: "0 \<le> sint k" "k \<le> ww_size w" "\<not> (case stream of None \<Rightarrow> False | Some s \<Rightarrow> s \<noteq> ww_stream w)"
    using c1 assms(2) by (auto split: if_splits)
  then have ng: "\<not> sint k < 0" "\<not> k > ww_size w" by simp_all
  note c2 = c1 [unfolded if_not_P [OF ng(1)] if_not_P [OF ng(2)] if_not_P [OF g(3)]]
  show ?thesis
  proof (cases source)
    case (Py_Bytes src len)
    obtain r1 st1 where t: "py_to_buffer e src k wh (ww_stream w) HostToDevice st = (r1, st1)"
      by (cases "py_to_buffer e src k wh (ww_stream w) HostToDevice st")
    have l: "unat k \<le> len" using c2 Py_Bytes assms(2) by (auto split: if_splits)
    then have "(r, st') = (if r1 = Inr () \<and> k > 0 then py_synchronize e (ww_stream w) ''cudaStreamSynchronize(stream_)'' st1 else (r1, st1))"
      using c2 Py_Bytes t by (cases r1) (auto split: if_splits)
    then show ?thesis using wh g(1,2) Py_Bytes l t by blast
  next
    case (Py_Int src)
    then show ?thesis using c2 wh g(1,2) assms(2) by (auto simp: word_gt_0 split: if_splits)
  next
    case Py_Other
    then show ?thesis using c2 assms(2) by auto
  qed
qed

lemma copy_from_course:
  assumes "copy_from e source k stream w st = (r, st')"
  shows "\<exists>cs. cs_trace (cuda_of st') = cs_trace (cuda_of st) @ cs \<and>
    (\<forall>s job. StreamWork s job \<in> set cs \<longrightarrow>
       (\<exists>wh src kind. ww_handle w = Some wh \<and> s = ww_stream w \<and> job = Copy (wh_ptr wh) src k kind \<and> src \<noteq> 0 \<and>
          0 \<le> sint k \<and> k \<le> ww_size w \<and>
          (kind = HostToDevice \<longrightarrow> (\<exists>len. source = Py_Bytes src len \<and> unat k \<le> len \<and>
             (r = Inr () \<longrightarrow> length (cs_trace (cuda_of st)) \<in> gv_done (view (cuda_of st'))))) \<and>
          (kind \<noteq> HostToDevice \<longrightarrow> source = Py_Int src))) \<and>
    (\<forall>x. r = Inl (PyValueError x) \<or> r = Inl (PyTypeError x) \<or> r = Inl (RuntimeError x) \<longrightarrow> st' = st)"
proof (cases "st' \<noteq> st \<or> r = Inr ()")
  case False
  then show ?thesis by (intro exI [of _ "[]"]) simp
next
  case True
  obtain wh src where w: "ww_handle w = Some wh" "0 \<le> sint k" "k \<le> ww_size w" and d:
    "(\<exists>len. source = Py_Bytes src len \<and> unat k \<le> len \<and>
        (\<exists>r1 st1. py_to_buffer e src k wh (ww_stream w) HostToDevice st = (r1, st1) \<and>
          (r, st') = (if r1 = Inr () \<and> k > 0 then py_synchronize e (ww_stream w) ''cudaStreamSynchronize(stream_)'' st1 else (r1, st1)))) \<or>
     (source = Py_Int src \<and> py_to_buffer e src k wh (ww_stream w) DeviceToDevice st = (r, st'))"
    using copy_from_checks [OF assms True] by blast
  have x: "x = CudaRuntimeError ''cudaMemcpyAsync'' (pv_memcpy e)" if "py_to_buffer e src k wh s kind st = (Inl x, st1)" for x s kind st1
    using that by (auto simp: py_to_buffer_def to_buffer_def memcpy_async_def Let_def split: if_splits)
  from d show ?thesis
  proof (elim disjE exE conjE)
    fix len r1 st1
    assume b: "source = Py_Bytes src len" "unat k \<le> len" "py_to_buffer e src k wh (ww_stream w) HostToDevice st = (r1, st1)"
      and r: "(r, st') = (if r1 = Inr () \<and> k > 0 then py_synchronize e (ww_stream w) ''cudaStreamSynchronize(stream_)'' st1 else (r1, st1))"
    show ?thesis
    proof (cases "r1 = Inr () \<and> k > 0 \<and> pv_sync e = cudaSuccess")
      case True
      then have st': "r = Inr ()" "cuda_of st' = gpu [StreamSynchronize (ww_stream w)] (cuda_of st1)"
        using r by (simp_all add: py_synchronize_def on_py_def on_cuda_def)
      have t: "cs_trace (cuda_of st') = cs_trace (cuda_of st1) @ [StreamSynchronize (ww_stream w)]" using st'(2) by simp
      show ?thesis
        unfolding t py_to_buffer_ok(2) [OF b(3)]
        using w b(1,2) st'(1) by (auto simp: gpu_run_append split: if_splits)
    next
      case False
      have e1: "\<forall>y. r1 = Inl y \<longrightarrow> (\<exists>c n. y = CudaRuntimeError c n)" using x b(3) by blast
      from False have st': "st' = st1" "r = Inr () \<longrightarrow> r1 = Inr () \<and> k = 0"
        "\<forall>x. r = Inl x \<longrightarrow> (\<exists>c n. x = CudaRuntimeError c n)"
        using r e1 by (auto simp: py_synchronize_def word_gt_0 split: if_splits)
      show ?thesis
        unfolding st'(1) py_to_buffer_ok(2) [OF b(3)] using w b(1,2) st'(2,3) by (auto split: if_splits)
    qed
  next
    assume b: "source = Py_Int src" "py_to_buffer e src k wh (ww_stream w) DeviceToDevice st = (r, st')"
    then have "\<forall>y. r = Inl y \<longrightarrow> (\<exists>c n. y = CudaRuntimeError c n)" using x by blast
    then show ?thesis unfolding py_to_buffer_ok(2) [OF b(2)] using w b(1) by (auto split: if_splits)
  qed
qed


section \<open>Samples\<close>

definition sample_py_env :: py_env where
  "sample_py_env = \<lparr>pv_alloc = sample_alloc_env, pv_copy = sample_copy_env cudaSuccess, pv_internal = (cudaSuccess, 3),
     pv_memcpy = cudaSuccess, pv_sync = cudaSuccess, pv_attributes = (cudaSuccess, 0)\<rparr>"

abbreviation sample_py :: py_state where "sample_py \<equiv> yw_state (py_start sample_process)"

lemma sample_allocate_write:
  "\<exists>st1 st2 wh. allocate_python_buffer sample_py_env 4000 sample_py = (Inr 0, st1) \<and>
     py_get_write sample_py_env 0 2 st1 = (Inr wh, st2) \<and> wh_ptr wh \<noteq> 0 \<and> bi_size (pr_impl (py_process st2) 0) \<noteq> 0 \<and>
     cb_deleter (cs_buffer (cuda_of st2) 0) = Pool_Free 0 \<and> wh_ptr wh = cb_ptr (cs_buffer (cuda_of st2) 0)"
proof -
  obtain p where p: "allocate_buffer sample_alloc_env 1 4000 sample_process = (Inr 0, p)"
    "cs_buffer (pr_cuda p) 0 = new_storage sample_alloc_env 4000 sample_pool 0" "bi_size (pr_impl p 0) = 4000"
    using sample_allocation by blast
  have n: "cb_handle_state (cs_buffer (pr_cuda p) 0) = None" "cb_read_events (cs_buffer (pr_cuda p) 0) = []"
    "cb_ptr (cs_buffer (pr_cuda p) 0) \<noteq> 0" "cb_deleter (cs_buffer (pr_cuda p) 0) = Pool_Free 0"
    by (simp_all add: p(2) new_storage_def make_buffer_def set_write_event_def Let_def sample_pool_def empty_buffer_def)
  define st1 where "st1 = take_ref (Py_Cuda 0) (sample_py\<lparr>py_process := p\<rparr>)"
  have a: "allocate_python_buffer sample_py_env 4000 sample_py = (Inr 0, st1)"
    using p(1) by (simp add: allocate_python_buffer_def sample_py_env_def py_start_def st1_def)
  obtain c where c: "get_write_handle sample_env 0 2 (pr_cuda p) =
      (Inr \<lparr>wh_ptr = cb_ptr (cs_buffer (pr_cuda p) 0), wh_event = Some 0, wh_stream = 2, wh_state = Some (cs_next (pr_cuda p)),
         wh_promoted = None\<rparr>, c)"
    "cs_buffer c 0 = (cs_buffer (pr_cuda p) 0)\<lparr>cb_handle_state := Some (cs_next (pr_cuda p))\<rparr>"
    using get_write_handle_unused [OF n(1,2), of sample_env 2] by (auto simp: fun_eq_iff)
  have g: "py_get_write sample_py_env 0 2 st1 = (Inr \<lparr>wh_ptr = cb_ptr (cs_buffer (pr_cuda p) 0), wh_event = Some 0, wh_stream = 2,
      wh_state = Some (cs_next (pr_cuda p)), wh_promoted = None\<rparr>, st1\<lparr>py_process := (set_stream 0 2 p)\<lparr>pr_cuda := c\<rparr>\<rparr>)"
    using c(1) p(3)
    by (simp add: py_get_write_def from_output_buffer_def get_write_def set_stream_def upd_impl_def st1_def take_ref_def
        sample_py_env_def sample_copy_env_def)
  show ?thesis
    by (intro exI conjI, rule a, rule g) (use n(3,4) p(3) c(2) in \<open>simp_all add: set_stream_def upd_impl_def\<close>)
qed

text \<open>A program that promotes bytes for output.\<close>

lemma sample_program:
  "\<exists>w y. py_reachable w \<and> yw_writes w = [y] \<and> yw_reads w = [] \<and> yw_users w = [] \<and> ww_owner y = Some (Py_Cuda 0) \<and>
     ww_size y = 4000 \<and> (\<exists>wh. ww_handle y = Some wh \<and> wh_ptr wh \<noteq> 0) \<and> cb_deleter (cs_buffer (cuda_of (yw_state w)) 0) = Pool_Free 0"
proof -
  obtain st1 st2 wh where a: "allocate_python_buffer sample_py_env 4000 sample_py = (Inr 0, st1)"
    "py_get_write sample_py_env 0 2 st1 = (Inr wh, st2)" "wh_ptr wh \<noteq> 0"
    "cb_deleter (cs_buffer (cuda_of st2) 0) = Pool_Free 0"
    using sample_allocate_write by blast
  let ?y = "\<lparr>ww_owner = Some (Py_Cuda 0), ww_handle = Some wh, ww_size = 4000, ww_stream = 2, ww_promoted = True, ww_device = 0\<rparr>"
  have "py_from_output_cpu sample_py_env 4000 (Some 2) sample_py = (Inr ?y, st2)"
    using a by (simp add: py_from_output_cpu_def stream_from_python_def promote_output_def new_write_wrapper_def)
      (simp add: sample_py_env_def)
  from py_step.to_write_cpu [OF this]
  have "py_reachable ((py_start sample_process)\<lparr>yw_state := st2, yw_writes := results (Inr ?y) @ yw_writes (py_start sample_process)\<rparr>)"
    by (rule py_reachable.steps [OF py_reachable.begins [OF sample_process_start]])
  then show ?thesis by - (rule exI, rule exI, rule conjI, assumption, use a(3,4) in \<open>auto simp: py_start_def\<close>)
qed

theorem python_references_witness:
  "\<exists>w y. py_reachable w \<and> yw_writes w = [y] \<and> \<not> write_is_closed y \<and> py_refs (yw_state w) (Py_Cuda 0) = 1 \<and>
     0 \<notin> py_ended (yw_state w) \<and> cs_buffer (cuda_of (yw_state w)) 1 = empty_buffer"
proof -
  obtain w y where w: "py_reachable w" "yw_writes w = [y]" "yw_reads w = []" "yw_users w = []" "ww_owner y = Some (Py_Cuda 0)"
    "\<exists>wh. ww_handle y = Some wh"
    using sample_program by blast
  have "references w = {#0#}" by (simp add: references_def w)
  with python_references [OF w(1)] w show ?thesis by (intro exI [of _ w] exI [of _ y]) (auto simp: write_is_closed_def)
qed

theorem python_pointer_held_witness:
  "\<exists>w y ptr. py_reachable w \<and> y \<in> set (yw_writes w) \<and> write_get_ptr y = Inr ptr \<and>
     ptr = cb_ptr (cs_buffer (cuda_of (yw_state w)) 0) \<and> 0 \<in> handed_out (cs_pool (cuda_of (yw_state w)))"
proof -
  obtain w y where w: "py_reachable w" "yw_writes w = [y]" "ww_owner y = Some (Py_Cuda 0)"
    "\<exists>wh. ww_handle y = Some wh \<and> wh_ptr wh \<noteq> 0" "cb_deleter (cs_buffer (cuda_of (yw_state w)) 0) = Pool_Free 0"
    using sample_program by blast
  obtain ptr where p: "write_get_ptr y = Inr ptr" "ptr \<noteq> 0" using w(4) by (auto simp: write_get_ptr_def)
  have o: "(\<exists>x \<in> set (yw_reads w). rw_owner x = Some (Py_Cuda 0) \<and> read_get_ptr x = Inr ptr) \<or>
      (\<exists>y \<in> set (yw_writes w). ww_owner y = Some (Py_Cuda 0) \<and> write_get_ptr y = Inr ptr)"
    using w(2,3) p(1) by simp
  from python_pointer_held [OF w(1) p(2) o] w(1,2,5) p(1) show ?thesis by fastforce
qed

theorem promoted_input_complete_witness:
  "\<exists>x st' ptr i. py_from_input sample_py_env (Py_Host 4000 512) (Some 2) sample_py = (Inr x, st') \<and> read_get_ptr x = Inr ptr \<and>
     cs_trace (cuda_of st') ! i = StreamWork 2 (Copy ptr 512 4000 HostToDevice) \<and> i \<in> gv_done (view (cuda_of st'))"
proof -
  obtain st1 st2 wh where a: "allocate_python_buffer sample_py_env 4000 sample_py = (Inr 0, st1)"
    "py_get_write sample_py_env 0 2 st1 = (Inr wh, st2)" "wh_ptr wh \<noteq> 0" "bi_size (pr_impl (py_process st2) 0) \<noteq> 0"
    "wh_ptr wh = cb_ptr (cs_buffer (cuda_of st2) 0)"
    using sample_allocate_write by blast
  have e: "pv_memcpy sample_py_env = cudaSuccess" "pv_sync sample_py_env = cudaSuccess" "pv_attributes sample_py_env = (cudaSuccess, 0)"
    "cp_read (pv_copy sample_py_env) = sample_env" by (simp_all add: sample_py_env_def sample_copy_env_def)
  obtain r3 st3 where t: "py_to_buffer sample_py_env 512 4000 wh 2 HostToDevice st2 = (r3, st3)"
    by (cases "py_to_buffer sample_py_env 512 4000 wh 2 HostToDevice st2")
  have r3: "r3 = Inr ()" using py_to_buffer_ok(3) [OF t] e(1) by simp
  have i3: "pr_impl (py_process st3) = pr_impl (py_process st2)"
    using t by (auto simp: py_to_buffer_def to_buffer_def memcpy_async_def Let_def split: if_splits)
  let ?st4 = "end_write sample_py_env wh st3"
  have i4: "bi_size (pr_impl (py_process ?st4) 0) \<noteq> 0" using a(4) i3 by (simp add: end_write_def on_py_def on_cuda_def)
  obtain r5 c where g: "get_read_handle sample_env 0 2 (cuda_of ?st4) = (r5, c)" by (cases "get_read_handle sample_env 0 2 (cuda_of ?st4)")
  obtain rh where rh: "r5 = Inr rh" using get_read_handle_buffer(5) [OF g] by (auto simp: sample_env_def)
  have g5: "py_get_read sample_py_env 0 2 ?st4 = (Inr rh, ?st4\<lparr>py_process := (py_process ?st4)\<lparr>pr_cuda := c\<rparr>\<rparr>)"
    using i4 g rh by (simp add: py_get_read_def from_input_buffer_def get_read_def e)
  let ?x = "\<lparr>rw_owner = Some (Py_Cuda 0), rw_handle = Some rh, rw_promoted = True, rw_device = 0\<rparr>"
  have "\<exists>st'. py_from_input sample_py_env (Py_Host 4000 512) (Some 2) sample_py = (Inr ?x, st')"
    using a(1,2) t r3 g5
    by (simp add: py_from_input_def stream_from_python_def promote_input_def py_synchronize_def e new_read_wrapper_def Let_def)
  then obtain st' where f: "py_from_input sample_py_env (Py_Host 4000 512) (Some 2) sample_py = (Inr ?x, st')" by blast
  have p: "read_get_ptr ?x = Inr (rh_ptr rh)" by (simp add: read_get_ptr_def)
  have "wh_promoted wh = None" using py_get_write_ok(3) [OF a(2)] .
  then have "rh_ptr rh \<noteq> 0"
    using py_get_read_ok(1) [OF g5] end_write_ok(1) py_to_buffer_ok(1) [OF t] a(3,5) by simp
  from promoted_input_complete [OF f _ p this] f p show ?thesis by (auto simp: stream_from_python_def)
qed


end
