(* ===== verification/Python_Contexts.thy ===== *)
theory Python_Contexts
  imports Cuda_Python
begin

text \<open>
  The wrappers as context managers (\<open>__enter__\<close> and \<open>__exit__\<close> of \<open>cuda_buffer_py.cpp\<close>). \<open>with_block\<close> is Python's
  \<open>with\<close> statement: it enters, runs the body, and runs the exit also when the body raised; since the exit
  returns \<open>False\<close>, the exception of the body goes on.
\<close>

definition enter_read :: "read_wrapper \<Rightarrow> exn + read_wrapper" where
  "enter_read w = (case read_get_ptr w of Inl x \<Rightarrow> Inl x | Inr _ \<Rightarrow> Inr w)"

definition exit_read :: "py_env \<Rightarrow> read_wrapper \<Rightarrow> py_state \<Rightarrow> bool \<times> read_wrapper \<times> py_state" where
  "exit_read e w st = (False, close_read e w st)"

definition enter_write :: "write_wrapper \<Rightarrow> exn + write_wrapper" where
  "enter_write w = (case write_get_ptr w of Inl x \<Rightarrow> Inl x | Inr _ \<Rightarrow> Inr w)"

definition exit_write :: "py_env \<Rightarrow> write_wrapper \<Rightarrow> py_state \<Rightarrow> bool \<times> write_wrapper \<times> py_state" where
  "exit_write e w st = (False, close_write e w st)"

definition with_block ::
  "('w \<Rightarrow> exn + 'w) \<Rightarrow> ('w \<Rightarrow> py_state \<Rightarrow> bool \<times> 'w \<times> py_state) \<Rightarrow>
    ('w \<Rightarrow> py_state \<Rightarrow> (exn + 'a) \<times> 'w \<times> py_state) \<Rightarrow> 'w \<Rightarrow> py_state \<Rightarrow> (exn + 'a option) \<times> 'w \<times> py_state" where
  "with_block enter exit body w st =
     (case enter w of
        Inl x \<Rightarrow> (Inl x, w, st)
      | Inr w1 \<Rightarrow>
          (case body w1 st of
             (Inl x, w2, st2) \<Rightarrow> (let (swallow, r) = exit w2 st2 in (if swallow then Inr None else Inl x, r))
           | (Inr v, w2, st2) \<Rightarrow> (Inr (Some v), snd (exit w2 st2))))"

text \<open>Closing twice is closing once.\<close>

lemma close_read_closed: "rw_handle w = None \<Longrightarrow> rw_owner w = None \<Longrightarrow> close_read e w st = (w, st)"
  by (simp add: close_read_def drop_ref_def)

lemma close_write_closed: "ww_handle w = None \<Longrightarrow> ww_owner w = None \<Longrightarrow> close_write e w st = (w, st)"
  by (simp add: close_write_def drop_ref_def)

text \<open>
  A block over an open wrapper ends with the wrapper closed by its last value, whatever the body did: its
  exception or value is the block's. A closed wrapper is refused before the body.
\<close>

theorem with_read_closes:
  "with_block enter_read (exit_read e) body w st =
    (if read_is_closed w then (Inl (RuntimeError ''CudaReadHandle is closed''), w, st)
     else (map_sum id Some (fst (body w st)), close_read e (fst (snd (body w st))) (snd (snd (body w st)))))"
  by (cases "rw_handle w"; cases "body w st"; cases "fst (body w st)")
    (simp_all add: with_block_def enter_read_def exit_read_def read_get_ptr_def read_is_closed_def)

theorem with_write_closes:
  "with_block enter_write (exit_write e) body w st =
    (if write_is_closed w then (Inl (RuntimeError ''CudaWriteHandle is closed''), w, st)
     else (map_sum id Some (fst (body w st)), close_write e (fst (snd (body w st))) (snd (snd (body w st)))))"
  by (cases "ww_handle w"; cases "body w st"; cases "fst (body w st)")
    (simp_all add: with_block_def enter_write_def exit_write_def write_get_ptr_def write_is_closed_def)

text \<open>A wrapper that the body has closed is not closed again: the handle ends once.\<close>

lemma with_read_closed_by_body:
  assumes "\<not> read_is_closed w" and "body w st = (r, close_read e' w st)"
  shows "with_block enter_read (exit_read e) body w st = (map_sum id Some r, close_read e' w st)"
proof -
  have "close_read e (fst (close_read e' w st)) (snd (close_read e' w st)) = close_read e' w st"
    by (cases "close_read e' w st") (auto simp: close_read_def drop_ref_def)
  with assms show ?thesis by (simp add: with_read_closes)
qed

end
