(* ===== verification/Torch_Bridge.thy ===== *)
theory Torch_Bridge
  imports Tensor_View
begin

text \<open>
  \<open>torch_bridge.cpp\<close>: a DLPack capsule over the storage of a message, which keeps the Python object that owns the
  storage. DLPack's consumer is outside the repository; it is the protocol of \<open>dlpack.h\<close>: a
  consumer takes a capsule named \<open>dltensor\<close>, renames it, and calls the deleter once when its tensor ends.
  An operation that would touch a context that is gone has the result \<open>None\<close>.
\<close>

section \<open>State\<close>

record dl_device =
  de_type :: i32
  de_id :: i32

record dl_dtype =
  dy_code :: u8
  dy_bits :: u8
  dy_lanes :: u16

text \<open>A pointer to the elements of a vector of the context with the given address.\<close>

datatype vector_ptr = Null_Ptr | Shape_Data nat | Strides_Data nat

record dl_tensor =
  dl_data :: u64
  dl_dev :: dl_device
  dl_ndim :: i32
  dl_type :: dl_dtype
  dl_shape :: vector_ptr
  dl_strides :: vector_ptr
  dl_byte_offset :: u64

datatype tensor_deleter = Null_Deleter | Delete_Managed_Tensor

record managed_tensor =
  mt_tensor :: dl_tensor
  mt_context :: "nat option"
  mt_deleter :: tensor_deleter

text \<open>Python objects are numbers; the tensor is a member of its context and has its address.\<close>

record managed_context =
  mx_shape :: "i64 list"
  mx_strides :: "i64 list"
  mx_owner :: nat
  mx_tensor :: managed_tensor

record capsule =
  ca_tensor :: nat
  ca_name :: string

record bridge =
  br_context :: "nat \<Rightarrow> managed_context option"
  br_next :: nat
  br_refs :: "nat \<Rightarrow> nat"

section \<open>Operations\<close>

text \<open>The end of a context, which gives up its reference to the owner.\<close>

definition delete_context :: "nat \<Rightarrow> bridge \<Rightarrow> bridge option" where
  "delete_context c st =
     (case br_context st c of
        None \<Rightarrow> None
      | Some x \<Rightarrow> Some (st\<lparr>br_context := (br_context st)(c := None),
          br_refs := (br_refs st)(mx_owner x := br_refs st (mx_owner x) - 1)\<rparr>))"

definition delete_managed_tensor :: "nat option \<Rightarrow> bridge \<Rightarrow> bridge option" where
  "delete_managed_tensor tensor st =
     (case tensor of
        None \<Rightarrow> Some st
      | Some t \<Rightarrow>
          (case br_context st t of
             None \<Rightarrow> None
           | Some x \<Rightarrow> (case mt_context (mx_tensor x) of None \<Rightarrow> Some st | Some c \<Rightarrow> delete_context c st)))"

text \<open>\<open>managed->deleter(managed)\<close>, as the capsule's destructor and a consumer do it.\<close>

definition call_deleter :: "nat \<Rightarrow> bridge \<Rightarrow> bridge option" where
  "call_deleter t st =
     (case br_context st t of
        None \<Rightarrow> None
      | Some x \<Rightarrow>
          (case mt_deleter (mx_tensor x) of Null_Deleter \<Rightarrow> None | Delete_Managed_Tensor \<Rightarrow> delete_managed_tensor (Some t) st))"

definition capsule_destructor :: "capsule \<Rightarrow> bridge \<Rightarrow> bridge option" where
  "capsule_destructor c st = (if ca_name c = ''dltensor'' then call_deleter (ca_tensor c) st else Some st)"

text \<open>
  \<open>make_dlpack_capsule\<close>: the argument \<open>owner\<close> is a reference of its own. \<open>failed\<close> is the error with which Python
  refuses a capsule; the context then ends with its \<open>unique_ptr\<close>.
\<close>

definition make_dlpack_capsule ::
  "exn option \<Rightarrow> u64 \<Rightarrow> i32 \<Rightarrow> i32 \<Rightarrow> u8 \<Rightarrow> u8 \<Rightarrow> u16 \<Rightarrow> i64 list \<Rightarrow> i64 list \<Rightarrow> u64 \<Rightarrow> nat \<Rightarrow> bridge \<Rightarrow>
    ((exn + capsule) \<times> bridge) option" where
  "make_dlpack_capsule failed data device_type device_id dtype_code dtype_bits dtype_lanes shape strides byte_offset owner st =
     (let c = br_next st;
          tensor = \<lparr>dl_data = data, dl_dev = \<lparr>de_type = device_type, de_id = device_id\<rparr>, dl_ndim = of_nat (length shape),
            dl_type = \<lparr>dy_code = dtype_code, dy_bits = dtype_bits, dy_lanes = dtype_lanes\<rparr>, dl_shape = Shape_Data c,
            dl_strides = (if strides = [] then Null_Ptr else Strides_Data c), dl_byte_offset = byte_offset\<rparr>;
          context = \<lparr>mx_shape = shape, mx_strides = strides, mx_owner = owner,
            mx_tensor = \<lparr>mt_tensor = tensor, mt_context = Some c, mt_deleter = Delete_Managed_Tensor\<rparr>\<rparr>;
          st1 = st\<lparr>br_context := (br_context st)(c \<mapsto> context), br_next := c + 1,
            br_refs := (br_refs st)(owner := br_refs st owner + 1)\<rparr>
      in case failed of
           None \<Rightarrow> Some (Inr \<lparr>ca_tensor = c, ca_name = ''dltensor''\<rparr>, st1)
         | Some x \<Rightarrow> map_option (\<lambda>st2. (Inl x, st2)) (delete_context c st1))"

section \<open>The protocol of a capsule\<close>

text \<open>
  Python code with references to owners, the capsules it has, and the tensors that consumers have made of capsules.
\<close>

record bridge_world =
  tw_bridge :: bridge
  tw_users :: "nat list"
  tw_capsules :: "capsule list"
  tw_tensors :: "nat list"

definition set_bridge :: "bridge_world \<Rightarrow> bridge option \<Rightarrow> bridge_world option" where
  "set_bridge w r = map_option (\<lambda>st. w\<lparr>tw_bridge := st\<rparr>) r"

definition upd_refs :: "(nat \<Rightarrow> nat) \<Rightarrow> nat \<Rightarrow> bridge \<Rightarrow> bridge" where
  "upd_refs f ob st = st\<lparr>br_refs := (br_refs st)(ob := f (br_refs st ob))\<rparr>"

text \<open>A step has the result \<open>None\<close> when it would touch a context that is gone.\<close>

inductive bridge_step :: "bridge_world \<Rightarrow> bridge_world option \<Rightarrow> bool" where
  made: "ob \<in> set (tw_users w) \<Longrightarrow>
    make_dlpack_capsule failed data ty dev code bits lanes shape strides offs ob (tw_bridge w) = Some (Inr c, st) \<Longrightarrow>
    bridge_step w (Some (w\<lparr>tw_bridge := st, tw_capsules := c # tw_capsules w\<rparr>))"
| refused: "ob \<in> set (tw_users w) \<Longrightarrow>
    make_dlpack_capsule failed data ty dev code bits lanes shape strides offs ob (tw_bridge w) = Some (Inl x, st) \<Longrightarrow>
    bridge_step w (Some (w\<lparr>tw_bridge := st\<rparr>))"
| make_lost: "ob \<in> set (tw_users w) \<Longrightarrow>
    make_dlpack_capsule failed data ty dev code bits lanes shape strides offs ob (tw_bridge w) = None \<Longrightarrow> bridge_step w None"
| taken: "c \<in> set (tw_capsules w) \<Longrightarrow> ca_name c = ''dltensor'' \<Longrightarrow>
    bridge_step w (Some (w\<lparr>tw_capsules := c\<lparr>ca_name := ''used_dltensor''\<rparr> # remove1 c (tw_capsules w),
      tw_tensors := ca_tensor c # tw_tensors w\<rparr>))"
| collected: "c \<in> set (tw_capsules w) \<Longrightarrow>
    bridge_step w (set_bridge (w\<lparr>tw_capsules := remove1 c (tw_capsules w)\<rparr>) (capsule_destructor c (tw_bridge w)))"
| ended: "t \<in> set (tw_tensors w) \<Longrightarrow>
    bridge_step w (set_bridge (w\<lparr>tw_tensors := remove1 t (tw_tensors w)\<rparr>) (call_deleter t (tw_bridge w)))"
| shared: "bridge_step w (Some (w\<lparr>tw_bridge := upd_refs Suc ob (tw_bridge w), tw_users := ob # tw_users w\<rparr>))"
| forgotten: "ob \<in> set (tw_users w) \<Longrightarrow>
    bridge_step w (Some (w\<lparr>tw_bridge := upd_refs (\<lambda>n. n - 1) ob (tw_bridge w), tw_users := remove1 ob (tw_users w)\<rparr>))"

definition bridge_start :: bridge_world where
  "bridge_start = \<lparr>tw_bridge = \<lparr>br_context = (\<lambda>_. None), br_next = 0, br_refs = (\<lambda>_. 0)\<rparr>, tw_users = [], tw_capsules = [],
     tw_tensors = []\<rparr>"

inductive bridge_reachable :: "bridge_world \<Rightarrow> bool" where
  begins: "bridge_reachable bridge_start"
| steps: "bridge_reachable w \<Longrightarrow> bridge_step w (Some w') \<Longrightarrow> bridge_reachable w'"

text \<open>Who will call the deleter of a context: the capsules that were not taken, and the tensors.\<close>

definition holders :: "bridge_world \<Rightarrow> nat multiset" where
  "holders w = mset (map ca_tensor (filter (\<lambda>c. ca_name c = ''dltensor'') (tw_capsules w))) + mset (tw_tensors w)"

definition owner_at :: "bridge \<Rightarrow> nat \<Rightarrow> nat" where
  "owner_at st c = (case br_context st c of Some x \<Rightarrow> mx_owner x | None \<Rightarrow> 0)"

definition context_ok :: "nat \<Rightarrow> managed_context \<Rightarrow> bool" where
  "context_ok c x \<longleftrightarrow> mt_context (mx_tensor x) = Some c \<and> mt_deleter (mx_tensor x) = Delete_Managed_Tensor"

definition bridge_inv :: "nat multiset \<Rightarrow> nat multiset \<Rightarrow> bridge \<Rightarrow> bool" where
  "bridge_inv U H st \<longleftrightarrow>
     (\<forall>c. count H c = (if br_context st c = None then 0 else 1)) \<and>
     (\<forall>c x. br_context st c = Some x \<longrightarrow> c < br_next st \<and> context_ok c x) \<and>
     (\<forall>ob. br_refs st ob = count U ob + count (image_mset (owner_at st) H) ob)"

lemma image_owner_cong: "\<forall>c \<in># H. br_context st' c = br_context st c \<Longrightarrow> image_mset (owner_at st') H = image_mset (owner_at st) H"
  by (rule image_mset_cong) (simp add: owner_at_def)

lemma delete_context_inv:
  assumes "bridge_inv U (add_mset c H) st"
  shows "\<exists>st'. delete_context c st = Some st' \<and> bridge_inv U H st'"
proof -
  note i = assms [unfolded bridge_inv_def]
  have "count (add_mset c H) c = (if br_context st c = None then 0 else 1)" using i by blast
  then obtain x where x: "br_context st c = Some x" and n: "c \<notin># H" by (auto simp: not_in_iff split: if_splits)
  define st' where "st' = st\<lparr>br_context := (br_context st)(c := None), br_refs := (br_refs st)(mx_owner x := br_refs st (mx_owner x) - 1)\<rparr>"
  have d: "delete_context c st = Some st'" by (simp add: delete_context_def x st'_def)
  have H: "image_mset (owner_at st') H = image_mset (owner_at st) H"
    using n by (intro image_owner_cong) (auto simp: st'_def)
  have o: "owner_at st c = mx_owner x" by (simp add: owner_at_def x)
  have "count H a = (if br_context st' a = None then 0 else 1)" for a
  proof (cases "a = c")
    case True
    then show ?thesis using n by (simp add: st'_def not_in_iff)
  next
    case False
    have "count (add_mset c H) a = (if br_context st a = None then 0 else 1)" using i by blast
    then show ?thesis using False by (simp add: st'_def)
  qed
  moreover have "br_refs st' ob = count U ob + count (image_mset (owner_at st') H) ob" for ob
  proof -
    have "br_refs st ob = count U ob + count (image_mset (owner_at st) (add_mset c H)) ob" using i by blast
    then show ?thesis unfolding H by (cases "ob = mx_owner x") (simp_all add: o st'_def)
  qed
  moreover have "\<forall>a y. br_context st' a = Some y \<longrightarrow> a < br_next st' \<and> context_ok a y"
    using i by (auto simp: st'_def)
  ultimately show ?thesis using d unfolding bridge_inv_def by blast
qed

lemma call_deleter_inv:
  assumes "bridge_inv U (add_mset t H) st"
  shows "\<exists>st'. call_deleter t st = Some st' \<and> bridge_inv U H st'"
proof -
  note i = assms [unfolded bridge_inv_def]
  have "count (add_mset t H) t = (if br_context st t = None then 0 else 1)" using i by blast
  then obtain x where x: "br_context st t = Some x" by (auto split: if_splits)
  then have "context_ok t x" using i by blast
  then have "call_deleter t st = delete_context t st"
    by (simp add: call_deleter_def delete_managed_tensor_def x context_ok_def)
  with delete_context_inv [OF assms] show ?thesis by simp
qed

lemma make_capsule_inv:
  fixes failed :: "exn option"
  assumes "bridge_inv U H st"
  shows "\<exists>r st'. make_dlpack_capsule failed data ty dev code bits lanes shape strides offs ob st = Some (r, st') \<and>
    (case r of Inl x \<Rightarrow> bridge_inv U H st' | Inr c \<Rightarrow> ca_name c = ''dltensor'' \<and> bridge_inv U (add_mset (ca_tensor c) H) st')"
proof -
  note i = assms [unfolded bridge_inv_def]
  let ?c = "br_next st"
  obtain x where x: "mx_owner x = ob" "context_ok ?c x" and m:
    "make_dlpack_capsule failed data ty dev code bits lanes shape strides offs ob st =
      (let st1 = st\<lparr>br_context := (br_context st)(?c \<mapsto> x), br_next := ?c + 1, br_refs := (br_refs st)(ob := br_refs st ob + 1)\<rparr>
       in case failed of
           None \<Rightarrow> Some (Inr \<lparr>ca_tensor = ?c, ca_name = ''dltensor''\<rparr>, st1)
         | Some e \<Rightarrow> map_option (\<lambda>st2. (Inl e, st2)) (delete_context ?c st1))"
  proof
    let ?x = "\<lparr>mx_shape = shape, mx_strides = strides, mx_owner = ob, mx_tensor = \<lparr>mt_tensor = \<lparr>dl_data = data,
      dl_dev = \<lparr>de_type = ty, de_id = dev\<rparr>, dl_ndim = of_nat (length shape),
      dl_type = \<lparr>dy_code = code, dy_bits = bits, dy_lanes = lanes\<rparr>, dl_shape = Shape_Data ?c,
      dl_strides = (if strides = [] then Null_Ptr else Strides_Data ?c), dl_byte_offset = offs\<rparr>,
      mt_context = Some ?c, mt_deleter = Delete_Managed_Tensor\<rparr>\<rparr>"
    show "mx_owner ?x = ob" "context_ok ?c ?x" by (simp_all add: context_ok_def)
    show "make_dlpack_capsule failed data ty dev code bits lanes shape strides offs ob st =
      (let st1 = st\<lparr>br_context := (br_context st)(?c \<mapsto> ?x), br_next := ?c + 1, br_refs := (br_refs st)(ob := br_refs st ob + 1)\<rparr>
       in case failed of
           None \<Rightarrow> Some (Inr \<lparr>ca_tensor = ?c, ca_name = ''dltensor''\<rparr>, st1)
         | Some e \<Rightarrow> map_option (\<lambda>st2. (Inl e, st2)) (delete_context ?c st1))"
      by (simp only: make_dlpack_capsule_def Let_def)
  qed
  define st1 where "st1 = st\<lparr>br_context := (br_context st)(?c \<mapsto> x), br_next := ?c + 1, br_refs := (br_refs st)(ob := br_refs st ob + 1)\<rparr>"
  have none: "br_context st ?c = None" using i by (meson less_irrefl not_Some_eq)
  have n: "?c \<notin># H"
  proof -
    have "count H ?c = (if br_context st ?c = None then 0 else 1)" using i by blast
    then show ?thesis using none by (simp add: not_in_iff)
  qed
  have H: "image_mset (owner_at st1) H = image_mset (owner_at st) H"
    using n by (intro image_owner_cong) (auto simp: st1_def)
  have o: "owner_at st1 ?c = ob" by (simp add: owner_at_def st1_def x(1))
  have "count (add_mset ?c H) a = (if br_context st1 a = None then 0 else 1)" for a
  proof -
    have "count H a = (if br_context st a = None then 0 else 1)" using i by blast
    then show ?thesis using n none by (cases "a = ?c") (simp_all add: st1_def not_in_iff)
  qed
  moreover have "br_refs st1 a = count U a + count (image_mset (owner_at st1) (add_mset ?c H)) a" for a
  proof -
    have "br_refs st a = count U a + count (image_mset (owner_at st) H) a" using i by blast
    then show ?thesis using H o by (cases "a = ob") (simp_all add: st1_def)
  qed
  moreover have "\<forall>a y. br_context st1 a = Some y \<longrightarrow> a < br_next st1 \<and> context_ok a y"
    using i x(2) by (auto simp: st1_def less_Suc_eq)
  ultimately have i1: "bridge_inv U (add_mset ?c H) st1" unfolding bridge_inv_def by blast
  show ?thesis
  proof (cases failed)
    case None
    then show ?thesis using m i1 by (simp add: st1_def)
  next
    case (Some e)
    then show ?thesis using m delete_context_inv [OF i1] by (auto simp: st1_def)
  qed
qed

lemma holders_simps:
  "holders (w\<lparr>tw_bridge := st\<rparr>) = holders w"
  "holders (w\<lparr>tw_users := us\<rparr>) = holders w"
  "holders (w\<lparr>tw_capsules := c # cs\<rparr>) = (if ca_name c = ''dltensor'' then {#ca_tensor c#} else {#}) + holders (w\<lparr>tw_capsules := cs\<rparr>)"
  by (simp_all add: holders_def)

lemma holders_remove_capsule:
  assumes "c \<in> set (tw_capsules w)"
  shows "holders w =
    (if ca_name c = ''dltensor'' then {#ca_tensor c#} else {#}) + holders (w\<lparr>tw_capsules := remove1 c (tw_capsules w)\<rparr>)"
proof -
  have "image_mset ca_tensor (filter_mset N (mset (tw_capsules w))) =
      (if N c then {#ca_tensor c#} else {#}) + image_mset ca_tensor (filter_mset N (mset (remove1 c (tw_capsules w))))" for N
  proof -
    have e: "mset (tw_capsules w) = add_mset c (mset (remove1 c (tw_capsules w)))" using assms by simp
    show ?thesis by (subst e) simp
  qed
  then show ?thesis unfolding holders_def mset_map mset_filter by simp
qed

lemma holders_remove_tensor:
  "t \<in> set (tw_tensors w) \<Longrightarrow> holders w = add_mset t (holders (w\<lparr>tw_tensors := remove1 t (tw_tensors w)\<rparr>))"
  by (simp add: holders_def)

definition bridge_world_inv :: "bridge_world \<Rightarrow> bool" where
  "bridge_world_inv w \<longleftrightarrow> bridge_inv (mset (tw_users w)) (holders w) (tw_bridge w)"

lemma upd_refs_inv:
  "bridge_inv U H st \<Longrightarrow> bridge_inv (add_mset ob U) H (upd_refs Suc ob st)"
  "bridge_inv (add_mset ob U) H st \<Longrightarrow> bridge_inv U H (upd_refs (\<lambda>n. n - 1) ob st)"
proof -
  have o: "owner_at (upd_refs f ob st) = owner_at st" for f by (simp add: fun_eq_iff owner_at_def upd_refs_def)
  show "bridge_inv U H st \<Longrightarrow> bridge_inv (add_mset ob U) H (upd_refs Suc ob st)"
    unfolding bridge_inv_def o by (simp add: upd_refs_def)
  show "bridge_inv (add_mset ob U) H st \<Longrightarrow> bridge_inv U H (upd_refs (\<lambda>n. n - 1) ob st)"
    unfolding bridge_inv_def o by (simp add: upd_refs_def)
qed

lemma bridge_step_inv:
  assumes "bridge_step w r" and "bridge_world_inv w"
  shows "\<exists>w'. r = Some w' \<and> bridge_world_inv w'"
  using assms(1)
proof cases
  case (made ob failed data ty dev code bits lanes shape strides offs c st)
  from make_capsule_inv [OF assms(2) [unfolded bridge_world_inv_def], of failed data ty dev code bits lanes shape strides offs ob] made(3)
  show ?thesis using made(1) by (auto simp: bridge_world_inv_def holders_simps)
next
  case (refused ob failed data ty dev code bits lanes shape strides offs x st)
  from make_capsule_inv [OF assms(2) [unfolded bridge_world_inv_def], of failed data ty dev code bits lanes shape strides offs ob] refused(3)
  show ?thesis using refused(1) by (auto simp: bridge_world_inv_def holders_simps)
next
  case (make_lost ob failed data ty dev code bits lanes shape strides offs)
  from make_capsule_inv [OF assms(2) [unfolded bridge_world_inv_def], of failed data ty dev code bits lanes shape strides offs ob] make_lost(3)
  show ?thesis by auto
next
  case (taken c)
  have "holders (w\<lparr>tw_capsules := c\<lparr>ca_name := ''used_dltensor''\<rparr> # remove1 c (tw_capsules w), tw_tensors := ca_tensor c # tw_tensors w\<rparr>) =
      holders w"
    using holders_remove_capsule [OF taken(2)] taken(3) by (simp add: holders_def)
  then show ?thesis using taken(1) assms(2) by (simp add: bridge_world_inv_def)
next
  case (collected c)
  let ?w = "w\<lparr>tw_capsules := remove1 c (tw_capsules w)\<rparr>"
  have "bridge_inv (mset (tw_users w)) ((if ca_name c = ''dltensor'' then {#ca_tensor c#} else {#}) + holders ?w) (tw_bridge w)"
    using assms(2) holders_remove_capsule [OF collected(2)] by (simp add: bridge_world_inv_def)
  then have "\<exists>st. capsule_destructor c (tw_bridge w) = Some st \<and> bridge_inv (mset (tw_users w)) (holders ?w) st"
    using call_deleter_inv by (cases "ca_name c = ''dltensor''") (simp_all add: capsule_destructor_def)
  then show ?thesis using collected(1) by (auto simp: set_bridge_def bridge_world_inv_def holders_simps)
next
  case (ended t)
  let ?w = "w\<lparr>tw_tensors := remove1 t (tw_tensors w)\<rparr>"
  have "bridge_inv (mset (tw_users w)) (add_mset t (holders ?w)) (tw_bridge w)"
    using assms(2) holders_remove_tensor [OF ended(2)] by (simp add: bridge_world_inv_def)
  from call_deleter_inv [OF this] show ?thesis
    using ended(1) by (auto simp: set_bridge_def bridge_world_inv_def holders_simps)
next
  case (shared ob)
  then show ?thesis using assms(2) upd_refs_inv(1) by (simp add: bridge_world_inv_def holders_def)
next
  case (forgotten ob)
  have "mset (tw_users w) = add_mset ob (mset (remove1 ob (tw_users w)))" using forgotten(2) by simp
  then have "bridge_inv (mset (remove1 ob (tw_users w))) (holders w) (upd_refs (\<lambda>n. n - 1) ob (tw_bridge w))"
    using upd_refs_inv(2) assms(2) unfolding bridge_world_inv_def by metis
  then show ?thesis using forgotten(1) by (simp add: bridge_world_inv_def holders_def)
qed

lemma bridge_reachable_inv: "bridge_reachable w \<Longrightarrow> bridge_world_inv w"
proof (induction rule: bridge_reachable.induct)
  case begins
  then show ?case by (simp add: bridge_world_inv_def bridge_inv_def bridge_start_def holders_def)
next
  case (steps w w')
  then show ?case using bridge_step_inv by blast
qed

text \<open>
  C13. A capsule keeps the owner of the storage and gives it up once: in every order of making, taking, collecting capsules and ending tensors, no deleter runs on a context that is gone, every context has exactly one holder that will call its deleter, its owner is referred to, and when no holder is left the only references are those of the program.
\<close>

theorem bridge_never_lost:
  assumes "bridge_reachable w"
  shows "(\<forall>r. bridge_step w r \<longrightarrow> r \<noteq> None) \<and>
    (\<forall>c. (br_context (tw_bridge w) c \<noteq> None \<longleftrightarrow> c \<in># holders w) \<and> count (holders w) c \<le> 1) \<and>
    (\<forall>t \<in># holders w. \<exists>x. br_context (tw_bridge w) t = Some x \<and> 0 < br_refs (tw_bridge w) (mx_owner x)) \<and>
    (holders w = {#} \<longrightarrow> (\<forall>ob. br_refs (tw_bridge w) ob = count_list (tw_users w) ob))"
proof -
  note inv = bridge_reachable_inv [OF assms]
  note i = inv [unfolded bridge_world_inv_def bridge_inv_def]
  have c: "count (holders w) c = (if br_context (tw_bridge w) c = None then 0 else 1)" for c using i by blast
  have "\<exists>x. br_context (tw_bridge w) t = Some x \<and> 0 < br_refs (tw_bridge w) (mx_owner x)" if t: "t \<in># holders w" for t
  proof -
    have "count (holders w) t \<noteq> 0" using t by simp
    then obtain x where x: "br_context (tw_bridge w) t = Some x" using c [of t] by (cases "br_context (tw_bridge w) t") simp_all
    have "owner_at (tw_bridge w) t \<in># image_mset (owner_at (tw_bridge w)) (holders w)" using t by simp
    moreover have "owner_at (tw_bridge w) t = mx_owner x" by (simp add: owner_at_def x)
    moreover have "br_refs (tw_bridge w) ob = count (mset (tw_users w)) ob + count (image_mset (owner_at (tw_bridge w)) (holders w)) ob" for ob
      using i by blast
    ultimately show ?thesis using x by (simp add: count_greater_zero_iff)
  qed
  moreover have "\<forall>r. bridge_step w r \<longrightarrow> r \<noteq> None" using bridge_step_inv [OF _ inv] by blast
  moreover have "(br_context (tw_bridge w) c \<noteq> None \<longleftrightarrow> c \<in># holders w) \<and> count (holders w) c \<le> 1" for c
    using c [of c] by (simp add: not_in_iff flip: count_greater_zero_iff)
  moreover have "\<forall>ob. br_refs (tw_bridge w) ob = count_list (tw_users w) ob" if "holders w = {#}"
    using i that by (simp add: count_mset)
  ultimately show ?thesis by blast
qed

section \<open>What a consumer sees\<close>

text \<open>
  The offset, in items, that \<open>dlpack.h\<close> gives to the element with an index: a null pointer for the strides means
  row-major order. Reading past the end of a vector, or of one that is gone, is \<open>None\<close>.
\<close>

definition vector_at :: "vector_ptr \<Rightarrow> bridge \<Rightarrow> i64 list option" where
  "vector_at p st =
     (case p of
        Null_Ptr \<Rightarrow> None
      | Shape_Data c \<Rightarrow> map_option mx_shape (br_context st c)
      | Strides_Data c \<Rightarrow> map_option mx_strides (br_context st c))"

definition dlpack_offset :: "nat list \<Rightarrow> dl_tensor \<Rightarrow> bridge \<Rightarrow> nat option" where
  "dlpack_offset idx t st =
     (let n = unat (dl_ndim t)
      in case vector_at (dl_shape t) st of
           None \<Rightarrow> None
         | Some shape \<Rightarrow>
             if length shape < n then None
             else if dl_strides t = Null_Ptr
             then Some (\<Sum>i\<leftarrow>[0..<n]. idx ! i * suffix_product (take n shape) i)
             else (case vector_at (dl_strides t) st of
                     None \<Rightarrow> None
                   | Some ss \<Rightarrow> if length ss < n then None else Some (\<Sum>i\<leftarrow>[0..<n]. idx ! i * unat (ss ! i))))"

lemma element_offset_nth:
  assumes "length idx = length ss"
  shows "element_offset idx ss = (\<Sum>i\<leftarrow>[0..<length ss]. idx ! i * unat (ss ! i))"
proof -
  have "map (\<lambda>p. fst p * unat (snd p)) (zip idx ss) = map (\<lambda>i. idx ! i * unat (ss ! i)) [0..<length ss]"
    using assms by (intro nth_equalityI) simp_all
  then show ?thesis by (simp only: element_offset_def)
qed

text \<open>The tensor of the capsule that was made last.\<close>

lemma make_capsule_tensor:
  assumes "make_dlpack_capsule None data ty dev code bits lanes shape strides offs ob st = Some (Inr c, st')"
  shows "\<exists>x. br_context st' (ca_tensor c) = Some x \<and> mx_shape x = shape \<and> mx_strides x = strides \<and> mx_owner x = ob \<and>
    mt_tensor (mx_tensor x) = \<lparr>dl_data = data, dl_dev = \<lparr>de_type = ty, de_id = dev\<rparr>, dl_ndim = of_nat (length shape),
      dl_type = \<lparr>dy_code = code, dy_bits = bits, dy_lanes = lanes\<rparr>, dl_shape = Shape_Data (ca_tensor c),
      dl_strides = (if strides = [] then Null_Ptr else Strides_Data (ca_tensor c)), dl_byte_offset = offs\<rparr>"
  using assms by (auto simp: make_dlpack_capsule_def Let_def)


section \<open>Samples\<close>

text \<open>An owner, a capsule over the sample message, taken by a consumer whose tensor ends first.\<close>

definition sample_make :: "((exn + capsule) \<times> bridge) option" where
  "sample_make = make_dlpack_capsule None 4096 2 0 2 32 1 [2, 2] [3, 1] 8 5 (upd_refs Suc 5 (tw_bridge bridge_start))"

lemma sample_made:
  "\<exists>st. sample_make = Some (Inr \<lparr>ca_tensor = 0, ca_name = ''dltensor''\<rparr>, st) \<and> br_refs st 5 = 2"
  by (simp add: sample_make_def make_dlpack_capsule_def bridge_start_def upd_refs_def)

theorem bridge_never_lost_witness:
  "\<exists>w. bridge_reachable w \<and> tw_tensors w = [0] \<and> 0 < br_refs (tw_bridge w) 5 \<and> call_deleter 0 (tw_bridge w) \<noteq> None"
proof -
  obtain st where st: "sample_make = Some (Inr \<lparr>ca_tensor = 0, ca_name = ''dltensor''\<rparr>, st)" "br_refs st 5 = 2"
    using sample_made by blast
  let ?w1 = "\<lparr>tw_bridge = upd_refs Suc 5 (tw_bridge bridge_start), tw_users = [5], tw_capsules = [], tw_tensors = []\<rparr>"
  let ?w2 = "\<lparr>tw_bridge = st, tw_users = [5], tw_capsules = [\<lparr>ca_tensor = 0, ca_name = ''dltensor''\<rparr>], tw_tensors = []\<rparr>"
  let ?w3 = "\<lparr>tw_bridge = st, tw_users = [5], tw_capsules = [\<lparr>ca_tensor = 0, ca_name = ''used_dltensor''\<rparr>], tw_tensors = [0]\<rparr>"
  have "bridge_step bridge_start (Some ?w1)" using bridge_step.shared [of bridge_start 5] by (simp add: bridge_start_def)
  then have r1: "bridge_reachable ?w1" by (rule bridge_reachable.steps [OF bridge_reachable.begins])
  have "bridge_step ?w1 (Some ?w2)" using bridge_step.made [of 5 ?w1] st(1) by (simp add: sample_make_def)
  then have r2: "bridge_reachable ?w2" by (rule bridge_reachable.steps [OF r1])
  have "bridge_step ?w2 (Some ?w3)"
    using bridge_step.taken [of "\<lparr>ca_tensor = 0, ca_name = ''dltensor''\<rparr>" ?w2] by simp
  then have r3: "bridge_reachable ?w3" by (rule bridge_reachable.steps [OF r2])
  note b = bridge_never_lost [OF r3]
  have "bridge_step ?w3 (set_bridge (?w3\<lparr>tw_tensors := []\<rparr>) (call_deleter 0 st))"
    using bridge_step.ended [of 0 ?w3] by simp
  then have "set_bridge (?w3\<lparr>tw_tensors := []\<rparr>) (call_deleter 0 st) \<noteq> None" using b by blast
  then have d: "call_deleter 0 st \<noteq> None" by (auto simp: set_bridge_def)
  with r3 st(2) show ?thesis by (intro exI [of _ ?w3]) simp
qed


end
