(* ===== verification/Recycler.thy ===== *)
theory Recycler
  imports Cuda_Buffer_Impl
begin

text \<open>
  The recycler's loop when nothing more is enqueued, as its destructor has it: the thread goes on until the queue is
  empty. \<open>es i\<close> holds the answers of the runtime during the \<open>i\<close>-th turn.
\<close>

lemma recycle_queue [simp]: "cs_queue (recycle e st) = tl (cs_queue st)"
  by (auto simp: recycle_def run_deleter_def split: list.splits deleter.splits)

function drain_recycler :: "(nat \<Rightarrow> gpu_env) \<Rightarrow> cuda_state \<Rightarrow> cuda_state" where
  "drain_recycler es st = (if cs_queue st = [] then st else drain_recycler (\<lambda>i. es (Suc i)) (recycle (es 0) st))"
  by pat_completeness auto

termination drain_recycler
  by (relation "measure (\<lambda>(es, st). length (cs_queue st))") simp_all

declare drain_recycler.simps [simp del]

text \<open>The storage that pending work will delete, in order, and the pool's blocks among it.\<close>

definition deletions :: "gpu_call list \<Rightarrow> gpu_call list" where
  "deletions cs = filter (\<lambda>c. \<exists>d p. c = Deleted d p) cs"

definition pending_deletions :: "pending_work list \<Rightarrow> gpu_call list" where
  "pending_deletions ws = map (\<lambda>w. Deleted (pw_deleter w) (pw_ptr w)) (filter (\<lambda>w. pw_ptr w \<noteq> 0) ws)"

definition pending_blocks :: "pending_work list \<Rightarrow> nat set" where
  "pending_blocks ws = {i. \<exists>w \<in> set ws. pw_ptr w \<noteq> 0 \<and> pw_deleter w = Pool_Free i}"

lemma recycle_deletions:
  assumes "cs_queue st = w # ws"
  shows "deletions (cs_trace (recycle e st)) @ pending_deletions ws =
    deletions (cs_trace st) @ pending_deletions (w # ws)"
proof -
  have "deletions (concat (map (sync_calls e) evs)) = []" for evs
    by (induction evs) (auto simp: deletions_def sync_calls_def)
  then show ?thesis
    using assms by (auto simp: recycle_def run_deleter_def pending_deletions_def deletions_def split: deleter.splits)
qed

lemma recycle_blocks:
  assumes "exclusive n {#} st" and "cs_queue st = w # ws"
  shows "handed_out (cs_pool (recycle e st)) - pending_blocks ws = handed_out (cs_pool st) - pending_blocks (w # ws)"
proof (cases "\<exists>i. pw_ptr w \<noteq> 0 \<and> pw_deleter w = Pool_Free i")
  case False
  then have "pending_blocks (w # ws) = pending_blocks ws" by (auto simp: pending_blocks_def)
  moreover have "cs_pool (recycle e st) = cs_pool st"
    using False assms(2) by (auto simp: recycle_def run_deleter_def split: deleter.splits)
  ultimately show ?thesis by simp
next
  case True
  then obtain i where i: "pw_ptr w \<noteq> 0" "pw_deleter w = Pool_Free i" by blast
  then have "i \<in># owned n st" using assms(2) by (simp add: owned_def block_of_def)
  then have "i \<in> mapped_out (cs_pool st)" using exclusive_in [OF assms(1), of i] by simp
  then have h: "i \<in> handed_out (cs_pool st)" "pool_inv (cs_pool st)"
    using assms(1) by (auto simp: exclusive_def mapped_out_def)
  have "cs_pool (recycle e st) = free_block i (cs_pool st)" using i assms(2) by (simp add: recycle_def run_deleter_def)
  then have "handed_out (cs_pool (recycle e st)) = handed_out (cs_pool st) - {i}" using free_block_step(3) [OF h(2,1)] by simp
  moreover have "pending_blocks (w # ws) = insert i (pending_blocks ws)" using i by (auto simp: pending_blocks_def)
  ultimately show ?thesis by auto
qed

lemma drain_facts:
  assumes "exclusive n {#} st"
  shows "cs_queue (drain_recycler es st) = [] \<and> cs_buffer (drain_recycler es st) = cs_buffer st \<and>
    deletions (cs_trace (drain_recycler es st)) = deletions (cs_trace st) @ pending_deletions (cs_queue st) \<and>
    handed_out (cs_pool (drain_recycler es st)) = handed_out (cs_pool st) - pending_blocks (cs_queue st)"
  using assms
proof (induction es st rule: drain_recycler.induct)
  case (1 es st)
  show ?case
  proof (cases "cs_queue st")
    case Nil
    then show ?thesis by (subst (1 2 3 4) drain_recycler.simps) (simp add: pending_deletions_def pending_blocks_def)
  next
    case (Cons w ws)
    let ?st = "recycle (es 0) st"
    have d: "drain_recycler es st = drain_recycler (\<lambda>i. es (Suc i)) ?st" using Cons by (simp add: drain_recycler.simps [of es])
    have ne: "cs_queue st \<noteq> []" using Cons by simp
    note ih = "1.IH" [OF ne recycle_exclusive [OF "1.prems"]]
    show ?thesis
      using ih recycle_deletions [OF Cons, of "es 0"] recycle_blocks [OF "1.prems" Cons, of "es 0"] Cons
      by (simp add: d)
  qed
qed

text \<open>
  C33. The recycler's loop ends: from every state of a process in which nothing more is enqueued, the thread empties its queue; every pending pointer is deleted once, in the order of the queue, the blocks of the pool among them are back in the pool and no others, and no buffer is touched.
\<close>

theorem recycler_drains:
  assumes "process_reachable p"
  defines "st \<equiv> pr_cuda p"
  shows "cs_queue (drain_recycler es st) = [] \<and> cs_buffer (drain_recycler es st) = cs_buffer st \<and>
    deletions (cs_trace (drain_recycler es st)) = deletions (cs_trace st) @ pending_deletions (cs_queue st) \<and>
    handed_out (cs_pool (drain_recycler es st)) = handed_out (cs_pool st) - pending_blocks (cs_queue st)"
proof -
  have "exclusive (pr_next p) {#} st" using process_reachable_inv [OF assms(1)] by (simp add: process_inv_def st_def)
  then show ?thesis by (rule drain_facts)
qed

section \<open>No storage is lost\<close>

lemma drain_exclusive: "exclusive n {#} st \<Longrightarrow> exclusive n {#} (drain_recycler es st)"
proof (induction es st rule: drain_recycler.induct)
  case (1 es st)
  then show ?case using recycle_exclusive [of n "{#}" st "es 0"] by (subst drain_recycler.simps) auto
qed

text \<open>What is left when the queue is empty are the blocks of the buffers.\<close>

lemma drained_blocks:
  assumes "process_inv p"
  shows "mapped_out (cs_pool (drain_recycler es (pr_cuda p))) =
    {i. \<exists>b < pr_next p. cb_ptr (cs_buffer (pr_cuda p) b) \<noteq> 0 \<and> cb_deleter (cs_buffer (pr_cuda p) b) = Pool_Free i}"
proof -
  have ex: "exclusive (pr_next p) {#} (pr_cuda p)" using assms by (simp add: process_inv_def)
  note d = drain_facts [OF ex, of es]
  note e = exclusive_in [OF drain_exclusive [OF ex, of es]]
  show ?thesis using e d by (auto simp: owned_in)
qed

text \<open>
  C5. No storage is lost: after anything a process does, a block that the pool has handed out and mapped at an address is owned, by one
  buffer or by the recycler; and once the recycler has emptied its queue, every such block is the storage of exactly one buffer.
\<close>

theorem no_block_lost:
  assumes "process_reachable p" and "i \<in> handed_out (cs_pool (pr_cuda p))"
    and "vb_va (all_blocks (cs_pool (pr_cuda p)) ! i) \<noteq> 0"
  defines "holds \<equiv> (\<lambda>b. b < pr_next p \<and> cb_ptr (cs_buffer (pr_cuda p) b) \<noteq> 0 \<and> cb_deleter (cs_buffer (pr_cuda p) b) = Pool_Free i)"
  shows "((\<exists>!b. holds b) \<noteq> (\<exists>w \<in> set (cs_queue (pr_cuda p)). pw_ptr w \<noteq> 0 \<and> pw_deleter w = Pool_Free i)) \<and>
    (i \<in> handed_out (cs_pool (drain_recycler es (pr_cuda p))) \<longleftrightarrow> (\<exists>!b. holds b))"
proof -
  note inv = process_reachable_inv [OF assms(1)]
  have one: "\<exists>!b. holds b" if "holds b" for b
    using that storage_disjoint [OF inv, of b i] unfolding holds_def by blast
  have "i \<in> mapped_out (cs_pool (pr_cuda p))" using assms(2,3) by (simp add: mapped_out_def)
  then have o: "(\<exists>b. holds b) \<or> i \<in> pending_blocks (cs_queue (pr_cuda p))"
    using mapped_out_owned [OF inv, of i] by (auto simp: owned_in holds_def pending_blocks_def)
  have n: "i \<notin> pending_blocks (cs_queue (pr_cuda p))" if "holds b" for b
    using that storage_disjoint [OF inv, of b i] by (auto simp: holds_def pending_blocks_def)
  have "exclusive (pr_next p) {#} (pr_cuda p)" using inv by (simp add: process_inv_def)
  then have d: "i \<in> handed_out (cs_pool (drain_recycler es (pr_cuda p))) \<longleftrightarrow> i \<notin> pending_blocks (cs_queue (pr_cuda p))"
    using drain_facts [of "pr_next p" "pr_cuda p" es] assms(2) by simp
  have q: "(\<exists>w \<in> set (cs_queue (pr_cuda p)). pw_ptr w \<noteq> 0 \<and> pw_deleter w = Pool_Free i) \<longleftrightarrow>
      i \<in> pending_blocks (cs_queue (pr_cuda p))" by (simp add: pending_blocks_def)
  show ?thesis unfolding q d using o n one by blast
qed

section \<open>Sample\<close>

text \<open>A buffer of 4000 bytes is allocated and destroyed; its storage waits for its write event.\<close>

theorem recycler_drains_witness:
  "\<exists>p. process_reachable p \<and> 0 \<in> pending_blocks (cs_queue (pr_cuda p)) \<and>
     0 \<notin> handed_out (cs_pool (drain_recycler (\<lambda>_. sample_env) (pr_cuda p)))"
proof -
  obtain p where p: "allocate_buffer sample_alloc_env 1 4000 sample_process = (Inr 0, p)" "pr_next p = 1"
    "cs_buffer (pr_cuda p) 0 = new_storage sample_alloc_env 4000 sample_pool 0"
    using sample_allocation by blast
  let ?p = "on_cuda (destroy_buffer 0) p"
  have "process_step p ?p" by (rule process_step.intros(12)) (simp add: p(2))
  then have r: "process_reachable ?p"
    using process_reachable.intros sample_process_start process_step.intros(1) [OF p(1)] by blast
  have "\<exists>w \<in> set (cs_queue (pr_cuda ?p)). pw_ptr w \<noteq> 0 \<and> pw_deleter w = Pool_Free 0"
    by (simp add: on_cuda_def destroy_buffer_def p(3) destroy_value_def events_to_sync_def new_storage_def make_buffer_def
        set_write_event_def make_write_event_def sample_alloc_env_def sample_pool_def enqueue_def empty_buffer_def Let_def)
  then have q: "0 \<in> pending_blocks (cs_queue (pr_cuda ?p))" by (simp add: pending_blocks_def)
  from recycler_drains [OF r] q r show ?thesis by blast
qed

theorem no_block_lost_witness:
  "\<exists>p. process_reachable p \<and> 0 \<in> handed_out (cs_pool (pr_cuda p)) \<and>
     0 \<in> handed_out (cs_pool (drain_recycler (\<lambda>_. sample_env) (pr_cuda p)))"
proof -
  obtain p where p: "allocate_buffer sample_alloc_env 1 4000 sample_process = (Inr 0, p)" "pr_next p = 1"
    "cs_buffer (pr_cuda p) 0 = new_storage sample_alloc_env 4000 sample_pool 0"
    using sample_allocation by blast
  have r: "process_reachable p"
    using process_reachable.intros sample_process_start process_step.intros(1) [OF p(1)] by blast
  have h: "0 < pr_next p" "cb_ptr (cs_buffer (pr_cuda p) 0) \<noteq> 0" "cb_deleter (cs_buffer (pr_cuda p) 0) = Pool_Free 0"
    by (simp_all add: p(2,3) new_storage_def make_buffer_def set_write_event_def Let_def sample_pool_def)
  have "0 \<in># owned (pr_next p) (pr_cuda p)" using h by (auto simp: owned_in)
  then have "0 \<in> mapped_out (cs_pool (pr_cuda p))" using mapped_out_owned [OF process_reachable_inv [OF r]] by blast
  then have m: "0 \<in> handed_out (cs_pool (pr_cuda p))" "vb_va (all_blocks (cs_pool (pr_cuda p)) ! 0) \<noteq> 0"
    by (simp_all add: mapped_out_def)
  have "\<exists>!b. b < pr_next p \<and> cb_ptr (cs_buffer (pr_cuda p) b) \<noteq> 0 \<and> cb_deleter (cs_buffer (pr_cuda p) b) = Pool_Free 0"
    using h p(2) by (intro ex1I [of _ 0]) auto
  then have d: "0 \<in> handed_out (cs_pool (drain_recycler (\<lambda>_. sample_env) (pr_cuda p)))"
    by (rule iffD2 [OF conjunct2 [OF no_block_lost [OF r m]]])
  show ?thesis by (rule exI [of _ p], intro conjI, rule r, rule m(1), rule d)
qed

end
