(* ===== verification/Tensor_Typing.thy ===== *)
theory Tensor_Typing
  imports Tensor_Conversions
begin

text \<open>
  Types of messages: a message has a scalar type and a shape when its metadata describe contiguous elements that lie in its
  storage. The conversions of \<open>torch_conversions.cpp\<close> with the CPU plugin keep messages typed, and a typed message can
  always be viewed.
\<close>

section \<open>Typed messages\<close>

text \<open>
  A message of a scalar type and a shape: its metadata describe row-major elements of that type from the start of the
  storage, and the storage is large enough for them.
\<close>

definition typed :: "dlpack_codes \<Rightarrow> (scalar_type \<Rightarrow> u64) \<Rightarrow> scalar_type \<Rightarrow> i64 list \<Rightarrow> tensor_msg \<Rightarrow> bool" where
  "typed k es t shape msg \<longleftrightarrow>
     tm_shape msg = shape \<and> contiguous_strides shape = Inr (tm_strides msg) \<and> scalar_type_of k msg = Inr t \<and>
     tm_byte_offset msg = 0 \<and> prod_list (dims shape) * unat (es t) \<le> length (st_bytes (tm_data msg)) \<and>
     length (st_bytes (tm_data msg)) < 2 ^ 64"

lemma contiguous_suffixes:
  assumes "contiguous_strides shape = Inr ss"
  shows "map unat ss = map (suffix_product shape) [0..<length shape]"
  by (rule nth_equalityI) (simp_all add: contiguous_strides_Inr(1,3) [OF assms])

text \<open>A view with an empty dimension spans nothing.\<close>

lemma span_loop_zero:
  assumes "\<forall>d \<in> set shape. 0 \<le> sint d" and "0 \<in> set shape" and "\<forall>s \<in> set ss. 0 \<le> sint s"
    and "map unat ss = map (suffix_product shape) [0..<length shape]"
  shows "span_loop (zip shape ss) n = Inr 0"
  using assms
proof (induction shape arbitrary: ss)
  case (Cons d shape)
  then obtain s rest where ss: "ss = s # rest" by (cases ss) auto
  have sd: "\<not> (sint d < 0 \<or> sint s < 0)" using Cons.prems(1,3) by (simp add: ss not_less)
  show ?case
  proof (cases "d = 0")
    case True
    then show ?thesis using sd by (simp add: ss)
  next
    case False
    then have z: "0 \<in> set shape" using Cons.prems(2) by auto
    then have "(0 :: nat) \<in> set (dims shape)" by force
    then have "prod_list (dims shape) = 0" by (simp add: prod_list_zero_iff)
    moreover have "unat s = prod_list (dims shape)"
      using Cons.prems(4) by (simp add: ss suffix_product_def upt_rec)
    ultimately have s: "s = 0" by (simp add: unat_eq_zero)
    have "map unat rest = map (suffix_product shape) [0..<length shape]"
      using Cons.prems(4) by (simp add: ss map_upt_Suc suffix_product_def del: upt_Suc)
    then have "span_loop (zip shape rest) n = Inr 0"
      using Cons.prems(1,3) z by (intro Cons.IH) (simp_all add: ss)
    then show ?thesis using False sd by (simp add: ss s Let_def)
  qed
qed simp

lemma typed_valid:
  assumes "typed k es t shape msg"
  shows "validate_view k es msg = Inr ()" and "normalized_strides msg = Inr (tm_strides msg)"
proof -
  note ty = assms [unfolded typed_def]
  have c: "contiguous_strides (tm_shape msg) = Inr (tm_strides msg)" using ty by simp
  note r = contiguous_strides_Inr [OF c]
  show ns: "normalized_strides msg = Inr (tm_strides msg)"
    using c r(1) by (auto simp: normalized_strides_def contiguous_strides_def)
  have st: "scalar_type_of k msg = Inr t" and off: "tm_byte_offset msg = 0"
    and fit: "prod_list (dims (tm_shape msg)) * unat (es t) \<le> length (st_bytes (tm_data msg))"
    and len: "length (st_bytes (tm_data msg)) < 2 ^ 64" using ty by simp_all
  let ?ps = "zip (tm_shape msg) (tm_strides msg)"
  have "\<exists>span. span_loop ?ps 1 = Inr span \<and> unat span \<le> prod_list (dims (tm_shape msg))"
  proof (cases "0 \<in> set (tm_shape msg)")
    case True
    have "span_loop ?ps 1 = Inr 0"
      by (rule span_loop_zero) (use r(2,4) True contiguous_suffixes [OF c] in auto)
    then show ?thesis by simp
  next
    case False
    then have pos: "\<forall>d \<in> set (tm_shape msg). 0 < unat d" by (metis unat_gt_0)
    then have reach: "1 + view_reach ?ps = prod_list (dims (tm_shape msg))"
      by (rule view_reach_contiguous [OF _ contiguous_suffixes [OF c]])
    have "0 < sint d" if "d \<in> set (tm_shape msg)" for d
      using r(2) pos that by (simp add: sint_pos_iff sint_nonneg_iff)
    then have ps: "\<forall>p \<in> set ?ps. 0 < sint (fst p) \<and> 0 \<le> sint (snd p)"
      using r(4) by (auto dest: set_zip_leftD set_zip_rightD)
    have "unat (1 :: u64) + view_reach ?ps < 2 ^ 64" using reach r(5) by simp
    from span_loop_total [OF ps this] obtain span where span: "span_loop ?ps 1 = Inr span" ..
    have "\<not> (\<exists>p \<in> set ?ps. fst p = 0)" using ps by force
    then have "unat span = prod_list (dims (tm_shape msg))" using span_loop_Inr [OF span] reach by simp
    with span show ?thesis by auto
  qed
  then obtain span where s: "span_loop ?ps 1 = Inr span" "unat span \<le> prod_list (dims (tm_shape msg))" by blast
  have "unat span * unat (es t) \<le> length (st_bytes (tm_data msg))"
    using mult_le_mono1 [OF s(2), of "unat (es t)"] fit by linarith
  then show "validate_view k es msg = Inr ()"
    using validate_view_cases [OF ns st, of es] s(1) off len by (auto simp: data_size_length)
qed

text \<open>Writing bytes through a view changes no metadata.\<close>

lemma typed_bytes:
  assumes "typed k es t shape msg" and "length bs = length (st_bytes (tm_data msg))"
  shows "typed k es t shape (msg\<lparr>tm_data := (tm_data msg)\<lparr>st_bytes := bs\<rparr>\<rparr>)"
  using assms by (simp add: typed_def scalar_type_of_def)

section \<open>A process with the CPU plugin\<close>

definition cpu_only :: "dlpack_codes \<Rightarrow> registry \<Rightarrow> bool" where
  "cpu_only k r \<longleftrightarrow> rg_backends r = [(''cpu'', cpu_plugin k)] \<and> rg_devices r = [(kCPU, cpu_plugin k)]"

lemma cpu_only_made:
  assumes "\<forall>x \<in> set declared. (\<exists>e. x = Inl e) \<or> x = Inr (cpu_plugin k) \<or> (\<exists>p. x = Inr p \<and> \<not> pl_available p)"
    and "Inr (cpu_plugin k) \<in> set declared"
  shows "cpu_only k (make_registry declared)"
proof -
  let ?c = "\<lparr>rg_backends = [(''cpu'', cpu_plugin k)], rg_devices = [(kCPU, cpu_plugin k)]\<rparr>"
  let ?e = "\<lparr>rg_backends = [], rg_devices = []\<rparr>"
  have c: "pl_backend (cpu_plugin k) = ''cpu''" "pl_available (cpu_plugin k)" "pl_device_type (cpu_plugin k) = kCPU"
    by (simp_all add: cpu_plugin_def)
  have stay: "register_plugin x ?c = ?c" if "x \<in> set declared" for x
    using assms(1) that c by (auto simp: register_plugin_def)
  have fold_stay: "fold register_plugin xs ?c = ?c" if "set xs \<subseteq> set declared" for xs
    using that by (induction xs) (simp_all add: stay)
  have "fold register_plugin xs ?e = (if Inr (cpu_plugin k) \<in> set xs then ?c else ?e)" if "set xs \<subseteq> set declared" for xs
    using that
  proof (induction xs)
    case (Cons x xs)
    show ?case
    proof (cases "x = Inr (cpu_plugin k)")
      case True
      then have "register_plugin x ?e = ?c" by (simp add: register_plugin_def c)
      then show ?thesis using True fold_stay [of xs] Cons.prems by simp
    next
      case False
      then have "register_plugin x ?e = ?e" using assms(1) Cons.prems by (fastforce simp: register_plugin_def)
      then show ?thesis using False Cons by auto
    qed
  qed simp
  from this [of declared] assms(2) show ?thesis by (simp add: make_registry_def cpu_only_def)
qed

lemma cpu_only_lookup:
  assumes "cpu_only k r"
  shows "for_backend ''cpu'' r = Inr (cpu_plugin k)" and "for_device kCPU r = Inr (cpu_plugin k)"
    and "for_device n r = Inr p \<Longrightarrow> n = kCPU \<and> p = cpu_plugin k" and "for_backend b r = Inr p \<Longrightarrow> b = ''cpu'' \<and> p = cpu_plugin k"
    and "pick_plugin r dev = Inr (q, d) \<Longrightarrow> q = cpu_plugin k \<and> dv_type d = kCPU"
    and "dev = None \<or> dv_type (the dev) = kCPU \<Longrightarrow> \<exists>d. pick_plugin r dev = Inr (cpu_plugin k, d)"
  using assms
  by (auto simp: cpu_only_def for_backend_def for_device_def pick_plugin_def default_name_def cpu_plugin_def
      split: option.splits sum.splits if_splits)

section \<open>Every operation keeps messages typed\<close>

lemma byte_count_Inr:
  assumes "byte_count es shape t = Inr n"
  shows "unat n = prod_list (dims shape) * unat (es t)"
proof -
  obtain c where c: "element_count shape = Inr c"
    and fit: "\<not> (c \<noteq> 0 \<and> es t > - 1 div c)" and n: "n = c * es t"
    using assms by (auto simp: byte_count_def Let_def split: sum.splits if_splits)
  have u: "unat c = prod_list (dims shape)" using count_loop_Inr [of shape 1 c] c by (simp add: element_count_def)
  have "unat c * unat (es t) < 2 ^ 64"
    using fit mul_guard [of c "es t"] by (cases "c = 0") (auto simp: mult.commute)
  then show ?thesis unfolding n u [symmetric] by (rule unat_mul_fits)
qed

definition on_cpu :: "tensor_msg \<Rightarrow> bool" where
  "on_cpu msg \<longleftrightarrow> st_backend (tm_data msg) = ''cpu''"

lemma allocate_typed:
  assumes "allocate_tensor_msg k es r shape t dev = Inr msg" and "cpu_only k r" and "dlpack_ok k"
  shows "typed k es t shape msg" and "on_cpu msg"
    and "length (st_bytes (tm_data msg)) = prod_list (dims shape) * unat (es t)" and "set (st_bytes (tm_data msg)) \<subseteq> {0}"
proof -
  obtain q d where p: "pick_plugin r dev = Inr (q, d)"
    using assms(1) by (auto simp: allocate_tensor_msg_def split: sum.splits)
  have q: "q = cpu_plugin k" "dv_type d = kCPU" using cpu_only_lookup(5) [OF assms(2) p] by simp_all
  obtain ss dd n where c: "contiguous_strides shape = Inr ss" "describe_dtype k t = Inr dd" "byte_count es shape t = Inr n"
    using assms(1) p by (auto simp: allocate_tensor_msg_def Let_def split: sum.splits)
  have m: "msg = empty_msg\<lparr>tm_shape := shape, tm_strides := ss, tm_dtype_code := dd_code dd, tm_dtype_bits := dd_bits dd,
      tm_dtype_lanes := dd_lanes dd, tm_byte_offset := 0, tm_data := \<lparr>st_backend = ''cpu'', st_bytes = replicate (unat n) 0\<rparr>\<rparr>"
    using assms(1) p q c
    by (simp add: allocate_tensor_msg_def cpu_plugin_def cpu_allocate_def empty_msg_def resize_bytes_def Let_def)
  have n: "unat n = prod_list (dims shape) * unat (es t)" using c(3) by (rule byte_count_Inr)
  have dd: "dd = \<lparr>dd_code = tm_dtype_code msg, dd_bits = tm_dtype_bits msg, dd_lanes = tm_dtype_lanes msg\<rparr>"
    by (simp add: m)
  have "scalar_type_of k msg = Inr t" by (rule described_scalar_type [OF assms(3)]) (use c(2) dd in simp)
  moreover have "unat n < 2 ^ 64" using unat_bound64 [of n] by simp
  ultimately show "typed k es t shape msg" "on_cpu msg"
    "length (st_bytes (tm_data msg)) = prod_list (dims shape) * unat (es t)" "set (st_bytes (tm_data msg)) \<subseteq> {0}"
    using c(1) n by (auto simp: typed_def on_cpu_def m)
qed

text \<open>What Torch guarantees of a tensor: no negative size, and as many bytes as its elements need.\<close>

definition torch_tensor :: "(scalar_type \<Rightarrow> u64) \<Rightarrow> at_tensor \<Rightarrow> bool" where
  "torch_tensor es t \<longleftrightarrow>
     (\<forall>d \<in> set (at_sizes t). 0 \<le> sint d) \<and> es (at_scalar_type t) \<noteq> 0 \<and>
     length (at_bytes t) = prod_list (dims (at_sizes t)) * unat (es (at_scalar_type t)) \<and> length (at_bytes t) < 2 ^ 63"

definition sound_msg :: "dlpack_codes \<Rightarrow> (scalar_type \<Rightarrow> u64) \<Rightarrow> tensor_msg \<Rightarrow> bool" where
  "sound_msg k es msg \<longleftrightarrow> on_cpu msg \<and> (msg = empty_msg \<or> (\<exists>t shape. typed k es t shape msg))"

lemma set_metadata_typed:
  assumes "set_metadata k msg tensor = (res, msg')" and "dlpack_ok k" and "torch_tensor es tensor"
    and "\<not> numel_zero tensor" and "length (at_bytes tensor) \<le> length (st_bytes (tm_data msg))"
    and "length (st_bytes (tm_data msg)) < 2 ^ 64"
  shows "res = Inr () \<Longrightarrow> typed k es (at_scalar_type tensor) (at_sizes tensor) msg'" and "res = Inl x \<Longrightarrow> msg' = msg"
    and "tm_data msg' = tm_data msg"
proof -
  have pos: "\<forall>d \<in> set (at_sizes tensor). 0 < sint d"
  proof
    fix d assume d: "d \<in> set (at_sizes tensor)"
    then have "d \<noteq> 0" "0 \<le> sint d" using assms(3,4) by (auto simp: numel_zero_def torch_tensor_def)
    then show "0 < sint d" by (simp add: sint_nonneg_iff sint_pos_iff unat_gt_0)
  qed
  have e: "0 < unat (es (at_scalar_type tensor))" using assms(3) by (simp add: torch_tensor_def unat_gt_0)
  then have "prod_list (dims (at_sizes tensor)) * 1 \<le> prod_list (dims (at_sizes tensor)) * unat (es (at_scalar_type tensor))"
    by (intro mult_le_mono2) simp
  then have "prod_list (dims (at_sizes tensor)) < 2 ^ 63"
    using assms(3) unfolding torch_tensor_def by (metis nat_mult_1_right order_le_less_trans)
  from contiguous_strides_total [OF pos this] obtain ss where ss: "contiguous_strides (at_sizes tensor) = Inr ss" ..
  have cases: "(\<exists>x. describe_dtype k (at_scalar_type tensor) = Inl x \<and> res = Inl x \<and> msg' = msg) \<or>
      (\<exists>d. describe_dtype k (at_scalar_type tensor) = Inr d \<and> res = Inr () \<and>
         msg' = msg\<lparr>tm_shape := at_sizes tensor, tm_strides := ss, tm_dtype_code := dd_code d,
                      tm_dtype_bits := dd_bits d, tm_dtype_lanes := dd_lanes d, tm_byte_offset := 0\<rparr>)"
    using assms(1) ss by (auto simp: set_metadata_def Let_def split: sum.splits)
  show "typed k es (at_scalar_type tensor) (at_sizes tensor) msg'" if ok: "res = Inr ()"
  proof -
    obtain d where d: "describe_dtype k (at_scalar_type tensor) = Inr d"
      "msg' = msg\<lparr>tm_shape := at_sizes tensor, tm_strides := ss, tm_dtype_code := dd_code d,
                      tm_dtype_bits := dd_bits d, tm_dtype_lanes := dd_lanes d, tm_byte_offset := 0\<rparr>"
      using cases ok by fastforce
    have "d = \<lparr>dd_code = tm_dtype_code msg', dd_bits = tm_dtype_bits msg', dd_lanes = tm_dtype_lanes msg'\<rparr>"
      by (simp add: d(2))
    then have "scalar_type_of k msg' = Inr (at_scalar_type tensor)"
      using d(1) by (intro described_scalar_type [OF assms(2)]) simp
    then show ?thesis using d(2) ss assms(3,5,6) by (simp add: typed_def torch_tensor_def)
  qed
  show "msg' = msg" if "res = Inl x" using cases that by auto
  show "tm_data msg' = tm_data msg" using cases by auto
qed

lemma to_tensor_msg_cases:
  assumes "to_tensor_msg k r msg tensor = (res, msg')" and "cpu_only k r"
  obtains (same) "msg' = msg" "res = Inr () \<Longrightarrow> \<not> at_defined tensor \<or> numel_zero tensor"
    | (copied) msg1 where "\<not> numel_zero tensor" "cpu_copy_to msg tensor = Inr msg1"
      "length (at_bytes tensor) \<le> length (st_bytes (tm_data msg))" "set_metadata k msg1 tensor = (res, msg')"
proof (cases "\<not> at_defined tensor \<or> numel_zero tensor")
  case True
  then show ?thesis using assms(1) by (intro same) (auto simp: to_tensor_msg_def)
next
  case def: False
  show ?thesis
  proof (cases "length (at_bytes tensor) > length (st_bytes (tm_data msg))")
    case True
    then show ?thesis using assms(1) def by (intro same) (auto simp: to_tensor_msg_def)
  next
    case len: False
    obtain p where p: "(if dv_type (at_device tensor) = kCPU then for_backend (st_backend (tm_data msg)) r
        else for_device (dv_type (at_device tensor)) r) = p" by simp
    note c = assms(1) [unfolded to_tensor_msg_def if_not_P [OF def] if_not_P [OF len] p]
    show ?thesis
    proof (cases p)
      case (Inl x)
      then show ?thesis using c by (intro same) auto
    next
      case (Inr q)
      have "q = cpu_plugin k" using p Inr cpu_only_lookup(3,4) [OF assms(2)] by (auto split: if_splits)
      then have q: "pl_copy_to q = cpu_copy_to" by (simp add: cpu_plugin_def)
      show ?thesis
      proof (cases "cpu_copy_to msg tensor")
        case (Inl x)
        then show ?thesis using c q \<open>p = Inr q\<close> by (intro same) auto
      next
        case (Inr msg1)
        then show ?thesis using c q def len \<open>p = Inr q\<close> by (intro copied) auto
      qed
    qed
  qed
qed

text \<open>The bytes that are copied change no metadata; and nothing fits into the storage of an empty message.\<close>

lemma copied_typed:
  assumes "cpu_copy_to msg tensor = Inr msg1" and "length (at_bytes tensor) \<le> length (st_bytes (tm_data msg))"
  shows "typed k es t shape msg \<Longrightarrow> typed k es t shape msg1" and "on_cpu msg \<Longrightarrow> on_cpu msg1"
    and "length (st_bytes (tm_data msg1)) = length (st_bytes (tm_data msg))"
proof -
  note cb = cpu.copy_bytes [OF assms]
  show len: "length (st_bytes (tm_data msg1)) = length (st_bytes (tm_data msg))" by (rule cpu.copy_prefix(2) [OF assms])
  show "on_cpu msg \<Longrightarrow> on_cpu msg1" using cb by (simp add: on_cpu_def)
  have "msg1 = msg\<lparr>tm_data := (tm_data msg)\<lparr>st_bytes := st_bytes (tm_data msg1)\<rparr>\<rparr>"
    using assms(1) by (auto simp: cpu_copy_to_def split: sum.splits if_splits)
  then show "typed k es t shape msg \<Longrightarrow> typed k es t shape msg1" using typed_bytes [OF _ len] by metis
qed

lemma tensor_bytes_nonempty:
  assumes "torch_tensor es tensor" and "\<not> numel_zero tensor"
  shows "at_bytes tensor \<noteq> []"
proof -
  have "0 < unat d" if "d \<in> set (at_sizes tensor)" for d
    using that assms(2) by (auto simp: numel_zero_def unat_gt_0)
  then have "0 < prod_list (dims (at_sizes tensor))" by (intro prod_list_pos) auto
  moreover have "0 < unat (es (at_scalar_type tensor))" using assms(1) by (simp add: torch_tensor_def unat_gt_0)
  ultimately have "length (at_bytes tensor) \<noteq> 0" using assms(1) by (simp add: torch_tensor_def)
  then show ?thesis by simp
qed

lemma to_tensor_msg_sound:
  assumes "to_tensor_msg k r msg tensor = (res, msg')" and "cpu_only k r" and "dlpack_ok k" and "torch_tensor es tensor"
    and "sound_msg k es msg"
  shows "sound_msg k es msg'"
    and "res = Inr () \<Longrightarrow> at_defined tensor \<Longrightarrow> \<not> numel_zero tensor \<Longrightarrow> typed k es (at_scalar_type tensor) (at_sizes tensor) msg'"
proof -
  have "sound_msg k es msg' \<and> (res = Inr () \<longrightarrow> at_defined tensor \<longrightarrow> \<not> numel_zero tensor \<longrightarrow>
      typed k es (at_scalar_type tensor) (at_sizes tensor) msg')"
    using assms(1,2)
  proof (cases rule: to_tensor_msg_cases)
    case same
    then show ?thesis using assms(5) by auto
  next
    case (copied msg1)
    note ct = copied_typed [OF copied(2,3)]
    have "msg \<noteq> empty_msg" using tensor_bytes_nonempty [OF assms(4) copied(1)] copied(3) by (auto simp: empty_msg_def)
    then obtain t shape where "typed k es t shape msg" using assms(5) by (auto simp: sound_msg_def)
    then have t: "typed k es t shape msg1" by (rule ct(1))
    then have l: "length (st_bytes (tm_data msg1)) < 2 ^ 64" by (simp add: typed_def)
    have len: "length (at_bytes tensor) \<le> length (st_bytes (tm_data msg1))" using ct(3) copied(3) by simp
    note sm = set_metadata_typed [OF copied(4) assms(3,4) copied(1) len l]
    have "on_cpu msg'" using sm(3) ct(2) assms(5) by (simp add: on_cpu_def sound_msg_def)
    then show ?thesis using sm(1,2) t by (cases res) (auto simp: sound_msg_def)
  qed
  then show "sound_msg k es msg'"
    "res = Inr () \<Longrightarrow> at_defined tensor \<Longrightarrow> \<not> numel_zero tensor \<Longrightarrow> typed k es (at_scalar_type tensor) (at_sizes tensor) msg'"
    by blast+
qed

section \<open>Messages never go wrong\<close>

text \<open>
  The messages that a process makes: empty ones, allocated ones, those made from tensors, and what becomes of them when tensors are
  written into them, whatever the call answers, and when elements are written through views.
\<close>

inductive built :: "dlpack_codes \<Rightarrow> (scalar_type \<Rightarrow> u64) \<Rightarrow> registry \<Rightarrow> tensor_msg \<Rightarrow> bool" for k es r where
  empty: "built k es r empty_msg"
| allocated: "allocate_tensor_msg k es r shape t dev = Inr msg \<Longrightarrow> built k es r msg"
| from_tensor: "torch_tensor es tensor \<Longrightarrow> tensor_to_new_msg k es r tensor = Inr msg \<Longrightarrow> built k es r msg"
| overwritten: "built k es r msg \<Longrightarrow> torch_tensor es tensor \<Longrightarrow> to_tensor_msg k r msg tensor = (res, msg') \<Longrightarrow> built k es r msg'"
| elements: "built k es r msg \<Longrightarrow> length bs = length (st_bytes (tm_data msg)) \<Longrightarrow>
    built k es r (msg\<lparr>tm_data := (tm_data msg)\<lparr>st_bytes := bs\<rparr>\<rparr>)"

lemma built_sound:
  assumes "built k es r msg" and "cpu_only k r" and "dlpack_ok k"
  shows "sound_msg k es msg"
  using assms(1)
proof (induction rule: built.induct)
  case empty
  then show ?case by (simp add: sound_msg_def on_cpu_def empty_msg_def)
next
  case (allocated shape t dev msg)
  then show ?case using allocate_typed(1,2) [OF allocated assms(2,3)] unfolding sound_msg_def by blast
next
  case (from_tensor tensor msg)
  show ?case
  proof (cases "\<not> at_defined tensor \<or> numel_zero tensor")
    case True
    then show ?thesis using from_tensor(2) by (auto simp: tensor_to_new_msg_def sound_msg_def on_cpu_def empty_msg_def)
  next
    case False
    then obtain m where a: "allocate_tensor_msg k es r (at_sizes tensor) (at_scalar_type tensor) (Some (at_device tensor)) = Inr m"
      "to_tensor_msg k r m tensor = (Inr (), msg)"
      using from_tensor(2) by (auto simp: tensor_to_new_msg_def split: sum.splits prod.splits)
    have "sound_msg k es m" using allocate_typed(1,2) [OF a(1) assms(2,3)] unfolding sound_msg_def by blast
    from to_tensor_msg_sound(1) [OF a(2) assms(2,3) from_tensor(1) this] show ?thesis .
  qed
next
  case (overwritten msg tensor res msg')
  then show ?case using to_tensor_msg_sound(1) [OF overwritten(3) assms(2,3)] by blast
next
  case (elements msg bs)
  have c: "on_cpu (msg\<lparr>tm_data := (tm_data msg)\<lparr>st_bytes := bs\<rparr>\<rparr>)" using elements.IH by (simp add: sound_msg_def on_cpu_def)
  show ?case
  proof (cases "msg = empty_msg")
    case True
    then show ?thesis using elements c by (simp add: empty_msg_def)
  next
    case False
    then show ?thesis using elements c typed_bytes [OF _ elements.hyps(2)] unfolding sound_msg_def by blast
  qed
qed

text \<open>
  C12. Messages never go wrong: every message that a process with the CPU plugin makes, by any sequence of conversions, also failed
  ones, is read and written without an exception: it is empty, or there are a scalar type and a shape of which it is
  a contiguous tensor from the start of its storage, and both views of it show just that.
\<close>

theorem built_messages_viewable:
  assumes "built k es r msg" and "cpu_only k r" and "dlpack_ok k"
  shows "if st_bytes (tm_data msg) = []
    then from_input_tensor_msg k es r msg cl = Inr None \<and> from_output_tensor_msg k es r msg = Inr None
    else \<exists>t shape ss. contiguous_strides shape = Inr ss \<and>
      prod_list (dims shape) * unat (es t) \<le> length (st_bytes (tm_data msg)) \<and>
      from_input_tensor_msg k es r msg cl = Inr (Some \<lparr>bv_backend = ''cpu'', bv_offset = 0, bv_shape = shape,
        bv_strides = ss, bv_type = t, bv_cloned = cl\<rparr>) \<and>
      from_output_tensor_msg k es r msg = Inr (Some \<lparr>bv_backend = ''cpu'', bv_offset = 0, bv_shape = shape,
        bv_strides = ss, bv_type = t, bv_cloned = False\<rparr>)"
proof (cases "st_bytes (tm_data msg) = []")
  case True
  then show ?thesis by (simp add: from_input_tensor_msg_def from_output_tensor_msg_def)
next
  case False
  then have "msg \<noteq> empty_msg" by (auto simp: empty_msg_def)
  then obtain t shape where t: "typed k es t shape msg" and c: "on_cpu msg"
    using built_sound [OF assms] by (auto simp: sound_msg_def)
  note v = typed_valid [OF t] and ty = t [unfolded typed_def]
  have "from_input_tensor_msg k es r msg cl = Inr (Some \<lparr>bv_backend = ''cpu'', bv_offset = 0, bv_shape = shape,
        bv_strides = tm_strides msg, bv_type = t, bv_cloned = cl\<rparr>) \<and>
      from_output_tensor_msg k es r msg = Inr (Some \<lparr>bv_backend = ''cpu'', bv_offset = 0, bv_shape = shape,
        bv_strides = tm_strides msg, bv_type = t, bv_cloned = False\<rparr>)"
    using False v c ty cpu_only_lookup(1) [OF assms(2)]
    by (simp add: from_input_tensor_msg_def from_output_tensor_msg_def on_cpu_def cpu_plugin_def cpu_from_input_def
        cpu_from_output_def require_cpu_storage_def cpu_make_tensor_def)
  then show ?thesis using False ty by auto
qed

text \<open>An allocated message into which a tensor of an unsupported type was written: the call throws, the message stays readable.\<close>

lemma cpu_registry_only: "cpu_only sample_codes cpu_registry"
  unfolding cpu_registry_def by (rule cpu_only_made) simp_all

lemma sample_codes_ok: "dlpack_ok sample_codes"
  by (simp add: dlpack_ok_def sample_codes_def)

theorem built_messages_viewable_witness:
  "\<exists>msg msg' x v. tensor_to_new_msg sample_codes sample_sizes cpu_registry sample_tensor = Inr msg \<and>
     to_tensor_msg sample_codes cpu_registry msg (sample_tensor\<lparr>at_scalar_type := other_scalar 9, at_sizes := [12]\<rparr>) = (Inl x, msg') \<and>
     from_input_tensor_msg sample_codes sample_sizes cpu_registry msg' True = Inr (Some v)"
proof -
  let ?u = "sample_tensor\<lparr>at_scalar_type := other_scalar 9, at_sizes := [12]\<rparr>"
  have s: "torch_tensor sample_sizes sample_tensor" "torch_tensor sample_sizes ?u" "cpu_tensor_ok sample_sizes sample_tensor"
    by (simp_all add: torch_tensor_def sample_tensor_def sample_sizes_def cpu_tensor_ok_def)
  have d: "describe_dtype sample_codes (at_scalar_type sample_tensor) = Inr \<lparr>dd_code = 0, dd_bits = 16, dd_lanes = 1\<rparr>"
    by (simp add: sample_tensor_def describe_dtype_def sample_codes_def)
  obtain msg where m: "tensor_to_new_msg sample_codes sample_sizes cpu_registry sample_tensor = Inr msg"
    "tm_data msg = \<lparr>st_backend = ''cpu'', st_bytes = at_bytes sample_tensor\<rparr>"
    using cpu_message [OF s(3) d cpu_only_lookup(2,1) [OF cpu_registry_only]] by metis
  have b: "length (at_bytes ?u) = length (at_bytes sample_tensor)" "at_bytes sample_tensor \<noteq> []" "at_defined ?u"
    "\<not> numel_zero ?u" "dv_type (at_device ?u) = kCPU" "at_scalar_type ?u = other_scalar 9"
    by (simp_all add: sample_tensor_def numel_zero_def)
  obtain msg1 where c: "cpu_copy_to msg ?u = Inr msg1" using m(2) b(5) by (simp add: cpu_copy_to_def require_cpu_storage_def)
  have w: "to_tensor_msg sample_codes cpu_registry msg ?u = (Inl (RuntimeError ''torch_conversions: unsupported scalar type''), msg1)"
    using b c m(2) cpu_only_lookup(1) [OF cpu_registry_only]
    by (simp add: to_tensor_msg_def cpu_plugin_def set_metadata_def describe_dtype_def)
  have "built sample_codes sample_sizes cpu_registry msg1"
    using built.overwritten [OF built.from_tensor [OF s(1) m(1)] s(2) w] .
  from built_messages_viewable [OF this cpu_registry_only sample_codes_ok, of True]
  have "\<exists>v. from_input_tensor_msg sample_codes sample_sizes cpu_registry msg1 True = Inr (Some v)"
    using copied_typed(3) [OF c] b(1,2) m(2) by (auto split: if_splits)
  with m(1) w show ?thesis by blast
qed

end
