(* ===== verification/Tensor_Nodes.thy ===== *)
theory Tensor_Nodes
  imports Tensor_Typing
begin

text \<open>
  The example nodes \<open>torch_tensor_publisher_node.cpp\<close> and \<open>torch_tensor_subscriber_node.cpp\<close> over the conversions: what
  their callbacks publish and log. The executor, the transport and the logger are those of ROS.
\<close>

section \<open>The elements of a view\<close>

text \<open>
  The positions, in items, of the elements of a view, in the order of its indices, from the position of the first; what is at
  them, and the bytes after \<open>fill_\<close> of a view of bytes.
\<close>

fun item_positions :: "(i64 \<times> i64) list \<Rightarrow> nat \<Rightarrow> nat list" where
  "item_positions [] o0 = [o0]"
| "item_positions ((d, s) # ps) o0 = concat (map (\<lambda>i. item_positions ps (o0 + i * unat s)) [0..<unat d])"

definition view_items :: "blob_view \<Rightarrow> nat list" where
  "view_items v = item_positions (zip (bv_shape v) (bv_strides v)) 0"

definition view_elements :: "(scalar_type \<Rightarrow> u64) \<Rightarrow> (scalar_type \<Rightarrow> u8 list \<Rightarrow> int) \<Rightarrow> blob_view \<Rightarrow> u8 list \<Rightarrow> int list" where
  "view_elements es elem v bytes =
     (let n = unat (es (bv_type v))
      in map (\<lambda>i. elem (bv_type v) (take n (drop (unat (bv_offset v) + i * n) bytes))) (view_items v))"

definition fill_bytes :: "u8 \<Rightarrow> blob_view \<Rightarrow> u8 list \<Rightarrow> u8 list" where
  "fill_bytes b v bytes = fold (\<lambda>i bs. bs[unat (bv_offset v) + i := b]) (view_items v) bytes"

section \<open>The publisher\<close>

text \<open>
  An exception of a callback is one of the conversions, or one that Torch raises for an operation on an undefined tensor or for
  the extreme of no elements.
\<close>

datatype node_exn = Conversion exn | Undefined_Tensor | Empty_Reduction

type_synonym i32 = "32 word"

record tensor_publisher =
  tp_device :: "device option"
  tp_count :: u64
  tp_max :: i32
  tp_width :: i32
  tp_height :: i32
  tp_cancelled :: bool

text \<open>
  The constructor, with the parameters of the node, as 64-bit integers, and \<open>c10::Device(name)\<close> as the function \<open>parse\<close>.
\<close>

definition new_tensor_publisher ::
  "(string \<Rightarrow> device) \<Rightarrow> string \<Rightarrow> i64 \<Rightarrow> i64 \<Rightarrow> i64 \<Rightarrow> tensor_publisher" where
  "new_tensor_publisher parse device max_publish_count tensor_width tensor_height =
     \<lparr>tp_device = (if device \<noteq> [] then Some (parse device) else None), tp_count = 0,
      tp_max = ucast max_publish_count, tp_width = ucast tensor_width, tp_height = ucast tensor_height,
      tp_cancelled = False\<rparr>"

text \<open>
  \<open>timer_callback\<close>: the message that it publishes, if any. The log line every ten messages is left out.
\<close>

definition timer_callback ::
  "dlpack_codes \<Rightarrow> (scalar_type \<Rightarrow> u64) \<Rightarrow> registry \<Rightarrow> tensor_publisher \<Rightarrow>
     (node_exn + tensor_msg option) \<times> tensor_publisher" where
  "timer_callback k es r p =
     (if 0 < sint (tp_max p) \<and> tp_count p \<ge> scast (tp_max p) then (Inr None, p\<lparr>tp_cancelled := True\<rparr>)
      else case guard_stream r (tp_device p) of
          Inl x \<Rightarrow> (Inl (Conversion x), p)
        | Inr _ \<Rightarrow>
            (case allocate_tensor_msg k es r [scast (tp_height p), scast (tp_width p), 3] kByte (tp_device p) of
               Inl x \<Rightarrow> (Inl (Conversion x), p)
             | Inr msg \<Rightarrow>
                 (case from_output_tensor_msg k es r msg of
                    Inl x \<Rightarrow> (Inl (Conversion x), p)
                  | Inr None \<Rightarrow> (Inl Undefined_Tensor, p)
                  | Inr (Some output) \<Rightarrow>
                      (let bytes = fill_bytes (ucast (tp_count p mod 256)) output (st_bytes (tm_data msg))
                       in (Inr (Some (msg\<lparr>tm_data := (tm_data msg)\<lparr>st_bytes := bytes\<rparr>\<rparr>)),
                           p\<lparr>tp_count := tp_count p + 1\<rparr>)))))"

text \<open>
  The timer calls it until it is cancelled; an exception ends the process. The messages published in \<open>n\<close> periods of the timer.
\<close>

fun publish_ticks ::
  "dlpack_codes \<Rightarrow> (scalar_type \<Rightarrow> u64) \<Rightarrow> registry \<Rightarrow> nat \<Rightarrow> tensor_publisher \<Rightarrow>
     tensor_msg list \<times> node_exn option \<times> tensor_publisher" where
  "publish_ticks k es r 0 p = ([], None, p)"
| "publish_ticks k es r (Suc n) p =
     (if tp_cancelled p then ([], None, p)
      else case timer_callback k es r p of
          (Inl x, p1) \<Rightarrow> ([], Some x, p1)
        | (Inr m, p1) \<Rightarrow>
            (let (ms, x, p2) = publish_ticks k es r n p1
             in (case m of None \<Rightarrow> ms | Some msg \<Rightarrow> msg # ms, x, p2)))"

section \<open>The subscriber\<close>

text \<open>
  \<open>receive_tensor\<close>: the fields of the log line, if the logger is enabled for it; the number of received messages is
  increased in the arguments of the macro, which are evaluated only then.
\<close>

record log_line =
  ll_backend :: string
  ll_min :: int
  ll_max :: int
  ll_count :: u64

definition receive_tensor ::
  "dlpack_codes \<Rightarrow> (scalar_type \<Rightarrow> u64) \<Rightarrow> (scalar_type \<Rightarrow> u8 list \<Rightarrow> int) \<Rightarrow> bool \<Rightarrow> registry \<Rightarrow> tensor_msg \<Rightarrow> u64 \<Rightarrow>
     (node_exn + log_line option) \<times> u64" where
  "receive_tensor k es elem enabled r msg received =
     (case guard_stream r None of
        Inl x \<Rightarrow> (Inl (Conversion x), received)
      | Inr _ \<Rightarrow>
          (case from_input_tensor_msg k es r msg False of
             Inl x \<Rightarrow> (Inl (Conversion x), received)
           | Inr None \<Rightarrow> (Inl Undefined_Tensor, received)
           | Inr (Some input) \<Rightarrow>
               (let xs = view_elements es elem input (st_bytes (tm_data msg))
                in if xs = [] then (Inl Empty_Reduction, received)
                   else if enabled then
                     (Inr (Some \<lparr>ll_backend = st_backend (tm_data msg), ll_min = Min (set xs), ll_max = Max (set xs),
                        ll_count = received + 1\<rparr>), received + 1)
                   else (Inr None, received))))"

section \<open>Contiguous views\<close>

lemma concat_intervals: "concat (map (\<lambda>i. [a + i * n..<a + i * n + n]) [0..<d]) = [a..<a + d * n]"
  for a n d :: nat
proof (induction d)
  case (Suc d)
  then show ?case using upt_add_eq_append [of a "a + d * n" n] by (simp add: ac_simps)
qed simp

lemma contiguous_positions:
  "map unat ss = map (suffix_product shape) [0..<length shape] \<Longrightarrow>
     item_positions (zip shape ss) a = [a..<a + prod_list (dims shape)]"
proof (induction shape arbitrary: ss a)
  case (Cons d shape)
  then obtain s rest where ss: "ss = s # rest" by (cases ss) auto
  have s: "unat s = prod_list (dims shape)" using Cons.prems by (simp add: ss suffix_product_def upt_rec)
  have "map unat rest = map (suffix_product shape) [0..<length shape]"
    using Cons.prems by (simp add: ss map_upt_Suc suffix_product_def del: upt_Suc)
  then have "item_positions (zip shape rest) b = [b..<b + prod_list (dims shape)]" for b by (rule Cons.IH)
  then show ?case using concat_intervals [of a "prod_list (dims shape)" "unat d"] by (simp add: ss s)
qed simp

lemma fill_prefix: "fold (\<lambda>i bs. bs[i := b]) [0..<n] bytes = replicate (min n (length bytes)) b @ drop n bytes"
proof (induction n)
  case (Suc n)
  show ?case
  proof (cases "n < length bytes")
    case True
    then have "drop n bytes = bytes ! n # drop (Suc n) bytes" by (rule Cons_nth_drop_Suc [symmetric])
    then show ?thesis
      using Suc True list_update_length [of "replicate n b" "bytes ! n" "drop (Suc n) bytes" b]
      by (simp add: replicate_app_Cons_same)
  next
    case False
    then show ?thesis using Suc by (simp add: list_update_beyond)
  qed
qed simp

text \<open>A message filled through a contiguous view of all its bytes holds one value only.\<close>

lemma filled_message:
  assumes "contiguous_strides (bv_shape v) = Inr (bv_strides v)" and "bv_offset v = 0"
    and "length bytes = prod_list (dims (bv_shape v))"
  shows "fill_bytes b v bytes = replicate (length bytes) b"
  using contiguous_positions [OF contiguous_suffixes [OF assms(1)], of 0] fill_prefix [of b "length bytes" bytes] assms(2,3)
  by (simp add: fill_bytes_def view_items_def)

lemma elements_of_filled:
  assumes "contiguous_strides (bv_shape v) = Inr (bv_strides v)" and "bv_offset v = 0" and "es (bv_type v) = 1"
    and "n = prod_list (dims (bv_shape v))"
  shows "view_elements es elem v (replicate n b) = replicate n (elem (bv_type v) [b])"
proof -
  have "take 1 (drop i (replicate n b)) = [b]" if "i < n" for i
    using that by (simp add: take_Cons' drop_replicate flip: Suc_diff_Suc)
  then show ?thesis
    using contiguous_positions [OF contiguous_suffixes [OF assms(1)], of 0] assms(2-4)
    by (auto simp: view_elements_def view_items_def map_replicate_trivial intro!: nth_equalityI)
qed

section \<open>From the publisher to the subscriber\<close>

text \<open>What a published image is: typed, on the CPU, and filled with one value.\<close>

definition image_of :: "dlpack_codes \<Rightarrow> (scalar_type \<Rightarrow> u64) \<Rightarrow> i64 list \<Rightarrow> u8 \<Rightarrow> tensor_msg \<Rightarrow> bool" where
  "image_of k es shape b msg \<longleftrightarrow> typed k es kByte shape msg \<and> on_cpu msg \<and>
     st_bytes (tm_data msg) = replicate (prod_list (dims shape)) b"

definition on_host :: "device option \<Rightarrow> bool" where
  "on_host dev \<longleftrightarrow> (case dev of None \<Rightarrow> True | Some d \<Rightarrow> dv_type d = kCPU)"

abbreviation "image_shape p \<equiv> [scast (tp_height p), scast (tp_width p), 3 :: i64]"

lemma cpu_guard: "cpu_only k r \<Longrightarrow> on_host dev \<Longrightarrow> guard_stream r dev = Inr None"
  using cpu_only_lookup(6) [of k r dev]
  by (auto simp: guard_stream_def on_host_def cpu_plugin_def split: option.splits)

lemma typed_view:
  assumes "typed k es t shape msg" and "on_cpu msg" and "st_bytes (tm_data msg) \<noteq> []" and "cpu_only k r"
  shows "from_output_tensor_msg k es r msg = Inr (Some \<lparr>bv_backend = ''cpu'', bv_offset = 0, bv_shape = shape,
      bv_strides = tm_strides msg, bv_type = t, bv_cloned = False\<rparr>)"
    and "from_input_tensor_msg k es r msg cl = Inr (Some \<lparr>bv_backend = ''cpu'', bv_offset = 0, bv_shape = shape,
      bv_strides = tm_strides msg, bv_type = t, bv_cloned = cl\<rparr>)"
  using typed_valid [OF assms(1)] assms(1) [unfolded typed_def] assms(2,3) cpu_only_lookup(1) [OF assms(4)]
  by (simp_all add: from_input_tensor_msg_def from_output_tensor_msg_def on_cpu_def cpu_plugin_def cpu_from_input_def
        cpu_from_output_def require_cpu_storage_def cpu_make_tensor_def)

lemma publish_one:
  assumes "cpu_only k r" and "dlpack_ok k" and "es kByte = 1" and "on_host (tp_device p)"
    and "\<forall>d \<in> set (image_shape p). 0 < sint d" and "prod_list (dims (image_shape p)) < 2 ^ 63"
    and "\<not> (0 < sint (tp_max p) \<and> tp_count p \<ge> scast (tp_max p))"
  shows "\<exists>msg. timer_callback k es r p = (Inr (Some msg), p\<lparr>tp_count := tp_count p + 1\<rparr>) \<and>
    image_of k es (image_shape p) (ucast (tp_count p mod 256)) msg"
proof -
  let ?shape = "image_shape p" and ?b = "ucast (tp_count p mod 256) :: u8"
  obtain d where d: "pick_plugin r (tp_device p) = Inr (cpu_plugin k, d)"
    using cpu_only_lookup(6) [OF assms(1), of "tp_device p"] assms(4) by (auto simp: on_host_def split: option.splits)
  have dt: "dv_type d = kCPU" using cpu_only_lookup(5) [OF assms(1) d] by simp
  obtain ss where ss: "contiguous_strides ?shape = Inr ss" using contiguous_strides_total [OF assms(5,6)] by blast
  have e: "es kByte \<noteq> 0" using assms(3) by simp
  have "prod_list (dims ?shape) * unat (es kByte) < 2 ^ 64" using assms(3,6) by simp
  then obtain n where n: "byte_count es ?shape kByte = Inr n"
    using byte_count_total [where es = es and t = kByte, OF assms(5) e refl] by blast
  obtain dd where dd: "describe_dtype k kByte = Inr dd" by (simp add: describe_dtype_def)
  obtain msg where a: "allocate_tensor_msg k es r ?shape kByte (tp_device p) = Inr msg"
    using d dt ss dd n by (simp add: allocate_tensor_msg_def cpu_plugin_def cpu_allocate_def Let_def)
  note t = allocate_typed [OF a assms(1,2)]
  have "0 < unat x" if "x \<in> set ?shape" for x using bspec [OF assms(5) that] by (simp only: sint_pos_iff)
  then have "0 < prod_list (dims ?shape)" by (intro prod_list_pos) auto
  then have len: "length (st_bytes (tm_data msg)) = prod_list (dims ?shape)" "st_bytes (tm_data msg) \<noteq> []"
    using t(3) assms(3) by auto
  let ?v = "\<lparr>bv_backend = ''cpu'', bv_offset = 0, bv_shape = ?shape, bv_strides = tm_strides msg, bv_type = kByte, bv_cloned = False\<rparr>"
  let ?msg = "msg\<lparr>tm_data := (tm_data msg)\<lparr>st_bytes := fill_bytes ?b ?v (st_bytes (tm_data msg))\<rparr>\<rparr>"
  have f: "fill_bytes ?b ?v (st_bytes (tm_data msg)) = replicate (prod_list (dims ?shape)) ?b"
    using filled_message [of ?v "st_bytes (tm_data msg)" ?b] t(1) len(1) by (simp add: typed_def)
  have "timer_callback k es r p = (Inr (Some ?msg), p\<lparr>tp_count := tp_count p + 1\<rparr>)"
    unfolding timer_callback_def if_not_P [OF assms(7)] cpu_guard [OF assms(1,4)] sum.case a
      typed_view(1) [OF t(1,2) len(2) assms(1)] option.case Let_def by simp
  moreover have "image_of k es ?shape ?b ?msg"
    using typed_bytes [OF t(1), of "replicate (prod_list (dims ?shape)) ?b"] t(2) len(1) f
    by (simp add: image_of_def on_cpu_def)
  ultimately show ?thesis by blast
qed

lemma receive_image:
  assumes "image_of k es shape b msg" and "cpu_only k r" and "es kByte = 1" and "0 < prod_list (dims shape)"
  shows "receive_tensor k es elem enabled r msg received =
    (if enabled then (Inr (Some \<lparr>ll_backend = ''cpu'', ll_min = elem kByte [b], ll_max = elem kByte [b], ll_count = received + 1\<rparr>),
       received + 1) else (Inr None, received))"
proof -
  have t: "typed k es kByte shape msg" "on_cpu msg" "st_bytes (tm_data msg) = replicate (prod_list (dims shape)) b"
    using assms(1) by (simp_all add: image_of_def)
  have ne: "st_bytes (tm_data msg) \<noteq> []" using t(3) assms(4) by simp
  let ?v = "\<lparr>bv_backend = ''cpu'', bv_offset = 0, bv_shape = shape, bv_strides = tm_strides msg, bv_type = kByte, bv_cloned = False\<rparr>"
  have "view_elements es elem ?v (st_bytes (tm_data msg)) = replicate (prod_list (dims shape)) (elem kByte [b])"
    unfolding t(3) using elements_of_filled [of ?v es "prod_list (dims shape)" elem b] t(1) assms(3) by (simp add: typed_def)
  moreover have "guard_stream r None = Inr None" using cpu_guard [OF assms(2)] by (simp add: on_host_def)
  ultimately show ?thesis
    using typed_view(2) [OF t(1,2) ne assms(2)] assms(4) t(2)
    by (simp add: receive_tensor_def Let_def on_cpu_def)
qed

lemma sint_scast: "sint (scast (x :: i32) :: i64) = sint x"
  by (simp add: sint_up_scast is_up)

lemma unat_scast:
  assumes "0 < sint (x :: i32)"
  shows "unat (scast x :: 64 word) = unat x"
proof -
  have "unat (scast x :: i64) = nat (sint x)" using unat_sint [of "scast x"] assms by (simp add: sint_scast)
  moreover have "unat x = nat (sint x)"
  proof -
    have "uint x = take_bit 32 (sint x)" using uint_sint [of x] by simp
    also have "\<dots> = sint x" using assms sint_lt [of x] by (simp add: take_bit_int_eq_self_iff)
    finally show ?thesis by (metis nat_uint_eq)
  qed
  ultimately show ?thesis by simp
qed

lemma ucast_mod_256: "ucast (c mod 256) = (of_nat (unat (c :: u64) mod 256) :: u8)"
proof -
  have "unat (c mod 256) = unat c mod 256" by (simp add: unat_mod)
  then show ?thesis by (metis of_nat_unat)
qed

lemma publish_many:
  assumes "cpu_only k r" and "dlpack_ok k" and "es kByte = 1" and "on_host (tp_device p)" and "\<not> tp_cancelled p"
    and "\<forall>d \<in> set (image_shape p). 0 < sint d" and "prod_list (dims (image_shape p)) < 2 ^ 63"
    and "unat (tp_count p) + n < 2 ^ 64" and "0 < sint (tp_max p) \<Longrightarrow> unat (tp_count p) \<le> unat (tp_max p)"
  shows "\<exists>ms q. publish_ticks k es r n p = (ms, None, q) \<and>
    length ms = (if 0 < sint (tp_max p) then min n (unat (tp_max p) - unat (tp_count p)) else n) \<and>
    (tp_cancelled q \<longleftrightarrow> 0 < sint (tp_max p) \<and> unat (tp_max p) - unat (tp_count p) < n) \<and>
    (\<forall>j < length ms. image_of k es (image_shape p) (of_nat ((unat (tp_count p) + j) mod 256)) (ms ! j))"
  using assms(4-9)
proof (induction n arbitrary: p)
  case (Suc n)
  have top: "unat (scast (tp_max p) :: u64) = unat (tp_max p)" if "0 < sint (tp_max p)"
    using that by (rule unat_scast)
  show ?case
  proof (cases "0 < sint (tp_max p) \<and> tp_count p \<ge> scast (tp_max p)")
    case True
    then have full: "unat (tp_max p) = unat (tp_count p)" using Suc.prems(6) top by (simp add: word_le_nat_alt)
    have "timer_callback k es r p = (Inr None, p\<lparr>tp_cancelled := True\<rparr>)"
      unfolding timer_callback_def if_P [OF True] ..
    moreover have "publish_ticks k es r n (p\<lparr>tp_cancelled := True\<rparr>) = ([], None, p\<lparr>tp_cancelled := True\<rparr>)"
      by (cases n) simp_all
    ultimately show ?thesis using Suc.prems(2) True full by simp
  next
    case False
    obtain msg where m: "timer_callback k es r p = (Inr (Some msg), p\<lparr>tp_count := tp_count p + 1\<rparr>)"
      "image_of k es (image_shape p) (ucast (tp_count p mod 256)) msg"
      using publish_one [where es = es, OF assms(1-3) Suc.prems(1,3,4) False] by blast
    let ?p = "p\<lparr>tp_count := tp_count p + 1\<rparr>"
    have c: "unat (tp_count p + 1) = Suc (unat (tp_count p))" using Suc.prems(5) by (simp add: unat_add_fits)
    have lt: "unat (tp_count p) < unat (tp_max p)" if "0 < sint (tp_max p)"
      using False that top by (simp add: word_le_nat_alt)
    have "\<exists>ms q. publish_ticks k es r n ?p = (ms, None, q) \<and>
        length ms = (if 0 < sint (tp_max ?p) then min n (unat (tp_max ?p) - unat (tp_count ?p)) else n) \<and>
        (tp_cancelled q \<longleftrightarrow> 0 < sint (tp_max ?p) \<and> unat (tp_max ?p) - unat (tp_count ?p) < n) \<and>
        (\<forall>j < length ms. image_of k es (image_shape ?p) (of_nat ((unat (tp_count ?p) + j) mod 256)) (ms ! j))"
    proof (rule Suc.IH)
      show "unat (tp_count ?p) + n < 2 ^ 64" using Suc.prems(5) c by simp
      show "unat (tp_count ?p) \<le> unat (tp_max ?p)" if "0 < sint (tp_max ?p)" using lt that c by simp
    qed (use Suc.prems in simp_all)
    note ih = this
    have fp: "tp_max ?p = tp_max p" "tp_width ?p = tp_width p" "tp_height ?p = tp_height p" "tp_count ?p = tp_count p + 1"
      by simp_all
    from ih [unfolded fp c] obtain ms q where q: "publish_ticks k es r n ?p = (ms, None, q)"
        "length ms = (if 0 < sint (tp_max p) then min n (unat (tp_max p) - Suc (unat (tp_count p))) else n)"
        "tp_cancelled q \<longleftrightarrow> 0 < sint (tp_max p) \<and> unat (tp_max p) - Suc (unat (tp_count p)) < n"
        "\<forall>j < length ms. image_of k es (image_shape p) (of_nat ((Suc (unat (tp_count p)) + j) mod 256)) (ms ! j)"
      by blast
    have b: "ucast (tp_count p mod 256) = (of_nat (unat (tp_count p) mod 256) :: u8)"
      by (rule ucast_mod_256)
    have "\<forall>j < length (msg # ms). image_of k es (image_shape p) (of_nat ((unat (tp_count p) + j) mod 256)) ((msg # ms) ! j)"
      using q(4) m(2) by (auto simp: b less_Suc_eq_0_disj)
    moreover have "length (msg # ms) = (if 0 < sint (tp_max p) then min (Suc n) (unat (tp_max p) - unat (tp_count p)) else Suc n)"
      using q(2) lt by auto
    moreover have "tp_cancelled q \<longleftrightarrow> 0 < sint (tp_max p) \<and> unat (tp_max p) - unat (tp_count p) < Suc n"
      using q(3) lt by auto
    moreover have "publish_ticks k es r (Suc n) p = (msg # ms, None, q)"
      using Suc.prems(2) m(1) q(1) by simp
    ultimately show ?thesis by blast
  qed
qed simp

text \<open>
  C38. From the publisher to the subscriber: the publisher of \<open>torch_tensor_publisher_node.cpp\<close>, on the CPU and with an image of positive size that fits
  memory, publishes one image in each period of its timer, never throws, and stops after the number of images it was given, if
  any; the subscriber of \<open>torch_tensor_subscriber_node.cpp\<close> finds in the image with number \<open>j\<close> the least and the
  greatest value \<open>j mod 256\<close>.
\<close>

theorem torch_nodes_deliver:
  fixes max_count width height :: i64
  assumes "cpu_only k r" and "dlpack_ok k" and "es kByte = 1" and "\<And>b. elem kByte [b] = uint b"
    and "on_host (if device = [] then None else Some (parse device))"
  defines "p \<equiv> new_tensor_publisher parse device max_count width height"
  assumes "0 < sint (tp_width p)" and "0 < sint (tp_height p)" and "unat (tp_height p) * unat (tp_width p) * 3 < 2 ^ 63"
    and "n < 2 ^ 64"
  shows "\<exists>ms q. publish_ticks k es r n p = (ms, None, q) \<and>
    length ms = (if 0 < sint (tp_max p) then min n (unat (tp_max p)) else n) \<and>
    (tp_cancelled q \<longleftrightarrow> 0 < sint (tp_max p) \<and> unat (tp_max p) < n) \<and>
    (\<forall>j < length ms. receive_tensor k es elem True r (ms ! j) received =
       (Inr (Some \<lparr>ll_backend = ''cpu'', ll_min = int (j mod 256), ll_max = int (j mod 256), ll_count = received + 1\<rparr>),
        received + 1))"
proof -
  have p: "tp_count p = 0" "\<not> tp_cancelled p" "on_host (tp_device p)"
    using assms(5) by (simp_all add: p_def new_tensor_publisher_def split: if_splits)
  have u: "unat (scast (tp_height p) :: i64) = unat (tp_height p)" "unat (scast (tp_width p) :: i64) = unat (tp_width p)"
    using assms(7,8) by (simp_all add: unat_scast)
  have pos: "\<forall>d \<in> set (image_shape p). 0 < sint d" using assms(7,8) by (simp add: sint_scast)
  have three: "unat (3 :: i64) = 3" by simp
  have "prod_list (dims (image_shape p)) = unat (tp_height p) * unat (tp_width p) * 3"
    by (simp only: list.map prod_list.Cons prod_list.Nil u three mult_1_right mult.assoc)
  then have size: "prod_list (dims (image_shape p)) < 2 ^ 63" using assms(9) by simp
  have c0: "unat (tp_count p) = 0" by (simp add: p(1))
  have fits: "unat (tp_count p) + n < 2 ^ 64" "0 < sint (tp_max p) \<Longrightarrow> unat (tp_count p) \<le> unat (tp_max p)"
    using assms(10) c0 by simp_all
  obtain ms q where q: "publish_ticks k es r n p = (ms, None, q)"
      "length ms = (if 0 < sint (tp_max p) then min n (unat (tp_max p)) else n)"
      "tp_cancelled q \<longleftrightarrow> 0 < sint (tp_max p) \<and> unat (tp_max p) < n"
      "\<forall>j < length ms. image_of k es (image_shape p) (of_nat (j mod 256)) (ms ! j)"
    using publish_many [where es = es and n = n, OF assms(1-3) p(3,2) pos size fits, unfolded c0 diff_zero add_0] by blast
  have size0: "0 < prod_list (dims (image_shape p))"
    by (rule prod_list_pos) (use pos in \<open>auto simp: sint_pos_iff\<close>)
  have val: "uint (of_nat (j mod 256) :: u8) = int (j mod 256)" for j
  proof -
    have "unat (of_nat (j mod 256) :: u8) = j mod 256" by (simp add: unat_of_nat)
    then show ?thesis by (metis int_nat_eq nat_uint_eq uint_ge_0 unat_eq_nat_uint)
  qed
  have "receive_tensor k es elem True r (ms ! j) received =
      (Inr (Some \<lparr>ll_backend = ''cpu'', ll_min = int (j mod 256), ll_max = int (j mod 256), ll_count = received + 1\<rparr>),
       received + 1)" if "j < length ms" for j
    using receive_image [where es = es and elem = elem and received = received and enabled = True,
        OF q(4) [rule_format, OF that] assms(1,3) size0] by (simp only: assms(4) val if_True)
  with q(1-3) show ?thesis by blast
qed

text \<open>
  An image without pixels stops the publisher: the message has no storage, its output view is the undefined tensor, and filling it
  throws out of the callback.
\<close>

theorem empty_image_throws:
  assumes "cpu_only k r" and "dlpack_ok k" and "on_host (tp_device p)"
    and "\<not> (0 < sint (tp_max p) \<and> tp_count p \<ge> scast (tp_max p))" and "tp_width p = 0" and "0 \<le> sint (tp_height p)"
  shows "timer_callback k es r p = (Inl Undefined_Tensor, p)"
proof -
  let ?shape = "image_shape p"
  obtain d where d: "pick_plugin r (tp_device p) = Inr (cpu_plugin k, d)"
    using cpu_only_lookup(6) [OF assms(1), of "tp_device p"] assms(3) by (auto simp: on_host_def split: option.splits)
  have dt: "dv_type d = kCPU" using cpu_only_lookup(5) [OF assms(1) d] by simp
  have h: "\<not> sint (scast (tp_height p) :: i64) < 0" using assms(6) by (simp add: sint_scast)
  have g: "\<not> 9223372036854775807 div sint (scast (tp_height p) :: i64) < 0"
    using h by (simp add: not_less div_int_pos_iff)
  have ss: "contiguous_strides ?shape = Inr [0, 3, 1]"
    using h g by (simp add: contiguous_strides_def assms(5))
  have "\<not> (scast (tp_height p) \<noteq> (0 :: u64) \<and> 1 > - 1 div (scast (tp_height p) :: u64))"
    using mul_guard [of "scast (tp_height p)" 1] unat_bound64 [of "scast (tp_height p)"] by auto
  then have "element_count ?shape = Inr 0" using h by (simp add: element_count_def assms(5))
  then have n: "byte_count es ?shape kByte = Inr 0" by (simp add: byte_count_def Let_def)
  obtain dd where dd: "describe_dtype k kByte = Inr dd" by (simp add: describe_dtype_def)
  obtain msg where a: "allocate_tensor_msg k es r ?shape kByte (tp_device p) = Inr msg"
    using d dt ss dd n by (simp add: allocate_tensor_msg_def cpu_plugin_def cpu_allocate_def Let_def)
  have "st_bytes (tm_data msg) = []" using allocate_typed(3) [OF a assms(1,2)] by (simp add: assms(5))
  then have "from_output_tensor_msg k es r msg = Inr None" by (simp add: from_output_tensor_msg_def)
  then show ?thesis
    unfolding timer_callback_def if_not_P [OF assms(4)] cpu_guard [OF assms(1,3)] sum.case a by simp
qed

text \<open>A publisher that stops after two messages, over three periods.\<close>

theorem torch_nodes_deliver_witness:
  "\<exists>ms q. publish_ticks sample_codes sample_sizes cpu_registry 3
       (new_tensor_publisher (\<lambda>_. \<lparr>dv_type = 1, dv_index = 0\<rparr>) [] 2 8 4) = (ms, None, q) \<and>
     length ms = 2 \<and> tp_cancelled q \<and>
     receive_tensor sample_codes sample_sizes (\<lambda>t bs. uint (hd bs)) True cpu_registry (ms ! 1) 5 =
       (Inr (Some \<lparr>ll_backend = ''cpu'', ll_min = 1, ll_max = 1, ll_count = 6\<rparr>), 6)"
proof -
  let ?p = "new_tensor_publisher (\<lambda>_. \<lparr>dv_type = 1, dv_index = 0\<rparr>) [] 2 8 4"
  have p: "tp_width ?p = 8" "tp_height ?p = 4" "tp_max ?p = 2" by (simp_all add: new_tensor_publisher_def)
  have h: "sample_sizes kByte = 1" "on_host None" by (simp_all add: sample_sizes_def on_host_def)
  have s: "0 < sint (tp_width ?p)" "0 < sint (tp_height ?p)" "unat (tp_height ?p) * unat (tp_width ?p) * 3 < 2 ^ 63"
    "(3 :: nat) < 2 ^ 64"
    by (simp_all add: p)
  show ?thesis
    using torch_nodes_deliver [where k = sample_codes and r = cpu_registry and es = sample_sizes and received = 5 and n = 3
        and elem = "\<lambda>t bs. uint (hd bs)" and parse = "\<lambda>_. \<lparr>dv_type = 1, dv_index = 0\<rparr>" and device = "[]"
        and max_count = 2 and width = 8 and height = 4] cpu_registry_only sample_codes_ok h s
    by (auto simp: p)
qed

end
