(* ===== verification/Cuda_Error.thy ===== *)
theory Cuda_Error
  imports Externals
begin

text \<open>
  The texts and checks of \<open>cuda_error.hpp\<close>. The rest of the model keeps an error as the call and the code that the
  exception is made of (\<open>exn\<close>); here is the text that the exception shows for them. The names and descriptions of
  codes come from CUDA and are arguments; a driver that does not know a code leaves the pointer null.
\<close>

section \<open>Texts\<close>

definition format_error :: "string \<Rightarrow> int \<Rightarrow> string \<Rightarrow> string \<Rightarrow> string \<Rightarrow> string" where
  "format_error file line expr name desc =
     file @ '':'' @ to_string line @ '': '' @ expr @ '' failed: '' @ name @ '' ('' @ desc @ '')''"

definition format_driver_error ::
  "(CUresult \<Rightarrow> string option) \<Rightarrow> (CUresult \<Rightarrow> string option) \<Rightarrow> string \<Rightarrow> int \<Rightarrow> string \<Rightarrow> CUresult \<Rightarrow> string" where
  "format_driver_error name desc file line expr err =
     format_error file line expr
       (case name err of None \<Rightarrow> ''UNKNOWN'' | Some s \<Rightarrow> s)
       (case desc err of None \<Rightarrow> ''no description'' | Some s \<Rightarrow> s)"

text \<open>\<open>CudaError(file, line, expr, cudaError_t)\<close>, whose names are never null.\<close>

definition runtime_error_text ::
  "(cudaError_t \<Rightarrow> string) \<Rightarrow> (cudaError_t \<Rightarrow> string) \<Rightarrow> string \<Rightarrow> int \<Rightarrow> string \<Rightarrow> cudaError_t \<Rightarrow> string" where
  "runtime_error_text name desc file line expr err = format_error file line expr (name err) (desc err)"

section \<open>Checks\<close>

definition cuda_error_is_safe :: "cudaError_t \<Rightarrow> bool" where
  "cuda_error_is_safe e \<longleftrightarrow> e = cudaSuccess \<or> e = cudaErrorCudartUnloading"

text \<open>\<open>CUDA_CHECK\<close> throws; \<open>CUDA_CHECK_NOTHROW\<close> warns, and goes on with the given statement.\<close>

definition cuda_check :: "string \<Rightarrow> cudaError_t \<Rightarrow> exn + unit" where
  "cuda_check expr err = (if err \<noteq> cudaSuccess then Inl (CudaRuntimeError expr err) else Inr ())"

definition cuda_check_nothrow ::
  "(cudaError_t \<Rightarrow> string) \<Rightarrow> (cudaError_t \<Rightarrow> string) \<Rightarrow> string \<Rightarrow> int \<Rightarrow> string \<Rightarrow> cudaError_t \<Rightarrow> ('s \<Rightarrow> 's) \<Rightarrow>
    's \<Rightarrow> string list \<times> 's" where
  "cuda_check_nothrow name desc file line expr err on_error st =
     (if err \<noteq> cudaSuccess then ([format_error file line expr (name err) (desc err)], on_error st) else ([], st))"

text \<open>The warnings of \<open>CudaBuffer::default_cuda_free\<close>: none while the runtime is shut down.\<close>

definition free_warnings :: "(cudaError_t \<Rightarrow> string) \<Rightarrow> u64 \<Rightarrow> cudaError_t \<Rightarrow> string list" where
  "free_warnings name p e =
     (if p \<noteq> 0 \<and> \<not> cuda_error_is_safe e then [''cudaFree failed: '' @ name e] else [])"

section \<open>What a text says\<close>

lemma to_string_no_colon: "CHR '':'' \<notin> set (to_string i)"
  by (auto simp: to_string_def dest: dec_nat_digits split: if_splits)

text \<open>
  The texts of two errors are equal only if they come from the same line of the same file, when file names have no colon;
  the driver's null pointers do not change this.
\<close>

theorem error_place_readable:
  assumes "CHR '':'' \<notin> set file" and "CHR '':'' \<notin> set file'"
    and "format_driver_error name desc file line expr err = format_driver_error name desc file' line' expr' err'"
  shows "file = file' \<and> line = line'"
proof -
  define rest where "rest = (\<lambda>ex er. CHR '' '' # ex @ '' failed: '' @ (case name er of None \<Rightarrow> ''UNKNOWN'' | Some s \<Rightarrow> s) @
    '' ('' @ (case desc er of None \<Rightarrow> ''no description'' | Some s \<Rightarrow> s) @ '')'')"
  have "file @ CHR '':'' # (to_string line @ CHR '':'' # rest expr err) =
      file' @ CHR '':'' # (to_string line' @ CHR '':'' # rest expr' err')"
    using assms(3) by (simp add: format_driver_error_def format_error_def rest_def)
  then have "file = file'" and "to_string line @ CHR '':'' # rest expr err = to_string line' @ CHR '':'' # rest expr' err'"
    using append_sep_inj [OF assms(1,2)] by blast+
  then show ?thesis
    using append_sep_inj [OF to_string_no_colon to_string_no_colon] to_string_inj by blast
qed

theorem error_place_readable_witness:
  "format_driver_error (\<lambda>_. None) (\<lambda>_. None) ''pool.cpp'' 12 ''cuMemCreate()'' CUDA_ERROR_NOT_SUPPORTED =
     ''pool.cpp:12: cuMemCreate() failed: UNKNOWN (no description)'' \<and>
   format_driver_error (\<lambda>_. None) (\<lambda>_. None) ''pool.cpp'' 12 ''cuMemCreate()'' CUDA_ERROR_NOT_SUPPORTED \<noteq>
     format_driver_error (\<lambda>_. None) (\<lambda>_. None) ''pool.cpp'' 13 ''cuMemCreate()'' CUDA_ERROR_NOT_SUPPORTED"
  using error_place_readable [of "''pool.cpp''" "''pool.cpp''" "\<lambda>_. None" "\<lambda>_. None" 12 "''cuMemCreate()''"
      CUDA_ERROR_NOT_SUPPORTED 13 "''cuMemCreate()''" CUDA_ERROR_NOT_SUPPORTED]
  by (auto simp: format_driver_error_def format_error_def to_string_def dec_nat.simps digit_char_def char_of_def bit_Suc bit_0)

end
