(* ===== verification/Moved_Values.thy ===== *)
theory Moved_Values
  imports Ipc_Manager Cuda_Buffer_Impl
begin

text \<open>
  The moves of the two classes that own device memory and can not be copied: \<open>CudaBuffer\<close> of \<open>cuda_buffer.hpp\<close>,
  whose assignment swaps, and \<open>CachedImport\<close> of \<open>cuda_buffer_ipc_manager.cpp\<close>, whose assignment gives up what the
  target held. After a move, what was owned is owned by one object.
\<close>

section \<open>\<open>CudaBuffer\<close>\<close>

text \<open>
  The move constructor at address \<open>a\<close> from the object at \<open>b\<close>. The deleter of a moved-from \<open>unique_ptr\<close> is not used again,
  since its pointer is null.
\<close>

definition moved_from :: "cuda_buffer \<Rightarrow> cuda_buffer" where
  "moved_from b = b\<lparr>cb_ptr := 0, cb_size := 0, cb_device_id := 0, cb_write_event := 0, cb_owns_write_event := False,
     cb_read_events := [], cb_handle_state := None, cb_recycler := False\<rparr>"

definition move_construct :: "nat \<Rightarrow> nat \<Rightarrow> cuda_state \<Rightarrow> cuda_state" where
  "move_construct a b st = upd_buffer b moved_from (upd_buffer a (\<lambda>_. cs_buffer st b) st)"

definition move_assign :: "nat \<Rightarrow> nat \<Rightarrow> cuda_state \<Rightarrow> cuda_state" where
  "move_assign a b st =
     (if a = b then st
      else upd_buffer b (\<lambda>_. cs_buffer st a) (upd_buffer a (\<lambda>_. cs_buffer st b) st))"

lemma destroy_value_upd [simp]: "destroy_value v (upd_buffer b f st) = upd_buffer b f (destroy_value v st)"
  by (auto simp: destroy_value_def enqueue_def upd_buffer_def run_deleter_def gpu_def split: deleter.splits)

lemma upd_buffer_same [simp]: "upd_buffer a (\<lambda>_. x) (upd_buffer a f st) = upd_buffer a (\<lambda>_. x) st"
  by (simp add: upd_buffer_def)

lemma upd_buffer_swap: "a \<noteq> b \<Longrightarrow> upd_buffer a f (upd_buffer b g st) = upd_buffer b g (upd_buffer a f st)"
  by (simp add: upd_buffer_def fun_upd_twist)

lemma destroy_moved_from: "destroy_value (moved_from b) st = st"
  by (simp add: destroy_value_def moved_from_def events_to_sync_def run_deleter_def)

text \<open>
  An object and the one it was moved to end as the one object would have: what is queued, deleted and synchronized is
  the same, in whichever order the two end.
\<close>

theorem moved_buffer_ends_once:
  assumes "a \<noteq> b"
  shows "destroy_buffer b (destroy_buffer a (move_construct a b st)) =
      upd_buffer a (\<lambda>_. empty_buffer) (destroy_buffer b st)"
    and "destroy_buffer a (destroy_buffer b (move_construct a b st)) =
      upd_buffer a (\<lambda>_. empty_buffer) (destroy_buffer b st)"
proof -
  have s: "cs_buffer (move_construct a b st) a = cs_buffer st b"
    "cs_buffer (move_construct a b st) b = moved_from (cs_buffer st b)"
    using assms by (simp_all add: move_construct_def upd_buffer_def)
  have "upd_buffer b (\<lambda>_. empty_buffer) (upd_buffer a (\<lambda>_. empty_buffer) (destroy_value (cs_buffer st b) (move_construct a b st)))
      = upd_buffer a (\<lambda>_. empty_buffer) (destroy_buffer b st)"
    using assms by (simp add: move_construct_def destroy_buffer_def upd_buffer_swap [of a b])
  moreover have "upd_buffer a (\<lambda>_. empty_buffer) (upd_buffer b (\<lambda>_. empty_buffer) x) =
      upd_buffer b (\<lambda>_. empty_buffer) (upd_buffer a (\<lambda>_. empty_buffer) x)" for x
    using assms by (simp add: upd_buffer_def fun_upd_twist)
  moreover have "cs_buffer (destroy_buffer a x) b = cs_buffer x b" and "cs_buffer (destroy_buffer b x) a = cs_buffer x a" for x
    using assms by (simp_all add: destroy_buffer_def upd_buffer_def)
  ultimately show "destroy_buffer b (destroy_buffer a (move_construct a b st)) =
      upd_buffer a (\<lambda>_. empty_buffer) (destroy_buffer b st)"
    and "destroy_buffer a (destroy_buffer b (move_construct a b st)) =
      upd_buffer a (\<lambda>_. empty_buffer) (destroy_buffer b st)"
    by (simp_all add: destroy_buffer_def s destroy_moved_from)
qed

text \<open>
  \<open>buffer = CudaBuffer(...)\<close>, written with the swap and a temporary at \<open>t\<close> that ends after it, is \<open>assign_buffer\<close>.
\<close>

lemma assign_is_swap:
  assumes "t \<noteq> b"
  shows "destroy_buffer t (move_assign b t (upd_buffer t (\<lambda>_. new) st)) =
    upd_buffer t (\<lambda>_. empty_buffer) (assign_buffer b new st)"
proof -
  have "cs_buffer (move_assign b t (upd_buffer t (\<lambda>_. new) st)) t = cs_buffer st b"
    using assms by (simp add: move_assign_def upd_buffer_def)
  then show ?thesis
    using assms by (simp add: destroy_buffer_def move_assign_def assign_buffer_def upd_buffer_swap [of b t])
qed

section \<open>\<open>CachedImport\<close>\<close>

definition empty_import :: cached_import where
  "empty_import = \<lparr>ci_handle = 0, ci_va = 0, ci_size = 0, ci_ipc_meta = None\<rparr>"

definition move_import :: "cached_import \<Rightarrow> cached_import \<times> cached_import" where
  "move_import other =
     (\<lparr>ci_handle = ci_handle other, ci_va = ci_va other, ci_size = ci_size other, ci_ipc_meta = ci_ipc_meta other\<rparr>,
      other\<lparr>ci_handle := 0, ci_va := 0, ci_size := 0, ci_ipc_meta := None\<rparr>)"

text \<open>The objects lie at addresses, so that an assignment to itself can be seen.\<close>

definition assign_import ::
  "nat \<Rightarrow> nat \<Rightarrow> (nat \<Rightarrow> cached_import) \<Rightarrow> (nat \<Rightarrow> cached_import) \<times> call list" where
  "assign_import a b imports =
     (if a = b then (imports, [])
      else (imports(a := fst (move_import (imports b)), b := snd (move_import (imports b))),
            (case ci_ipc_meta (imports a) of None \<Rightarrow> [] | Some s \<Rightarrow> [Munmap s])
              @ (if ci_va (imports a) \<noteq> 0 then [CuMemUnmap (ci_va (imports a)), CuMemAddressFree (ci_va (imports a))] else [])
              @ (if ci_handle (imports a) \<noteq> 0 then [CuMemRelease (ci_handle (imports a))] else [])))"

text \<open>What an import in any state holds; one in the cache holds all of it.\<close>

definition import_res :: "cached_import \<Rightarrow> resource multiset" where
  "import_res c =
     meta_res (ci_ipc_meta c)
       + (if ci_va c \<noteq> 0 then {#VaRange (ci_va c), VaMapping (ci_va c)#} else {#})
       + (if ci_handle c \<noteq> 0 then {#Allocation (ci_handle c)#} else {#})"

lemma import_res_cached: "ci_va c \<noteq> 0 \<Longrightarrow> ci_handle c \<noteq> 0 \<Longrightarrow> import_res c = cached_res c"
  by (simp add: import_res_def cached_res_def)

lemma destroy_import_ledger: "ledger (destroy_import c) (import_res c + R) = Some R"
  by (cases "ci_ipc_meta c") (simp_all add: destroy_import_def import_res_def)

lemma move_import_simps [simp]: "fst (move_import c) = c" "snd (move_import c) = empty_import" "import_res empty_import = {#}"
  by (simp_all add: move_import_def empty_import_def import_res_def)

text \<open>
  An assignment gives up exactly what the target held before it, and what the source held is then held by the target
  and by no other object, also when an object is assigned to itself.
\<close>

theorem assign_import_balanced:
  assumes "finite A" and "a \<in> A" and "b \<in> A"
  shows "ledger (snd (assign_import a b imports)) (\<Sum>x\<in>A. import_res (imports x)) =
    Some (\<Sum>x\<in>A. import_res (fst (assign_import a b imports) x))"
proof (cases "a = b")
  case True
  then show ?thesis by (simp add: assign_import_def)
next
  case False
  have split: "(\<Sum>x\<in>A. f x) = f a + (f b + (\<Sum>x\<in>A - {a} - {b}. f x))" for f :: "nat \<Rightarrow> resource multiset"
    using assms False by (simp add: sum.remove [of A a] sum.remove [of "A - {a}" b])
  have calls: "snd (assign_import a b imports) = destroy_import (imports a)"
    and result: "fst (assign_import a b imports) = imports(a := imports b, b := empty_import)"
    using False by (simp_all add: assign_import_def destroy_import_def)
  have "(\<Sum>x\<in>A - {a} - {b}. import_res ((imports(a := imports b, b := empty_import)) x)) =
      (\<Sum>x\<in>A - {a} - {b}. import_res (imports x))"
    by (rule sum.cong) auto
  with False show ?thesis
    unfolding calls result split [of "\<lambda>x. import_res (imports x)"]
      split [of "\<lambda>x. import_res ((imports(a := imports b, b := empty_import)) x)"]
    by (simp add: destroy_import_ledger)
qed

end
