(* ===== verification/Write_Order.thy ===== *)
theory Write_Order
  imports Cuda_Buffer
begin

text \<open>
  The life of a buffer's write as an abstract machine. \<open>HandleState::State\<close> is ordered as its enumeration is, and every
  operation on a buffer leaves the state where it is or takes the one step that the machine allows.
\<close>

section \<open>The order of the states\<close>

fun write_rank :: "write_state \<Rightarrow> nat" where
  "write_rank Unset = 0"
| "write_rank InUse = 1"
| "write_rank Finalized = 2"

instantiation write_state :: linorder
begin

definition less_eq_write_state :: "write_state \<Rightarrow> write_state \<Rightarrow> bool" where
  "less_eq_write_state a b \<longleftrightarrow> write_rank a \<le> write_rank b"

definition less_write_state :: "write_state \<Rightarrow> write_state \<Rightarrow> bool" where
  "less_write_state a b \<longleftrightarrow> write_rank a < write_rank b"

instance
proof
  fix a b c :: write_state
  show "a < b \<longleftrightarrow> a \<le> b \<and> \<not> b \<le> a" and "a \<le> a" and "a \<le> b \<Longrightarrow> b \<le> c \<Longrightarrow> a \<le> c" and "a \<le> b \<or> b \<le> a"
    by (auto simp: less_eq_write_state_def less_write_state_def)
  show "a \<le> b \<Longrightarrow> b \<le> a \<Longrightarrow> a = b"
    by (cases a; cases b) (simp_all add: less_eq_write_state_def)
qed

end

lemma write_state_le_simps [simp]:
  "Unset \<le> s" "s \<le> Finalized" "InUse \<le> s \<longleftrightarrow> s \<noteq> Unset" "s \<le> Unset \<longleftrightarrow> s = Unset" "Finalized \<le> s \<longleftrightarrow> s = Finalized"
  by (cases s; simp add: less_eq_write_state_def)+

section \<open>The machine\<close>

inductive write_machine :: "write_state \<Rightarrow> write_state \<Rightarrow> bool" where
  grant: "write_machine Unset InUse"
| finish: "write_machine InUse Finalized"

inductive_simps write_machine_simps [simp]: "write_machine s s'"

text \<open>
  Every operation on the living buffer is a step of the machine or none, and the step \<open>grant\<close> is exactly the grant of a
  write handle.
\<close>

lemma step_refines_machine:
  assumes "buffer_step ok w w'" and "protocol_inv w" and "bw_alive w'"
  shows "(phase (bw_state w') = phase (bw_state w) \<or> write_machine (phase (bw_state w)) (phase (bw_state w'))) \<and>
    (bw_granted w' = Suc (bw_granted w) \<longleftrightarrow> phase (bw_state w) = Unset \<and> phase (bw_state w') = InUse) \<and>
    (bw_granted w' = bw_granted w \<or> bw_granted w' = Suc (bw_granted w))"
  using assms
proof cases
  case (get_read e s r st)
  then show ?thesis using get_read_handle_phase(1) [OF get_read(4)] by (cases "phase (bw_state w)") simp_all
next
  case (get_write e s r st)
  then show ?thesis
    using get_write_handle_phase [OF get_write(4)] by (cases r; cases "phase (bw_state w)") auto
next
  case (end_read h e lst)
  have "rh_promoted h = None" using assms(2) end_read(2) by (auto simp: protocol_inv_def)
  then show ?thesis using end_read by (simp add: destroy_read_handle_def drop_promoted_def read_release_phase)
next
  case (end_write h e lst)
  have h: "bw_writers w = [h]" using assms(2) end_write(2) by (auto simp: protocol_inv_def intro: length_le_one_cases)
  have "wh_promoted h = None" "wh_state h = cb_handle_state (cs_buffer (bw_state w) 0)"
    "phase (bw_state w) \<noteq> Unset"
    using assms(2,3) end_write h by (auto simp: protocol_inv_def)
  then show ?thesis
    using end_write write_release_phase [of h "bw_state w" e]
    by (cases "phase (bw_state w)") (simp_all add: destroy_write_handle_def drop_promoted_def)
next
  case (finalize e)
  then show ?thesis by (simp add: finalize_phase)
qed simp_all

lemma step_alive: "buffer_step ok w w' \<Longrightarrow> bw_alive w' \<Longrightarrow> bw_alive w"
  by (induction rule: buffer_step.induct) simp_all

text \<open>
  So the state only advances, and after \<open>Finalized\<close> nothing is granted any more, whatever else is done to the buffer.
\<close>

theorem write_state_advances:
  assumes "(buffer_step ok)\<^sup>*\<^sup>* w w'" and "buffer_reachable ok w" and "bw_alive w'"
  shows "phase (bw_state w) \<le> phase (bw_state w') \<and>
    (phase (bw_state w) \<noteq> Unset \<longrightarrow> bw_granted w' = bw_granted w)"
  using assms
proof (induction rule: rtranclp_induct)
  case base
  show ?case by simp
next
  case (step v u)
  have v: "bw_alive v" using step_alive [OF step.hyps(2) step.prems(2)] .
  have "buffer_reachable ok v" using step.hyps(1) assms(2) by induction (auto intro: buffer_reachable.step)
  note m = step_refines_machine [OF step.hyps(2) reachable_protocol [OF this] step.prems(2)]
  have "phase (bw_state v) \<le> phase (bw_state u)" using m by auto
  with step.IH [OF step.prems(1) v] have "phase (bw_state w) \<le> phase (bw_state u)" by (auto intro: order_trans)
  moreover have "phase (bw_state w) \<noteq> Unset \<longrightarrow> bw_granted u = bw_granted w"
  proof
    assume n: "phase (bw_state w) \<noteq> Unset"
    with step.IH [OF step.prems(1) v] have "phase (bw_state v) \<noteq> Unset" and "bw_granted v = bw_granted w" by auto
    then show "bw_granted u = bw_granted w" using m by auto
  qed
  ultimately show ?case ..
qed

end
