(* ===== verification/Spec2Isabelle.thy ===== *)
theory Spec2Isabelle
  imports Cuda_Backend Qc_Tutorial Block_Protocol Cuda_Conversion Python_Programs Python_Contexts Torch_Bridge Recycler
    Tensor_Nodes Cuda_Error Moved_Values Write_Order
begin

text \<open>
  A model of the C++ code of \<open>rosidl_buffer_backends\<close>: buffers of ROS 2 messages whose storage lies in the memory
  of an accelerator and goes from a publisher to the subscribers of the same host without a copy.

  The program.
  A CUDA publisher allocates its buffers from a process-wide \<open>CudaMemoryPool\<close>. Every block of the pool is an
  allocation that other processes can map; the pool shares with them a segment of metadata, in which a count says how
  many imports are alive and a uid which use of the block a descriptor belongs to. \<open>CudaVmmIPCManager\<close> hands the file
  descriptors of blocks to subscribers, through sockets that one \<open>FDDispatcher\<close> thread serves, and imports the
  blocks of others. A \<open>CudaBuffer\<close> owns a block (or an import of one) and orders the work of CUDA streams on it with
  events: at most one \<open>WriteHandle\<close>, any number of \<open>ReadHandle\<close>s, and a recycler thread that gives the storage back
  when the events are complete. \<open>CudaBufferImpl\<close> and \<open>cuda_buffer_api.hpp\<close> are what the rest uses. The plugin
  \<open>CudaBufferBackend\<close> turns a buffer into a descriptor message and back; which subscribers can import is known from
  \<open>HostEndpointManager\<close>, a table in shared memory. The Qualcomm backend does the same for dma-bufs of
  \<open>libcdsprpc.so\<close> with an \<open>FdBroker\<close> per publisher. Over the buffers, \<open>torch_conversions\<close> makes Torch tensors of
  tensor messages, with one plugin for each kind of storage, and two modules bind CUDA buffers and DLPack
  capsules to Python. Example nodes publish and receive tensors through \<open>torch_conversions\<close> and images
  through the Qualcomm backend.

  Theories and sources (under \<open>src/\<close>; \<open>CB\<close> is \<open>cuda_buffer_backend\<close>, \<open>QC\<close> is \<open>qc_buffer_backend\<close>, \<open>TC\<close> is
  \<open>torch_conversions\<close>).
  \<open>Prelude\<close>: machine words, guards against overflow, printing of numbers, lists that are popped by swapping.
  \<open>Externals\<close>: result codes, exceptions, and the calls that acquire and give back resources, with the \<open>ledger\<close> that
  replays them.
  \<open>Vmm_Block\<close>: \<open>IPCMetadata\<close> and \<open>VmmBlock\<close> (\<open>CB/cuda_buffer/include/cuda_buffer/cuda_memory_pool.hpp\<close>).
  \<open>Free_Buckets\<close>, \<open>Memory_Pool\<close>, \<open>Pool_Lifecycle\<close>: \<open>CB/cuda_buffer/src/cuda_memory_pool.cpp\<close>.
  \<open>Fd_Dispatcher\<close>, \<open>Ipc_Manager\<close>: \<open>CB/cuda_buffer/src/cuda_buffer_ipc_manager.cpp\<close>.
  \<open>Block_Protocol\<close>: the pool and the import caches of several processes over the metadata they share.
  \<open>Endpoint_Registry\<close>: \<open>CB/cuda_buffer/src/host_endpoint_manager.cpp\<close>.
  \<open>Cuda_Buffer\<close>, \<open>Recycler\<close>, \<open>Write_Order\<close>: \<open>cuda_buffer.cpp\<close>, \<open>cuda_buffer.hpp\<close>, \<open>cuda_buffer_handle.hpp\<close> of \<open>CB/cuda_buffer\<close>.
  \<open>Cuda_Error\<close>: \<open>cuda_error.hpp\<close>, and \<open>Moved_Values\<close>: the move constructors and assignments of \<open>cuda_buffer.hpp\<close> and
  \<open>cuda_buffer_ipc_manager.cpp\<close>, of \<open>CB/cuda_buffer\<close>.
  \<open>Cuda_Buffer_Impl\<close>: \<open>cuda_buffer_impl.hpp\<close>, \<open>cuda_buffer_impl.cpp\<close>, \<open>cuda_buffer_api.hpp\<close> of \<open>CB/cuda_buffer\<close>.
  \<open>Cuda_Backend\<close>: \<open>CB/cuda_buffer_backend/src/cuda_buffer_backend_plugin.cpp\<close>.
  \<open>Scoped_Handles\<close>: the use of handles that the next two share. \<open>Cuda_Conversion\<close>:
  \<open>TC/torch_conversions_cuda/src/cuda_conversion_plugin.cpp\<close>. \<open>Cuda_Python\<close>, \<open>Python_Programs\<close> and \<open>Python_Contexts\<close>:
  \<open>CB/cuda_buffer_py/src/cuda_buffer_py.cpp\<close>.
  \<open>Qc_Broker\<close>: \<open>QC/qc_buffer/src/fd_broker.cpp\<close>. \<open>Qc_Buffer\<close>: \<open>rpcmem_loader.cpp\<close>, \<open>qc_buffer.cpp\<close> and the headers
  of \<open>QC/qc_buffer\<close>. \<open>Qc_Backend\<close>: \<open>QC/qc_buffer_backend/src/qc_buffer_backend_plugin.cpp\<close>. \<open>Qc_Tutorial\<close>:
  \<open>qc_image_publisher.cpp\<close> and \<open>qc_image_subscriber.cpp\<close> of \<open>QC/tutorial/qc_buffer_tutorial/src\<close>.
  \<open>Tensor_View\<close>, \<open>Tensor_Conversions\<close>: \<open>TC/torch_conversions/src/torch_conversions.cpp\<close> and
  \<open>TC/torch_conversions_cpu/src/cpu_conversion_plugin.cpp\<close>; \<open>Tensor_Typing\<close> has what types the messages have.
  \<open>Tensor_Nodes\<close>: \<open>torch_tensor_publisher_node.cpp\<close> and \<open>torch_tensor_subscriber_node.cpp\<close> of
  \<open>TC/torch_conversions/examples\<close>. \<open>Torch_Bridge\<close>: \<open>TC/torch_conversions_py/src/torch_bridge.cpp\<close>.
\<close>

text \<open>
  How the code is modelled.
  A class is a record and a method a function that returns the result, the new state and, where the code owns resources, the
  calls it made. An exception is the left side of a sum, and every early return is a branch. A \<open>size_t\<close>, \<open>uint64_t\<close> or
  \<open>uintptr_t\<close> is a \<open>64 word\<close>, whose arithmetic wraps as in C++; an \<open>int64_t\<close> is one that is read with \<open>sint\<close>. An object with
  identity (a buffer, a handle's shared state, a pool block, a segment) is an address in a store. A destructor is an
  operation of its own, and is called where a scope of the code ends, also on the way of an exception.
  What the CUDA driver and runtime, the kernel and the C library answer are parameters (the records named \<open>..._env\<close>);
  a theorem holds for all their answers or names the documented ones it needs. The order that CUDA promises between
  streams and events is \<open>gpu_step\<close> of \<open>Cuda_Buffer\<close>: a view of the trace that says which work is known to be done.
  Threads are step relations in which the operations, each atomic under the lock it takes, come in any order.

  What the lemmas show.
  Of the pool: an allocation is exclusive, fails without a trace, and over the pool's life every resource is
  given back once. Of imports: a failed one restores everything, a successful one holds one reference and is never of
  a stale uid. \<open>Block_Protocol\<close>: in every interleaving a block that is handed out again has no reader, counts are
  the numbers of readers, and an import in the grace period is protected; what goes wrong after it is stated as well.
  Of buffers: one write, whose state only advances along a machine of three states, reads that follow the write, storage that is deleted only after the work on it, events destroyed
  once, a recycler that ends with an empty queue. Of processes: no two buffers, messages or pending
  deletions own the same block, and none is lost: a mapped block that is handed out is owned by one of them, so that an idle
  recycler has given back every block but those of the buffers that are in use. Of the plugin: a published buffer comes back as the same storage, and every
  refusal is the host path or an empty buffer. Of the endpoint table: it refines a table of live endpoints. Of the
  broker: it refines a window of the last 64 registrations, serves only what was registered, and can shut down. Of the
  Qualcomm buffers: memory is released once, and reads stay in it when the sizes fit. Of tensors: a view that is accepted
  lies in its storage, the checks are exact, copies come back as they were, for the CPU, for CUDA and through a
  capsule; on the CPU every message that the conversions make has a type, and can be read. Of the example nodes: what
  is published is what is received, in order and with its number. Of Python: references and handles end in the right order, in every program; a
  \<open>with\<close> block closes its wrapper whatever its body does; and a program holds the storage of the buffers it refers to and no
  other. Of moves: what is moved is owned once.

  Interfaces. The free list is used through the locale \<open>bucket_map\<close>, the broker's table through
  \<open>bounded_window\<close>, a conversion plugin's storage through \<open>storage_plugin\<close> and handles through
  \<open>scoped_handle\<close>; each is interpreted on the model's own operations.

  Bounds. No definition has fuel. The pool's destructor polls for ever if a block never becomes ready:
  \<open>wait_all_ready\<close> is a \<open>partial_function\<close> whose value \<open>None\<close> is that it does not return. All other loops are
  structural, or shorten a queue (\<open>drain_recycler\<close>). The vectors and strings of the model have no bound of their own; where
  a length is converted to a machine word, the theorem says that it fits.

  Not modelled. Log messages (but those that the subscribers of the examples are there for), the loading of plugins and libraries by name (what they give is a parameter), the
  registration of classes and functions with pybind11 and pluginlib, and the type support of messages. Accesses to memory
  inside one atomic step are not interleaved, so that the memory order of the atomics of \<open>IPCMetadata\<close> is not visible.
  The kernels that Torch runs are pieces of work with a number, and \<open>c10\<close>'s guards are what they select. A Python integer
  that does not fit a pointer is refused by pybind11 before the modelled code. The Python sources, the launch files and the tests of
  the repository are not translated, only the C++ code. Of the example nodes, the parameters of ROS, the executor and the
  transport are those of ROS; the transport of an image is any that hands over the descriptor (\<open>carried\<close>).
\<close>

section \<open>Python programs and the pool\<close>

text \<open>
  C10. Python gives storage back: in every state of every Python program, when the recycler's queue has been worked off, the mapped
  blocks of the pool that are handed out are the blocks of the buffers that Python objects refer to, and no other. A
  program that has dropped its last reference holds no block.
\<close>

theorem python_returns_storage:
  assumes "py_reachable w"
  shows "mapped_out (cs_pool (drain_recycler es (cuda_of (yw_state w)))) =
    {i. \<exists>b. b \<in># references w \<and> cb_ptr (cs_buffer (cuda_of (yw_state w)) b) \<noteq> 0 \<and>
       cb_deleter (cs_buffer (cuda_of (yw_state w)) b) = Pool_Free i}"
proof -
  obtain P where i: "py_inv P (references w) (yw_state w)" using py_reachable_facts [OF assms] by blast
  have "process_inv (py_process (yw_state w))" and r: "b \<in># references w \<Longrightarrow> b < pr_next (py_process (yw_state w))"
    and e: "b \<notin># references w \<Longrightarrow> cb_ptr (cs_buffer (cuda_of (yw_state w)) b) = 0" for b
    using i by (simp_all add: py_inv_def empty_buffer_def)
  from drained_blocks [OF this(1), of es] show ?thesis using r e by blast
qed

theorem python_returns_storage_witness:
  "\<exists>w. py_reachable w \<and> references w = {#0#} \<and>
     mapped_out (cs_pool (drain_recycler (\<lambda>_. sample_env) (cuda_of (yw_state w)))) = {0}"
proof -
  obtain w y where w: "py_reachable w" "yw_writes w = [y]" "yw_reads w = []" "yw_users w = []" "ww_owner y = Some (Py_Cuda 0)"
    "\<exists>wh. ww_handle y = Some wh \<and> wh_ptr wh \<noteq> 0" "cb_deleter (cs_buffer (cuda_of (yw_state w)) 0) = Pool_Free 0"
    using sample_program by blast
  have r: "references w = {#0#}" by (simp add: references_def w)
  obtain P where i: "py_inv P (references w) (yw_state w)"
    "\<forall>y \<in> set (yw_writes w). wraps_write P y \<and> owner_ref (ww_owner y) \<subseteq># references w"
    using py_reachable_facts [OF w(1)] by blast
  then have "cb_ptr (cs_buffer (cuda_of (yw_state w)) 0) \<noteq> 0"
    using wraps_write_facts(2) [OF _ i(1)] w(2,5,6) by fastforce
  with python_returns_storage [OF w(1), of "\<lambda>_. sample_env"] r w(7)
  have "mapped_out (cs_pool (drain_recycler (\<lambda>_. sample_env) (cuda_of (yw_state w)))) = {0}" by auto
  with w(1) r show ?thesis by blast
qed

end
